(* ===== verification/Prelude.thy ===== *)
theory Prelude
  imports Complex_Main "HOL-Library.AList" "HOL-Library.Product_Lexorder"
    "HOL-Library.Char_ord" "HOL-Library.List_Lexorder"
begin

text \<open>
  The vocabulary every component shares: identifiers, JSON values and dictionaries, Python's
  string operations on the code points 0 to 255, and the state-and-exception actions in which
  the services are written.

  An action takes the state and returns an error or a value together with the state it leaves
  behind: an exception does not undo what was done before it, unless the code runs inside a
  database transaction, which is the combinator \<open>atomic\<close>. Inversion rules for every combinator
  are collected in \<open>act_iff\<close>; what holds between the state before and after an action, for any
  reflexive and transitive relation, is derived once in the locale \<open>step_order\<close>.
\<close>

section \<open>Identifiers and JSON values\<close>

text \<open>A UUID is its 128-bit integer (\<open>UUID.int\<close>), which also orders it in Python and
  PostgreSQL; a timestamp is a count of microseconds.\<close>

type_synonym uuid = nat
type_synonym timestamp = int

datatype json =
    JNull
  | JBool bool
  | JInt int
  | JFloat rat
  | JStr string
  | JList "json list"
  | JObj "(string \<times> json) list"

type_synonym dict = "(string \<times> json) list"

definition dget :: "dict \<Rightarrow> string \<Rightarrow> json option" where
  "dget d k = map_of d k"

definition dset :: "string \<Rightarrow> json \<Rightarrow> dict \<Rightarrow> dict" where
  "dset k v d = AList.update k v d"

lemma dget_dset [simp]: "dget (dset k v d) k' = (if k' = k then Some v else dget d k')"
  by (simp add: dget_def dset_def update_conv')

lemma dget_Nil [simp]: "dget [] k = None"
  by (simp add: dget_def)

section \<open>Searching a list by key\<close>

lemma find_distinct_key:
  "distinct (map k xs) \<Longrightarrow> find (\<lambda>x. k x = i) xs = Some x \<longleftrightarrow> x \<in> set xs \<and> k x = i"
  by (induction xs) (auto simp: image_iff)

lemma find_Some_set: "find P xs = Some x \<Longrightarrow> x \<in> set xs \<and> P x"
  by (induction xs) (auto split: if_splits)

lemma find_append: "find P (xs @ ys) = (case find P xs of None \<Rightarrow> find P ys | Some x \<Rightarrow> Some x)"
  by (induction xs) auto

section \<open>Collections of facts\<close>

named_theorems act_defs "definitions of the action combinators"
named_theorems act_iff "inversion of actions that succeed"

section \<open>Results that may fail\<close>

definition sbind :: "'e + 'a \<Rightarrow> ('a \<Rightarrow> 'e + 'b) \<Rightarrow> 'e + 'b" where
  "sbind r f = (case r of Inl e \<Rightarrow> Inl e | Inr x \<Rightarrow> f x)"

definition check :: "bool \<Rightarrow> 'e \<Rightarrow> 'e + unit" where
  "check b e = (if b then Inl e else Inr ())"

fun smap :: "('a \<Rightarrow> 'e + 'b) \<Rightarrow> 'a list \<Rightarrow> 'e + 'b list" where
  "smap f [] = Inr []"
| "smap f (x # xs) = sbind (f x) (\<lambda>y. sbind (smap f xs) (\<lambda>ys. Inr (y # ys)))"

lemma sbind_Inr [simp]: "sbind r f = Inr y \<longleftrightarrow> (\<exists>x. r = Inr x \<and> f x = Inr y)"
  by (cases r) (simp_all add: sbind_def)

lemma check_Inr [simp]: "check b e = Inr x \<longleftrightarrow> \<not> b"
  by (simp add: check_def)

lemma smap_Inr: "smap f xs = Inr ys \<longleftrightarrow> list_all2 (\<lambda>x y. f x = Inr y) xs ys"
proof (induction xs arbitrary: ys)
  case Nil
  then show ?case by auto
next
  case (Cons x xs)
  then show ?case by (auto simp: list_all2_Cons1)
qed

lemma smap_total: "(\<And>x. x \<in> set xs \<Longrightarrow> \<exists>y. f x = Inr y) \<Longrightarrow> \<exists>ys. smap f xs = Inr ys"
  by (induction xs) auto

lemma smap_member: "smap f xs = Inr ys \<Longrightarrow> y \<in> set ys \<Longrightarrow> \<exists>x \<in> set xs. f x = Inr y"
  by (induction xs arbitrary: ys) auto

section \<open>Actions: state, exceptions, transactions\<close>

type_synonym ('s, 'e, 'a) act = "'s \<Rightarrow> ('e + 'a) \<times> 's"

definition ret :: "'a \<Rightarrow> ('s, 'e, 'a) act" where
  "ret x = (\<lambda>s. (Inr x, s))"

definition raise :: "'e \<Rightarrow> ('s, 'e, 'a) act" where
  "raise e = (\<lambda>s. (Inl e, s))"

definition bnd :: "('s, 'e, 'a) act \<Rightarrow> ('a \<Rightarrow> ('s, 'e, 'b) act) \<Rightarrow> ('s, 'e, 'b) act" where
  "bnd m f = (\<lambda>s. case m s of (Inl e, t) \<Rightarrow> (Inl e, t) | (Inr x, t) \<Rightarrow> f x t)"

definition sqn :: "('s, 'e, 'a) act \<Rightarrow> ('s, 'e, 'b) act \<Rightarrow> ('s, 'e, 'b) act" where
  "sqn m n = bnd m (\<lambda>_. n)"

definition gets :: "('s \<Rightarrow> 'a) \<Rightarrow> ('s, 'e, 'a) act" where
  "gets f = (\<lambda>s. (Inr (f s), s))"

definition modify :: "('s \<Rightarrow> 's) \<Rightarrow> ('s, 'e, unit) act" where
  "modify f = (\<lambda>s. (Inr (), f s))"

text \<open>\<open>if b: raise e\<close>\<close>

definition raise_if :: "bool \<Rightarrow> 'e \<Rightarrow> ('s, 'e, unit) act" where
  "raise_if b e = (if b then raise e else ret ())"

text \<open>A value computed without touching the state.\<close>

definition lift :: "'e + 'a \<Rightarrow> ('s, 'e, 'a) act" where
  "lift r = (\<lambda>s. (r, s))"

definition catch :: "('s, 'e, 'a) act \<Rightarrow> ('e \<Rightarrow> ('s, 'e, 'a) act) \<Rightarrow> ('s, 'e, 'a) act" where
  "catch m h = (\<lambda>s. case m s of (Inl e, t) \<Rightarrow> h e t | (Inr x, t) \<Rightarrow> (Inr x, t))"

text \<open>A transaction or savepoint: on an exception the state is the one \<open>back\<close> makes of the
  state at entry and the state reached.\<close>

definition atomic :: "('s \<Rightarrow> 's \<Rightarrow> 's) \<Rightarrow> ('s, 'e, 'a) act \<Rightarrow> ('s, 'e, 'a) act" where
  "atomic back m = (\<lambda>s. case m s of (Inl e, t) \<Rightarrow> (Inl e, back s t) | (Inr x, t) \<Rightarrow> (Inr x, t))"

fun mapM :: "('a \<Rightarrow> ('s, 'e, 'b) act) \<Rightarrow> 'a list \<Rightarrow> ('s, 'e, 'b list) act" where
  "mapM f [] = ret []"
| "mapM f (x # xs) = bnd (f x) (\<lambda>y. bnd (mapM f xs) (\<lambda>ys. ret (y # ys)))"

fun iterM :: "('a \<Rightarrow> ('s, 'e, 'b) act) \<Rightarrow> 'a list \<Rightarrow> ('s, 'e, unit) act" where
  "iterM f [] = ret ()"
| "iterM f (x # xs) = sqn (f x) (iterM f xs)"

fun foldM :: "('a \<Rightarrow> 'b \<Rightarrow> ('s, 'e, 'b) act) \<Rightarrow> 'a list \<Rightarrow> 'b \<Rightarrow> ('s, 'e, 'b) act" where
  "foldM f [] a = ret a"
| "foldM f (x # xs) a = bnd (f x a) (foldM f xs)"

declare ret_def [act_defs] raise_def [act_defs] bnd_def [act_defs] sqn_def [act_defs]
  gets_def [act_defs] modify_def [act_defs] raise_if_def [act_defs] lift_def [act_defs]
  catch_def [act_defs] atomic_def [act_defs]

lemma ret_iff [act_iff]: "ret x s = (r, t) \<longleftrightarrow> r = Inr x \<and> t = s"
  by (auto simp: ret_def)

lemma raise_iff [act_iff]: "raise e s = (r, t) \<longleftrightarrow> r = Inl e \<and> t = s"
  by (auto simp: raise_def)

lemma gets_iff [act_iff]: "gets f s = (r, t) \<longleftrightarrow> r = Inr (f s) \<and> t = s"
  by (auto simp: gets_def)

lemma modify_iff [act_iff]: "modify f s = (r, t) \<longleftrightarrow> r = Inr () \<and> t = f s"
  by (auto simp: modify_def)

lemma lift_iff [act_iff]: "lift q s = (r, t) \<longleftrightarrow> r = q \<and> t = s"
  by (auto simp: lift_def)

lemma bnd_Inr_iff [act_iff]:
  "bnd m f s = (Inr y, t) \<longleftrightarrow> (\<exists>x u. m s = (Inr x, u) \<and> f x u = (Inr y, t))"
  by (auto simp: bnd_def split: prod.splits sum.splits)

lemma bnd_Inl_iff:
  "bnd m f s = (Inl e, t) \<longleftrightarrow>
     m s = (Inl e, t) \<or> (\<exists>x u. m s = (Inr x, u) \<and> f x u = (Inl e, t))"
  by (auto simp: bnd_def split: prod.splits sum.splits)

lemma sqn_Inr_iff [act_iff]:
  "sqn m n s = (Inr y, t) \<longleftrightarrow> (\<exists>x u. m s = (Inr x, u) \<and> n u = (Inr y, t))"
  by (auto simp: sqn_def bnd_Inr_iff)

lemma sqn_Inl_iff:
  "sqn m n s = (Inl e, t) \<longleftrightarrow>
     m s = (Inl e, t) \<or> (\<exists>x u. m s = (Inr x, u) \<and> n u = (Inl e, t))"
  by (auto simp: sqn_def bnd_Inl_iff)

lemma raise_if_Inr_iff [act_iff]: "raise_if b e s = (Inr y, t) \<longleftrightarrow> \<not> b \<and> t = s"
  by (auto simp: raise_if_def ret_def raise_def)

lemma raise_if_Inl_iff: "raise_if b e s = (Inl e', t) \<longleftrightarrow> b \<and> e' = e \<and> t = s"
  by (auto simp: raise_if_def ret_def raise_def)

lemma atomic_Inr_iff [act_iff]: "atomic k m s = (Inr y, t) \<longleftrightarrow> m s = (Inr y, t)"
  by (auto simp: atomic_def split: prod.splits sum.splits)

lemma atomic_Inl_iff:
  "atomic k m s = (Inl e, t) \<longleftrightarrow> (\<exists>u. m s = (Inl e, u) \<and> t = k s u)"
  by (auto simp: atomic_def split: prod.splits sum.splits)

lemma catch_Inr_iff:
  "catch m h s = (Inr y, t) \<longleftrightarrow>
     m s = (Inr y, t) \<or> (\<exists>e u. m s = (Inl e, u) \<and> h e u = (Inr y, t))"
  by (auto simp: catch_def split: prod.splits sum.splits)

lemma if_act_iff [act_iff]:
  "(if b then m else n) s = (r, t) \<longleftrightarrow> (if b then m s = (r, t) else n s = (r, t))"
  by simp

lemma case_option_act_iff [act_iff]:
  "(case v of None \<Rightarrow> m | Some x \<Rightarrow> f x) s = (r, t) \<longleftrightarrow>
     (v = None \<and> m s = (r, t)) \<or> (\<exists>x. v = Some x \<and> f x s = (r, t))"
  by (cases v) simp_all

lemma case_list_act_iff [act_iff]:
  "(case v of [] \<Rightarrow> m | x # xs \<Rightarrow> f x xs) s = (r, t) \<longleftrightarrow>
     (v = [] \<and> m s = (r, t)) \<or> (\<exists>x xs. v = x # xs \<and> f x xs s = (r, t))"
  by (cases v) simp_all

lemma case_sum_act_iff [act_iff]:
  "(case v of Inl e \<Rightarrow> g e | Inr x \<Rightarrow> f x) s = (r, t) \<longleftrightarrow>
     (\<exists>e. v = Inl e \<and> g e s = (r, t)) \<or> (\<exists>x. v = Inr x \<and> f x s = (r, t))"
  by (cases v) simp_all

lemma case_prod_act_iff [act_iff]:
  "(case v of (x, y) \<Rightarrow> f x y) s = (r, t) \<longleftrightarrow> f (fst v) (snd v) s = (r, t)"
  by (cases v) simp_all

lemmas act_Inl_iff = bnd_Inl_iff sqn_Inl_iff raise_if_Inl_iff atomic_Inl_iff

text \<open>Simplification of actions that run on a given state, for evaluation.\<close>

lemma bnd_eval:
  "m s = (Inr x, t) \<Longrightarrow> bnd m f s = f x t"
  "m s = (Inl e, t) \<Longrightarrow> bnd m f s = (Inl e, t)"
  by (simp_all add: bnd_def)

lemma mapM_Inr_length: "mapM f xs s = (Inr ys, t) \<Longrightarrow> length ys = length xs"
  by (induction xs arbitrary: s ys) (auto simp: act_iff)

section \<open>Tables that only grow\<close>

text \<open>\<open>grown P xs ys\<close>: every row of \<open>xs\<close> is still in \<open>ys\<close>, at its place and changed at most as \<open>P\<close> allows; new
  rows follow.\<close>

definition grown :: "('a \<Rightarrow> 'a \<Rightarrow> bool) \<Rightarrow> 'a list \<Rightarrow> 'a list \<Rightarrow> bool" where
  "grown P xs ys \<longleftrightarrow> list_all2 P xs (take (length xs) ys)"

lemma grown_append: "(\<And>x. P x x) \<Longrightarrow> grown P xs (xs @ ys)"
  by (simp add: grown_def list_all2_refl)

lemma grown_map: "(\<And>x. x \<in> set xs \<Longrightarrow> P x (f x)) \<Longrightarrow> grown P xs (map f xs)"
  by (simp add: grown_def list_all2_conv_all_nth)

lemma grown_trans:
  assumes "grown P xs ys" "grown P ys zs" and tr: "\<And>x y z. P x y \<Longrightarrow> P y z \<Longrightarrow> P x z"
  shows "grown P xs zs"
  unfolding grown_def list_all2_conv_all_nth
proof (intro conjI allI impI)
  from assms(1,2) have len: "length xs \<le> length ys" "length ys \<le> length zs"
    by (auto simp: grown_def dest!: list_all2_lengthD)
  then show "length xs = length (take (length xs) zs)" by simp
  fix i assume "i < length xs"
  with assms(1,2) len have "P (xs ! i) (ys ! i)" "P (ys ! i) (zs ! i)"
    by (auto simp: grown_def list_all2_conv_all_nth)
  with \<open>i < length xs\<close> tr show "P (xs ! i) (take (length xs) zs ! i)" by (metis nth_take)
qed

section \<open>What an action does to the state, up to a reflexive and transitive relation\<close>

locale step_order =
  fixes R :: "'s \<Rightarrow> 's \<Rightarrow> bool"
  assumes R_refl: "R s s"
    and R_trans: "R s t \<Longrightarrow> R t u \<Longrightarrow> R s u"
begin

definition steps :: "('s, 'e, 'a) act \<Rightarrow> bool" where
  "steps m \<longleftrightarrow> (\<forall>s. R s (snd (m s)))"

lemma stepsI: "(\<And>s r t. m s = (r, t) \<Longrightarrow> R s t) \<Longrightarrow> steps m"
  unfolding steps_def by (metis prod.collapse)

lemma stepsD: "steps m \<Longrightarrow> m s = (r, t) \<Longrightarrow> R s t"
  unfolding steps_def by (metis snd_conv)

lemma steps_ret: "steps (ret x)"
  by (simp add: steps_def ret_def R_refl)

lemma steps_raise: "steps (raise e)"
  by (simp add: steps_def raise_def R_refl)

lemma steps_gets: "steps (gets f)"
  by (simp add: steps_def gets_def R_refl)

lemma steps_lift: "steps (lift r)"
  by (simp add: steps_def lift_def R_refl)

lemma steps_raise_if: "steps (raise_if b e)"
  by (simp add: raise_if_def steps_ret steps_raise)

lemma steps_bnd: "steps m \<Longrightarrow> (\<And>x. steps (f x)) \<Longrightarrow> steps (bnd m f)"
  unfolding steps_def bnd_def
  by (auto split: prod.splits sum.splits) (metis R_trans snd_conv)+

lemma steps_sqn: "steps m \<Longrightarrow> steps n \<Longrightarrow> steps (sqn m n)"
  unfolding sqn_def by (rule steps_bnd)

lemma steps_catch: "steps m \<Longrightarrow> (\<And>e. steps (h e)) \<Longrightarrow> steps (catch m h)"
  unfolding steps_def catch_def
  by (auto split: prod.splits sum.splits) (metis R_trans snd_conv)+

lemma steps_atomic: "steps m \<Longrightarrow> (\<And>s t. R s t \<Longrightarrow> R s (k s t)) \<Longrightarrow> steps (atomic k m)"
  unfolding steps_def atomic_def
  by (auto split: prod.splits sum.splits) (metis snd_conv)+

lemma steps_if: "steps m \<Longrightarrow> steps n \<Longrightarrow> steps (if b then m else n)"
  by simp

lemma steps_Let: "(\<And>x. steps (f x)) \<Longrightarrow> steps (Let v f)"
  by (simp add: Let_def)

lemma steps_case_option:
  "steps m \<Longrightarrow> (\<And>x. steps (f x)) \<Longrightarrow> steps (case v of None \<Rightarrow> m | Some x \<Rightarrow> f x)"
  by (cases v) simp_all

lemma steps_case_list:
  "steps m \<Longrightarrow> (\<And>x xs. steps (f x xs)) \<Longrightarrow> steps (case v of [] \<Rightarrow> m | x # xs \<Rightarrow> f x xs)"
  by (cases v) simp_all

lemma steps_case_prod: "(\<And>x y. steps (f x y)) \<Longrightarrow> steps (case v of (x, y) \<Rightarrow> f x y)"
  by (cases v) simp_all

lemma steps_mapM: "(\<And>x. steps (f x)) \<Longrightarrow> steps (mapM f xs)"
  by (induction xs) (simp_all add: steps_ret steps_bnd)

lemma steps_iterM: "(\<And>x. steps (f x)) \<Longrightarrow> steps (iterM f xs)"
  by (induction xs) (simp_all add: steps_ret steps_sqn)

lemma steps_foldM: "(\<And>x a. steps (f x a)) \<Longrightarrow> steps (foldM f xs a)"
  by (induction xs arbitrary: a) (simp_all add: steps_ret steps_bnd)

lemmas steps_rules = steps_ret steps_raise steps_gets steps_lift steps_raise_if steps_bnd
  steps_sqn steps_catch steps_if steps_Let steps_case_option steps_case_list steps_case_prod
  steps_mapM steps_iterM steps_foldM

text \<open>
  The weaker notion for the inside of a transaction: only a run that returns has to respect the
  relation, because an exception makes the enclosing \<^const>\<open>atomic\<close> discard the state.
\<close>

definition oks :: "('s, 'e, 'a) act \<Rightarrow> bool" where
  "oks m \<longleftrightarrow> (\<forall>s x t. m s = (Inr x, t) \<longrightarrow> R s t)"

lemma oksI: "(\<And>s x t. m s = (Inr x, t) \<Longrightarrow> R s t) \<Longrightarrow> oks m"
  by (simp add: oks_def)

lemma oksD: "oks m \<Longrightarrow> m s = (Inr x, t) \<Longrightarrow> R s t"
  by (simp add: oks_def)

lemma steps_oks: "steps m \<Longrightarrow> oks m"
  by (auto intro: oksI dest: stepsD)

lemma oks_raise: "oks (raise e)"
  by (simp add: oks_def raise_def)

lemma oks_bnd: "oks m \<Longrightarrow> (\<And>x. oks (f x)) \<Longrightarrow> oks (bnd m f)"
  unfolding oks_def by (auto simp: bnd_Inr_iff) (metis R_trans)

lemma oks_sqn: "oks m \<Longrightarrow> oks n \<Longrightarrow> oks (sqn m n)"
  unfolding sqn_def by (rule oks_bnd)

lemma oks_catch: "steps m \<Longrightarrow> (\<And>e. oks (h e)) \<Longrightarrow> oks (catch m h)"
  unfolding oks_def by (auto simp: catch_Inr_iff dest: stepsD) (metis R_trans stepsD)

lemma oks_atomic: "oks m \<Longrightarrow> oks (atomic k m)"
  by (simp add: oks_def atomic_Inr_iff)

lemma steps_atomic_oks: "oks m \<Longrightarrow> (\<And>s t. R s (k s t)) \<Longrightarrow> steps (atomic k m)"
  unfolding steps_def oks_def atomic_def by (auto split: prod.splits sum.splits)

lemma oks_if: "oks m \<Longrightarrow> oks n \<Longrightarrow> oks (if b then m else n)"
  by simp

lemma oks_Let: "(\<And>x. oks (f x)) \<Longrightarrow> oks (Let v f)"
  by (simp add: Let_def)

lemma oks_case_option:
  "oks m \<Longrightarrow> (\<And>x. oks (f x)) \<Longrightarrow> oks (case v of None \<Rightarrow> m | Some x \<Rightarrow> f x)"
  by (cases v) simp_all

lemma oks_case_list:
  "oks m \<Longrightarrow> (\<And>x xs. oks (f x xs)) \<Longrightarrow> oks (case v of [] \<Rightarrow> m | x # xs \<Rightarrow> f x xs)"
  by (cases v) simp_all

lemma oks_case_prod: "(\<And>x y. oks (f x y)) \<Longrightarrow> oks (case v of (x, y) \<Rightarrow> f x y)"
  by (cases v) simp_all

lemma oks_mapM: "(\<And>x. oks (f x)) \<Longrightarrow> oks (mapM f xs)"
  by (induction xs) (simp_all add: steps_oks steps_ret oks_bnd)

lemma oks_iterM: "(\<And>x. oks (f x)) \<Longrightarrow> oks (iterM f xs)"
  by (induction xs) (simp_all add: steps_oks steps_ret oks_sqn)

lemma oks_foldM: "(\<And>x a. oks (f x a)) \<Longrightarrow> oks (foldM f xs a)"
  by (induction xs arbitrary: a) (simp_all add: steps_oks steps_ret oks_bnd)

lemmas oks_basic = steps_oks [OF steps_ret] steps_oks [OF steps_gets] steps_oks [OF steps_lift]
  steps_oks [OF steps_raise_if]

lemmas oks_rules = oks_raise oks_basic oks_bnd oks_sqn oks_if oks_Let oks_case_option
  oks_case_list oks_case_prod oks_mapM oks_iterM oks_foldM

end

end
