(* ===== verification/Pystr.thy ===== *)
theory Pystr
  imports Prelude
begin

text \<open>
  Python's \<open>str\<close> operations that the services use, on strings of code points 0 to 255 (a
  \<^typ>\<open>string\<close> is a list of such characters, and \<^const>\<open>length\<close> counts code points as
  \<open>len\<close> does): \<open>strip\<close>, \<open>lower\<close>, \<open>isalnum\<close>, the single-character \<open>replace\<close>, \<open>str(int)\<close> and
  the components of a \<open>PurePosixPath\<close>.
\<close>

section \<open>Character classes\<close>

definition is_space :: "char \<Rightarrow> bool" where
  "is_space c \<longleftrightarrow> (let n = of_char c :: nat in
     (9 \<le> n \<and> n \<le> 13) \<or> (28 \<le> n \<and> n \<le> 32) \<or> n = 133 \<or> n = 160)"

definition is_alnum :: "char \<Rightarrow> bool" where
  "is_alnum c \<longleftrightarrow> (let n = of_char c :: nat in
     (48 \<le> n \<and> n \<le> 57) \<or> (65 \<le> n \<and> n \<le> 90) \<or> (97 \<le> n \<and> n \<le> 122) \<or>
     n \<in> {170, 178, 179, 181, 185, 186, 188, 189, 190} \<or>
     (192 \<le> n \<and> n \<le> 255 \<and> n \<noteq> 215 \<and> n \<noteq> 247))"

definition lower_char :: "char \<Rightarrow> char" where
  "lower_char c = (let n = of_char c :: nat in
     if (65 \<le> n \<and> n \<le> 90) \<or> (192 \<le> n \<and> n \<le> 222 \<and> n \<noteq> 215) then char_of (n + 32) else c)"

definition upper_ascii :: "char \<Rightarrow> char" where
  "upper_ascii c = (let n = of_char c :: nat in
     if 97 \<le> n \<and> n \<le> 122 then char_of (n - 32) else c)"

definition py_lower :: "string \<Rightarrow> string" where
  "py_lower s = map lower_char s"

definition rstrip :: "string \<Rightarrow> string" where
  "rstrip s = rev (dropWhile is_space (rev s))"

definition strip :: "string \<Rightarrow> string" where
  "strip s = rstrip (dropWhile is_space s)"

section \<open>Replacing a character\<close>

definition replace_char :: "char \<Rightarrow> string \<Rightarrow> string \<Rightarrow> string" where
  "replace_char c r s = concat (map (\<lambda>x. if x = c then r else [x]) s)"

lemma replace_char_simps [simp]:
  "replace_char c r [] = []"
  "replace_char c r (x # s) = (if x = c then r else [x]) @ replace_char c r s"
  by (simp_all add: replace_char_def)

lemma replace_char_append [simp]:
  "replace_char c r (s @ t) = replace_char c r s @ replace_char c r t"
  by (induction s) simp_all

lemma replace_char_notin: "c \<notin> set s \<Longrightarrow> replace_char c r s = s"
  by (induction s) auto

lemma set_replace_char:
  "set (replace_char c r s) = (set s - {c}) \<union> (if c \<in> set s then set r else {})"
  by (induction s) auto

section \<open>Decimal numerals\<close>

fun show_nat :: "nat \<Rightarrow> string" where
  "show_nat n = (if n < 10 then [char_of (48 + n)]
                 else show_nat (n div 10) @ [char_of (48 + n mod 10)])"

declare show_nat.simps [simp del]

definition digit_val :: "char \<Rightarrow> nat" where
  "digit_val c = of_char c - 48"

definition read_nat :: "string \<Rightarrow> nat" where
  "read_nat s = foldl (\<lambda>a c. 10 * a + digit_val c) 0 s"

lemma digit_val_digit: "n < 10 \<Longrightarrow> digit_val (char_of (48 + n)) = n"
  by (simp add: digit_val_def)

lemma read_nat_snoc: "read_nat (s @ [c]) = 10 * read_nat s + digit_val c"
  by (simp add: read_nat_def)

lemma read_show_nat: "read_nat (show_nat n) = n"
proof (induction n rule: show_nat.induct)
  case (1 n)
  show ?case
  proof (cases "n < 10")
    case True
    then show ?thesis
      by (subst show_nat.simps) (simp add: read_nat_def digit_val_digit)
  next
    case False
    with 1 show ?thesis
      by (subst show_nat.simps) (simp add: read_nat_snoc digit_val_digit)
  qed
qed

lemma show_nat_inj: "show_nat m = show_nat n \<longleftrightarrow> m = n"
  by (metis read_show_nat)

lemma show_nat_digits: "c \<in> set (show_nat n) \<Longrightarrow> 48 \<le> (of_char c :: nat) \<and> (of_char c :: nat) \<le> 57"
proof (induction n rule: show_nat.induct)
  case (1 n)
  show ?case
  proof (cases "n < 10")
    case True
    with 1(2) show ?thesis by (simp add: show_nat.simps [of n])
  next
    case False
    with 1 show ?thesis by (auto simp: show_nat.simps [of n])
  qed
qed

lemma show_nat_no_space: "CHR '' '' \<notin> set (show_nat n)"
  using show_nat_digits [of "CHR '' ''" n] by auto

lemma show_nat_nonempty: "show_nat n \<noteq> []"
  by (subst show_nat.simps) simp

section \<open>UUIDs and encodings\<close>

definition hex_digit :: "nat \<Rightarrow> char" where
  "hex_digit n = (if n < 10 then char_of (48 + n) else char_of (87 + n))"

fun hex_digits :: "nat \<Rightarrow> nat \<Rightarrow> string" where
  "hex_digits 0 n = []"
| "hex_digits (Suc k) n = hex_digits k (n div 16) @ [hex_digit (n mod 16)]"

text \<open>\<open>str(UUID)\<close>: 32 hexadecimal digits in groups of 8, 4, 4, 4 and 12.\<close>

definition uuid_str :: "uuid \<Rightarrow> string" where
  "uuid_str u = (let h = hex_digits 32 u in
     take 8 h @ ''-'' @ take 4 (drop 8 h) @ ''-'' @ take 4 (drop 12 h) @ ''-'' @
     take 4 (drop 16 h) @ ''-'' @ drop 20 h)"

text \<open>\<open>len(s.encode("utf-8"))\<close>\<close>

definition utf8_length :: "string \<Rightarrow> nat" where
  "utf8_length s = sum_list (map (\<lambda>c. if (of_char c :: nat) < 128 then 1 else 2) s)"

section \<open>Paths\<close>

fun split_on :: "char \<Rightarrow> string \<Rightarrow> string list" where
  "split_on c [] = [[]]"
| "split_on c (x # s) =
     (if x = c then [] # split_on c s
      else (case split_on c s of [] \<Rightarrow> [[x]] | p # ps \<Rightarrow> (x # p) # ps))"

text \<open>The parts of a \<open>PurePosixPath\<close> below its root: empty and \<open>.\<close> components vanish.\<close>

definition path_components :: "string \<Rightarrow> string list" where
  "path_components s = filter (\<lambda>p. p \<noteq> [] \<and> p \<noteq> ''.'') (split_on (CHR ''/'') s)"

definition path_absolute :: "string \<Rightarrow> bool" where
  "path_absolute s \<longleftrightarrow> (case s of [] \<Rightarrow> False | c # _ \<Rightarrow> c = CHR ''/'')"

text \<open>The root of a \<open>PurePosixPath\<close>: exactly two leading slashes are kept, otherwise one or none.\<close>

definition path_root :: "string \<Rightarrow> string" where
  "path_root s = (case length (takeWhile (\<lambda>c. c = CHR ''/'') s) of
     0 \<Rightarrow> [] | Suc 0 \<Rightarrow> ''/'' | Suc (Suc 0) \<Rightarrow> ''//'' | _ \<Rightarrow> ''/'')"

definition path_parts :: "string \<Rightarrow> string list" where
  "path_parts s = (if path_root s = [] then [] else [path_root s]) @ path_components s"

text \<open>\<open>PurePath(s).name\<close>: the last component, empty for the root and the empty path.\<close>

definition path_name :: "string \<Rightarrow> string" where
  "path_name s = (case rev (path_components s) of [] \<Rightarrow> [] | p # _ \<Rightarrow> p)"

fun join_with :: "string \<Rightarrow> string list \<Rightarrow> string" where
  "join_with d [] = []"
| "join_with d [s] = s"
| "join_with d (s # t # ss) = s @ d @ join_with d (t # ss)"

text \<open>\<open>str(PurePosixPath(s))\<close>\<close>

definition path_str :: "string \<Rightarrow> string" where
  "path_str s = (let t = path_root s @ join_with ''/'' (path_components s) in if t = [] then ''.'' else t)"

lemma split_on_nonempty [simp]: "split_on c s \<noteq> []"
  by (induction s) (auto split: list.splits)

lemma split_on_parts: "p \<in> set (split_on c s) \<Longrightarrow> c \<notin> set p"
  by (induction s arbitrary: p) (auto split: list.splits if_splits)

lemma join_split_on: "join_with [c] (split_on c s) = s"
proof (induction s)
  case Nil
  then show ?case by simp
next
  case (Cons x s)
  then show ?case
    by (cases "split_on c s"; cases "tl (split_on c s)")
      (auto simp: neq_Nil_conv split: list.splits)
qed

section \<open>Prefixes and suffixes\<close>

definition startswith :: "string \<Rightarrow> string \<Rightarrow> bool" where
  "startswith s p \<longleftrightarrow> take (length p) s = p"

definition endswith :: "string \<Rightarrow> string \<Rightarrow> bool" where
  "endswith s p \<longleftrightarrow> length p \<le> length s \<and> drop (length s - length p) s = p"

fun contains :: "string \<Rightarrow> string \<Rightarrow> bool" where
  "contains [] p = (p = [])"
| "contains (x # s) p = (startswith (x # s) p \<or> contains s p)"

text \<open>Python's slice \<open>s[:n]\<close>, where a negative \<open>n\<close> counts from the end.\<close>

definition slice_to :: "int \<Rightarrow> 'a list \<Rightarrow> 'a list" where
  "slice_to n s = (if 0 \<le> n then take (nat n) s else take (nat (int (length s) + n)) s)"

lemma length_slice_to_le: "length (slice_to n s) \<le> length s"
  by (auto simp: slice_to_def)

lemma startswith_append [simp]: "startswith (p @ s) p"
  by (simp add: startswith_def)

lemma startswith_iff: "startswith s p \<longleftrightarrow> (\<exists>t. s = p @ t)"
  by (metis append_take_drop_id startswith_append startswith_def)

section \<open>Parsing a UUID\<close>

text \<open>\<open>s.replace(p, "")\<close>, from the left; the first argument counts the characters of a match still to skip.\<close>

fun delete_all :: "nat \<Rightarrow> string \<Rightarrow> string \<Rightarrow> string" where
  "delete_all n p [] = []"
| "delete_all (Suc n) p (x # s) = delete_all n p s"
| "delete_all 0 p (x # s) =
     (if p \<noteq> [] \<and> startswith (x # s) p then delete_all (length p - 1) p s else x # delete_all 0 p s)"

definition strip_chars :: "string \<Rightarrow> string \<Rightarrow> string" where
  "strip_chars cs s = rev (dropWhile (\<lambda>c. c \<in> set cs) (rev (dropWhile (\<lambda>c. c \<in> set cs) s)))"

definition hex_val :: "char \<Rightarrow> nat option" where
  "hex_val c = (let n = of_char c :: nat in
     if 48 \<le> n \<and> n \<le> 57 then Some (n - 48)
     else if 97 \<le> n \<and> n \<le> 102 then Some (n - 87)
     else if 65 \<le> n \<and> n \<le> 70 then Some (n - 55) else None)"

text \<open>The digits of \<open>int(s, 16)\<close>: a single underscore may stand between two digits.\<close>

fun hex_number :: "nat \<Rightarrow> string \<Rightarrow> nat option" where
  "hex_number a [] = Some a"
| "hex_number a (c # s) =
     (if c = CHR ''_'' then (case s of [] \<Rightarrow> None | d # r \<Rightarrow>
         (case hex_val d of None \<Rightarrow> None | Some v \<Rightarrow> hex_number (16 * a + v) r))
      else (case hex_val c of None \<Rightarrow> None | Some v \<Rightarrow> hex_number (16 * a + v) s))"

text \<open>\<open>int(s, 16)\<close>: blanks around, a sign, the prefix \<open>0x\<close> (an underscore may follow it).\<close>

definition int_base16 :: "string \<Rightarrow> int option" where
  "int_base16 s =
     (let t = strip s;
          (sgn, u) = (case t of [] \<Rightarrow> (1, t) | c # r \<Rightarrow>
             if c = CHR ''-'' then (-1, r) else if c = CHR ''+'' then (1, r) else (1 :: int, t));
          prefixed = startswith u ''0x'' \<or> startswith u ''0X'';
          v = (if prefixed then drop 2 u else u)
      in if v = [] then None
         else map_option (\<lambda>n. sgn * int n)
           (if prefixed then hex_number 0 v else if hd v = CHR ''_'' then None else hex_number 0 v))"

text \<open>\<open>UUID(s)\<close>, \<open>None\<close> for its \<open>ValueError\<close>.\<close>

definition uuid_of_string :: "string \<Rightarrow> uuid option" where
  "uuid_of_string s =
     (let h = delete_all 0 ''-'' (strip_chars ''{}'' (delete_all 0 ''uuid:'' (delete_all 0 ''urn:'' s)))
      in if length h \<noteq> 32 then None
         else case int_base16 h of
             None \<Rightarrow> None
           | Some n \<Rightarrow> if 0 \<le> n \<and> n < 2 ^ 128 then Some (nat n) else None)"

end
