(* ===== verification/Ids.thy ===== *)
theory Ids
  imports Pystr
begin

text \<open>
  ULIDs (\<open>src/spine/ids.py\<close>): minting from a clock reading in milliseconds and 80 random bits,
  and validation with normalisation to upper case. The clock reading and the random bits are
  arguments. The lemmas show that a minted ULID is canonical, that it determines the clock
  reading (modulo \<open>2 ^ 48\<close>) and the random bits, and that minted ULIDs sort by time.
\<close>

unbundle bit_operations_syntax

section \<open>Definitions\<close>

definition ulid_alphabet :: string where
  "ulid_alphabet = ''0123456789ABCDEFGHJKMNPQRSTVWXYZ''"

text \<open>The character class \<open>[0-9A-HJKMNP-TV-Z]\<close> and its case-insensitive version.\<close>

definition ulid_char :: "char \<Rightarrow> bool" where
  "ulid_char c \<longleftrightarrow> c \<in> set ulid_alphabet"

definition ulid_pattern :: "string \<Rightarrow> bool" where
  "ulid_pattern s \<longleftrightarrow> length s = 26 \<and> hd s \<in> set ''01234567'' \<and> list_all ulid_char s"

definition ulid_pattern_ignorecase :: "string \<Rightarrow> bool" where
  "ulid_pattern_ignorecase s \<longleftrightarrow> ulid_pattern (map upper_ascii s)"

definition normalize_ulid :: "string \<Rightarrow> string option" where
  "normalize_ulid s = (if ulid_pattern_ignorecase s then Some (map upper_ascii s) else None)"

text \<open>The loop over \<open>range(25, -1, -1)\<close>: the accumulator holds the characters already placed.\<close>

fun ulid_encode :: "nat \<Rightarrow> nat \<Rightarrow> string \<Rightarrow> string" where
  "ulid_encode 0 v acc = acc"
| "ulid_encode (Suc k) v acc =
     ulid_encode k (drop_bit 5 v) (ulid_alphabet ! (v AND 31) # acc)"

definition ulid_value :: "nat \<Rightarrow> nat \<Rightarrow> nat" where
  "ulid_value timestamp_ms randbits =
     push_bit 80 (timestamp_ms AND (2 ^ 48 - 1)) OR randbits"

definition mint_ulid :: "nat \<Rightarrow> nat \<Rightarrow> string" where
  "mint_ulid timestamp_ms randbits = ulid_encode 26 (ulid_value timestamp_ms randbits) []"

section \<open>Decoding\<close>

fun ulid_index :: "string \<Rightarrow> char \<Rightarrow> nat" where
  "ulid_index [] c = 0"
| "ulid_index (x # xs) c = (if x = c then 0 else Suc (ulid_index xs c))"

definition ulid_decode :: "string \<Rightarrow> nat" where
  "ulid_decode s = foldl (\<lambda>a c. 32 * a + ulid_index ulid_alphabet c) 0 s"

lemma length_alphabet [simp]: "length ulid_alphabet = 32"
  by (simp add: ulid_alphabet_def)

lemma distinct_alphabet: "distinct ulid_alphabet"
  by (simp add: ulid_alphabet_def)

lemma alphabet_first:
  assumes "i < 8"
  shows "ulid_alphabet ! i \<in> set ''01234567''"
proof -
  have "take 8 ulid_alphabet = ''01234567''" by (simp add: ulid_alphabet_def)
  moreover have "ulid_alphabet ! i = take 8 ulid_alphabet ! i" using assms by simp
  moreover have "take 8 ulid_alphabet ! i \<in> set (take 8 ulid_alphabet)"
    using assms by (intro nth_mem) simp
  ultimately show ?thesis by simp
qed

lemma and_31: "v AND 31 = v mod (32::nat)"
  using take_bit_eq_mask [of 5 v] by (simp add: take_bit_eq_mod mask_eq_exp_minus_1)

lemma ulid_index_nth:
  "distinct xs \<Longrightarrow> i < length xs \<Longrightarrow> ulid_index xs (xs ! i) = i"
  by (induction xs arbitrary: i) (auto simp: nth_Cons split: nat.splits)

lemma ulid_index_alphabet: "i < 32 \<Longrightarrow> ulid_index ulid_alphabet (ulid_alphabet ! i) = i"
  by (rule ulid_index_nth) (simp_all add: distinct_alphabet)

lemma ulid_encode_acc: "ulid_encode k v acc = ulid_encode k v [] @ acc"
proof (induction k arbitrary: v acc)
  case (Suc k)
  show ?case
    by (simp only: ulid_encode.simps Suc [of _ "_ # acc"] Suc [of _ "[_]"]) simp
qed simp

lemma length_ulid_encode [simp]: "length (ulid_encode k v acc) = k + length acc"
  by (induction k arbitrary: v acc) simp_all

lemma ulid_encode_Suc:
  "ulid_encode (Suc k) v [] = ulid_encode k (v div 32) [] @ [ulid_alphabet ! (v mod 32)]"
  by (simp add: and_31 drop_bit_eq_div ulid_encode_acc [of k _ "[_]"])

declare ulid_encode.simps [simp del]

lemma ulid_decode_encode: "v < 32 ^ k \<Longrightarrow> ulid_decode (ulid_encode k v []) = v"
proof (induction k arbitrary: v)
  case 0
  then show ?case by (simp add: ulid_encode.simps ulid_decode_def)
next
  case (Suc k)
  from Suc.prems have "v div 32 < 32 ^ k"
    by (simp add: less_mult_imp_div_less mult.commute)
  then have "ulid_decode (ulid_encode k (v div 32) []) = v div 32"
    by (rule Suc.IH)
  then show ?case
    by (simp add: ulid_encode_Suc ulid_decode_def ulid_index_alphabet)
qed

lemma ulid_encode_chars: "c \<in> set (ulid_encode k v []) \<Longrightarrow> ulid_char c"
  by (induction k arbitrary: v)
    (auto simp: ulid_encode.simps(1) ulid_encode_Suc ulid_char_def)

lemma hd_ulid_encode:
  "v < 32 ^ Suc k \<Longrightarrow> hd (ulid_encode (Suc k) v []) = ulid_alphabet ! (v div 32 ^ k)"
proof (induction k arbitrary: v)
  case 0
  then show ?case by (simp add: ulid_encode_Suc ulid_encode.simps(1))
next
  case (Suc k)
  from Suc.prems have "v div 32 < 32 ^ Suc k"
    by (simp add: less_mult_imp_div_less mult.commute)
  then have "hd (ulid_encode (Suc k) (v div 32) []) = ulid_alphabet ! (v div 32 div 32 ^ k)"
    by (rule Suc.IH)
  moreover have "ulid_encode (Suc k) (v div 32) [] \<noteq> []"
    by (metis Zero_not_Suc add_is_0 length_0_conv length_ulid_encode)
  ultimately show ?case
    by (simp add: ulid_encode_Suc [of "Suc k"] div_mult2_eq [symmetric] del: length_ulid_encode)
qed

section \<open>The value packed into a ULID\<close>

lemma ulid_value_eq:
  assumes "r < 2 ^ 80"
  shows "ulid_value t r = (t mod 2 ^ 48) * 2 ^ 80 + r"
proof -
  let ?p = "push_bit 80 (t mod 2 ^ 48)"
  have mask: "t AND (2 ^ 48 - 1) = t mod 2 ^ 48"
    using take_bit_eq_mask [of 48 t] by (simp add: take_bit_eq_mod mask_eq_exp_minus_1)
  have "?p AND r = 0"
  proof (rule bit_eqI)
    fix n
    from assms have "bit r n \<Longrightarrow> n < 80"
      by (metis bit_take_bit_iff take_bit_nat_eq_self_iff)
    then show "bit (?p AND r) n = bit (0::nat) n"
      by (auto simp: bit_and_iff bit_push_bit_iff)
  qed
  then have "?p OR r = ?p + r"
    by (simp add: disjunctive_add_eq_or)
  with mask show ?thesis
    by (simp add: ulid_value_def push_bit_eq_mult)
qed

lemma ulid_value_less:
  assumes "r < 2 ^ 80"
  shows "ulid_value t r < 2 ^ 128"
proof -
  have "t mod 2 ^ 48 < (2::nat) ^ 48" by simp
  then have "(t mod 2 ^ 48) * 2 ^ 80 + r < (t mod 2 ^ 48 + 1) * 2 ^ 80"
    using assms by simp
  also have "\<dots> \<le> 2 ^ 48 * 2 ^ 80"
    by (intro mult_right_mono) auto
  finally show ?thesis by (simp add: ulid_value_eq [OF assms])
qed

lemma ulid_value_less_26:
  assumes "r < 2 ^ 80"
  shows "ulid_value t r < 32 ^ 26"
proof -
  have "(2::nat) ^ 128 \<le> 32 ^ 26" by simp
  with ulid_value_less [OF assms] show ?thesis by (rule order_less_le_trans)
qed

lemma mint_ulid_pattern:
  assumes "r < 2 ^ 80"
  shows "ulid_pattern (mint_ulid t r)"
proof -
  let ?v = "ulid_value t r"
  have v: "?v < 32 ^ Suc 25" using ulid_value_less_26 [OF assms] by simp
  have "?v div 32 ^ 25 < 8"
    using ulid_value_less [OF assms] by (simp add: less_mult_imp_div_less)
  then have "ulid_alphabet ! (?v div 32 ^ 25) \<in> set ''01234567''"
    by (rule alphabet_first)
  with hd_ulid_encode [OF v] show ?thesis
    using ulid_encode_chars [of _ 26 ?v]
    by (simp add: ulid_pattern_def mint_ulid_def list_all_iff)
qed

lemma ulid_decode_mint:
  "r < 2 ^ 80 \<Longrightarrow> ulid_decode (mint_ulid t r) = (t mod 2 ^ 48) * 2 ^ 80 + r"
  by (simp add: mint_ulid_def ulid_decode_encode ulid_value_less_26 ulid_value_eq)

section \<open>Order\<close>

lemma digits_less:
  fixes B :: nat
  assumes "r < B" "r' < B"
  shows "t * B + r < t' * B + r' \<longleftrightarrow> t < t' \<or> t = t' \<and> r < r'"
proof -
  have lt: "a * B + x < b * B + y" if "a < b" "x < B" for a b x y
  proof -
    from that(1) have "Suc a * B \<le> b * B" by (intro mult_le_mono1) simp
    with that(2) show ?thesis by simp
  qed
  show ?thesis
    using lt [of t t' r r'] lt [of t' t r' r] assms by (cases t t' rule: linorder_cases) auto
qed

lemma snoc_less_snoc:
  fixes a b :: "'a :: linorder"
  assumes "length xs = length ys"
  shows "xs @ [a] < ys @ [b] \<longleftrightarrow> xs < ys \<or> xs = ys \<and> a < b"
  using assms by (induction rule: list_induct2) auto

lemma ulid_alphabet_sorted: "sorted_wrt (<) ulid_alphabet"
  by (simp add: ulid_alphabet_def less_char_def)

lemma ulid_alphabet_less: "i < 32 \<Longrightarrow> j < 32 \<Longrightarrow> ulid_alphabet ! i < ulid_alphabet ! j \<longleftrightarrow> i < j"
proof -
  have le: "ulid_alphabet ! i < ulid_alphabet ! j" if "i < j" "j < 32" for i j
    using sorted_wrt_nth_less [OF ulid_alphabet_sorted that(1)] that(2) by simp
  assume "i < 32" "j < 32"
  then show ?thesis using le [of i j] le [of j i] by (metis less_asym linorder_neqE_nat)
qed

lemma ulid_encode_less:
  "v < 32 ^ k \<Longrightarrow> w < 32 ^ k \<Longrightarrow> ulid_encode k v [] < ulid_encode k w [] \<longleftrightarrow> v < w"
proof (induction k arbitrary: v w)
  case 0
  then show ?case by simp
next
  case (Suc k)
  then have "v div 32 < 32 ^ k" "w div 32 < 32 ^ k" by (simp_all add: less_mult_imp_div_less)
  note IH = Suc.IH [OF this] and eq = ulid_decode_encode [OF this(1)] ulid_decode_encode [OF this(2)]
  have "ulid_encode k (v div 32) [] = ulid_encode k (w div 32) [] \<longleftrightarrow> v div 32 = w div 32"
    (is "?e v = ?e w \<longleftrightarrow> _")
  proof
    assume "?e v = ?e w"
    then have "ulid_decode (?e v) = ulid_decode (?e w)" by (rule arg_cong)
    then show "v div 32 = w div 32" unfolding eq .
  qed simp
  moreover have "v < w \<longleftrightarrow> v div 32 < w div 32 \<or> v div 32 = w div 32 \<and> v mod 32 < w mod 32"
    using digits_less [of "v mod 32" 32 "w mod 32" "v div 32" "w div 32"] by simp
  ultimately show ?case
    by (simp add: ulid_encode_Suc snoc_less_snoc IH ulid_alphabet_less)
qed

lemma mint_ulid_less:
  assumes "r < 2 ^ 80" "r' < 2 ^ 80" "t < 2 ^ 48" "t' < 2 ^ 48"
  shows "mint_ulid t r < mint_ulid t' r' \<longleftrightarrow> t < t' \<or> t = t' \<and> r < r'"
  using assms digits_less [of r "2 ^ 80" r' t t']
  by (simp add: mint_ulid_def ulid_encode_less ulid_value_less_26 ulid_value_eq)

lemma mint_ulid_eq:
  assumes "r < 2 ^ 80" "r' < 2 ^ 80" "t < 2 ^ 48" "t' < 2 ^ 48"
  shows "mint_ulid t r = mint_ulid t' r' \<longleftrightarrow> t = t' \<and> r = r'"
  using mint_ulid_less [OF assms] mint_ulid_less [OF assms(2,1,4,3)]
  by (metis linorder_neqE_nat order_less_irrefl)

lemma mint_canonical [simp]: "n < 2 ^ 80 \<Longrightarrow> ulid_pattern (mint_ulid m n)"
  by (rule mint_ulid_pattern)

lemma mint_neq_short [simp]: "length x \<noteq> 26 \<Longrightarrow> mint_ulid m n \<noteq> x"
  by (auto simp: mint_ulid_def)

text \<open>C11: Minted identifiers are canonical, and as strings they are ordered by their millisecond first
  and their random part second; so two of them are equal only when both parts are.\<close>

theorem mint_ulid_order:
  assumes "r < 2 ^ 80" "r' < 2 ^ 80" "t < 2 ^ 48" "t' < 2 ^ 48"
  shows "ulid_pattern (mint_ulid t r) \<and>
     (mint_ulid t r < mint_ulid t' r' \<longleftrightarrow> t < t' \<or> t = t' \<and> r < r') \<and>
     (mint_ulid t r = mint_ulid t' r' \<longleftrightarrow> t = t' \<and> r = r')"
  using mint_ulid_less [OF assms] mint_ulid_eq [OF assms] mint_ulid_pattern [OF assms(1)] by blast

theorem mint_ulid_order_witness:
  "mint_ulid 1 7 < mint_ulid 2 3 \<and> mint_ulid 1 3 \<noteq> mint_ulid 1 7"
  using mint_ulid_order [of 7 3 1 2] mint_ulid_order [of 3 7 1 1] by simp

end
