(* ===== verification/Tables.thy ===== *)
theory Tables
  imports Ids
begin

text \<open>
  The PostgreSQL tables of \<open>src/spine/db/models.py\<close> as records and lists of rows, with the
  constraints the schema declares: a closed text domain is a datatype, and primary keys, unique
  indexes, foreign keys and CHECK constraints are tested by the insert and update operations,
  which raise \<open>IntegrityError\<close> with the constraint's name.

  What the services read from outside the repository is the record \<open>env\<close>: clock readings, random
  bits and generated UUIDs (the n-th reading is a function of \<open>n\<close>, and the state counts the
  readings), the embedding provider (\<open>None\<close> when the call fails or a component is not a
  finite number), pgvector's cosine distance, the tokenizer, SHA-256, \<open>isoformat\<close>, the validation of
  an axis by pydantic (\<open>axis_validate\<close>), PostgreSQL's full-text match and rank of a disjunction of terms
  (\<open>fts_match\<close>, \<open>fts_rank\<close>), and floating point: a finite double is the rational it
  denotes, and \<open>fl64\<close>, \<open>fl32\<close>, \<open>sqrt64\<close>, \<open>exp2\<close> and \<open>float_decimal\<close> are rounding to double, rounding to
  REAL, \<open>math.sqrt\<close>, \<open>2.0 ** x\<close> and the decimal number \<open>str(x)\<close> shows; infinities and NaN are
  outside the model. A transaction (\<open>transaction\<close>) fixes \<open>now()\<close>, and on an exception restores
  every table; readings already taken stay taken, as a sequence or a random generator would.
\<close>

section \<open>Closed domains\<close>

datatype memory_kind = Fact | Preference | Procedure | Project_note | Persona | Pinned_kind

datatype memory_status = Active | Candidate | Staged | Quarantined | Tombstoned

datatype edge_type = Merged_from | Supersedes | Contradicts | Relates_to

datatype verdict = V_new | V_merge | V_supersede | V_contradict | V_retire | V_keyword_repair | V_split

datatype birthplace = B_thread | B_seed | B_symphony | B_curator

datatype queue_state = Q_pending | Q_approved | Q_rejected

datatype decision = Approve | Deny

datatype approval_mode = Explicit | Passive_mode

datatype actor_class = Human | Passive

datatype shown_as = Injected | Near_miss | Pinned | Budget_cut

datatype removal_reason = Not_relevant | Wrong | Never

datatype outcome =
    Kept
  | Added_back
  | Removed removal_reason
  | Cited
  | Mid_thread_removed
  | Mid_thread_added
  | Auto_entered
  | Auto_exited
  | Outcome_budget_cut

section \<open>Rows\<close>

record memory_unit =
  mu_id :: uuid
  mu_principal_id :: string
  mu_label :: string
  mu_body :: string
  mu_kind :: memory_kind
  mu_keywords :: "string list"
  mu_embedding :: "rat list"
  mu_embedding_model :: string
  mu_project_key :: "string option"
  mu_thread_origin :: "string option"
  mu_origin_thread_id :: "uuid option"
  mu_origin_path :: "string option"
  mu_origin_location :: "string option"
  mu_origin_locations :: "string list"
  mu_run_id :: "string option"
  mu_origin_agent :: "string option"
  mu_pin :: bool
  mu_status :: memory_status
  mu_revision :: int
  mu_stats :: dict
  mu_bias :: rat
  mu_created_at :: timestamp
  mu_updated_at :: timestamp

record memory_revision =
  rev_uid :: string
  rev_parent_uid :: "string option"
  rev_memory_id :: uuid
  rev_revision :: "int option"
  rev_body :: string
  rev_label :: string
  rev_editor :: string
  rev_origin_machine_id :: string
  rev_reason :: string
  rev_ts :: timestamp

record memory_edge =
  edge_uid :: string
  edge_from :: uuid
  edge_to :: uuid
  edge_type :: edge_type
  edge_created_at :: timestamp

record approval_queue_item =
  qi_item_uid :: string
  qi_candidate_memory_id :: uuid
  qi_principal_id :: string
  qi_birthplace :: birthplace
  qi_birthplace_thread_id :: "uuid option"
  qi_batch_uid :: "uuid option"
  qi_source_name :: "string option"
  qi_source_sha256 :: "string option"
  qi_birthplace_run_id :: "string option"
  qi_birthplace_origin_agent :: "string option"
  qi_judged_context :: "dict option"
  qi_candidate_revision :: "int option"
  qi_curator_run_uid :: "string option"
  qi_curator_finding_uid :: "string option"
  qi_proposal_payload :: "dict option"
  qi_verdict :: verdict
  qi_neighbor_ids :: "uuid list"
  qi_target_ids :: "uuid list"
  qi_state :: queue_state
  qi_created_at :: timestamp
  qi_decided_at :: "timestamp option"

record approval_decision =
  ad_decision_uid :: string
  ad_item_uid :: string
  ad_decision :: decision
  ad_approval_mode :: approval_mode
  ad_actor_class :: actor_class
  ad_created_at :: timestamp

record curator_trigger_state =
  ct_principal_id :: string
  ct_admitted_writes :: int
  ct_last_run_writes :: int
  ct_pressure_events :: int
  ct_last_run_pressure :: int
  ct_updated_at :: timestamp

record curator_verdict =
  cv_verdict_uid :: string
  cv_finding_uid :: string
  cv_action :: string
  cv_rationale :: string
  cv_proposal :: dict
  cv_created_at :: timestamp

record curator_action =
  ca_action_uid :: string
  ca_verdict_uid :: string
  ca_finding_uid :: string
  ca_queue_item_uid :: "string option"
  ca_outcome :: string
  ca_detail :: dict
  ca_created_at :: timestamp

record symphony_run_resolution =
  sr_run_id :: string
  sr_principal_id :: string
  sr_batch_uid :: uuid
  sr_winner_origin_agent :: string
  sr_machine_id :: string
  sr_judged_context :: dict
  sr_created_at :: timestamp

record thread_row =
  th_id :: uuid
  th_principal_id :: string
  th_agent_id :: string
  th_machine_id :: string
  th_project_key :: "string option"
  th_snapshot_ts :: "timestamp option"
  th_created_at :: timestamp

record injection_event =
  ev_id :: nat
  ev_event_uid :: string
  ev_injection_id :: uuid
  ev_thread_id :: uuid
  ev_agent_id :: string
  ev_machine_id :: string
  ev_principal_id :: string
  ev_project_key :: "string option"
  ev_agent_kind :: string
  ev_prompt_text :: string
  ev_scorer_version :: string
  ev_memory_id :: uuid
  ev_memory_kind :: memory_kind
  ev_features :: dict
  ev_score :: rat
  ev_rank :: int
  ev_shown_as :: shown_as
  ev_actor_class :: actor_class
  ev_outcome :: "outcome option"
  ev_ts :: timestamp

record injection_event_annotation =
  an_target_event_uid :: string
  an_kind :: string
  an_target_principal_id :: string
  an_target_machine_id :: string
  an_reason :: string
  an_annotator_principal_id :: string
  an_annotator_machine_id :: string
  an_annotator_origin_agent :: string
  an_ts :: timestamp

record scorer_config_row =
  sc_version :: string
  sc_weights :: dict
  sc_params :: dict
  sc_created_at :: timestamp
  sc_active :: bool

section \<open>Errors\<close>

text \<open>The card a deduplication refusal carries (\<open>SimilarityMemoryCard\<close>).\<close>

record similarity_card =
  card_memory_id :: uuid
  card_label :: string
  card_body :: string
  card_kind :: memory_kind
  card_pin :: bool
  card_score :: rat

datatype err =
    ValueError string
  | KeyError string
  | ZeroDivisionError
  | TypeError string
  | AttributeError string
  | RuntimeErr string
  | IntegrityError string
  | DataError
  | EmbeddingError
  | NonTermination
  | MemoryUnitNotFound uuid
  | MemoryCasConflict memory_unit
  | MemoryLineage uuid int nat
  | LabelConflict uuid string
  | DuplicateMemory similarity_card
  | MemoryNotFound uuid
  | RevisionConflict memory_unit
  | EmptyPatch
  | InvalidListQuery string
  | InvalidSearchQuery string
  | MemoryValidation string
  | StagedMemoryConflict string
  | QueueNotFound string
  | QueueConflict string
  | QueueValidation string
  | SymphonyConflict string
  | SymphonyNotFound string
  | InjectionNotFound
  | InvalidCommitChoices string
  | OutcomeConflict
  | DecisionState string
  | FrozenMemoryPayload string
  | ThreadAlreadyPrepared uuid
  | ThreadIdentityConflict uuid
  | InvalidRescoreState string
  | PrepareConflict
  | RetryTransaction
  | ScorerConfiguration string
  | AnnotationTargetNotFound string
  | AnnotationFingerprintMismatch string
  | AnnotationConflict string

section \<open>The environment and the database\<close>

text \<open>A validated axis definition (\<open>AxisNomination\<close> of \<open>src/spine/inject/axes.py\<close>): the product of two
  named features with a weight.\<close>

record axis_nomination =
  ax_name :: string
  ax_label :: string
  ax_inputs :: "string \<times> string"
  ax_weight :: rat
  ax_action :: string
  ax_rationale :: string
  ax_provenance :: dict

record env =
  time_ms :: "nat \<Rightarrow> nat"
  randbits80 :: "nat \<Rightarrow> nat"
  gen_random_uuid :: "nat \<Rightarrow> uuid"
  clock :: "nat \<Rightarrow> timestamp"
  embed :: "string \<Rightarrow> rat list list option"
  embed_model :: string
  cosine_distance :: "rat list \<Rightarrow> rat list \<Rightarrow> rat"
  token_count :: "string \<Rightarrow> nat"
  sha256_hex :: "string \<Rightarrow> string"
  isoformat :: "timestamp \<Rightarrow> string"
  fl64 :: "rat \<Rightarrow> rat"
  fl32 :: "rat \<Rightarrow> rat"
  sqrt64 :: "rat \<Rightarrow> rat"
  exp2 :: "rat \<Rightarrow> rat"
  float_decimal :: "rat \<Rightarrow> rat"
  axis_validate :: "json \<Rightarrow> axis_nomination option"
  fts_match :: "string list \<Rightarrow> memory_unit \<Rightarrow> bool"
  fts_rank :: "string list \<Rightarrow> memory_unit \<Rightarrow> rat"

record db =
  memory_units :: "memory_unit list"
  memory_revisions :: "memory_revision list"
  memory_edges :: "memory_edge list"
  queue_items :: "approval_queue_item list"
  approval_decisions :: "approval_decision list"
  curator_triggers :: "curator_trigger_state list"
  curator_verdicts :: "curator_verdict list"
  curator_actions :: "curator_action list"
  run_resolutions :: "symphony_run_resolution list"
  threads :: "thread_row list"
  injection_events :: "injection_event list"
  event_annotations :: "injection_event_annotation list"
  scorer_configs :: "scorer_config_row list"
  readings :: nat
  txn_now :: timestamp

type_synonym 'a op = "(db, err, 'a) act"

text \<open>\<open>1.0 - embedding.cosine_distance(v)\<close>\<close>

definition cosine_score :: "env \<Rightarrow> rat list \<Rightarrow> rat list \<Rightarrow> rat" where
  "cosine_score \<epsilon> a v = fl64 \<epsilon> (1 - cosine_distance \<epsilon> a v)"

definition empty_db :: db where
  "empty_db = \<lparr>memory_units = [], memory_revisions = [], memory_edges = [], queue_items = [],
     approval_decisions = [], curator_triggers = [], curator_verdicts = [], curator_actions = [], run_resolutions = [], threads = [],
     injection_events = [], event_annotations = [], scorer_configs = [], readings = 0, txn_now = 0\<rparr>"

text \<open>The n-th reading of the environment.\<close>

definition draw :: "nat op" where
  "draw = (\<lambda>s. (Inr (readings s), s\<lparr>readings := Suc (readings s)\<rparr>))"

definition mint :: "env \<Rightarrow> string op" where
  "mint \<epsilon> = bnd draw (\<lambda>n. ret (mint_ulid (time_ms \<epsilon> n) (randbits80 \<epsilon> n)))"

definition clock_timestamp :: "env \<Rightarrow> timestamp op" where
  "clock_timestamp \<epsilon> = bnd draw (\<lambda>n. ret (clock \<epsilon> n))"

definition rollback :: "db \<Rightarrow> db \<Rightarrow> db" where
  "rollback s t = s\<lparr>readings := readings t\<rparr>"

definition savepoint :: "'a op \<Rightarrow> 'a op" where
  "savepoint m = atomic rollback m"

definition transaction :: "env \<Rightarrow> 'a op \<Rightarrow> 'a op" where
  "transaction \<epsilon> m = atomic rollback
     (bnd (clock_timestamp \<epsilon>) (\<lambda>n. sqn (modify (\<lambda>s. s\<lparr>txn_now := n\<rparr>)) m))"

text \<open>Two states whose tables agree.\<close>

definition same_tables :: "db \<Rightarrow> db \<Rightarrow> bool" where
  "same_tables s t \<longleftrightarrow> memory_units t = memory_units s \<and>
     memory_revisions t = memory_revisions s \<and> memory_edges t = memory_edges s \<and>
     queue_items t = queue_items s \<and> approval_decisions t = approval_decisions s \<and>
     curator_triggers t = curator_triggers s \<and> curator_verdicts t = curator_verdicts s \<and>
     curator_actions t = curator_actions s \<and> run_resolutions t = run_resolutions s \<and>
     threads t = threads s \<and> injection_events t = injection_events s \<and>
     event_annotations t = event_annotations s \<and> scorer_configs t = scorer_configs s"

section \<open>Selections\<close>

definition unit_by_id :: "db \<Rightarrow> uuid \<Rightarrow> memory_unit option" where
  "unit_by_id s i = find (\<lambda>u. mu_id u = i) (memory_units s)"

text \<open>The revision rows of a memory that carry a given revision number.\<close>

definition revisions_at :: "db \<Rightarrow> uuid \<Rightarrow> int \<Rightarrow> memory_revision list" where
  "revisions_at s i n =
     filter (\<lambda>r. rev_memory_id r = i \<and> rev_revision r = Some n) (memory_revisions s)"

definition item_by_uid :: "db \<Rightarrow> string \<Rightarrow> approval_queue_item option" where
  "item_by_uid s i = find (\<lambda>q. qi_item_uid q = i) (queue_items s)"

definition decision_for :: "db \<Rightarrow> string \<Rightarrow> approval_decision option" where
  "decision_for s i = find (\<lambda>d. ad_item_uid d = i) (approval_decisions s)"

end
