(* ===== verification/Store.thy ===== *)
theory Store
  imports Tables
begin

text \<open>
  Writes to the tables, each with the constraints the schema attaches to it
  (\<open>src/spine/db/models.py\<close>) and the trigger that counts curator work
  (\<open>nocturne_tick_curator_write\<close> of migration 0019), and the embedding call every service
  makes (\<open>embed_one\<close>). The second half holds the frame facts: which tables a write leaves
  alone, what it appends, and the invariants the constraints alone maintain.
\<close>

section \<open>The curator work counter\<close>

text \<open>\<open>COALESCE((stats->>'removals')::bigint, 0)\<close>. The services store integers there; a JSON
  value that is no integer makes the cast fail.\<close>

definition removals_of :: "dict \<Rightarrow> err + int" where
  "removals_of d = (case dget d ''removals'' of
       None \<Rightarrow> Inr 0
     | Some JNull \<Rightarrow> Inr 0
     | Some (JInt n) \<Rightarrow> Inr n
     | Some _ \<Rightarrow> Inl DataError)"

definition bump_trigger :: "string \<Rightarrow> int \<Rightarrow> int \<Rightarrow> timestamp \<Rightarrow>
    curator_trigger_state list \<Rightarrow> curator_trigger_state list" where
  "bump_trigger p w q now ts =
     (if p \<in> ct_principal_id ` set ts then
        map (\<lambda>t. if ct_principal_id t = p
                 then t\<lparr>ct_admitted_writes := ct_admitted_writes t + w,
                        ct_pressure_events := ct_pressure_events t + q,
                        ct_updated_at := now\<rparr>
                 else t) ts
      else ts @ [\<lparr>ct_principal_id = p, ct_admitted_writes = w, ct_last_run_writes = 0,
                  ct_pressure_events = q, ct_last_run_pressure = 0, ct_updated_at = now\<rparr>])"

definition tick_curator_write :: "memory_unit option \<Rightarrow> memory_unit \<Rightarrow> unit op" where
  "tick_curator_write old new =
     bnd (case old of
            None \<Rightarrow> ret 0
          | Some o' \<Rightarrow>
              if mu_status new = Active then
                bnd (lift (removals_of (mu_stats new))) (\<lambda>a.
                bnd (lift (removals_of (mu_stats o'))) (\<lambda>b. ret (max (a - b) 0)))
              else ret 0) (\<lambda>pressure.
     let write = (if mu_status new = Active \<and>
                     (case old of None \<Rightarrow> True | Some o' \<Rightarrow> mu_status o' \<noteq> Active)
                  then 1 else 0 :: int)
     in if write > 0 \<or> pressure > 0
        then modify (\<lambda>s. s\<lparr>curator_triggers :=
               bump_trigger (mu_principal_id new) write pressure (txn_now s) (curator_triggers s)\<rparr>)
        else ret ())"

section \<open>memory_unit\<close>

definition label_taken :: "memory_unit list \<Rightarrow> memory_unit \<Rightarrow> bool" where
  "label_taken us u \<longleftrightarrow> mu_status u = Active \<and>
     (\<exists>v \<in> set us. mu_id v \<noteq> mu_id u \<and> mu_status v = Active \<and>
        mu_principal_id v = mu_principal_id u \<and> mu_label v = mu_label u)"

definition check_unit :: "memory_unit list \<Rightarrow> memory_unit \<Rightarrow> unit op" where
  "check_unit us u =
     sqn (raise_if ((mu_run_id u = None) \<noteq> (mu_origin_agent u = None))
            (IntegrityError ''memory_unit_run_lineage_pair_check''))
    (sqn (raise_if (mu_status u = Staged \<and> mu_run_id u = None)
            (IntegrityError ''memory_unit_staged_lineage_check''))
         (raise_if (label_taken us u) (IntegrityError ''memory_unit_active_label'')))"

definition insert_unit :: "memory_unit \<Rightarrow> unit op" where
  "insert_unit u =
     bnd (gets memory_units) (\<lambda>us.
     sqn (raise_if (mu_id u \<in> mu_id ` set us) (IntegrityError ''memory_unit_pkey''))
    (sqn (check_unit us u)
    (sqn (modify (\<lambda>s. s\<lparr>memory_units := memory_units s @ [u]\<rparr>))
         (tick_curator_write None u))))"

text \<open>Overwrite the row of a unit. The caller has read \<open>old\<close> from the table.\<close>

definition replace_unit :: "memory_unit \<Rightarrow> memory_unit list \<Rightarrow> memory_unit list" where
  "replace_unit u us = map (\<lambda>v. if mu_id v = mu_id u then u else v) us"

definition update_unit :: "memory_unit \<Rightarrow> memory_unit \<Rightarrow> unit op" where
  "update_unit old u =
     bnd (gets memory_units) (\<lambda>us.
     sqn (raise_if (mu_revision u \<ge> 2 ^ 31) DataError)
    (sqn (check_unit us u)
    (sqn (modify (\<lambda>s. s\<lparr>memory_units := replace_unit u (memory_units s)\<rparr>))
         (tick_curator_write (Some old) u))))"

section \<open>memory_revision and memory_edge\<close>

definition insert_revision :: "memory_revision \<Rightarrow> unit op" where
  "insert_revision r =
     bnd (gets id) (\<lambda>s.
     sqn (raise_if (rev_uid r \<in> rev_uid ` set (memory_revisions s))
            (IntegrityError ''memory_revision_pkey''))
    (sqn (raise_if (rev_memory_id r \<notin> mu_id ` set (memory_units s))
            (IntegrityError ''memory_revision_memory_id_fkey''))
    (sqn (raise_if (case rev_parent_uid r of None \<Rightarrow> False
                    | Some p \<Rightarrow> p \<notin> rev_uid ` set (memory_revisions s))
            (IntegrityError ''memory_revision_parent_uid_fkey''))
         (modify (\<lambda>s. s\<lparr>memory_revisions := memory_revisions s @ [r]\<rparr>)))))"

definition insert_edge :: "memory_edge \<Rightarrow> unit op" where
  "insert_edge e =
     bnd (gets id) (\<lambda>s.
     sqn (raise_if (edge_uid e \<in> edge_uid ` set (memory_edges s))
            (IntegrityError ''memory_edge_pkey''))
    (sqn (raise_if (edge_from e \<notin> mu_id ` set (memory_units s) \<or>
                    edge_to e \<notin> mu_id ` set (memory_units s))
            (IntegrityError ''memory_edge_memory_fkey''))
    (sqn (raise_if (\<exists>f \<in> set (memory_edges s). edge_from f = edge_from e \<and>
                      edge_to f = edge_to e \<and> edge_type f = edge_type e)
            (IntegrityError ''memory_edge_from_memory_id_to_memory_id_edge_type_key''))
         (modify (\<lambda>s. s\<lparr>memory_edges := memory_edges s @ [e]\<rparr>)))))"

section \<open>approval_queue_item and approval_decision\<close>

definition birthplace_shape :: "approval_queue_item \<Rightarrow> bool" where
  "birthplace_shape q \<longleftrightarrow> (case qi_birthplace q of
     B_thread \<Rightarrow> qi_birthplace_thread_id q \<noteq> None \<and> qi_batch_uid q = None \<and>
       qi_source_name q = None \<and> qi_source_sha256 q = None \<and> qi_birthplace_run_id q = None \<and>
       qi_birthplace_origin_agent q = None \<and> qi_judged_context q = None \<and>
       qi_curator_run_uid q = None \<and> qi_curator_finding_uid q = None \<and>
       qi_proposal_payload q = None \<and> qi_candidate_revision q = None
   | B_seed \<Rightarrow> qi_birthplace_thread_id q = None \<and> qi_batch_uid q \<noteq> None \<and>
       qi_source_name q \<noteq> None \<and> qi_source_sha256 q \<noteq> None \<and> qi_birthplace_run_id q = None \<and>
       qi_birthplace_origin_agent q = None \<and> qi_judged_context q = None \<and>
       qi_curator_run_uid q = None \<and> qi_curator_finding_uid q = None \<and>
       qi_proposal_payload q = None \<and> qi_candidate_revision q = None
   | B_symphony \<Rightarrow> qi_birthplace_thread_id q = None \<and> qi_batch_uid q \<noteq> None \<and>
       qi_source_name q = None \<and> qi_source_sha256 q = None \<and> qi_birthplace_run_id q \<noteq> None \<and>
       qi_birthplace_origin_agent q \<noteq> None \<and> qi_judged_context q \<noteq> None \<and>
       qi_curator_run_uid q = None \<and> qi_curator_finding_uid q = None \<and>
       qi_proposal_payload q = None \<and> qi_candidate_revision q = None
   | B_curator \<Rightarrow> qi_birthplace_thread_id q = None \<and> qi_batch_uid q = None \<and>
       qi_source_name q = None \<and> qi_source_sha256 q = None \<and> qi_birthplace_run_id q = None \<and>
       qi_birthplace_origin_agent q = None \<and> qi_judged_context q = None \<and>
       qi_curator_run_uid q \<noteq> None \<and> qi_curator_finding_uid q \<noteq> None \<and>
       qi_proposal_payload q \<noteq> None \<and> qi_candidate_revision q \<noteq> None)"

definition insert_item :: "approval_queue_item \<Rightarrow> unit op" where
  "insert_item q =
     bnd (gets id) (\<lambda>s.
     sqn (raise_if (\<not> birthplace_shape q)
            (IntegrityError ''approval_queue_item_birthplace_shape_check''))
    (sqn (raise_if (qi_item_uid q \<in> qi_item_uid ` set (queue_items s))
            (IntegrityError ''approval_queue_item_pkey''))
    (sqn (raise_if (qi_candidate_memory_id q \<notin> mu_id ` set (memory_units s))
            (IntegrityError ''approval_queue_item_candidate_memory_id_fkey''))
    (sqn (raise_if (qi_curator_finding_uid q \<noteq> None \<and>
                    qi_curator_finding_uid q \<in> qi_curator_finding_uid ` set (queue_items s))
            (IntegrityError ''approval_queue_item_curator_finding_uid_key''))
    (sqn (raise_if (qi_birthplace q \<noteq> B_curator \<and>
                    (\<exists>p \<in> set (queue_items s). qi_birthplace p \<noteq> B_curator \<and>
                       qi_candidate_memory_id p = qi_candidate_memory_id q))
            (IntegrityError ''approval_queue_item_non_curator_candidate_uidx''))
         (modify (\<lambda>s. s\<lparr>queue_items := queue_items s @ [q]\<rparr>)))))))"

definition insert_decision :: "approval_decision \<Rightarrow> unit op" where
  "insert_decision d =
     bnd (gets id) (\<lambda>s.
     sqn (raise_if (ad_decision_uid d \<in> ad_decision_uid ` set (approval_decisions s))
            (IntegrityError ''approval_decision_pkey''))
    (sqn (raise_if (ad_item_uid d \<in> ad_item_uid ` set (approval_decisions s))
            (IntegrityError ''approval_decision_item_uid_key''))
    (sqn (raise_if (ad_item_uid d \<notin> qi_item_uid ` set (queue_items s))
            (IntegrityError ''approval_decision_item_uid_fkey''))
         (modify (\<lambda>s. s\<lparr>approval_decisions := approval_decisions s @ [d]\<rparr>)))))"

text \<open>\<open>UPDATE approval_queue_item SET state, decided_at WHERE item_uid RETURNING\<close>.\<close>

definition set_item_state :: "string \<Rightarrow> queue_state \<Rightarrow> unit op" where
  "set_item_state i st = modify (\<lambda>s. s\<lparr>queue_items :=
     map (\<lambda>q. if qi_item_uid q = i
              then q\<lparr>qi_state := st, qi_decided_at := Some (txn_now s)\<rparr> else q) (queue_items s)\<rparr>)"

section \<open>Embedding\<close>

definition embedding_dimensions :: nat where
  "embedding_dimensions = 1536"

definition embedding :: "env \<Rightarrow> string \<Rightarrow> rat list option" where
  "embedding \<epsilon> t = (case embed \<epsilon> t of
       Some [v] \<Rightarrow> if length v \<noteq> embedding_dimensions \<or>
                      fl64 \<epsilon> (sum_list (map (\<lambda>x. fl64 \<epsilon> (x * x)) v)) = 0
                    then None else Some v
     | _ \<Rightarrow> None)"

definition embed_one :: "env \<Rightarrow> string \<Rightarrow> rat list op" where
  "embed_one \<epsilon> t = (case embedding \<epsilon> t of None \<Rightarrow> raise EmbeddingError | Some v \<Rightarrow> ret v)"

text \<open>An environment on which the theorems are exercised: every clock counts the readings, every text
  embeds as the same unit vector, and rounding is exact.\<close>

definition sample_env :: env where
  "sample_env = \<lparr>time_ms = \<lambda>n. n, randbits80 = \<lambda>n. n, gen_random_uuid = \<lambda>n. n + 1000,
     clock = int, embed = \<lambda>t. Some [replicate 1536 1], embed_model = ''sample'',
     cosine_distance = \<lambda>a b. if a = b then 0 else 1, token_count = length,
     sha256_hex = \<lambda>t. t, isoformat = \<lambda>t. show_nat (nat t), fl64 = \<lambda>x. x, fl32 = \<lambda>x. x,
     sqrt64 = \<lambda>x. x, exp2 = \<lambda>x. 1, float_decimal = \<lambda>x. x, axis_validate = \<lambda>j. None,
     fts_match = \<lambda>ts u. False, fts_rank = \<lambda>ts u. 0\<rparr>"

lemma sample_env_sel [simp]:
  "time_ms sample_env = (\<lambda>n. n)" "randbits80 sample_env = (\<lambda>n. n)"
  "gen_random_uuid sample_env = (\<lambda>n. n + 1000)" "clock sample_env = int"
  "embed_model sample_env = ''sample''" "token_count sample_env = length"
  "cosine_distance sample_env = (\<lambda>a b. if a = b then 0 else 1)"
  "sha256_hex sample_env = (\<lambda>t. t)" "isoformat sample_env = (\<lambda>t. show_nat (nat t))"
  "fl64 sample_env = (\<lambda>x. x)" "fl32 sample_env = (\<lambda>x. x)" "sqrt64 sample_env = (\<lambda>x. x)"
  "exp2 sample_env = (\<lambda>x. 1)" "float_decimal sample_env = (\<lambda>x. x)"
  "fts_match sample_env = (\<lambda>ts u. False)" "fts_rank sample_env = (\<lambda>ts u. 0)"
  by (simp_all add: sample_env_def)

lemma sample_embedding [simp]: "embedding sample_env t = Some (replicate 1536 1)"
  by (simp add: embedding_def sample_env_def embedding_dimensions_def map_replicate sum_list_replicate)

section \<open>What a successful write does\<close>

text \<open>Each fact names the state reached. The trigger can only have changed its own counters.\<close>

lemma triggers_refl [simp]: "\<exists>ct. s = s\<lparr>curator_triggers := ct\<rparr>"
  by (rule exI [of _ "curator_triggers s"]) simp

lemma tick_frame:
  "tick_curator_write old new s = (r, t) \<Longrightarrow> \<exists>ct. t = s\<lparr>curator_triggers := ct\<rparr>"
  by (auto simp: tick_curator_write_def act_defs Let_def split: option.splits if_splits sum.splits prod.splits)

lemma check_unit_Inr:
  "check_unit us u s = (Inr x, t) \<longleftrightarrow> t = s \<and> (mu_run_id u = None \<longleftrightarrow> mu_origin_agent u = None) \<and>
     (mu_status u = Staged \<longrightarrow> mu_run_id u \<noteq> None) \<and> \<not> label_taken us u"
  by (auto simp: check_unit_def act_iff)

lemma insert_unit_Inr:
  assumes "insert_unit u s = (Inr x, t)"
  shows "\<exists>ct. t = s\<lparr>memory_units := memory_units s @ [u], curator_triggers := ct\<rparr>"
    and "mu_id u \<notin> mu_id ` set (memory_units s)"
    and "\<not> label_taken (memory_units s) u"
    and "mu_status u = Staged \<longrightarrow> mu_run_id u \<noteq> None"
  using assms
  by (auto simp: insert_unit_def act_iff check_unit_Inr dest!: tick_frame)

lemma update_unit_Inr:
  assumes "update_unit old u s = (Inr x, t)"
  shows "\<exists>ct. t = s\<lparr>memory_units := replace_unit u (memory_units s), curator_triggers := ct\<rparr>"
    and "\<not> label_taken (memory_units s) u" and "mu_revision u < 2 ^ 31"
  using assms by (auto simp: update_unit_def act_iff check_unit_Inr dest!: tick_frame)

lemma insert_revision_Inr:
  "insert_revision r s = (Inr x, t) \<longleftrightarrow>
     t = s\<lparr>memory_revisions := memory_revisions s @ [r]\<rparr> \<and>
     rev_uid r \<notin> rev_uid ` set (memory_revisions s) \<and>
     rev_memory_id r \<in> mu_id ` set (memory_units s) \<and>
     (\<forall>p. rev_parent_uid r = Some p \<longrightarrow> p \<in> rev_uid ` set (memory_revisions s))"
  by (auto simp: insert_revision_def act_iff split: option.splits)

lemma insert_edge_Inr:
  "insert_edge e s = (Inr x, t) \<longleftrightarrow>
     t = s\<lparr>memory_edges := memory_edges s @ [e]\<rparr> \<and>
     edge_uid e \<notin> edge_uid ` set (memory_edges s) \<and>
     edge_from e \<in> mu_id ` set (memory_units s) \<and> edge_to e \<in> mu_id ` set (memory_units s) \<and>
     \<not> (\<exists>f \<in> set (memory_edges s). edge_from f = edge_from e \<and> edge_to f = edge_to e \<and>
          edge_type f = edge_type e)"
  by (auto simp: insert_edge_def act_iff)

lemma insert_item_Inr:
  "insert_item q s = (Inr x, t) \<longleftrightarrow>
     t = s\<lparr>queue_items := queue_items s @ [q]\<rparr> \<and> birthplace_shape q \<and>
     qi_item_uid q \<notin> qi_item_uid ` set (queue_items s) \<and>
     qi_candidate_memory_id q \<in> mu_id ` set (memory_units s) \<and>
     (qi_curator_finding_uid q \<noteq> None \<longrightarrow>
        qi_curator_finding_uid q \<notin> qi_curator_finding_uid ` set (queue_items s)) \<and>
     (qi_birthplace q \<noteq> B_curator \<longrightarrow> \<not> (\<exists>p \<in> set (queue_items s).
        qi_birthplace p \<noteq> B_curator \<and> qi_candidate_memory_id p = qi_candidate_memory_id q))"
  by (auto simp: insert_item_def act_iff)

lemma insert_decision_Inr:
  "insert_decision d s = (Inr x, t) \<longleftrightarrow>
     t = s\<lparr>approval_decisions := approval_decisions s @ [d]\<rparr> \<and>
     ad_decision_uid d \<notin> ad_decision_uid ` set (approval_decisions s) \<and>
     ad_item_uid d \<notin> ad_item_uid ` set (approval_decisions s) \<and>
     ad_item_uid d \<in> qi_item_uid ` set (queue_items s)"
  by (auto simp: insert_decision_def act_iff)

lemma mint_Inr: "mint \<epsilon> s = (r, t) \<longleftrightarrow>
   r = Inr (mint_ulid (time_ms \<epsilon> (readings s)) (randbits80 \<epsilon> (readings s))) \<and> t = s\<lparr>readings := Suc (readings s)\<rparr>"
  by (auto simp: mint_def draw_def act_defs)

lemma clock_Inr: "clock_timestamp \<epsilon> s = (r, t) \<longleftrightarrow>
   r = Inr (clock \<epsilon> (readings s)) \<and> t = s\<lparr>readings := Suc (readings s)\<rparr>"
  by (auto simp: clock_timestamp_def draw_def act_defs)

lemma embed_one_Inr [act_iff]: "embed_one \<epsilon> b s = (Inr v, t) \<longleftrightarrow> t = s \<and> embedding \<epsilon> b = Some v"
  by (auto simp: embed_one_def act_iff split: option.splits)

lemma embedding_length: "embedding \<epsilon> b = Some v \<Longrightarrow> length v = embedding_dimensions"
  by (auto simp: embedding_def split: option.splits list.splits if_splits)

lemma transaction_Inr:
  "transaction \<epsilon> m s = (Inr x, t) \<longleftrightarrow>
     m (s\<lparr>readings := Suc (readings s), txn_now := clock \<epsilon> (readings s)\<rparr>) = (Inr x, t)"
  by (auto simp: transaction_def act_iff clock_Inr)

lemma transaction_Inl:
  "transaction \<epsilon> m s = (Inl e, t) \<Longrightarrow> same_tables s t"
  by (auto simp: transaction_def atomic_Inl_iff same_tables_def rollback_def)

lemma savepoint_Inr [act_iff]: "savepoint m s = (Inr x, t) \<longleftrightarrow> m s = (Inr x, t)"
  by (simp add: savepoint_def act_iff)

end
