(* ===== verification/Heads.thy ===== *)
theory Heads
  imports Store
begin

text \<open>
  Compare-and-swap writes of memory heads (\<open>src/spine/db/memory.py\<close>): the allowlisted changes, the
  update guarded by the expected revision, the revision row appended with it, and the
  tombstone. The main fact is the lineage invariant: the numbered revisions of a head are
  exactly \<open>1, \<dots>, revision\<close>, once each, every one names its predecessor as its parent, and the
  newest carries the head's label and body. It holds after every head write and is what the
  other services build on.
\<close>

section \<open>Changes\<close>

text \<open>\<open>None\<close> is the unset value; a nullable column is set to \<open>Some None\<close> or \<open>Some (Some x)\<close>.\<close>

record memory_unit_changes =
  ch_label :: "string option"
  ch_body :: "string option"
  ch_kind :: "memory_kind option"
  ch_keywords :: "string list option"
  ch_embedding :: "rat list option"
  ch_embedding_model :: "string option"
  ch_project_key :: "string option option"
  ch_thread_origin :: "string option option"
  ch_origin_thread_id :: "uuid option option"
  ch_origin_path :: "string option option"
  ch_origin_location :: "string option option"
  ch_pin :: "bool option"
  ch_status :: "memory_status option"
  ch_stats :: "dict option"
  ch_bias :: "rat option"

definition no_changes :: memory_unit_changes where
  "no_changes = \<lparr>ch_label = None, ch_body = None, ch_kind = None, ch_keywords = None,
     ch_embedding = None, ch_embedding_model = None, ch_project_key = None,
     ch_thread_origin = None, ch_origin_thread_id = None, ch_origin_path = None,
     ch_origin_location = None, ch_pin = None, ch_status = None, ch_stats = None,
     ch_bias = None\<rparr>"

definition status_change :: "memory_status \<Rightarrow> memory_unit_changes" where
  "status_change st = no_changes\<lparr>ch_status := Some st\<rparr>"

definition set_or :: "'a option \<Rightarrow> 'a \<Rightarrow> 'a" where
  "set_or v old = (case v of None \<Rightarrow> old | Some x \<Rightarrow> x)"

lemma set_or_simps [simp]: "set_or None x = x" "set_or (Some y) x = y"
  by (simp_all add: set_or_def)

text \<open>\<open>as_values\<close> writes only the fields that were set; \<open>bias\<close> is a REAL column and a vector has
  REAL components.\<close>

definition apply_changes :: "env \<Rightarrow> memory_unit_changes \<Rightarrow> memory_unit \<Rightarrow> memory_unit" where
  "apply_changes \<epsilon> c u = u\<lparr>
     mu_label := set_or (ch_label c) (mu_label u),
     mu_body := set_or (ch_body c) (mu_body u),
     mu_kind := set_or (ch_kind c) (mu_kind u),
     mu_keywords := set_or (ch_keywords c) (mu_keywords u),
     mu_embedding := set_or (map_option (map (fl32 \<epsilon>)) (ch_embedding c)) (mu_embedding u),
     mu_embedding_model := set_or (ch_embedding_model c) (mu_embedding_model u),
     mu_project_key := set_or (ch_project_key c) (mu_project_key u),
     mu_thread_origin := set_or (ch_thread_origin c) (mu_thread_origin u),
     mu_origin_thread_id := set_or (ch_origin_thread_id c) (mu_origin_thread_id u),
     mu_origin_path := set_or (ch_origin_path c) (mu_origin_path u),
     mu_origin_location := set_or (ch_origin_location c) (mu_origin_location u),
     mu_pin := set_or (ch_pin c) (mu_pin u),
     mu_status := set_or (ch_status c) (mu_status u),
     mu_stats := set_or (ch_stats c) (mu_stats u),
     mu_bias := set_or (map_option (fl32 \<epsilon>) (ch_bias c)) (mu_bias u)\<rparr>"

section \<open>The compare-and-swap update\<close>

record cas_update =
  cu_memory_id :: uuid
  cu_expected_revision :: int
  cu_rev_uid :: string
  cu_editor :: string
  cu_origin_machine_id :: string
  cu_reason :: string
  cu_changes :: memory_unit_changes

definition bumped_head :: "env \<Rightarrow> memory_unit_changes \<Rightarrow> timestamp \<Rightarrow> memory_unit \<Rightarrow> memory_unit" where
  "bumped_head \<epsilon> c now u =
     (apply_changes \<epsilon> c u)\<lparr>mu_revision := mu_revision u + 1, mu_updated_at := now\<rparr>"

definition cas_revision :: "cas_update \<Rightarrow> memory_revision \<Rightarrow> timestamp \<Rightarrow> memory_unit \<Rightarrow> memory_revision" where
  "cas_revision c parent now u = \<lparr>rev_uid = cu_rev_uid c, rev_parent_uid = Some (rev_uid parent),
     rev_memory_id = cu_memory_id c, rev_revision = Some (mu_revision u), rev_body = mu_body u,
     rev_label = mu_label u, rev_editor = cu_editor c,
     rev_origin_machine_id = cu_origin_machine_id c, rev_reason = cu_reason c, rev_ts = now\<rparr>"

definition cas_update_inner :: "env \<Rightarrow> cas_update \<Rightarrow> memory_unit op" where
  "cas_update_inner \<epsilon> c =
     sqn (raise_if (cu_changes c = no_changes)
            (ValueError ''a CAS update requires at least one changed field''))
    (bnd (gets (\<lambda>s. find (\<lambda>u. mu_id u = cu_memory_id c \<and> mu_revision u = cu_expected_revision c)
                      (memory_units s))) (\<lambda>row.
     case row of
       None \<Rightarrow>
         bnd (gets (\<lambda>s. unit_by_id s (cu_memory_id c))) (\<lambda>current.
         case current of
           None \<Rightarrow> raise (MemoryUnitNotFound (cu_memory_id c))
         | Some u \<Rightarrow> raise (MemoryCasConflict u))
     | Some u \<Rightarrow>
         bnd (gets txn_now) (\<lambda>now.
         let u' = bumped_head \<epsilon> (cu_changes c) now u in
         sqn (update_unit u u')
        (bnd (gets (\<lambda>s. revisions_at s (cu_memory_id c) (cu_expected_revision c))) (\<lambda>ps.
         case ps of
           [p] \<Rightarrow> sqn (insert_revision (cas_revision c p now u')) (ret u')
         | _ \<Rightarrow> raise (MemoryLineage (cu_memory_id c) (cu_expected_revision c) (length ps)))))))"

definition cas_update_memory_unit :: "env \<Rightarrow> cas_update \<Rightarrow> memory_unit op" where
  "cas_update_memory_unit \<epsilon> c =
     sqn (raise_if (\<not> ulid_pattern (cu_rev_uid c))
            (ValueError ''rev_uid must be a canonical 26-character ULID''))
         (savepoint (cas_update_inner \<epsilon> c))"

definition tombstone_memory_unit ::
  "env \<Rightarrow> uuid \<Rightarrow> int \<Rightarrow> string \<Rightarrow> string \<Rightarrow> string \<Rightarrow> string \<Rightarrow> memory_unit op" where
  "tombstone_memory_unit \<epsilon> i n uid editor machine reason =
     cas_update_memory_unit \<epsilon> \<lparr>cu_memory_id = i, cu_expected_revision = n, cu_rev_uid = uid,
       cu_editor = editor, cu_origin_machine_id = machine, cu_reason = reason,
       cu_changes = status_change Tombstoned\<rparr>"

section \<open>The lineage invariant\<close>

definition head_lineage :: "db \<Rightarrow> memory_unit \<Rightarrow> bool" where
  "head_lineage s u \<longleftrightarrow> 1 \<le> mu_revision u \<and>
     (\<forall>n. n < 1 \<or> mu_revision u < n \<longrightarrow> revisions_at s (mu_id u) n = []) \<and>
     (\<forall>n. 1 \<le> n \<and> n \<le> mu_revision u \<longrightarrow> (\<exists>r. revisions_at s (mu_id u) n = [r])) \<and>
     (\<forall>r r' n. 1 \<le> n \<and> r \<in> set (revisions_at s (mu_id u) n) \<and>
        r' \<in> set (revisions_at s (mu_id u) (n + 1)) \<longrightarrow> rev_parent_uid r' = Some (rev_uid r)) \<and>
     (\<forall>r \<in> set (revisions_at s (mu_id u) (mu_revision u)).
        rev_body r = mu_body u \<and> rev_label r = mu_label u)"

definition lineage_ok :: "db \<Rightarrow> bool" where
  "lineage_ok s \<longleftrightarrow> distinct (map mu_id (memory_units s)) \<and>
     distinct (map rev_uid (memory_revisions s)) \<and>
     (\<forall>r \<in> set (memory_revisions s). rev_memory_id r \<in> mu_id ` set (memory_units s)) \<and>
     (\<forall>u \<in> set (memory_units s). head_lineage s u)"

section \<open>Inversion of the update\<close>

lemma mu_id_bumped [simp]: "mu_id (bumped_head \<epsilon> c n u) = mu_id u"
  by (simp add: bumped_head_def apply_changes_def)

lemma cas_success:
  assumes "cas_update_memory_unit \<epsilon> c s = (Inr u', t)"
  obtains u p ct where
    "find (\<lambda>u. mu_id u = cu_memory_id c \<and> mu_revision u = cu_expected_revision c)
       (memory_units s) = Some u"
    "u' = bumped_head \<epsilon> (cu_changes c) (txn_now s) u"
    "revisions_at s (cu_memory_id c) (cu_expected_revision c) = [p]"
    "t = s\<lparr>memory_units := replace_unit u' (memory_units s),
           memory_revisions := memory_revisions s @ [cas_revision c p (txn_now s) u'],
           curator_triggers := ct\<rparr>"
    "cu_rev_uid c \<notin> rev_uid ` set (memory_revisions s)"
    "\<not> label_taken (memory_units s) u'" "mu_revision u' < 2 ^ 31"
    "ulid_pattern (cu_rev_uid c)" "cu_changes c \<noteq> no_changes"
proof -
  from assms obtain u w p where
    f: "find (\<lambda>u. mu_id u = cu_memory_id c \<and> mu_revision u = cu_expected_revision c)
          (memory_units s) = Some u"
    and u': "u' = bumped_head \<epsilon> (cu_changes c) (txn_now s) u"
    and w: "update_unit u u' s = (Inr (), w)"
    and p: "revisions_at w (cu_memory_id c) (cu_expected_revision c) = [p]"
    and r: "insert_revision (cas_revision c p (txn_now s) u') w = (Inr (), t)"
    and ul: "ulid_pattern (cu_rev_uid c)" "cu_changes c \<noteq> no_changes"
    by (auto simp: cas_update_memory_unit_def cas_update_inner_def act_iff Let_def)
  from update_unit_Inr [OF w] obtain ct where
    wf: "w = s\<lparr>memory_units := replace_unit u' (memory_units s), curator_triggers := ct\<rparr>"
    and lab: "\<not> label_taken (memory_units s) u'" "mu_revision u' < 2 ^ 31" by blast
  from p have p': "revisions_at s (cu_memory_id c) (cu_expected_revision c) = [p]"
    by (simp add: wf revisions_at_def)
  from r have "t = s\<lparr>memory_units := replace_unit u' (memory_units s),
           memory_revisions := memory_revisions s @ [cas_revision c p (txn_now s) u'],
           curator_triggers := ct\<rparr>" and "cu_rev_uid c \<notin> rev_uid ` set (memory_revisions s)"
    by (auto simp: insert_revision_Inr wf cas_revision_def)
  with f u' p' lab ul show ?thesis by (intro that)
qed

lemma unit_by_id_iff:
  "distinct (map mu_id (memory_units s)) \<Longrightarrow>
     unit_by_id s i = Some u \<longleftrightarrow> u \<in> set (memory_units s) \<and> mu_id u = i"
  unfolding unit_by_id_def by (rule find_distinct_key)

lemma cas_stale:
  assumes "cu_changes c \<noteq> no_changes" and "ulid_pattern (cu_rev_uid c)"
    and "unit_by_id s (cu_memory_id c) = Some u" and "distinct (map mu_id (memory_units s))"
    and "mu_revision u \<noteq> cu_expected_revision c"
  shows "cas_update_memory_unit \<epsilon> c s = (Inl (MemoryCasConflict u), s)"
proof -
  from assms(3,4,5) have "find (\<lambda>u. mu_id u = cu_memory_id c \<and> mu_revision u = cu_expected_revision c)
       (memory_units s) = None"
    by (auto simp: find_None_iff unit_by_id_iff distinct_map) (metis inj_onD)
  with assms show ?thesis
    by (simp add: cas_update_memory_unit_def cas_update_inner_def savepoint_def act_defs rollback_def)
qed

lemma cas_missing:
  assumes "cu_changes c \<noteq> no_changes" and "ulid_pattern (cu_rev_uid c)"
    and "unit_by_id s (cu_memory_id c) = None"
  shows "cas_update_memory_unit \<epsilon> c s = (Inl (MemoryUnitNotFound (cu_memory_id c)), s)"
proof -
  from assms(3) have "find (\<lambda>u. mu_id u = cu_memory_id c \<and> mu_revision u = cu_expected_revision c)
       (memory_units s) = None"
    by (auto simp: find_None_iff unit_by_id_def)
  with assms show ?thesis
    by (simp add: cas_update_memory_unit_def cas_update_inner_def savepoint_def act_defs rollback_def)
qed

lemma cas_error_keeps_tables:
  "cas_update_memory_unit \<epsilon> c s = (Inl e, t) \<Longrightarrow> same_tables s t"
  by (auto simp: cas_update_memory_unit_def savepoint_def act_Inl_iff act_iff same_tables_def rollback_def)

section \<open>The update keeps the lineage\<close>

lemma map_id_replace_unit [simp]: "map mu_id (replace_unit u us) = map mu_id us"
  by (induction us) (auto simp: replace_unit_def)

lemma set_replace_unit:
  "mu_id u \<in> mu_id ` set us \<Longrightarrow>
     set (replace_unit u us) = insert u {v \<in> set us. mu_id v \<noteq> mu_id u}"
  by (auto simp: replace_unit_def)

lemma image_id_replace_unit [simp]: "mu_id ` set (replace_unit u us) = mu_id ` set us"
  by (metis list.set_map map_id_replace_unit)

lemma revisions_at_snoc:
  "revisions_at (s\<lparr>memory_units := us, memory_revisions := memory_revisions s @ [r], curator_triggers := ct\<rparr>) i n =
     revisions_at s i n @ (if rev_memory_id r = i \<and> rev_revision r = Some n then [r] else [])"
  by (simp add: revisions_at_def)

lemma cas_keeps_lineage:
  assumes "cas_update_memory_unit \<epsilon> c s = (Inr u', t)" and ok: "lineage_ok s"
  shows "lineage_ok t"
proof -
  from assms(1) obtain u p ct where
    f: "find (\<lambda>u. mu_id u = cu_memory_id c \<and> mu_revision u = cu_expected_revision c)
          (memory_units s) = Some u"
    and u': "u' = bumped_head \<epsilon> (cu_changes c) (txn_now s) u"
    and p: "revisions_at s (cu_memory_id c) (cu_expected_revision c) = [p]"
    and t: "t = s\<lparr>memory_units := replace_unit u' (memory_units s),
           memory_revisions := memory_revisions s @ [cas_revision c p (txn_now s) u'],
           curator_triggers := ct\<rparr>"
    and fresh: "cu_rev_uid c \<notin> rev_uid ` set (memory_revisions s)"
    by (rule cas_success)
  let ?i = "cu_memory_id c" and ?n = "cu_expected_revision c"
  from f have u: "u \<in> set (memory_units s)" "mu_id u = ?i" "mu_revision u = ?n"
    by (auto dest: find_Some_set)
  have u'n: "mu_id u' = ?i" "mu_revision u' = ?n + 1"
    using u by (simp_all add: u' bumped_head_def apply_changes_def)
  let ?r = "cas_revision c p (txn_now s) u'"
  have at: "revisions_at t j m = revisions_at s j m @ (if j = ?i \<and> m = ?n + 1 then [?r] else [])" for j m
    by (auto simp: t revisions_at_snoc cas_revision_def u'n)
  from ok u have lu: "head_lineage s u" by (simp add: lineage_ok_def)
  have "head_lineage t v" if "v \<in> set (memory_units s)" "mu_id v \<noteq> ?i" for v
    using that ok by (auto simp: lineage_ok_def head_lineage_def at)
  moreover have "head_lineage t u'"
    using lu u p unfolding head_lineage_def
    by (auto simp: at u'n) (auto simp: cas_revision_def, blast)
  moreover have "set (memory_units t) = insert u' {v \<in> set (memory_units s). mu_id v \<noteq> ?i}"
    using u u'n set_replace_unit [of u' "memory_units s"] by (force simp: t)
  ultimately have "\<forall>v \<in> set (memory_units t). head_lineage t v" by auto
  moreover have "distinct (map mu_id (memory_units t))"
    using ok by (simp add: t lineage_ok_def)
  moreover have "distinct (map rev_uid (memory_revisions t))"
    using ok fresh by (simp add: t lineage_ok_def cas_revision_def)
  moreover have "\<forall>r \<in> set (memory_revisions t). rev_memory_id r \<in> mu_id ` set (memory_units t)"
    using ok u by (force simp: t lineage_ok_def cas_revision_def image_iff)
  ultimately show ?thesis by (simp add: lineage_ok_def)
qed

section \<open>Invariants of the whole database and safe steps\<close>

text \<open>No principal has two active heads with one label.\<close>

definition labels_ok :: "db \<Rightarrow> bool" where
  "labels_ok s \<longleftrightarrow> (\<forall>u \<in> set (memory_units s). \<not> label_taken (memory_units s) u)"

text \<open>A queue item is pending exactly as long as no decision is recorded for it, and afterwards
  its state is the recorded decision.\<close>

definition item_settled :: "db \<Rightarrow> approval_queue_item \<Rightarrow> bool" where
  "item_settled s q \<longleftrightarrow> (case decision_for s (qi_item_uid q) of
       None \<Rightarrow> qi_state q = Q_pending \<and> qi_decided_at q = None
     | Some d \<Rightarrow> qi_decided_at q \<noteq> None \<and>
         qi_state q = (if ad_decision d = Approve then Q_approved else Q_rejected))"

definition queue_ok :: "db \<Rightarrow> bool" where
  "queue_ok s \<longleftrightarrow> distinct (map qi_item_uid (queue_items s)) \<and>
     distinct (map ad_item_uid (approval_decisions s)) \<and>
     (\<forall>d \<in> set (approval_decisions s). ad_item_uid d \<in> qi_item_uid ` set (queue_items s)) \<and>
     (\<forall>q \<in> set (queue_items s). birthplace_shape q \<and>
        qi_candidate_memory_id q \<in> mu_id ` set (memory_units s) \<and> item_settled s q)"

definition db_ok :: "db \<Rightarrow> bool" where
  "db_ok s \<longleftrightarrow> lineage_ok s \<and> labels_ok s \<and> queue_ok s"

text \<open>Nothing recorded is lost. Revisions, edges, decisions, verdicts, curator actions, resolutions of runs,
  annotations and scorer configurations only gain rows. The rows of the other tables stay too, in order: an
  injection event may only have its outcome written, never taken back to none; a queue item is only settled, and
  never pending again; a thread only gets its snapshot stamped; a head keeps its row, and its texts are its
  revisions.\<close>

definition event_kept :: "injection_event \<Rightarrow> injection_event \<Rightarrow> bool" where
  "event_kept e e' \<longleftrightarrow> e' = e\<lparr>ev_outcome := ev_outcome e'\<rparr> \<and> (ev_outcome e \<noteq> None \<longrightarrow> ev_outcome e' \<noteq> None)"

definition item_kept :: "approval_queue_item \<Rightarrow> approval_queue_item \<Rightarrow> bool" where
  "item_kept q q' \<longleftrightarrow> q' = q\<lparr>qi_state := qi_state q', qi_decided_at := qi_decided_at q'\<rparr> \<and>
     (qi_state q \<noteq> Q_pending \<longrightarrow> qi_state q' \<noteq> Q_pending) \<and>
     (qi_decided_at q \<noteq> None \<longrightarrow> qi_decided_at q' \<noteq> None)"

definition thread_kept :: "thread_row \<Rightarrow> thread_row \<Rightarrow> bool" where
  "thread_kept h h' \<longleftrightarrow> h' = h\<lparr>th_snapshot_ts := th_snapshot_ts h'\<rparr> \<and>
     (th_snapshot_ts h \<noteq> None \<longrightarrow> th_snapshot_ts h' \<noteq> None)"

definition append_only :: "db \<Rightarrow> db \<Rightarrow> bool" where
  "append_only s t \<longleftrightarrow>
     (\<exists>xs. memory_revisions t = memory_revisions s @ xs) \<and>
     (\<exists>xs. memory_edges t = memory_edges s @ xs) \<and>
     (\<exists>xs. approval_decisions t = approval_decisions s @ xs) \<and>
     (\<exists>xs. curator_verdicts t = curator_verdicts s @ xs) \<and>
     (\<exists>xs. curator_actions t = curator_actions s @ xs) \<and>
     (\<exists>xs. run_resolutions t = run_resolutions s @ xs) \<and>
     (\<exists>xs. event_annotations t = event_annotations s @ xs) \<and>
     (\<exists>xs. scorer_configs t = scorer_configs s @ xs) \<and>
     (\<exists>xs. map mu_id (memory_units t) = map mu_id (memory_units s) @ xs) \<and>
     grown item_kept (queue_items s) (queue_items t) \<and>
     grown event_kept (injection_events s) (injection_events t) \<and>
     grown thread_kept (threads s) (threads t)"

lemma event_kept_refl: "event_kept e e"
  by (simp add: event_kept_def)

lemma item_kept_refl: "item_kept q q"
  by (simp add: item_kept_def)

lemma thread_kept_refl: "thread_kept h h"
  by (simp add: thread_kept_def)

lemmas kept_append [simp] = grown_append [of event_kept, OF event_kept_refl]
  grown_append [of item_kept, OF item_kept_refl] grown_append [of thread_kept, OF thread_kept_refl]

lemmas kept_same [simp] = grown_append [of event_kept _ "[]", OF event_kept_refl, simplified]
  grown_append [of item_kept _ "[]", OF item_kept_refl, simplified]
  grown_append [of thread_kept _ "[]", OF thread_kept_refl, simplified]

lemma event_kept_trans: "event_kept a b \<Longrightarrow> event_kept b d \<Longrightarrow> event_kept a d"
  unfolding event_kept_def by (cases a; cases b; cases d) simp

lemma item_kept_trans: "item_kept a b \<Longrightarrow> item_kept b d \<Longrightarrow> item_kept a d"
  unfolding item_kept_def by (cases a; cases b; cases d) auto

lemma thread_kept_trans: "thread_kept a b \<Longrightarrow> thread_kept b d \<Longrightarrow> thread_kept a d"
  unfolding thread_kept_def by (cases a; cases b; cases d) auto

lemmas kept_trans = grown_trans [OF _ _ event_kept_trans] grown_trans [OF _ _ item_kept_trans]
  grown_trans [OF _ _ thread_kept_trans]

lemma append_only_trans: "append_only s t \<Longrightarrow> append_only t u \<Longrightarrow> append_only s u"
  unfolding append_only_def by (elim conjE exE, intro conjI) (auto intro: kept_trans)

definition safe_step :: "db \<Rightarrow> db \<Rightarrow> bool" where
  "safe_step s t \<longleftrightarrow> append_only s t \<and> (db_ok s \<longrightarrow> db_ok t)"

interpretation safe: step_order safe_step
proof
  show "safe_step s s" for s
    by (simp add: safe_step_def append_only_def)
  show "safe_step s t \<Longrightarrow> safe_step t u \<Longrightarrow> safe_step s u" for s t u
    by (auto simp: safe_step_def intro: append_only_trans)
qed

text \<open>The invariants read only these tables.\<close>

lemma db_ok_cong:
  assumes "memory_units t = memory_units s" "memory_revisions t = memory_revisions s"
    "queue_items t = queue_items s" "approval_decisions t = approval_decisions s"
  shows "db_ok t = db_ok s"
  using assms by (simp add: db_ok_def lineage_ok_def labels_ok_def queue_ok_def head_lineage_def
      revisions_at_def item_settled_def decision_for_def)

lemma safe_same:
  assumes "memory_units t = memory_units s" "memory_revisions t = memory_revisions s"
    "queue_items t = queue_items s" "approval_decisions t = approval_decisions s" "append_only s t"
  shows "safe_step s t"
  using assms db_ok_cong [of t s] by (simp add: safe_step_def)

lemma safe_rollback: "safe_step s (rollback s t)"
  by (rule safe_same) (simp_all add: rollback_def append_only_def)

lemma queue_ok_cong:
  assumes "mu_id ` set (memory_units t) = mu_id ` set (memory_units s)"
    "queue_items t = queue_items s" "approval_decisions t = approval_decisions s"
  shows "queue_ok t = queue_ok s"
  using assms by (simp add: queue_ok_def item_settled_def decision_for_def)

subsection \<open>Reading the environment, transactions and savepoints\<close>

lemma safe_draw: "safe.steps draw"
  by (rule safe.stepsI, rule safe_same) (auto simp: draw_def append_only_def)

lemma safe_mint: "safe.steps (mint \<epsilon>)"
  unfolding mint_def by (intro safe.steps_rules safe_draw)

lemma safe_clock: "safe.steps (clock_timestamp \<epsilon>)"
  unfolding clock_timestamp_def by (intro safe.steps_rules safe_draw)

lemma safe_embed_one: "safe.steps (embed_one \<epsilon> b)"
  unfolding embed_one_def
  by (intro safe.steps_rules)

lemma safe_savepoint: "safe.oks m \<Longrightarrow> safe.steps (savepoint m)"
  unfolding savepoint_def by (rule safe.steps_atomic_oks, assumption) (rule safe_rollback)

lemma safe_transaction: "safe.oks m \<Longrightarrow> safe.steps (transaction \<epsilon> m)"
proof -
  assume m: "safe.oks m"
  have "safe.oks (modify (\<lambda>s. s\<lparr>txn_now := n\<rparr>))" for n
    by (rule safe.oksI, rule safe_same) (auto simp: act_iff append_only_def)
  with m show ?thesis
    unfolding transaction_def
    by (intro safe.steps_atomic_oks safe_rollback safe.oks_rules safe.steps_oks [OF safe_clock])
qed

subsection \<open>Edges, queue items and head updates\<close>

lemma labels_replace_unit:
  assumes "\<forall>v \<in> set us. \<not> label_taken us v" and "\<not> label_taken us u"
  shows "\<forall>v \<in> set (replace_unit u us). \<not> label_taken (replace_unit u us) v"
  using assms by (auto simp: label_taken_def replace_unit_def split: if_splits)

lemma labels_snoc:
  assumes "\<forall>v \<in> set us. \<not> label_taken us v" and "\<not> label_taken us u"
  shows "\<forall>v \<in> set (us @ [u]). \<not> label_taken (us @ [u]) v"
  using assms by (auto simp: label_taken_def)

lemma safe_cas: "safe.steps (cas_update_memory_unit \<epsilon> c)"
proof (rule safe.stepsI)
  fix s r t
  assume run: "cas_update_memory_unit \<epsilon> c s = (r, t)"
  show "safe_step s t"
  proof (cases r)
    case (Inl e)
    with run have "same_tables s t" by (auto dest: cas_error_keeps_tables)
    then show ?thesis by (intro safe_same) (simp_all add: same_tables_def append_only_def)
  next
    case (Inr u')
    with run have run: "cas_update_memory_unit \<epsilon> c s = (Inr u', t)" by simp
    then obtain u p ct where
      t: "t = s\<lparr>memory_units := replace_unit u' (memory_units s),
           memory_revisions := memory_revisions s @ [cas_revision c p (txn_now s) u'],
           curator_triggers := ct\<rparr>"
      and lab: "\<not> label_taken (memory_units s) u'"
      by (rule cas_success)
    have "append_only s t" by (simp add: t append_only_def)
    moreover have "labels_ok s \<Longrightarrow> labels_ok t"
      using labels_replace_unit [OF _ lab] by (simp add: t labels_ok_def)
    moreover have "queue_ok s \<Longrightarrow> queue_ok t"
      using queue_ok_cong [of t s] by (simp add: t)
    ultimately show ?thesis
      using cas_keeps_lineage [OF run] by (simp add: safe_step_def db_ok_def)
  qed
qed

lemma safe_insert_edge: "safe.oks (insert_edge e)"
  by (rule safe.oksI, rule safe_same) (auto simp: insert_edge_Inr append_only_def)

section \<open>The update seen through the lookup\<close>

lemma find_replace_unit:
  "find (\<lambda>v. mu_id v = i) (replace_unit u us) =
     (if i = mu_id u \<and> i \<in> mu_id ` set us then Some u else find (\<lambda>v. mu_id v = i) us)"
  by (induction us) (auto simp: replace_unit_def)

lemma unit_by_id_id: "unit_by_id s i = Some u \<Longrightarrow> mu_id u = i \<and> u \<in> set (memory_units s)"
  by (auto simp: unit_by_id_def dest: find_Some_set)

lemma cas_effect:
  assumes run: "cas_update_memory_unit \<epsilon> c s = (Inr u', t)" and ok: "lineage_ok s"
    and u: "unit_by_id s (cu_memory_id c) = Some u"
  shows "u' = bumped_head \<epsilon> (cu_changes c) (txn_now s) u"
    and "unit_by_id t j = (if j = cu_memory_id c then Some u' else unit_by_id s j)"
    and "queue_items t = queue_items s" "approval_decisions t = approval_decisions s"
    and "memory_edges t = memory_edges s" "lineage_ok t"
proof -
  from run obtain v p ct where
    f: "find (\<lambda>u. mu_id u = cu_memory_id c \<and> mu_revision u = cu_expected_revision c)
          (memory_units s) = Some v"
    and u': "u' = bumped_head \<epsilon> (cu_changes c) (txn_now s) v"
    and t: "t = s\<lparr>memory_units := replace_unit u' (memory_units s),
           memory_revisions := memory_revisions s @ [cas_revision c p (txn_now s) u'],
           curator_triggers := ct\<rparr>"
    by (rule cas_success)
  from f have v: "v \<in> set (memory_units s)" "mu_id v = cu_memory_id c" by (auto dest: find_Some_set)
  with ok have "unit_by_id s (cu_memory_id c) = Some v"
    by (subst unit_by_id_iff) (simp_all add: lineage_ok_def)
  with u have vu: "v = u" by simp
  show "u' = bumped_head \<epsilon> (cu_changes c) (txn_now s) u" using u' vu by simp
  have "mu_id u' = cu_memory_id c" using u' v by simp
  then show "unit_by_id t j = (if j = cu_memory_id c then Some u' else unit_by_id s j)"
    using v by (auto simp: unit_by_id_def t find_replace_unit image_iff)
  show "lineage_ok t" by (rule cas_keeps_lineage [OF run ok])
  show "queue_items t = queue_items s" "approval_decisions t = approval_decisions s"
    "memory_edges t = memory_edges s" by (simp_all add: t)
qed

lemma cas_frame:
  assumes "cas_update_memory_unit \<epsilon> c s = (Inr u', t)"
  shows "injection_events t = injection_events s" "scorer_configs t = scorer_configs s"
    "threads t = threads s" "txn_now t = txn_now s" "readings t = readings s"
    "map mu_id (memory_units t) = map mu_id (memory_units s)"
  using assms by (auto elim!: cas_success)

section \<open>Sweeps over several heads\<close>

text \<open>The tables and clock a head update leaves alone.\<close>

definition same_context :: "db \<Rightarrow> db \<Rightarrow> bool" where
  "same_context s t \<longleftrightarrow> injection_events t = injection_events s \<and> scorer_configs t = scorer_configs s \<and>
     threads t = threads s \<and> txn_now t = txn_now s"

text \<open>A loop whose body updates the head of one memory: what the body promises for one item, the loop delivers
  for all of them when no memory occurs twice.\<close>

locale head_sweep =
  fixes body :: "'a \<Rightarrow> unit op" and key :: "'a \<Rightarrow> uuid"
    and upd :: "'a \<Rightarrow> timestamp \<Rightarrow> memory_unit \<Rightarrow> memory_unit \<Rightarrow> bool"
  assumes body_step: "body x s = (Inr y, t) \<Longrightarrow> lineage_ok s \<Longrightarrow>
    \<exists>u v. unit_by_id s (key x) = Some u \<and> upd x (txn_now s) u v \<and>
      (\<forall>j. unit_by_id t j = (if j = key x then Some v else unit_by_id s j)) \<and> lineage_ok t \<and> same_context s t"
begin

lemma sweep:
  assumes "iterM body xs s = (Inr y, t)" "distinct (map key xs)" "lineage_ok s"
  shows "lineage_ok t \<and> same_context s t \<and> (\<forall>j. j \<notin> key ` set xs \<longrightarrow> unit_by_id t j = unit_by_id s j) \<and>
    (\<forall>x \<in> set xs. \<exists>u v. unit_by_id s (key x) = Some u \<and> upd x (txn_now s) u v \<and> unit_by_id t (key x) = Some v)"
  using assms
proof (induction xs arbitrary: s)
  case Nil
  then show ?case by (simp add: act_iff same_context_def)
next
  case (Cons x xs)
  from Cons.prems(1) obtain z w where run: "body x s = (Inr z, w)" and rest: "iterM body xs w = (Inr y, t)"
    by (auto simp: act_iff)
  from body_step [OF run Cons.prems(3)] obtain u v where
    u: "unit_by_id s (key x) = Some u" "upd x (txn_now s) u v"
    and look: "\<forall>j. unit_by_id w j = (if j = key x then Some v else unit_by_id s j)"
    and w: "lineage_ok w" "same_context s w" by blast
  from Cons.prems(2) have d: "distinct (map key xs)" and x: "key x \<notin> key ` set xs" by auto
  note IH = Cons.IH [OF rest d w(1)]
  have "\<exists>u v. unit_by_id s (key z) = Some u \<and> upd z (txn_now s) u v \<and> unit_by_id t (key z) = Some v"
    if "z \<in> set (x # xs)" for z
  proof (cases "z = x")
    case True
    with IH u look x show ?thesis by simp
  next
    case False
    with that have z: "z \<in> set xs" by simp
    with x have "key z \<noteq> key x" by (metis image_eqI)
    with IH z look w(2) show ?thesis by (auto simp: same_context_def)
  qed
  with IH look w(2) show ?case by (auto simp: same_context_def)
qed

end

end
