(* ===== verification/Memory.thy ===== *)
theory Memory
  imports Heads
begin

text \<open>
  The memory service (\<open>src/spine/memory/service.py\<close>): creation with its deduplication bands,
  split families, queue-only candidates, curator replacements and splits, staged Symphony
  heads, patches, listing, search, and the label an approved candidate gets. A service method
  is an operation on the database; \<open>async with session.begin()\<close> is \<^const>\<open>transaction\<close> and
  \<open>begin_nested\<close> is \<^const>\<open>savepoint\<close>. The contract projection of a row
  (\<open>contract_memory_from_row\<close>) is the row.
\<close>

section \<open>Commands and results\<close>

record create_command =
  cm_principal_id :: string
  cm_label :: string
  cm_body :: string
  cm_kind :: memory_kind
  cm_editor :: string
  cm_machine_id :: string
  cm_keywords :: "string list"
  cm_project_key :: "string option"
  cm_thread_origin :: "string option"
  cm_origin_thread_id :: "uuid option"
  cm_origin_path :: "string option"
  cm_origin_location :: "string option"
  cm_origin_locations :: "string list"
  cm_force :: bool
  cm_parent_uid :: "string option"
  cm_revision_reason :: string

record split_child =
  sp_label :: string
  sp_body :: string
  sp_keywords :: "string list"

record prepared_child =
  pc_label :: string
  pc_body :: string
  pc_keywords :: "string list"
  pc_embedding :: "rat list"

record split_command =
  sm_principal_id :: string
  sm_source_body :: string
  sm_children :: "split_child list"
  sm_editor :: string
  sm_machine_id :: string
  sm_project_key :: "string option"
  sm_thread_origin :: "string option"
  sm_origin_thread_id :: "uuid option"
  sm_origin_path :: "string option"
  sm_origin_location :: "string option"

text \<open>A PATCH property that is \<open>UNSET\<close> or \<open>null\<close> is not provided, so both are \<open>None\<close>.\<close>

record patch_command =
  pm_memory_id :: uuid
  pm_expected_revision :: int
  pm_editor :: string
  pm_reason :: string
  pm_machine_id :: string
  pm_body :: "string option"
  pm_label :: "string option"
  pm_keywords :: "string list option"
  pm_kind :: "memory_kind option"
  pm_origin_path :: "string option"
  pm_pin :: "bool option"
  pm_status :: "memory_status option"

datatype create_result = MemoryCreated memory_unit | SimilarMemories "similarity_card list"

datatype split_result =
    MemorySplitCreated memory_unit "memory_unit list"
  | SplitSimilar "similarity_card list"

record candidate_created =
  cc_memory :: memory_unit
  cc_neighbors :: "similarity_card list"

record memory_config =
  dedup_dup :: rat
  dedup_sim :: rat
  label_max :: int
  memory_max_tokens :: nat

definition memory_config_ok :: "memory_config \<Rightarrow> bool" where
  "memory_config_ok c \<longleftrightarrow> 0 \<le> dedup_sim c \<and> dedup_sim c < dedup_dup c \<and> dedup_dup c \<le> 1 \<and>
     0 < label_max c \<and> 0 < memory_max_tokens c"

section \<open>Validation\<close>

definition validate_label :: "memory_config \<Rightarrow> string \<Rightarrow> unit op" where
  "validate_label c l = raise_if (int (length l) > label_max c) (MemoryValidation ''label'')"

definition validate_body :: "env \<Rightarrow> memory_config \<Rightarrow> string \<Rightarrow> unit op" where
  "validate_body \<epsilon> c b = raise_if (token_count \<epsilon> b > memory_max_tokens c) (MemoryValidation ''body'')"

fun validate_keyword_list :: "string list \<Rightarrow> string list \<Rightarrow> unit op" where
  "validate_keyword_list seen [] = ret ()"
| "validate_keyword_list seen (k # ks) =
     sqn (raise_if (k = [] \<or> k \<noteq> strip k \<or> k \<noteq> py_lower k)
            (MemoryValidation ''split child keywords must be trimmed nonblank lowercase terms''))
    (sqn (raise_if (k \<in> set seen) (MemoryValidation ''split child keywords must be distinct''))
         (validate_keyword_list (k # seen) ks))"

definition validate_split_keywords :: "string list \<Rightarrow> unit op" where
  "validate_split_keywords ks =
     sqn (raise_if (\<not> (2 \<le> length ks \<and> length ks \<le> 5))
            (MemoryValidation ''split children require 2-5 keywords''))
         (validate_keyword_list [] ks)"

fun validate_children :: "env \<Rightarrow> memory_config \<Rightarrow> string list \<Rightarrow> string list \<Rightarrow> split_child list \<Rightarrow> unit op" where
  "validate_children \<epsilon> c labels bodies [] = ret ()"
| "validate_children \<epsilon> c labels bodies (ch # chs) =
     sqn (raise_if (strip (sp_label ch) = [] \<or> sp_label ch \<noteq> strip (sp_label ch) \<or>
                    CHR 0x0A \<in> set (sp_label ch) \<or> CHR 0x0D \<in> set (sp_label ch))
            (MemoryValidation ''split child labels must be nonblank trimmed single lines''))
    (sqn (validate_label c (sp_label ch))
    (sqn (raise_if (sp_label ch \<in> set labels)
            (MemoryValidation ''split child labels must be distinct''))
    (sqn (raise_if (strip (sp_body ch) = [])
            (MemoryValidation ''split child bodies must be nonblank''))
    (sqn (validate_body \<epsilon> c (sp_body ch))
    (sqn (raise_if (strip (sp_body ch) \<in> set bodies)
            (MemoryValidation ''split child bodies must be distinct''))
    (sqn (validate_split_keywords (sp_keywords ch))
         (validate_children \<epsilon> c (sp_label ch # labels) (strip (sp_body ch) # bodies) chs)))))))"

definition validate_split :: "env \<Rightarrow> memory_config \<Rightarrow> split_command \<Rightarrow> unit op" where
  "validate_split \<epsilon> c cmd =
     sqn (raise_if (strip (sm_source_body cmd) = [])
            (MemoryValidation ''split source_body must be nonblank''))
    (sqn (raise_if (\<not> (2 \<le> length (sm_children cmd) \<and> length (sm_children cmd) \<le> 64))
            (MemoryValidation ''memory split requires between 2 and 64 children''))
    (sqn (validate_label c ''Split source'')
         (validate_children \<epsilon> c [] [] (sm_children cmd))))"

section \<open>Deduplication\<close>

datatype dedup_band = Distinct | Similar | Duplicate

definition classify_dedup_score :: "rat \<Rightarrow> rat \<Rightarrow> rat option \<Rightarrow> dedup_band" where
  "classify_dedup_score sim dup score = (case score of
       None \<Rightarrow> Distinct
     | Some x \<Rightarrow> if x < sim then Distinct else if x < dup then Similar else Duplicate)"

definition similarity_card_from_row :: "memory_unit \<Rightarrow> rat \<Rightarrow> similarity_card" where
  "similarity_card_from_row u x = \<lparr>card_memory_id = mu_id u, card_label = mu_label u,
     card_body = mu_body u, card_kind = mu_kind u, card_pin = mu_pin u, card_score = x\<rparr>"

definition dedup_matches ::
  "env \<Rightarrow> memory_config \<Rightarrow> db \<Rightarrow> string \<Rightarrow> rat list \<Rightarrow> memory_status list \<Rightarrow> uuid list \<Rightarrow>
     similarity_card list" where
  "dedup_matches \<epsilon> c s prin v statuses exclude =
     sort_key (\<lambda>k. (- card_score k, card_memory_id k))
       (map (\<lambda>u. similarity_card_from_row u (cosine_score \<epsilon> (mu_embedding u) v))
         (filter (\<lambda>u. mu_principal_id u = prin \<and> mu_status u \<in> set statuses \<and>
                      cosine_score \<epsilon> (mu_embedding u) v \<ge> dedup_sim c \<and>
                      mu_id u \<notin> set exclude) (memory_units s)))"

definition top_score :: "similarity_card list \<Rightarrow> rat option" where
  "top_score ms = (case ms of [] \<Rightarrow> None | m # _ \<Rightarrow> Some (card_score m))"

text \<open>An exact body this principal has already rejected in the queue.\<close>

definition rejected_body :: "env \<Rightarrow> db \<Rightarrow> string \<Rightarrow> string \<Rightarrow> bool" where
  "rejected_body \<epsilon> s prin body \<longleftrightarrow>
     (\<exists>u \<in> set (memory_units s). \<exists>q \<in> set (queue_items s).
        qi_candidate_memory_id q = mu_id u \<and> mu_principal_id u = prin \<and>
        qi_principal_id q = prin \<and> qi_state q = Q_rejected \<and> mu_status u = Tombstoned \<and>
        sha256_hex \<epsilon> (mu_body u) = sha256_hex \<epsilon> body \<and> mu_body u = body)"

definition find_active_label :: "db \<Rightarrow> string \<Rightarrow> string \<Rightarrow> uuid option \<Rightarrow> (uuid \<times> string) option" where
  "find_active_label s prin label exclude =
     (case sort_key mu_id (filter (\<lambda>u. mu_principal_id u = prin \<and> mu_label u = label \<and>
              mu_status u = Active \<and> exclude \<noteq> Some (mu_id u)) (memory_units s)) of
        [] \<Rightarrow> None
      | u # _ \<Rightarrow> Some (mu_id u, mu_label u))"

definition raise_label_conflict :: "string \<Rightarrow> string \<Rightarrow> unit op" where
  "raise_label_conflict prin label =
     bnd (gets (\<lambda>s. find_active_label s prin label None)) (\<lambda>conflict.
     case conflict of None \<Rightarrow> ret () | Some (i, l) \<Rightarrow> raise (LabelConflict i l))"

text \<open>What the handlers do with an \<open>IntegrityError\<close>: only the active-label index is translated.\<close>

definition on_label_conflict :: "string \<Rightarrow> string list \<Rightarrow> err \<Rightarrow> 'a op" where
  "on_label_conflict prin labels e =
     (if e = IntegrityError ''memory_unit_active_label''
      then sqn (iterM (raise_label_conflict prin) labels) (raise e)
      else raise e)"

section \<open>Inserting a head with its first revision\<close>

definition default_stats :: dict where
  "default_stats = [(''injections'', JInt 0), (''removals'', JInt 0), (''citations'', JInt 0),
     (''never_kills'', JInt 0), (''last_injected_at'', JNull)]"

definition root_row :: "env \<Rightarrow> create_command \<Rightarrow> rat list \<Rightarrow> memory_status \<Rightarrow> uuid \<Rightarrow>
    string option \<Rightarrow> string option \<Rightarrow> timestamp \<Rightarrow> memory_unit" where
  "root_row \<epsilon> cmd v st i run agent now =
     \<lparr>mu_id = i, mu_principal_id = cm_principal_id cmd, mu_label = cm_label cmd,
      mu_body = cm_body cmd, mu_kind = cm_kind cmd, mu_keywords = cm_keywords cmd,
      mu_embedding = map (fl32 \<epsilon>) v, mu_embedding_model = embed_model \<epsilon>,
      mu_project_key = cm_project_key cmd, mu_thread_origin = cm_thread_origin cmd,
      mu_origin_thread_id = cm_origin_thread_id cmd, mu_origin_path = cm_origin_path cmd,
      mu_origin_location = cm_origin_location cmd, mu_origin_locations = cm_origin_locations cmd,
      mu_run_id = run, mu_origin_agent = agent, mu_pin = False, mu_status = st,
      mu_revision = 1, mu_stats = default_stats, mu_bias = 0, mu_created_at = now,
      mu_updated_at = now\<rparr>"

definition root_revision :: "create_command \<Rightarrow> string \<Rightarrow> memory_unit \<Rightarrow> timestamp \<Rightarrow> memory_revision" where
  "root_revision cmd uid u now =
     \<lparr>rev_uid = uid, rev_parent_uid = cm_parent_uid cmd, rev_memory_id = mu_id u,
      rev_revision = Some 1, rev_body = mu_body u, rev_label = mu_label u,
      rev_editor = cm_editor cmd, rev_origin_machine_id = cm_machine_id cmd,
      rev_reason = cm_revision_reason cmd, rev_ts = now\<rparr>"

definition insert_root :: "env \<Rightarrow> create_command \<Rightarrow> rat list \<Rightarrow> memory_status \<Rightarrow> uuid option \<Rightarrow>
    string option \<Rightarrow> string option \<Rightarrow> memory_unit op" where
  "insert_root \<epsilon> cmd v st mid run agent =
     bnd (case mid of None \<Rightarrow> bnd draw (\<lambda>n. ret (gen_random_uuid \<epsilon> n)) | Some i \<Rightarrow> ret i) (\<lambda>i.
     bnd (gets txn_now) (\<lambda>now.
     let u = root_row \<epsilon> cmd v st i run agent now in
     sqn (insert_unit u)
    (bnd (mint \<epsilon>) (\<lambda>uid.
     sqn (insert_revision (root_revision cmd uid u now)) (ret u)))))"

definition refuse_rejected :: "env \<Rightarrow> string \<Rightarrow> string \<Rightarrow> unit op" where
  "refuse_rejected \<epsilon> prin b = bnd (gets (\<lambda>s. rejected_body \<epsilon> s prin b)) (\<lambda>rejected.
     raise_if rejected (MemoryValidation ''This exact memory was rejected.''))"

section \<open>Create\<close>

definition create :: "env \<Rightarrow> memory_config \<Rightarrow> create_command \<Rightarrow> create_result op" where
  "create \<epsilon> c cmd =
     sqn (validate_label c (cm_label cmd))
    (sqn (validate_body \<epsilon> c (cm_body cmd))
    (bnd (embed_one \<epsilon> (cm_body cmd)) (\<lambda>v.
     transaction \<epsilon>
      (bnd (gets (\<lambda>s. dedup_matches \<epsilon> c s (cm_principal_id cmd) v [Active] [])) (\<lambda>matches.
       sqn (refuse_rejected \<epsilon> (cm_principal_id cmd) (cm_body cmd))
      (let band = classify_dedup_score (dedup_sim c) (dedup_dup c) (top_score matches) in
       sqn (raise_if (band = Duplicate) (DuplicateMemory (hd matches)))
      (sqn (raise_label_conflict (cm_principal_id cmd) (cm_label cmd))
      (if band = Similar \<and> \<not> cm_force cmd then ret (SimilarMemories matches)
       else bnd (catch (savepoint (insert_root \<epsilon> cmd v Active None None None))
                  (on_label_conflict (cm_principal_id cmd) [cm_label cmd])) (\<lambda>row.
            ret (MemoryCreated row))))))))))"

section \<open>Split families\<close>

definition relate_pair :: "env \<Rightarrow> uuid \<Rightarrow> uuid \<Rightarrow> unit op" where
  "relate_pair \<epsilon> left right =
     (if left = right then ret ()
      else bnd (mint \<epsilon>) (\<lambda>uid. bnd (gets txn_now) (\<lambda>now.
             insert_edge \<lparr>edge_uid = uid, edge_from = left, edge_to = right,
               edge_type = Relates_to, edge_created_at = now\<rparr>)))"

definition relate_siblings :: "env \<Rightarrow> uuid list \<Rightarrow> unit op" where
  "relate_siblings \<epsilon> ids = iterM (\<lambda>left. iterM (relate_pair \<epsilon> left) ids) ids"

definition split_source_command :: "split_command \<Rightarrow> create_command" where
  "split_source_command cmd =
     \<lparr>cm_principal_id = sm_principal_id cmd, cm_label = ''Split source'',
      cm_body = sm_source_body cmd, cm_kind = Fact, cm_editor = sm_editor cmd,
      cm_machine_id = sm_machine_id cmd, cm_keywords = [''split'', ''source''],
      cm_project_key = sm_project_key cmd, cm_thread_origin = sm_thread_origin cmd,
      cm_origin_thread_id = sm_origin_thread_id cmd, cm_origin_path = sm_origin_path cmd,
      cm_origin_location = sm_origin_location cmd, cm_origin_locations = [], cm_force = False,
      cm_parent_uid = None, cm_revision_reason = ''remember/source-split''\<rparr>"

definition split_child_command :: "split_command \<Rightarrow> string \<Rightarrow> split_child \<Rightarrow> create_command" where
  "split_child_command cmd parent ch = (split_source_command cmd)\<lparr>cm_label := sp_label ch,
     cm_body := sp_body ch, cm_keywords := sp_keywords ch, cm_parent_uid := Some parent,
     cm_revision_reason := ''remember/split-child''\<rparr>"

text \<open>The pass over the children inside the principal's lock: the first child that collides
  decides. \<open>Some ms\<close> is the early return with its similar memories.\<close>

fun split_refusal :: "env \<Rightarrow> memory_config \<Rightarrow> string \<Rightarrow> (split_child \<times> rat list) list \<Rightarrow>
    similarity_card list option op" where
  "split_refusal \<epsilon> c prin [] = ret None"
| "split_refusal \<epsilon> c prin ((ch, v) # rest) =
     sqn (raise_label_conflict prin (sp_label ch))
    (bnd (gets (\<lambda>s. dedup_matches \<epsilon> c s prin v [Active] [])) (\<lambda>matches.
     let band = classify_dedup_score (dedup_sim c) (dedup_dup c) (top_score matches) in
     sqn (raise_if (band = Duplicate) (DuplicateMemory (hd matches)))
         (if band = Similar then ret (Some matches) else split_refusal \<epsilon> c prin rest)))"

definition first_revision_uid :: "db \<Rightarrow> uuid \<Rightarrow> string option" where
  "first_revision_uid s i = map_option rev_uid
     (find (\<lambda>r. rev_memory_id r = i \<and> rev_revision r = Some 1) (memory_revisions s))"

definition insert_family :: "env \<Rightarrow> split_command \<Rightarrow> rat list \<Rightarrow> (split_child \<times> rat list) list \<Rightarrow>
    (memory_unit \<times> memory_unit list) op" where
  "insert_family \<epsilon> cmd v chs =
     bnd (insert_root \<epsilon> (split_source_command cmd) v Tombstoned None None None) (\<lambda>src.
     bnd (gets (\<lambda>s. first_revision_uid s (mu_id src))) (\<lambda>uid.
     case uid of
       None \<Rightarrow> raise (RuntimeErr ''split source revision was not written'')
     | Some parent \<Rightarrow>
         bnd (mapM (\<lambda>(ch, w). insert_root \<epsilon> (split_child_command cmd parent ch) w Active None None None)
                chs) (\<lambda>rows.
         sqn (relate_siblings \<epsilon> (map mu_id rows)) (ret (src, rows)))))"

definition split :: "env \<Rightarrow> memory_config \<Rightarrow> split_command \<Rightarrow> split_result op" where
  "split \<epsilon> c cmd =
     sqn (validate_split \<epsilon> c cmd)
    (sqn (iterM (\<lambda>ch. raise_label_conflict (sm_principal_id cmd) (sp_label ch)) (sm_children cmd))
    (bnd (embed_one \<epsilon> (sm_source_body cmd)) (\<lambda>v.
     bnd (mapM (\<lambda>ch. embed_one \<epsilon> (sp_body ch)) (sm_children cmd)) (\<lambda>vs.
     transaction \<epsilon>
      (sqn (iterM (refuse_rejected \<epsilon> (sm_principal_id cmd))
              (sm_source_body cmd # map sp_body (sm_children cmd)))
      (bnd (split_refusal \<epsilon> c (sm_principal_id cmd) (zip (sm_children cmd) vs)) (\<lambda>refusal.
       case refusal of
         Some ms \<Rightarrow> ret (SplitSimilar ms)
       | None \<Rightarrow>
           bnd (catch (savepoint (insert_family \<epsilon> cmd v (zip (sm_children cmd) vs)))
                  (on_label_conflict (sm_principal_id cmd) (map sp_label (sm_children cmd)))) (\<lambda>r.
           ret (MemorySplitCreated (fst r) (snd r))))))))))"

section \<open>Candidates\<close>

definition first_not_in :: "uuid list \<Rightarrow> similarity_card list \<Rightarrow> similarity_card option" where
  "first_not_in ids ms = find (\<lambda>m. card_memory_id m \<notin> set ids) ms"

definition create_candidate :: "env \<Rightarrow> memory_config \<Rightarrow> create_command \<Rightarrow> uuid list \<Rightarrow>
    candidate_created option op" where
  "create_candidate \<epsilon> c cmd replaces =
     sqn (validate_label c (cm_label cmd))
    (sqn (validate_body \<epsilon> c (cm_body cmd))
    (transaction \<epsilon>
      (bnd (gets (\<lambda>s. rejected_body \<epsilon> s (cm_principal_id cmd) (cm_body cmd))) (\<lambda>rejected.
       if rejected then ret None
       else
         bnd (embed_one \<epsilon> (cm_body cmd)) (\<lambda>v.
         bnd (gets (\<lambda>s. dedup_matches \<epsilon> c s (cm_principal_id cmd) v [Active, Candidate] [])) (\<lambda>matches.
         if (case first_not_in replaces matches of None \<Rightarrow> False
             | Some best \<Rightarrow> card_score best \<ge> dedup_dup c)
         then ret None
         else bnd (insert_root \<epsilon> cmd v Candidate None None None) (\<lambda>row.
              ret (Some \<lparr>cc_memory = row, cc_neighbors = matches\<rparr>))))))))"

definition create_curator_candidate :: "env \<Rightarrow> memory_config \<Rightarrow> create_command \<Rightarrow> uuid list \<Rightarrow>
    candidate_created option op" where
  "create_curator_candidate \<epsilon> c cmd exclude =
     sqn (validate_label c (cm_label cmd))
    (sqn (validate_body \<epsilon> c (cm_body cmd))
    (bnd (embed_one \<epsilon> (cm_body cmd)) (\<lambda>v.
     transaction \<epsilon>
      (bnd (gets (\<lambda>s. dedup_matches \<epsilon> c s (cm_principal_id cmd) v [Active, Candidate] exclude)) (\<lambda>matches.
       if (case matches of [] \<Rightarrow> False | m # _ \<Rightarrow> card_score m \<ge> dedup_dup c)
       then ret None
       else bnd (insert_root \<epsilon> cmd v Candidate None None None) (\<lambda>row.
            ret (Some \<lparr>cc_memory = row, cc_neighbors = matches\<rparr>)))))))"

definition create_split_source :: "env \<Rightarrow> memory_config \<Rightarrow> create_command \<Rightarrow>
    (memory_unit \<times> string) op" where
  "create_split_source \<epsilon> c cmd =
     sqn (validate_label c (cm_label cmd))
    (bnd (embed_one \<epsilon> (cm_body cmd)) (\<lambda>v.
     transaction \<epsilon>
      (bnd (insert_root \<epsilon> cmd v Tombstoned None None None) (\<lambda>row.
       bnd (gets (\<lambda>s. first_revision_uid s (mu_id row))) (\<lambda>uid.
       case uid of
         None \<Rightarrow> raise (RuntimeErr ''split source revision was not written'')
       | Some r \<Rightarrow> ret (row, r))))))"

section \<open>Curator amendments and splits\<close>

definition prepare_curator_amendment :: "env \<Rightarrow> memory_config \<Rightarrow> string \<Rightarrow> memory_unit_changes op" where
  "prepare_curator_amendment \<epsilon> c body =
     sqn (validate_body \<epsilon> c body)
    (bnd (embed_one \<epsilon> body) (\<lambda>v.
     ret (no_changes\<lparr>ch_body := Some body, ch_embedding := Some v,
            ch_embedding_model := Some (embed_model \<epsilon>), ch_status := Some Active\<rparr>)))"

fun prepare_children :: "env \<Rightarrow> memory_config \<Rightarrow> string list \<Rightarrow> string list \<Rightarrow> split_child list \<Rightarrow>
    prepared_child list op" where
  "prepare_children \<epsilon> c labels bodies [] = ret []"
| "prepare_children \<epsilon> c labels bodies (ch # chs) =
     sqn (validate_label c (sp_label ch))
    (sqn (validate_body \<epsilon> c (sp_body ch))
    (sqn (validate_split_keywords (sp_keywords ch))
    (sqn (raise_if (sp_label ch \<in> set labels \<or> sp_body ch \<in> set bodies)
            (MemoryValidation ''curator split children must have distinct labels and bodies''))
    (bnd (embed_one \<epsilon> (sp_body ch)) (\<lambda>v.
     bnd (prepare_children \<epsilon> c (sp_label ch # labels) (sp_body ch # bodies) chs) (\<lambda>rest.
     ret (\<lparr>pc_label = sp_label ch, pc_body = sp_body ch, pc_keywords = sp_keywords ch,
           pc_embedding = v\<rparr> # rest)))))))"

definition prepare_curator_split :: "env \<Rightarrow> memory_config \<Rightarrow> split_child list \<Rightarrow> prepared_child list op" where
  "prepare_curator_split \<epsilon> c chs =
     sqn (raise_if (\<not> (2 \<le> length chs \<and> length chs \<le> 64))
            (MemoryValidation ''a curator split requires 2 to 64 children''))
         (prepare_children \<epsilon> c [] [] chs)"

definition curation_reason :: "string \<Rightarrow> string \<Rightarrow> string" where
  "curation_reason finding suffix = ''curation/'' @ finding @ ''/'' @ suffix"

definition curator_child_command :: "memory_unit \<Rightarrow> string \<Rightarrow> string \<Rightarrow> string \<Rightarrow> prepared_child \<Rightarrow> create_command" where
  "curator_child_command src machine finding parent ch =
     \<lparr>cm_principal_id = mu_principal_id src, cm_label = pc_label ch, cm_body = pc_body ch,
      cm_kind = mu_kind src, cm_editor = ''maintenance'', cm_machine_id = machine,
      cm_keywords = pc_keywords ch, cm_project_key = mu_project_key src,
      cm_thread_origin = mu_thread_origin src, cm_origin_thread_id = mu_origin_thread_id src,
      cm_origin_path = mu_origin_path src, cm_origin_location = mu_origin_location src,
      cm_origin_locations = mu_origin_locations src, cm_force = False,
      cm_parent_uid = Some parent, cm_revision_reason = curation_reason finding ''split-child''\<rparr>"

definition enact_curator_split :: "env \<Rightarrow> memory_unit \<Rightarrow> prepared_child list \<Rightarrow> string \<Rightarrow> string \<Rightarrow> uuid list op" where
  "enact_curator_split \<epsilon> src chs machine finding =
     sqn (raise_if (mu_status src \<noteq> Active)
            (MemoryValidation ''curator split source is no longer active''))
    (bnd (mint \<epsilon>) (\<lambda>tomb.
     sqn (cas_update_memory_unit \<epsilon> \<lparr>cu_memory_id = mu_id src, cu_expected_revision = mu_revision src,
            cu_rev_uid = tomb, cu_editor = ''maintenance'', cu_origin_machine_id = machine,
            cu_reason = curation_reason finding ''split-source'',
            cu_changes = status_change Tombstoned\<rparr>)
    (bnd (mapM (\<lambda>ch. insert_root \<epsilon> (curator_child_command src machine finding tomb ch)
                       (pc_embedding ch) Active None None None) chs) (\<lambda>rows.
     let ids = map mu_id rows in
     sqn (relate_siblings \<epsilon> ids) (ret ids)))))"

section \<open>Staged Symphony heads\<close>

text \<open>\<open>_staged_replay_row\<close>: the row of an exact replay, and errors for anything else under the
  same identifier.\<close>

definition staged_replay_row :: "uuid \<Rightarrow> create_command \<Rightarrow> memory_unit option op" where
  "staged_replay_row i cmd =
     bnd (gets (\<lambda>s. unit_by_id s i)) (\<lambda>row.
     case row of
       None \<Rightarrow> ret None
     | Some u \<Rightarrow>
         bnd (gets (\<lambda>s. revisions_at s i 1)) (\<lambda>revs.
         sqn (raise_if (length revs > 1) (RuntimeErr ''MultipleResultsFound''))
        (sqn (raise_if (mu_principal_id u \<noteq> cm_principal_id cmd \<or> mu_label u \<noteq> cm_label cmd \<or>
               mu_body u \<noteq> cm_body cmd \<or> mu_kind u \<noteq> cm_kind cmd \<or>
               mu_keywords u \<noteq> cm_keywords cmd \<or> mu_project_key u \<noteq> cm_project_key cmd \<or>
               mu_origin_thread_id u \<noteq> cm_origin_thread_id cmd \<or>
               mu_origin_path u \<noteq> cm_origin_path cmd \<or>
               mu_origin_location u \<noteq> cm_origin_location cmd \<or> mu_status u \<noteq> Staged \<or> revs = [])
               (StagedMemoryConflict ''memory_id already names a different memory''))
        (sqn (raise_if (rev_editor (hd revs) \<noteq> cm_editor cmd \<or>
               rev_origin_machine_id (hd revs) \<noteq> cm_machine_id cmd \<or>
               rev_reason (hd revs) \<noteq> cm_revision_reason cmd)
               (StagedMemoryConflict ''memory_id already names different staging provenance''))
             (ret (Some u))))))"

definition require_staged_identity :: "memory_unit \<Rightarrow> string \<Rightarrow> string \<Rightarrow> unit op" where
  "require_staged_identity u run agent =
     raise_if (mu_run_id u \<noteq> Some run \<or> mu_origin_agent u \<noteq> Some agent)
       (StagedMemoryConflict ''memory_id already names a different run attempt'')"

definition stage_symphony :: "env \<Rightarrow> memory_config \<Rightarrow> create_command \<Rightarrow> uuid \<Rightarrow> string \<Rightarrow> string \<Rightarrow>
    memory_unit op" where
  "stage_symphony \<epsilon> c cmd i run agent =
     sqn (validate_label c (cm_label cmd))
    (sqn (validate_body \<epsilon> c (cm_body cmd))
    (bnd (staged_replay_row i cmd) (\<lambda>existing.
     case existing of
       Some u \<Rightarrow> sqn (require_staged_identity u run agent) (ret u)
     | None \<Rightarrow>
         bnd (embed_one \<epsilon> (cm_body cmd)) (\<lambda>v.
         transaction \<epsilon>
          (bnd (staged_replay_row i cmd) (\<lambda>existing.
           case existing of
             Some u \<Rightarrow> sqn (require_staged_identity u run agent) (ret u)
           | None \<Rightarrow> insert_root \<epsilon> cmd v Staged (Some i) (Some run) (Some agent)))))))"

section \<open>Patch\<close>

definition reinforced_stats :: "dict \<Rightarrow> err + dict" where
  "reinforced_stats d = (case dget d ''reinforcements'' of
       None \<Rightarrow> Inr (dset ''reinforcements'' (JInt 1) d)
     | Some (JInt n) \<Rightarrow> if n < 0 then Inl (RuntimeErr ''memory reinforcement count is invalid'')
                        else Inr (dset ''reinforcements'' (JInt (n + 1)) d)
     | Some _ \<Rightarrow> Inl (RuntimeErr ''memory reinforcement count is invalid''))"

definition patch_only_body :: "patch_command \<Rightarrow> bool" where
  "patch_only_body cmd \<longleftrightarrow> pm_label cmd = None \<and> pm_keywords cmd = None \<and> pm_kind cmd = None \<and>
     pm_origin_path cmd = None \<and> pm_pin cmd = None \<and> pm_status cmd = None"

definition patch_changes :: "env \<Rightarrow> patch_command \<Rightarrow> rat list option \<Rightarrow> dict option \<Rightarrow> memory_unit_changes" where
  "patch_changes \<epsilon> cmd v stats = no_changes\<lparr>
     ch_body := pm_body cmd, ch_embedding := v,
     ch_embedding_model := (if pm_body cmd = None then None else Some (embed_model \<epsilon>)),
     ch_label := pm_label cmd, ch_keywords := pm_keywords cmd, ch_kind := pm_kind cmd,
     ch_origin_path := map_option Some (pm_origin_path cmd), ch_pin := pm_pin cmd,
     ch_status := pm_status cmd, ch_stats := stats\<rparr>"

definition patch_label_conflict :: "db \<Rightarrow> patch_command \<Rightarrow> memory_unit_changes \<Rightarrow> (uuid \<times> string) option" where
  "patch_label_conflict s cmd ch = (case unit_by_id s (pm_memory_id cmd) of
       None \<Rightarrow> None
     | Some u \<Rightarrow>
         if set_or (ch_status ch) (mu_status u) \<noteq> Active then None
         else find_active_label s (mu_principal_id u) (set_or (ch_label ch) (mu_label u))
                (Some (pm_memory_id cmd)))"

definition patch_error :: "patch_command \<Rightarrow> memory_unit_changes \<Rightarrow> err \<Rightarrow> 'a op" where
  "patch_error cmd ch e = (case e of
       MemoryUnitNotFound i \<Rightarrow> raise (MemoryNotFound i)
     | MemoryCasConflict u \<Rightarrow> raise (RevisionConflict u)
     | IntegrityError n \<Rightarrow>
         if n \<noteq> ''memory_unit_active_label'' then raise e
         else bnd (gets (\<lambda>s. patch_label_conflict s cmd ch)) (\<lambda>conflict.
              case conflict of
                None \<Rightarrow> raise e
              | Some (i, l) \<Rightarrow> raise (LabelConflict i l))
     | _ \<Rightarrow> raise e)"

definition patch :: "env \<Rightarrow> memory_config \<Rightarrow> patch_command \<Rightarrow> memory_unit op" where
  "patch \<epsilon> c cmd =
     sqn (raise_if (pm_body cmd = None \<and> patch_only_body cmd) EmptyPatch)
    (bnd (gets (\<lambda>s. unit_by_id s (pm_memory_id cmd))) (\<lambda>row.
     case row of
       None \<Rightarrow> raise (MemoryNotFound (pm_memory_id cmd))
     | Some cur \<Rightarrow>
         let reinforce = (pm_reason cmd = ''remember/reinforce'') in
         sqn (raise_if (reinforce \<and> (pm_body cmd \<noteq> Some (mu_body cur) \<or> \<not> patch_only_body cmd))
                (MemoryValidation ''remember/reinforce requires the unchanged current body and no other changes''))
        (sqn (case pm_body cmd of None \<Rightarrow> ret () | Some b \<Rightarrow> validate_body \<epsilon> c b)
        (sqn (case pm_label cmd of None \<Rightarrow> ret () | Some l \<Rightarrow> validate_label c l)
        (bnd (case pm_body cmd of None \<Rightarrow> ret None
              | Some b \<Rightarrow> bnd (embed_one \<epsilon> b) (\<lambda>v. ret (Some v))) (\<lambda>v.
         bnd (if reinforce then bnd (lift (reinforced_stats (mu_stats cur))) (\<lambda>d. ret (Some d))
              else ret None) (\<lambda>stats.
         let ch = patch_changes \<epsilon> cmd v stats in
         transaction \<epsilon>
          (bnd (mint \<epsilon>) (\<lambda>uid.
           catch (cas_update_memory_unit \<epsilon>
                    \<lparr>cu_memory_id = pm_memory_id cmd, cu_expected_revision = pm_expected_revision cmd,
                     cu_rev_uid = uid, cu_editor = pm_editor cmd,
                     cu_origin_machine_id = pm_machine_id cmd, cu_reason = pm_reason cmd,
                     cu_changes = ch\<rparr>)
                 (patch_error cmd ch))))))))))"

section \<open>Listing\<close>

definition escape_ilike :: "string \<Rightarrow> string" where
  "escape_ilike s = replace_char (CHR ''_'') [CHR 0x5C, CHR ''_'']
     (replace_char (CHR ''%'') [CHR 0x5C, CHR ''%'']
       (replace_char (CHR 0x5C) [CHR 0x5C, CHR 0x5C] s))"

text \<open>PostgreSQL's \<open>LIKE\<close> with the escape character \<open>\\<close>, on a text and a pattern.\<close>

fun like :: "string \<Rightarrow> string \<Rightarrow> bool" where
  "like s [] = (s = [])"
| "like s (c # p) =
     (if c = CHR 0x5C then
        (case p of [] \<Rightarrow> False
         | d # p' \<Rightarrow> (case s of [] \<Rightarrow> False | x # s' \<Rightarrow> x = d \<and> like s' p'))
      else if c = CHR ''%'' then like s p \<or> (case s of [] \<Rightarrow> False | x # s' \<Rightarrow> like s' (c # p))
      else (case s of [] \<Rightarrow> False | x # s' \<Rightarrow> (c = CHR ''_'' \<or> x = c) \<and> like s' p))"

text \<open>\<open>ILIKE\<close> folds the case of both sides with the database's collation, \<open>fold_case\<close>.\<close>

definition ilike :: "(char \<Rightarrow> char) \<Rightarrow> string \<Rightarrow> string \<Rightarrow> bool" where
  "ilike fold_case s p = like (map fold_case s) (map fold_case p)"

record list_query =
  lq_limit :: int
  lq_offset :: int
  lq_project_key :: "string option"
  lq_status :: "memory_status option"
  lq_q :: "string option"

record memory_list_response =
  ml_items :: "memory_unit list"
  ml_total :: nat
  ml_limit :: int
  ml_offset :: int

definition list_filter :: "(char \<Rightarrow> char) \<Rightarrow> list_query \<Rightarrow> memory_unit \<Rightarrow> bool" where
  "list_filter fold_case q u \<longleftrightarrow>
     (case lq_status q of
        None \<Rightarrow> mu_status u \<notin> {Candidate, Staged}
      | Some st \<Rightarrow> mu_status u = st) \<and>
     (case lq_project_key q of None \<Rightarrow> True | Some k \<Rightarrow> mu_project_key u = Some k) \<and>
     (case lq_q q of
        None \<Rightarrow> True
      | Some t \<Rightarrow>
          strip t = [] \<or>
          (let p = CHR ''%'' # escape_ilike (strip t) @ ''%'' in
           ilike fold_case (mu_label u) p \<or> ilike fold_case (mu_body u) p))"

definition list_memories :: "(char \<Rightarrow> char) \<Rightarrow> list_query \<Rightarrow> memory_list_response op" where
  "list_memories fold_case q =
     sqn (raise_if (\<not> (1 \<le> lq_limit q \<and> lq_limit q \<le> 200))
            (InvalidListQuery ''limit must satisfy 1 <= limit <= 200''))
    (sqn (raise_if (lq_offset q < 0) (InvalidListQuery ''offset must be greater than or equal to zero''))
    (bnd (gets (\<lambda>s. filter (list_filter fold_case q) (memory_units s))) (\<lambda>rows.
     ret \<lparr>ml_items = take (nat (lq_limit q)) (drop (nat (lq_offset q))
                       (sort_key (\<lambda>u. (- mu_updated_at u, mu_id u)) rows)),
          ml_total = length rows, ml_limit = lq_limit q, ml_offset = lq_offset q\<rparr>)))"

section \<open>Project backfill\<close>

definition takes_project :: "string \<Rightarrow> (uuid \<times> string) list \<Rightarrow> memory_unit \<Rightarrow> bool" where
  "takes_project prin projects u \<longleftrightarrow> mu_principal_id u = prin \<and> mu_project_key u = None \<and>
     (case mu_origin_thread_id u of None \<Rightarrow> False | Some t \<Rightarrow> t \<in> fst ` set projects)"

definition set_project :: "(uuid \<times> string) list \<Rightarrow> uuid \<Rightarrow> unit op" where
  "set_project projects i =
     bnd (gets (\<lambda>s. (unit_by_id s i, txn_now s))) (\<lambda>(row, now).
     case row of
       None \<Rightarrow> ret ()
     | Some u \<Rightarrow> update_unit u (u\<lparr>mu_project_key := Option.bind (mu_origin_thread_id u) (map_of projects),
                                 mu_updated_at := now\<rparr>))"

definition backfill_projects :: "env \<Rightarrow> string \<Rightarrow> (uuid \<times> string) list \<Rightarrow> nat op" where
  "backfill_projects \<epsilon> prin projects = transaction \<epsilon>
     (bnd (gets (\<lambda>s. map mu_id (filter (takes_project prin projects) (memory_units s)))) (\<lambda>ids.
      sqn (iterM (set_project projects) ids) (ret (length ids))))"

section \<open>Search\<close>

record search_query =
  sq_principal_id :: string
  sq_query :: string
  sq_k :: int
  sq_project_key :: "string option"

definition search :: "env \<Rightarrow> search_query \<Rightarrow> similarity_card list op" where
  "search \<epsilon> q =
     sqn (raise_if (\<not> (1 \<le> sq_k q \<and> sq_k q \<le> 50)) (InvalidSearchQuery ''k must satisfy 1 <= k <= 50''))
    (bnd (embed_one \<epsilon> (sq_query q)) (\<lambda>v.
     bnd (gets memory_units) (\<lambda>us.
     let hits = filter (\<lambda>u. mu_principal_id u = sq_principal_id q \<and> mu_status u = Active \<and>
                          (case sq_project_key q of None \<Rightarrow> True
                           | Some k \<Rightarrow> mu_project_key u = None \<or> mu_project_key u = Some k)) us in
     ret (map (\<lambda>u. similarity_card_from_row u (cosine_score \<epsilon> (mu_embedding u) v))
           (take (nat (sq_k q))
             (sort_key (\<lambda>u. (cosine_distance \<epsilon> (mu_embedding u) v, mu_id u)) hits))))))"

section \<open>The label of an approved candidate\<close>

definition label_qualifier :: "memory_unit \<Rightarrow> string" where
  "label_qualifier u = (case mu_project_key u of
       Some (x # xs) \<Rightarrow> path_name (x # xs)
     | _ \<Rightarrow> (case find (\<lambda>w. \<not> contains (py_lower (mu_label u)) w) (mu_keywords u) of
               None \<Rightarrow> ''fact'' | Some w \<Rightarrow> w))"

definition label_number :: "nat \<Rightarrow> string" where
  "label_number attempt = (if attempt > 1 then CHR '' '' # show_nat attempt else [])"

definition label_suffix :: "memory_config \<Rightarrow> string \<Rightarrow> nat \<Rightarrow> string" where
  "label_suffix c qualifier attempt =
     [CHR '' '', CHR 0xB7, CHR '' ''] @
     slice_to (label_max c div 2 - int (length (label_number attempt)) - 3) qualifier @
     label_number attempt"

definition qualified_label :: "memory_config \<Rightarrow> memory_unit \<Rightarrow> nat \<Rightarrow> string" where
  "qualified_label c u attempt =
     (let suffix = label_suffix c (label_qualifier u) attempt in
      rstrip (slice_to (label_max c - int (length suffix)) (mu_label u)) @ suffix)"

text \<open>The loop of \<open>approval_label\<close>. The fuel only bounds the recursion; \<open>None\<close> is running out of
  it.\<close>

fun free_label :: "memory_config \<Rightarrow> db \<Rightarrow> memory_unit \<Rightarrow> nat \<Rightarrow> nat \<Rightarrow> string \<Rightarrow> string option" where
  "free_label c s u 0 attempt label = None"
| "free_label c s u (Suc fuel) attempt label =
     (if find_active_label s (mu_principal_id u) label None = None then Some label
      else free_label c s u fuel (attempt + 1) (qualified_label c u (attempt + 1)))"

definition approval_label :: "memory_config \<Rightarrow> memory_unit \<Rightarrow> string op" where
  "approval_label c u =
     bnd (gets (\<lambda>s. free_label c s u (length (memory_units s) + 3) 0 (mu_label u))) (\<lambda>r.
     case r of None \<Rightarrow> raise NonTermination | Some l \<Rightarrow> ret l)"

section \<open>The first revision of a head\<close>


lemma insert_root_success:
  assumes "insert_root \<epsilon> cmd v st mid run agent s = (Inr u, t)"
  obtains i uid ct n where
    "u = root_row \<epsilon> cmd v st i run agent (txn_now s)"
    "t = s\<lparr>memory_units := memory_units s @ [u],
           memory_revisions := memory_revisions s @ [root_revision cmd uid u (txn_now s)],
           curator_triggers := ct, readings := n\<rparr>"
    "i \<notin> mu_id ` set (memory_units s)" "uid \<notin> rev_uid ` set (memory_revisions s)"
    "\<not> label_taken (memory_units s) u" "\<And>j. mid = Some j \<Longrightarrow> i = j"
proof -
  let ?get = "case mid of None \<Rightarrow> bnd draw (\<lambda>n. ret (gen_random_uuid \<epsilon> n)) | Some i \<Rightarrow> ret i"
  obtain i n where get: "?get s = (Inr i, s\<lparr>readings := n\<rparr>)" and mid: "\<And>j. mid = Some j \<Longrightarrow> i = j"
  proof (cases mid)
    case None
    then show ?thesis
      by (intro that [of "gen_random_uuid \<epsilon> (readings s)" "Suc (readings s)"]) (simp_all add: bnd_def draw_def ret_def)
  next
    case (Some j)
    then show ?thesis by (intro that [of j "readings s"]) (simp_all add: ret_def)
  qed
  let ?w = "s\<lparr>readings := n\<rparr>"
  from assms obtain x uid y where
    u: "u = root_row \<epsilon> cmd v st i run agent (txn_now s)"
    and x: "insert_unit u ?w = (Inr (), x)"
    and y: "mint \<epsilon> x = (Inr uid, y)"
    and r: "insert_revision (root_revision cmd uid u (txn_now s)) y = (Inr (), t)"
    unfolding insert_root_def by (auto simp: bnd_eval(1) [where m = ?get, OF get] act_iff Let_def)
  from insert_unit_Inr [OF x] obtain ct where
    x': "x = ?w\<lparr>memory_units := memory_units s @ [u], curator_triggers := ct\<rparr>"
    and fr: "mu_id u \<notin> mu_id ` set (memory_units s)" "\<not> label_taken (memory_units s) u" by auto
  have i: "mu_id u = i" by (simp add: u root_row_def)
  show ?thesis
  proof (rule that)
    show "t = s\<lparr>memory_units := memory_units s @ [u],
           memory_revisions := memory_revisions s @ [root_revision cmd uid u (txn_now s)],
           curator_triggers := ct, readings := Suc n\<rparr>"
      using r y by (auto simp: insert_revision_Inr mint_Inr x')
    show "uid \<notin> rev_uid ` set (memory_revisions s)"
      using r y by (auto simp: insert_revision_Inr mint_Inr x' root_revision_def)
  qed (use u fr i mid in auto)
qed

lemma head_lineage_other:
  assumes "memory_revisions t = memory_revisions s @ [r]" "rev_memory_id r \<noteq> mu_id u"
  shows "head_lineage t u = head_lineage s u"
proof -
  have "revisions_at t (mu_id u) n = revisions_at s (mu_id u) n" for n
    using assms by (simp add: revisions_at_def)
  then show ?thesis by (simp add: head_lineage_def)
qed

lemma insert_root_lineage:
  assumes run: "insert_root \<epsilon> cmd v st mid run agent s = (Inr u, t)" and ok: "lineage_ok s"
  shows "lineage_ok t"
proof -
  from run obtain i uid ct n where
    u: "u = root_row \<epsilon> cmd v st i run agent (txn_now s)"
    and t: "t = s\<lparr>memory_units := memory_units s @ [u],
           memory_revisions := memory_revisions s @ [root_revision cmd uid u (txn_now s)],
           curator_triggers := ct, readings := n\<rparr>"
    and fr: "i \<notin> mu_id ` set (memory_units s)" "uid \<notin> rev_uid ` set (memory_revisions s)"
    by (rule insert_root_success)
  let ?r = "root_revision cmd uid u (txn_now s)"
  have i: "mu_id u = i" "mu_revision u = 1" by (simp_all add: u root_row_def)
  have r: "rev_memory_id ?r = i" "rev_revision ?r = Some 1" "rev_uid ?r = uid"
    by (simp_all add: root_revision_def i)
  have no: "r \<in> set (memory_revisions s) \<Longrightarrow> rev_memory_id r \<noteq> i" for r
    using ok fr by (auto simp: lineage_ok_def)
  have at: "revisions_at t i m = (if m = 1 then [?r] else [])" for m
    using no by (auto simp: t revisions_at_def r filter_empty_conv)
  have "head_lineage t u"
    unfolding head_lineage_def i by (auto simp: at root_revision_def)
  moreover have "head_lineage t v" if "v \<in> set (memory_units s)" for v
    using that ok fr head_lineage_other [of t s ?r v] by (auto simp: t r lineage_ok_def)
  ultimately show ?thesis
    using ok fr i r by (auto simp: lineage_ok_def t)
qed

lemma safe_insert_root: "safe.oks (insert_root \<epsilon> cmd v st mid run agent)"
proof (rule safe.oksI)
  fix s u t
  assume run: "insert_root \<epsilon> cmd v st mid run agent s = (Inr u, t)"
  then obtain i uid ct n where
    t: "t = s\<lparr>memory_units := memory_units s @ [u],
           memory_revisions := memory_revisions s @ [root_revision cmd uid u (txn_now s)],
           curator_triggers := ct, readings := n\<rparr>"
    and lab: "\<not> label_taken (memory_units s) u"
    by (rule insert_root_success)
  have "append_only s t" by (simp add: t append_only_def)
  moreover have "labels_ok s \<Longrightarrow> labels_ok t"
    using labels_snoc [OF _ lab] by (simp add: t labels_ok_def)
  moreover have "queue_ok s \<Longrightarrow> queue_ok t"
    by (auto simp: t queue_ok_def item_settled_def decision_for_def)
  ultimately show "safe_step s t"
    using insert_root_lineage [OF run] by (simp add: safe_step_def db_ok_def)
qed

subsection \<open>Every operation of the service is a safe step\<close>

lemma safe_validate_label: "safe.steps (validate_label c l)"
  unfolding validate_label_def by (rule safe.steps_raise_if)

lemma safe_validate_body: "safe.steps (validate_body \<epsilon> c b)"
  unfolding validate_body_def by (rule safe.steps_raise_if)

lemma safe_validate_keyword_list: "safe.steps (validate_keyword_list seen ks)"
  by (induction ks arbitrary: seen) (simp_all add: safe.steps_ret safe.steps_sqn safe.steps_raise_if)

lemma safe_validate_split_keywords: "safe.steps (validate_split_keywords ks)"
  unfolding validate_split_keywords_def
  by (intro safe.steps_rules safe_validate_keyword_list)

lemma safe_validate_children: "safe.steps (validate_children \<epsilon> c ls bs chs)"
  by (induction chs arbitrary: ls bs)
    (simp_all add: safe.steps_ret safe.steps_sqn safe.steps_raise_if safe_validate_label
      safe_validate_body safe_validate_split_keywords)

lemma safe_validate_split: "safe.steps (validate_split \<epsilon> c cmd)"
  unfolding validate_split_def
  by (intro safe.steps_rules safe_validate_label safe_validate_children)

lemma safe_raise_label_conflict: "safe.steps (raise_label_conflict p l)"
  unfolding raise_label_conflict_def by (intro safe.steps_rules)

lemma safe_on_label_conflict: "safe.steps (on_label_conflict p ls e)"
  unfolding on_label_conflict_def by (intro safe.steps_rules safe_raise_label_conflict)

lemma safe_split_refusal: "safe.steps (split_refusal \<epsilon> c p chs)"
proof (induction chs)
  case Nil
  then show ?case by (simp add: safe.steps_ret)
next
  case (Cons x chs)
  then show ?case
    by (cases x) (auto simp: Let_def intro!: safe.steps_sqn safe.steps_bnd safe.steps_gets
        safe.steps_raise_if safe.steps_ret safe_raise_label_conflict)
qed

lemma safe_refuse_rejected: "safe.steps (refuse_rejected \<epsilon> p b)"
  unfolding refuse_rejected_def by (intro safe.steps_rules)

lemmas safe_parts = safe_refuse_rejected safe_draw safe_mint safe_clock safe_embed_one safe_validate_label
  safe_validate_body safe_validate_split_keywords safe_validate_split safe_raise_label_conflict
  safe_on_label_conflict safe_split_refusal safe_cas

lemmas safe_ok_parts = safe_parts [THEN safe.steps_oks]

lemma safe_create: "safe.steps (create \<epsilon> c cmd)"
  unfolding create_def
  by (intro safe.steps_rules safe_parts safe_transaction safe.oks_rules safe_ok_parts
      safe.oks_catch safe_savepoint safe_insert_root)

lemma safe_relate_siblings: "safe.oks (relate_siblings \<epsilon> ids)"
  unfolding relate_siblings_def relate_pair_def by (intro safe.oks_rules safe_ok_parts safe_insert_edge)

lemma safe_insert_family: "safe.oks (insert_family \<epsilon> cmd v chs)"
  unfolding insert_family_def
  by (intro safe.oks_rules safe_ok_parts safe_insert_root safe_relate_siblings)

lemma safe_split: "safe.steps (split \<epsilon> c cmd)"
  unfolding split_def
  by (intro safe.steps_rules safe_parts safe_transaction safe.oks_rules safe_ok_parts
      safe.oks_catch safe_savepoint safe_insert_family)

lemma safe_create_candidate: "safe.steps (create_candidate \<epsilon> c cmd ids)"
  unfolding create_candidate_def
  by (intro safe.steps_rules safe_parts safe_transaction safe.oks_rules safe_ok_parts
      safe_insert_root)

lemma safe_create_curator_candidate: "safe.steps (create_curator_candidate \<epsilon> c cmd ids)"
  unfolding create_curator_candidate_def
  by (intro safe.steps_rules safe_parts safe_transaction safe.oks_rules safe_ok_parts
      safe_insert_root)

lemma safe_create_split_source: "safe.steps (create_split_source \<epsilon> c cmd)"
  unfolding create_split_source_def
  by (intro safe.steps_rules safe_parts safe_transaction safe.oks_rules safe_ok_parts
      safe_insert_root)

lemma safe_prepare_curator_amendment: "safe.steps (prepare_curator_amendment \<epsilon> c b)"
  unfolding prepare_curator_amendment_def by (intro safe.steps_rules safe_parts)

lemma safe_prepare_children: "safe.steps (prepare_children \<epsilon> c ls bs chs)"
  by (induction chs arbitrary: ls bs)
    (auto simp: safe.steps_ret intro!: safe.steps_sqn safe.steps_bnd safe.steps_raise_if
      safe.steps_ret safe_parts)

lemma safe_prepare_curator_split: "safe.steps (prepare_curator_split \<epsilon> c chs)"
  unfolding prepare_curator_split_def by (intro safe.steps_rules safe_prepare_children)

lemma safe_enact_curator_split: "safe.oks (enact_curator_split \<epsilon> src chs m f)"
  unfolding enact_curator_split_def
  by (intro safe.oks_rules safe_ok_parts safe_insert_root safe_relate_siblings)

lemma safe_staged_replay_row: "safe.steps (staged_replay_row i cmd)"
  unfolding staged_replay_row_def by (intro safe.steps_rules)

lemma safe_stage_symphony: "safe.steps (stage_symphony \<epsilon> c cmd i run agent)"
  unfolding stage_symphony_def require_staged_identity_def
  by (intro safe.steps_rules safe_parts safe_transaction safe.oks_rules safe_ok_parts
      safe_insert_root safe_staged_replay_row safe.steps_oks [OF safe_staged_replay_row])

lemma safe_patch_error: "safe.steps (patch_error cmd ch e)"
  unfolding patch_error_def by (cases e) (auto intro!: safe.steps_rules)

lemma safe_patch: "safe.steps (patch \<epsilon> c cmd)"
  unfolding patch_def
  by (intro safe.steps_rules safe_parts safe_transaction safe.oks_rules safe_ok_parts
      safe.oks_catch safe.steps_oks [OF safe_patch_error])

lemma safe_search: "safe.steps (search \<epsilon> q)"
  unfolding search_def by (intro safe.steps_rules safe_parts)

lemma safe_list_memories: "safe.steps (list_memories fc q)"
  unfolding list_memories_def by (intro safe.steps_rules)

lemma safe_approval_label: "safe.steps (approval_label c u)"
  unfolding approval_label_def by (intro safe.steps_rules)

lemma safe_touch:
  assumes run: "update_unit u u' s = (Inr x, t)" and u: "unit_by_id s i = Some u"
    and same: "mu_id u' = mu_id u" "mu_revision u' = mu_revision u" "mu_body u' = mu_body u"
      "mu_label u' = mu_label u"
  shows "safe_step s t"
proof -
  from update_unit_Inr [OF run] obtain ct where
    t: "t = s\<lparr>memory_units := replace_unit u' (memory_units s), curator_triggers := ct\<rparr>"
    and lab: "\<not> label_taken (memory_units s) u'" by blast
  from u have mem: "u \<in> set (memory_units s)" by (auto simp: unit_by_id_def dest: find_Some_set)
  have hl: "head_lineage t v = head_lineage s v" for v
    by (simp add: head_lineage_def t revisions_at_def)
  have hu: "head_lineage s u' = head_lineage s u"
    by (simp add: head_lineage_def same)
  have "v \<in> set (memory_units t) \<Longrightarrow> v = u' \<or> v \<in> set (memory_units s)" for v
    by (auto simp: t replace_unit_def)
  then have "lineage_ok s \<Longrightarrow> \<forall>v \<in> set (memory_units t). head_lineage t v"
    using mem hl hu unfolding lineage_ok_def by metis
  then have "lineage_ok s \<Longrightarrow> lineage_ok t"
    by (simp add: lineage_ok_def t)
  moreover have "labels_ok s \<Longrightarrow> labels_ok t"
    using labels_replace_unit [OF _ lab] by (simp add: t labels_ok_def)
  moreover have "queue_ok t = queue_ok s" by (rule queue_ok_cong) (simp_all add: t)
  ultimately show ?thesis by (simp add: safe_step_def db_ok_def append_only_def t)
qed

lemma safe_set_project: "safe.oks (set_project projects i)"
proof (rule safe.oksI)
  fix s x t
  assume "set_project projects i s = (Inr x, t)"
  then consider "t = s" | u u' where "unit_by_id s i = Some u" "update_unit u u' s = (Inr x, t)"
      "mu_id u' = mu_id u" "mu_revision u' = mu_revision u" "mu_body u' = mu_body u"
      "mu_label u' = mu_label u"
    by (auto simp: set_project_def act_iff)
  then show "safe_step s t"
    by cases (simp add: safe.R_refl, rule safe_touch)
qed

lemma safe_backfill_projects: "safe.steps (backfill_projects \<epsilon> prin projects)"
  unfolding backfill_projects_def
  by (intro safe_transaction safe.oks_rules safe_set_project)

section \<open>The label of an approved candidate is free\<close>

lemma find_active_label_None:
  "find_active_label s p l ex = None \<longleftrightarrow>
     (\<forall>u \<in> set (memory_units s). mu_principal_id u = p \<and> mu_label u = l \<and> mu_status u = Active \<longrightarrow>
        ex = Some (mu_id u))"
proof -
  have *: "(case sort_key mu_id xs of [] \<Rightarrow> None | u # _ \<Rightarrow> Some (mu_id u, mu_label u)) = None \<longleftrightarrow> xs = []"
    for xs :: "memory_unit list"
    using set_sort [of mu_id xs] by (cases "sort_key mu_id xs") auto
  show ?thesis
    unfolding find_active_label_def * by (auto simp: filter_empty_conv)
qed

lemma last_word_inj:
  assumes "a @ CHR '' '' # x = b @ CHR '' '' # y" "CHR '' '' \<notin> set x" "CHR '' '' \<notin> set y"
  shows "x = y"
proof -
  have last: "takeWhile (\<lambda>z. z \<noteq> CHR '' '') (rev (c @ CHR '' '' # z)) = rev z"
    if "CHR '' '' \<notin> set z" for c z
    using that by (simp add: takeWhile_append2 [where xs = "rev z"] del: rev_rev_ident) (subst takeWhile_append2; auto)
  from last [OF assms(2), of a] last [OF assms(3), of b] assms(1) show ?thesis
    by (metis rev_rev_ident)
qed

lemma qualified_label_number:
  "2 \<le> k \<Longrightarrow> \<exists>a. qualified_label c u k = a @ CHR '' '' # show_nat k"
  by (auto simp: qualified_label_def label_suffix_def label_number_def Let_def)

lemma qualified_label_inj: "inj_on (qualified_label c u) {2..}"
proof (rule inj_onI)
  fix j k assume jk: "j \<in> {2::nat..}" "k \<in> {2..}" "qualified_label c u j = qualified_label c u k"
  obtain a where "qualified_label c u j = a @ CHR '' '' # show_nat j"
    using qualified_label_number [of j c u] jk(1) by auto
  moreover obtain b where "qualified_label c u k = b @ CHR '' '' # show_nat k"
    using qualified_label_number [of k c u] jk(2) by auto
  ultimately show "j = k"
    using jk(3) last_word_inj [of a "show_nat j" b "show_nat k"]
    by (simp add: show_nat_no_space show_nat_inj)
qed

lemma free_label_None:
  "free_label c s u fuel a l = None \<Longrightarrow> a < k \<Longrightarrow> k < a + fuel \<Longrightarrow>
     find_active_label s (mu_principal_id u) (qualified_label c u k) None \<noteq> None"
proof (induction fuel arbitrary: a l)
  case 0
  then show ?case by simp
next
  case (Suc fuel)
  then show ?case
    by (cases "k = Suc a"; cases fuel) (auto split: if_splits)
qed

lemma free_label_enough:
  "free_label c s u (length (memory_units s) + 3) 0 l \<noteq> None"
proof
  let ?n = "length (memory_units s)" and ?q = "qualified_label c u"
  assume none: "free_label c s u (?n + 3) 0 l = None"
  have "?q k \<in> mu_label ` set (memory_units s)" if "k \<in> {2..?n + 2}" for k
  proof -
    have "find_active_label s (mu_principal_id u) (?q k) None \<noteq> None"
      using free_label_None [OF none, of k] that by simp
    then obtain v where "v \<in> set (memory_units s)" "mu_label v = ?q k"
      unfolding find_active_label_None by blast
    then show ?thesis by (metis image_eqI)
  qed
  then have "card (?q ` {2..?n + 2}) \<le> card (mu_label ` set (memory_units s))"
    by (intro card_mono) auto
  also have "\<dots> \<le> ?n"
    by (metis card_image_le card_length le_trans List.finite_set)
  also have "card (?q ` {2..?n + 2}) = card {2..?n + 2}"
    by (rule card_image, rule inj_on_subset [OF qualified_label_inj]) auto
  finally show False by simp
qed

lemma free_label_Some:
  "free_label c s u fuel a l = Some m \<Longrightarrow>
     find_active_label s (mu_principal_id u) m None = None \<and>
     (m = l \<or> (\<exists>k. a < k \<and> k < a + fuel \<and> m = qualified_label c u k))"
proof (induction fuel arbitrary: a l)
  case 0
  then show ?case by simp
next
  case (Suc fuel)
  show ?case
  proof (cases "find_active_label s (mu_principal_id u) l None = None")
    case True
    with Suc.prems show ?thesis by simp
  next
    case False
    with Suc.prems have run: "free_label c s u fuel (Suc a) (qualified_label c u (Suc a)) = Some m"
      by simp
    then have "fuel \<noteq> 0" by (cases fuel) simp_all
    with Suc.IH [OF run] show ?thesis by (auto intro: Suc_lessD)
  qed
qed

lemma length_show_nat: "n < 10 ^ Suc d \<Longrightarrow> length (show_nat n) \<le> Suc d"
proof (induction d arbitrary: n)
  case 0
  then show ?case by (simp add: show_nat.simps)
next
  case (Suc d)
  show ?case
  proof (cases "n < 10")
    case False
    from Suc.prems have "n div 10 < 10 ^ Suc d" by (simp add: less_mult_imp_div_less)
    from Suc.IH [OF this] show ?thesis by (simp add: show_nat.simps [of n])
  qed (simp add: show_nat.simps)
qed

lemma length_slice_to: "0 \<le> n \<Longrightarrow> int (length (slice_to n s)) \<le> n"
  by (simp add: slice_to_def)

lemma length_rstrip: "length (rstrip s) \<le> length s"
  by (metis length_dropWhile_le length_rev rstrip_def)

lemma length_qualified_label:
  assumes "int (length (label_number k)) + 3 \<le> label_max c div 2"
  shows "int (length (qualified_label c u k)) \<le> label_max c"
proof -
  let ?s = "label_suffix c (label_qualifier u) k"
  have "int (length ?s) \<le> label_max c div 2"
    using assms length_slice_to [of "label_max c div 2 - int (length (label_number k)) - 3" "label_qualifier u"]
    by (simp add: label_suffix_def)
  then have "int (length ?s) \<le> label_max c" using assms by linarith
  then have "int (length (slice_to (label_max c - int (length ?s)) (mu_label u))) \<le> label_max c - int (length ?s)"
    by (intro length_slice_to) simp
  then show ?thesis
    using length_rstrip [of "slice_to (label_max c - int (length ?s)) (mu_label u)"]
    by (simp add: qualified_label_def Let_def)
qed

lemma approval_label_run:
  obtains l where "approval_label c u s = (Inr l, s)"
    "find_active_label s (mu_principal_id u) l None = None"
    "l = mu_label u \<or> (\<exists>k. 0 < k \<and> k < length (memory_units s) + 3 \<and> l = qualified_label c u k)"
proof -
  obtain l where l: "free_label c s u (length (memory_units s) + 3) 0 (mu_label u) = Some l"
    using free_label_enough by blast
  then have "approval_label c u s = (Inr l, s)"
    by (simp add: approval_label_def act_defs)
  with free_label_Some [OF l] that show ?thesis by auto
qed

text \<open>C6: The label loop of an approval always ends, changes nothing, and returns a label no
  active memory of the candidate's principal carries; the label fits \<open>label_max\<close> as long as the
  attempt numbers leave room for the qualifier in half of it.\<close>

theorem approval_label_fresh:
  assumes "int (length (mu_label u)) \<le> label_max c"
    and "length (memory_units s) + 2 < 10 ^ d" and "0 < d" and "int d + 4 \<le> label_max c div 2"
  shows "\<exists>l. approval_label c u s = (Inr l, s) \<and> int (length l) \<le> label_max c \<and>
     (\<forall>v \<in> set (memory_units s). mu_status v = Active \<and> mu_principal_id v = mu_principal_id u \<longrightarrow>
        mu_label v \<noteq> l)"
proof -
  obtain l where l: "approval_label c u s = (Inr l, s)"
    "find_active_label s (mu_principal_id u) l None = None"
    "l = mu_label u \<or> (\<exists>k. 0 < k \<and> k < length (memory_units s) + 3 \<and> l = qualified_label c u k)"
    by (rule approval_label_run)
  have "int (length (label_number k)) + 3 \<le> label_max c div 2" if "k < length (memory_units s) + 3" for k
  proof -
    from that assms(2) have "k < 10 ^ d" by simp
    then have "length (show_nat k) \<le> d"
      using length_show_nat [of k "d - 1"] assms(3) by simp
    with assms(4) show ?thesis by (simp add: label_number_def)
  qed
  with l(3) assms(1) length_qualified_label have "int (length l) \<le> label_max c" by blast
  with l show ?thesis by (auto simp: find_active_label_None)
qed

section \<open>Deduplication\<close>

lemma sort_key_hd_le: "sort_key f xs = y # ys \<Longrightarrow> x \<in> set xs \<Longrightarrow> f y \<le> f x"
  by (metis (no_types, lifting) list.set_intros(1) list.simps(9) set_ConsD set_sort
      sorted_simps(2) sorted_sort_key order_refl list.set_map image_eqI)

lemma dedup_matches_mem:
  "k \<in> set (dedup_matches \<epsilon> c s p v sts ex) \<longleftrightarrow>
     (\<exists>u \<in> set (memory_units s). mu_principal_id u = p \<and> mu_status u \<in> set sts \<and>
        cosine_score \<epsilon> (mu_embedding u) v \<ge> dedup_sim c \<and> mu_id u \<notin> set ex \<and>
        k = similarity_card_from_row u (cosine_score \<epsilon> (mu_embedding u) v))"
  by (auto simp: dedup_matches_def)

lemma top_score_max:
  assumes "k \<in> set (dedup_matches \<epsilon> c s p v sts ex)"
  shows "\<exists>x. top_score (dedup_matches \<epsilon> c s p v sts ex) = Some x \<and> card_score k \<le> x"
proof -
  obtain m ms where m: "dedup_matches \<epsilon> c s p v sts ex = m # ms"
    using assms by (cases "dedup_matches \<epsilon> c s p v sts ex") auto
  have "(- card_score m, card_memory_id m) \<le> (- card_score k, card_memory_id k)"
    using sort_key_hd_le [OF m [unfolded dedup_matches_def] assms [unfolded dedup_matches_def set_sort]] .
  then show ?thesis by (auto simp: m top_score_def)
qed

lemma dedup_below:
  assumes below: "\<And>x. top_score (dedup_matches \<epsilon> c s p v sts ex) = Some x \<Longrightarrow> x < b"
    and "dedup_sim c \<le> b" "u \<in> set (memory_units s)" "mu_principal_id u = p" "mu_status u \<in> set sts"
    and "mu_id u \<notin> set ex"
  shows "cosine_score \<epsilon> (mu_embedding u) v < b"
proof (rule ccontr)
  assume "\<not> ?thesis"
  then have "b \<le> cosine_score \<epsilon> (mu_embedding u) v" by simp
  with assms have "similarity_card_from_row u (cosine_score \<epsilon> (mu_embedding u) v)
      \<in> set (dedup_matches \<epsilon> c s p v sts ex)" (is "?k \<in> _")
    unfolding dedup_matches_mem by auto
  from top_score_max [OF this] below \<open>b \<le> _\<close> show False
    by (force simp: similarity_card_from_row_def)
qed

lemma classify_bands:
  "classify_dedup_score sim dup sc \<noteq> Duplicate \<Longrightarrow> sc = Some x \<Longrightarrow> sim \<le> dup \<Longrightarrow> x < dup"
  "classify_dedup_score sim dup sc = Distinct \<Longrightarrow> sc = Some x \<Longrightarrow> x < sim"
  by (auto simp: classify_dedup_score_def split: if_splits)

lemma raise_label_conflict_Inr:
  "raise_label_conflict p l s = (Inr x, t) \<longleftrightarrow> t = s \<and> find_active_label s p l None = None"
  by (auto simp: raise_label_conflict_def act_iff)

lemma iterM_no_Inr: "(\<And>x s y t. f x s \<noteq> (Inr y, t)) \<Longrightarrow> xs \<noteq> [] \<Longrightarrow> iterM f xs s \<noteq> (Inr y, t)"
  by (cases xs) (auto simp: act_iff)

lemma on_label_conflict_no_Inr: "on_label_conflict p ls e s \<noteq> (Inr x, t)"
  by (auto simp: on_label_conflict_def act_iff)

text \<open>C2: A memory that \<open>create\<close> admits is one new head at revision 1 with one root revision; its
  label and body are within the limits, its exact body was never rejected in the queue, no active
  memory of the principal has its label, and every active memory of the principal scores below
  the duplicate threshold, and below the similarity threshold unless the caller forced it.\<close>

theorem create_admits:
  assumes "memory_config_ok c" and run: "create \<epsilon> c cmd s = (Inr (MemoryCreated u), t)"
  shows "\<exists>v r ct n now. embedding \<epsilon> (cm_body cmd) = Some v \<and>
     (\<exists>i. u = root_row \<epsilon> cmd v Active i None None now \<and> i \<notin> mu_id ` set (memory_units s)) \<and>
     t = s\<lparr>memory_units := memory_units s @ [u], memory_revisions := memory_revisions s @ [r],
            curator_triggers := ct, readings := n, txn_now := now\<rparr> \<and>
     rev_memory_id r = mu_id u \<and> rev_revision r = Some 1 \<and>
     int (length (mu_label u)) \<le> label_max c \<and> token_count \<epsilon> (mu_body u) \<le> memory_max_tokens c \<and>
     \<not> rejected_body \<epsilon> s (mu_principal_id u) (mu_body u) \<and>
     (\<forall>w \<in> set (memory_units s). mu_principal_id w = mu_principal_id u \<and> mu_status w = Active \<longrightarrow>
        mu_label w \<noteq> mu_label u \<and> cosine_score \<epsilon> (mu_embedding w) v < dedup_dup c \<and>
        (cm_force cmd \<or> cosine_score \<epsilon> (mu_embedding w) v < dedup_sim c))"
proof -
  let ?now = "clock \<epsilon> (readings s)"
  let ?s = "s\<lparr>readings := Suc (readings s), txn_now := ?now\<rparr>"
  let ?p = "cm_principal_id cmd"
  from run obtain v where
    v: "embedding \<epsilon> (cm_body cmd) = Some v"
    and len: "int (length (cm_label cmd)) \<le> label_max c" "token_count \<epsilon> (cm_body cmd) \<le> memory_max_tokens c"
    and rej: "\<not> rejected_body \<epsilon> ?s ?p (cm_body cmd)"
    and band: "classify_dedup_score (dedup_sim c) (dedup_dup c) (top_score (dedup_matches \<epsilon> c ?s ?p v [Active] [])) \<noteq> Duplicate"
      "classify_dedup_score (dedup_sim c) (dedup_dup c) (top_score (dedup_matches \<epsilon> c ?s ?p v [Active] [])) = Similar \<longrightarrow> cm_force cmd"
    and free: "find_active_label ?s ?p (cm_label cmd) None = None"
    and ins: "insert_root \<epsilon> cmd v Active None None None ?s = (Inr u, t)"
    unfolding create_def
    by (auto simp: act_iff transaction_Inr Let_def validate_label_def validate_body_def refuse_rejected_def
        raise_label_conflict_Inr catch_Inr_iff on_label_conflict_no_Inr simp del: not_None_eq split: if_splits)
  from ins obtain i uid ct n where
    u0: "u = root_row \<epsilon> cmd v Active i None None (txn_now ?s)"
    and t0: "t = ?s\<lparr>memory_units := memory_units ?s @ [u],
           memory_revisions := memory_revisions ?s @ [root_revision cmd uid u (txn_now ?s)],
           curator_triggers := ct, readings := n\<rparr>"
    and fresh0: "i \<notin> mu_id ` set (memory_units ?s)"
    by (rule insert_root_success)
  note u = u0 [simplified] and t = t0 [simplified] and fresh = fresh0 [simplified]
  have uf: "mu_principal_id u = ?p" "mu_label u = cm_label cmd" "mu_body u = cm_body cmd"
    by (simp_all add: u root_row_def)
  have sim: "dedup_sim c \<le> dedup_dup c" using assms(1) by (simp add: memory_config_ok_def)
  have each: "mu_label w \<noteq> mu_label u \<and> cosine_score \<epsilon> (mu_embedding w) v < dedup_dup c \<and>
        (cm_force cmd \<or> cosine_score \<epsilon> (mu_embedding w) v < dedup_sim c)"
    if w: "w \<in> set (memory_units s)" "mu_principal_id w = mu_principal_id u" "mu_status w = Active" for w
  proof (intro conjI)
    show "mu_label w \<noteq> mu_label u" using free w uf by (auto simp: find_active_label_None)
    show "cosine_score \<epsilon> (mu_embedding w) v < dedup_dup c"
      using dedup_below [of \<epsilon> c ?s ?p v "[Active]" "[]" "dedup_dup c" w] classify_bands(1) [OF band(1) _ sim] w uf sim
      by simp
    show "cm_force cmd \<or> cosine_score \<epsilon> (mu_embedding w) v < dedup_sim c"
    proof (cases "cm_force cmd")
      case False
      with band have "classify_dedup_score (dedup_sim c) (dedup_dup c)
          (top_score (dedup_matches \<epsilon> c ?s ?p v [Active] [])) = Distinct"
        by (metis dedup_band.exhaust)
      from classify_bands(2) [OF this] w uf
        dedup_below [of \<epsilon> c ?s ?p v "[Active]" "[]" "dedup_sim c" w] show ?thesis by simp
    qed simp
  qed
  have "rejected_body \<epsilon> ?s p b = rejected_body \<epsilon> s p b" for p b
    by (simp add: rejected_body_def)
  then show ?thesis
    using v len rej each fresh u
    by (intro exI [of _ v] exI [of _ "root_revision cmd uid u ?now"] exI [of _ ct] exI [of _ n] exI [of _ ?now])
      (auto simp: uf [unfolded u] t root_revision_def)
qed

definition sample_config :: memory_config where
  "sample_config = \<lparr>dedup_dup = 92/100, dedup_sim = 80/100, label_max = 64, memory_max_tokens = 128\<rparr>"

definition sample_command :: create_command where
  "sample_command = \<lparr>cm_principal_id = ''p'', cm_label = ''Label'', cm_body = ''Body'', cm_kind = Fact,
     cm_editor = ''user'', cm_machine_id = ''m'', cm_keywords = [], cm_project_key = None,
     cm_thread_origin = None, cm_origin_thread_id = None, cm_origin_path = None,
     cm_origin_location = None, cm_origin_locations = [], cm_force = False, cm_parent_uid = None,
     cm_revision_reason = ''create''\<rparr>"

lemma sample_create:
  "\<exists>u t. create sample_env sample_config sample_command empty_db = (Inr (MemoryCreated u), t)"
  by (simp add: create_def sample_config_def sample_command_def validate_label_def validate_body_def
      act_defs embed_one_def transaction_def clock_timestamp_def draw_def empty_db_def
      dedup_matches_def refuse_rejected_def rejected_body_def top_score_def classify_dedup_score_def
      raise_label_conflict_def find_active_label_def savepoint_def insert_root_def root_row_def
      insert_unit_def check_unit_def label_taken_def tick_curator_write_def mint_def
      insert_revision_def root_revision_def Let_def)

theorem create_admits_witness:
  "memory_config_ok sample_config \<and>
   (\<exists>u t r v. create sample_env sample_config sample_command empty_db = (Inr (MemoryCreated u), t) \<and>
      embedding sample_env ''Body'' = Some v \<and> memory_units t = [u] \<and> memory_revisions t = [r])"
proof -
  have ok: "memory_config_ok sample_config" by (simp add: memory_config_ok_def sample_config_def)
  obtain u t where run: "create sample_env sample_config sample_command empty_db = (Inr (MemoryCreated u), t)"
    using sample_create by blast
  from create_admits [OF ok run] obtain v r ct n now where
    "embedding sample_env ''Body'' = Some v"
    "t = empty_db\<lparr>memory_units := memory_units empty_db @ [u],
       memory_revisions := memory_revisions empty_db @ [r], curator_triggers := ct, readings := n, txn_now := now\<rparr>"
    by (auto simp: sample_command_def)
  with ok run show ?thesis by (auto simp: empty_db_def)
qed

section \<open>Literal text filters\<close>

lemma contains_iff: "contains s p \<longleftrightarrow> (\<exists>a b. s = a @ p @ b)"
proof (induction s)
  case (Cons x s)
  show ?case
    unfolding contains.simps Cons.IH startswith_iff
    by (auto simp: Cons_eq_append_conv)
qed auto

definition like_meta :: "char \<Rightarrow> bool" where
  "like_meta c \<longleftrightarrow> c = CHR 0x5C \<or> c = CHR ''%'' \<or> c = CHR ''_''"

lemma escape_ilike_simps [simp]:
  "escape_ilike [] = []"
  "escape_ilike (c # t) = (if like_meta c then [CHR 0x5C, c] else [c]) @ escape_ilike t"
  by (auto simp: escape_ilike_def like_meta_def)

lemma like_escape:
  "like s (escape_ilike t @ p) \<longleftrightarrow> (\<exists>s'. s = t @ s' \<and> like s' p)"
proof (induction t arbitrary: s)
  case (Cons c t)
  then show ?case
    by (cases s) (auto simp: like_meta_def)
qed simp

lemma like_percent: "like s (CHR ''%'' # p) \<longleftrightarrow> (\<exists>a b. s = a @ b \<and> like b p)"
proof (induction s)
  case (Cons x s)
  have "like (x # s) (CHR ''%'' # p) \<longleftrightarrow> like (x # s) p \<or> like s (CHR ''%'' # p)" by simp
  also have "\<dots> \<longleftrightarrow> (\<exists>a b. x # s = a @ b \<and> like b p)"
    unfolding Cons.IH by (auto simp: Cons_eq_append_conv)
  finally show ?case .
qed simp

lemma like_contains: "like s (CHR ''%'' # escape_ilike t @ ''%'') \<longleftrightarrow> contains s t"
  unfolding like_percent like_escape contains_iff by (auto simp: like_percent)

lemma map_escape:
  assumes "\<And>c. like_meta (f c) \<longleftrightarrow> like_meta c" "\<And>c. like_meta c \<Longrightarrow> f c = c"
  shows "map f (escape_ilike t) = escape_ilike (map f t)"
  by (induction t) (use assms in \<open>auto simp: like_meta_def\<close>)

text \<open>The text filter of \<open>list\<close> is a literal, case-folded substring test on the label and the
  body: whatever wildcard or escape characters the search term contains, they match only
  themselves. The collation must not fold another character onto a metacharacter.\<close>

theorem list_filter_literal:
  assumes "\<And>c. like_meta (fold_case c) \<longleftrightarrow> like_meta c" "\<And>c. like_meta c \<Longrightarrow> fold_case c = c"
  shows "list_filter fold_case q u \<longleftrightarrow>
     (case lq_status q of None \<Rightarrow> mu_status u \<notin> {Candidate, Staged} | Some st \<Rightarrow> mu_status u = st) \<and>
     (case lq_project_key q of None \<Rightarrow> True | Some k \<Rightarrow> mu_project_key u = Some k) \<and>
     (case lq_q q of None \<Rightarrow> True
      | Some t \<Rightarrow> contains (map fold_case (mu_label u)) (map fold_case (strip t)) \<or>
                  contains (map fold_case (mu_body u)) (map fold_case (strip t)))"
proof -
  have pct: "fold_case CHR ''%'' = CHR ''%''" by (rule assms) (simp add: like_meta_def)
  have "ilike fold_case x (CHR ''%'' # escape_ilike (strip t) @ ''%'') \<longleftrightarrow>
      contains (map fold_case x) (map fold_case (strip t))" for x t
    by (simp add: ilike_def pct map_escape [OF assms] like_contains del: like.simps)
  moreover have "contains x []" for x by (cases x) (simp_all add: startswith_def)
  ultimately show ?thesis
    by (auto simp: list_filter_def Let_def split: option.splits)
qed

theorem list_filter_literal_witness:
  "list_filter (\<lambda>c. c) \<lparr>lq_limit = 10, lq_offset = 0, lq_project_key = None, lq_status = None, lq_q = Some ''5%''\<rparr>
     (root_row sample_env sample_command [] Active 1 None None 0) = False"
  by (subst list_filter_literal)
    (simp_all add: root_row_def sample_command_def contains_iff [symmetric] startswith_def
      strip_def rstrip_def is_space_def Let_def)

section \<open>Refusals\<close>

text \<open>C5: The two operations that create a memory from a submitted text do not admit an exact body the
  principal has rejected in the queue: \<open>create\<close> raises, \<open>create_candidate\<close> returns nothing or raises, and neither
  changes a table. (Edits, staged attempts and the curator's own texts are not checked against rejections, in the
  code as in the model.)\<close>

theorem rejected_stays_out:
  assumes "rejected_body \<epsilon> s (cm_principal_id cmd) (cm_body cmd)"
  shows "(\<exists>e. fst (create \<epsilon> c cmd s) = Inl e) \<and> same_tables s (snd (create \<epsilon> c cmd s)) \<and>
     (\<forall>r. fst (create_candidate \<epsilon> c cmd ids s) = Inr r \<longrightarrow> r = None) \<and>
     same_tables s (snd (create_candidate \<epsilon> c cmd ids s))"
proof -
  have rej: "rejected_body \<epsilon> (s\<lparr>readings := n, txn_now := m\<rparr>) (cm_principal_id cmd) (cm_body cmd)" for n m
    using assms by (simp add: rejected_body_def)
  show ?thesis
    unfolding create_def create_candidate_def
    by (auto simp: act_defs transaction_def clock_timestamp_def draw_def rej validate_label_def
        validate_body_def embed_one_def same_tables_def refuse_rejected_def rollback_def split: option.split)
qed


definition sample_item :: "string \<Rightarrow> uuid \<Rightarrow> queue_state \<Rightarrow> approval_queue_item" where
  "sample_item i m st = \<lparr>qi_item_uid = i, qi_candidate_memory_id = m, qi_principal_id = ''p'',
     qi_birthplace = B_thread, qi_birthplace_thread_id = Some 9, qi_batch_uid = None,
     qi_source_name = None, qi_source_sha256 = None, qi_birthplace_run_id = None,
     qi_birthplace_origin_agent = None, qi_judged_context = None, qi_candidate_revision = None,
     qi_curator_run_uid = None, qi_curator_finding_uid = None, qi_proposal_payload = None,
     qi_verdict = V_new, qi_neighbor_ids = [], qi_target_ids = [], qi_state = st,
     qi_created_at = 0, qi_decided_at = (if st = Q_pending then None else Some 0)\<rparr>"

definition sample_unit :: "memory_status \<Rightarrow> uuid \<Rightarrow> memory_unit" where
  "sample_unit st i = root_row sample_env sample_command [1] st i None None 0"

theorem rejected_stays_out_witness:
  "\<exists>e. fst (create sample_env sample_config sample_command (empty_db\<lparr>memory_units := [sample_unit Tombstoned 1],
     queue_items := [sample_item ''q'' 1 Q_rejected]\<rparr>)) = Inl e"
  using rejected_stays_out [of sample_env "empty_db\<lparr>memory_units := [sample_unit Tombstoned 1],
     queue_items := [sample_item ''q'' 1 Q_rejected]\<rparr>" sample_command sample_config]
  by (simp add: rejected_body_def sample_unit_def sample_item_def sample_command_def root_row_def)

theorem approval_label_fresh_witness:
  "\<exists>l. approval_label sample_config (sample_unit Candidate 1) empty_db = (Inr l, empty_db) \<and> length l \<le> 64"
  using approval_label_fresh [of "sample_unit Candidate 1" sample_config empty_db 1]
  by (auto simp: sample_unit_def sample_config_def sample_command_def root_row_def empty_db_def)

section \<open>Checks that only read\<close>

interpretation keep: step_order "(=) :: db \<Rightarrow> db \<Rightarrow> bool"
  by unfold_locales simp_all

lemma keep_embed_one: "keep.steps (embed_one \<epsilon> b)"
  unfolding embed_one_def by (intro keep.steps_rules)

lemma keep_split_keywords: "keep.steps (validate_split_keywords ks)"
proof -
  have "keep.steps (validate_keyword_list seen ks)" for seen
    by (induction ks arbitrary: seen) (auto intro!: keep.steps_rules)
  then show ?thesis unfolding validate_split_keywords_def by (intro keep.steps_rules)
qed

lemma keep_validate_children: "keep.steps (validate_children \<epsilon> c ls bs chs)"
  by (induction chs arbitrary: ls bs)
    (auto simp: validate_label_def validate_body_def intro!: keep.steps_rules keep_split_keywords)

lemma keep_validate_split: "keep.steps (validate_split \<epsilon> c cmd)"
  unfolding validate_split_def validate_label_def by (intro keep.steps_rules keep_validate_children)

lemma keep_raise_label_conflict: "keep.steps (raise_label_conflict p l)"
  unfolding raise_label_conflict_def by (intro keep.steps_rules)

lemma keep_refuse_rejected: "keep.steps (refuse_rejected \<epsilon> p b)"
  unfolding refuse_rejected_def by (intro keep.steps_rules)

lemma mapM_embed_Inr:
  "mapM (\<lambda>x. embed_one \<epsilon> (f x)) xs s = (Inr vs, t) \<Longrightarrow> t = s \<and> length vs = length xs"
  by (auto dest: keep.stepsD [OF keep.steps_mapM [OF keep_embed_one]] mapM_Inr_length)

lemma keep_split_refusal: "keep.steps (split_refusal \<epsilon> c p chs)"
  by (induction chs) (auto simp: Let_def intro!: keep.steps_rules keep_raise_label_conflict)

section \<open>Split families\<close>

lemma mapM_insert_root:
  assumes "mapM (\<lambda>x. insert_root \<epsilon> (f x) (g x) st None None None) xs s = (Inr rows, t)"
  shows "\<exists>revs ct n. t = s\<lparr>memory_units := memory_units s @ rows,
       memory_revisions := memory_revisions s @ revs, curator_triggers := ct, readings := n\<rparr> \<and>
     list_all2 (\<lambda>x u. \<exists>i. u = root_row \<epsilon> (f x) (g x) st i None None (txn_now s)) xs rows \<and>
     list_all2 (\<lambda>x r. rev_parent_uid r = cm_parent_uid (f x)) xs revs \<and>
     map rev_memory_id revs = map mu_id rows \<and>
     distinct (map mu_id rows) \<and> set (map mu_id rows) \<inter> mu_id ` set (memory_units s) = {}"
  using assms
proof (induction xs arbitrary: s rows)
  case Nil
  then show ?case
    by (auto simp: act_iff intro!: exI [of _ "[]"] exI [of _ "curator_triggers s"] exI [of _ "readings s"])
next
  case (Cons x xs)
  then obtain u w us where u: "insert_root \<epsilon> (f x) (g x) st None None None s = (Inr u, w)"
    and us: "mapM (\<lambda>x. insert_root \<epsilon> (f x) (g x) st None None None) xs w = (Inr us, t)"
    and rows: "rows = u # us" by (auto simp: act_iff)
  from u obtain i uid ct n where
    ui: "u = root_row \<epsilon> (f x) (g x) st i None None (txn_now s)"
    and w: "w = s\<lparr>memory_units := memory_units s @ [u],
           memory_revisions := memory_revisions s @ [root_revision (f x) uid u (txn_now s)],
           curator_triggers := ct, readings := n\<rparr>"
    and fr: "i \<notin> mu_id ` set (memory_units s)"
    by (rule insert_root_success)
  have id: "mu_id u = i" by (simp add: ui root_row_def)
  from Cons.IH [OF us] obtain revs ct' n' where
    "t = w\<lparr>memory_units := memory_units w @ us,
       memory_revisions := memory_revisions w @ revs, curator_triggers := ct', readings := n'\<rparr>"
    "list_all2 (\<lambda>x u. \<exists>i. u = root_row \<epsilon> (f x) (g x) st i None None (txn_now w)) xs us"
    "list_all2 (\<lambda>x r. rev_parent_uid r = cm_parent_uid (f x)) xs revs"
    "map rev_memory_id revs = map mu_id us"
    "distinct (map mu_id us)" "set (map mu_id us) \<inter> mu_id ` set (memory_units w) = {}" by blast
  then show ?case
    using fr by (intro exI [of _ "root_revision (f x) uid u (txn_now s) # revs"] exI [of _ ct'] exI [of _ n'])
      (auto simp: rows w root_revision_def id ui [symmetric] intro: exI [of _ i] ui)
qed

lemma relate_pair_Inr:
  assumes "relate_pair \<epsilon> l r s = (Inr x, t)"
  shows "\<exists>es n. t = s\<lparr>memory_edges := memory_edges s @ es, readings := n\<rparr> \<and>
     map (\<lambda>e. (edge_from e, edge_to e, edge_type e)) es = (if l = r then [] else [(l, r, Relates_to)])"
proof (cases "l = r")
  case True
  with assms show ?thesis
    by (auto simp: relate_pair_def act_iff intro!: exI [of _ "[]"] exI [of _ "readings s"])
next
  case False
  let ?e = "\<lparr>edge_uid = mint_ulid (time_ms \<epsilon> (readings s)) (randbits80 \<epsilon> (readings s)), edge_from = l,
     edge_to = r, edge_type = Relates_to, edge_created_at = txn_now s\<rparr>"
  from False assms have "t = s\<lparr>memory_edges := memory_edges s @ [?e], readings := Suc (readings s)\<rparr>"
    by (auto simp: relate_pair_def act_iff mint_Inr insert_edge_Inr)
  with False show ?thesis by (intro exI [of _ "[?e]"] exI [of _ "Suc (readings s)"]) simp
qed

text \<open>Loops whose steps only append edges.\<close>

lemma iterM_edges:
  assumes "\<And>x s y t. f x s = (Inr y, t) \<Longrightarrow>
      \<exists>es n. t = s\<lparr>memory_edges := memory_edges s @ es, readings := n\<rparr> \<and> map g es = h x"
    and "iterM f xs s = (Inr y, t)"
  shows "\<exists>es n. t = s\<lparr>memory_edges := memory_edges s @ es, readings := n\<rparr> \<and>
     map g es = concat (map h xs)"
  using assms(2)
proof (induction xs arbitrary: s)
  case Nil
  then show ?case by (auto simp: act_iff intro!: exI [of _ "[]"] exI [of _ "readings s"])
next
  case (Cons x xs)
  then obtain z w where one: "f x s = (Inr z, w)" and rest: "iterM f xs w = (Inr y, t)"
    by (auto simp: sqn_Inr_iff)
  from assms(1) [OF one] obtain es n where
    w: "w = s\<lparr>memory_edges := memory_edges s @ es, readings := n\<rparr>" "map g es = h x" by blast
  from Cons.IH [OF rest] obtain es' n' where
    "t = w\<lparr>memory_edges := memory_edges w @ es', readings := n'\<rparr>" "map g es' = concat (map h xs)" by blast
  with w show ?case by (intro exI [of _ "es @ es'"] exI [of _ n']) simp
qed

definition sibling_pairs :: "uuid list \<Rightarrow> (uuid \<times> uuid \<times> edge_type) list" where
  "sibling_pairs ids = concat (map (\<lambda>i. concat (map (\<lambda>j.
     if i = j then [] else [(i, j, Relates_to)]) ids)) ids)"

lemma set_sibling_pairs:
  "set (sibling_pairs ids) = {(i, j, Relates_to) | i j. i \<in> set ids \<and> j \<in> set ids \<and> i \<noteq> j}"
  by (auto simp: sibling_pairs_def split: if_splits)

lemma relate_siblings_Inr:
  assumes "relate_siblings \<epsilon> ids s = (Inr x, t)"
  shows "\<exists>es n. t = s\<lparr>memory_edges := memory_edges s @ es, readings := n\<rparr> \<and>
     map (\<lambda>e. (edge_from e, edge_to e, edge_type e)) es = sibling_pairs ids"
proof -
  let ?g = "\<lambda>e :: memory_edge. (edge_from e, edge_to e, edge_type e)"
  let ?h = "\<lambda>i j. if i = j then [] else [(i, j, Relates_to)]"
  have row: "\<exists>es n. t = s\<lparr>memory_edges := memory_edges s @ es, readings := n\<rparr> \<and>
      map ?g es = concat (map (?h l) ids)" if "iterM (relate_pair \<epsilon> l) ids s = (Inr y, t)" for l s y t
    by (rule iterM_edges [OF relate_pair_Inr that])
  show ?thesis
    unfolding sibling_pairs_def
    by (rule iterM_edges [where f = "\<lambda>l. iterM (relate_pair \<epsilon> l) ids", OF row assms [unfolded relate_siblings_def]])
qed

lemma first_revision_uid_fresh:
  assumes "i \<notin> rev_memory_id ` set rs" "rev_memory_id r = i" "rev_revision r = Some 1"
    "memory_revisions s = rs @ [r]"
  shows "first_revision_uid s i = Some (rev_uid r)"
proof -
  have "find (\<lambda>r. rev_memory_id r = i \<and> rev_revision r = Some 1) (rs @ [r]) = Some r"
    using assms(1,2,3) by (induction rs) auto
  then show ?thesis by (simp add: first_revision_uid_def assms(4))
qed

text \<open>C4: A successful split writes a tombstoned source and one active head per child, in order and
  with the child's label, body and keywords, whose root revisions have the source's root revision
  as parent, and relates every child to every other one, and nothing else, by one edge in each direction.\<close>

theorem split_family:
  assumes run: "split \<epsilon> c cmd s = (Inr (MemorySplitCreated src rows), t)"
    and ok: "lineage_ok s"
  shows "memory_units t = memory_units s @ src # rows \<and> mu_status src = Tombstoned \<and>
     mu_body src = sm_source_body cmd \<and>
     map (\<lambda>u. (mu_label u, mu_body u, mu_keywords u, mu_status u)) rows =
       map (\<lambda>ch. (sp_label ch, sp_body ch, sp_keywords ch, Active)) (sm_children cmd) \<and>
     (\<exists>root revs. memory_revisions t = memory_revisions s @ root # revs \<and>
        rev_memory_id root = mu_id src \<and> map rev_memory_id revs = map mu_id rows \<and>
        (\<forall>r \<in> set revs. rev_parent_uid r = Some (rev_uid root))) \<and>
     (\<exists>es. memory_edges t = memory_edges s @ es \<and>
        map (\<lambda>e. (edge_from e, edge_to e, edge_type e)) es = sibling_pairs (map mu_id rows))"
proof -
  let ?s = "s\<lparr>readings := Suc (readings s), txn_now := clock \<epsilon> (readings s)\<rparr>"
  from run obtain v vs where
    len: "length vs = length (sm_children cmd)"
    and fam: "insert_family \<epsilon> cmd v (zip (sm_children cmd) vs) ?s = (Inr (src, rows), t)"
    unfolding split_def
    by (auto simp: act_iff transaction_Inr catch_Inr_iff on_label_conflict_no_Inr
        simp del: iterM.simps
        dest!: keep.stepsD [OF keep_validate_split] mapM_embed_Inr
          keep.stepsD [OF keep.steps_iterM [OF keep_raise_label_conflict]]
          keep.stepsD [OF keep.steps_iterM [OF keep_refuse_rejected]]
          keep.stepsD [OF keep_split_refusal])
  from fam obtain w parent w' where
    src: "insert_root \<epsilon> (split_source_command cmd) v Tombstoned None None None ?s = (Inr src, w)"
    and parent: "first_revision_uid w (mu_id src) = Some parent"
    and chs: "mapM (\<lambda>x. insert_root \<epsilon> (split_child_command cmd parent (fst x)) (snd x) Active None None None)
        (zip (sm_children cmd) vs) w = (Inr rows, w')"
    and rel: "relate_siblings \<epsilon> (map mu_id rows) w' = (Inr (), t)"
    unfolding insert_family_def by (auto simp: act_iff case_prod_beta' fun_eq_iff)
  from src obtain i uid ct n where
    srci: "src = root_row \<epsilon> (split_source_command cmd) v Tombstoned i None None (txn_now ?s)"
    and w: "w = ?s\<lparr>memory_units := memory_units ?s @ [src],
           memory_revisions := memory_revisions ?s @ [root_revision (split_source_command cmd) uid src (txn_now ?s)],
           curator_triggers := ct, readings := n\<rparr>"
    and fr: "i \<notin> mu_id ` set (memory_units ?s)"
    by (rule insert_root_success)
  let ?root = "root_revision (split_source_command cmd) uid src (txn_now ?s)"
  have id: "mu_id src = i" by (simp add: srci root_row_def)
  have "i \<notin> rev_memory_id ` set (memory_revisions s)" using ok fr by (auto simp: lineage_ok_def)
  with parent have parent: "parent = rev_uid ?root"
    using first_revision_uid_fresh [of i "memory_revisions s" ?root w]
    by (simp add: w id root_revision_def)
  from mapM_insert_root [OF chs] obtain revs ct' n' where
    w': "w' = w\<lparr>memory_units := memory_units w @ rows,
       memory_revisions := memory_revisions w @ revs, curator_triggers := ct', readings := n'\<rparr>"
    and rows: "list_all2 (\<lambda>x u. \<exists>i. u = root_row \<epsilon> (split_child_command cmd parent (fst x)) (snd x) Active i None None (txn_now w))
       (zip (sm_children cmd) vs) rows"
    and revs: "list_all2 (\<lambda>x r. rev_parent_uid r = cm_parent_uid (split_child_command cmd parent (fst x)))
       (zip (sm_children cmd) vs) revs" "map rev_memory_id revs = map mu_id rows" by blast
  have "map (\<lambda>u. (mu_label u, mu_body u, mu_keywords u, mu_status u)) rows =
       map (\<lambda>ch. (sp_label ch, sp_body ch, sp_keywords ch, Active)) (map fst (zip (sm_children cmd) vs))"
    using rows by (induction rule: list_all2_induct)
      (auto simp: root_row_def split_child_command_def split_source_command_def)
  moreover have "\<forall>r \<in> set revs. rev_parent_uid r = Some parent"
    using revs(1) by (induction rule: list_all2_induct) (auto simp: split_child_command_def)
  moreover obtain es m where "t = w'\<lparr>memory_edges := memory_edges w' @ es, readings := m\<rparr>"
    "map (\<lambda>e. (edge_from e, edge_to e, edge_type e)) es = sibling_pairs (map mu_id rows)"
    using relate_siblings_Inr [OF rel] by blast
  ultimately show ?thesis
    using len revs(2) by (auto simp: w' w parent srci root_row_def split_source_command_def root_revision_def
      intro!: exI [of _ ?root] exI [of _ revs])
qed

definition sample_split :: split_command where
  "sample_split = \<lparr>sm_principal_id = ''p'', sm_source_body = ''source'',
     sm_children = [\<lparr>sp_label = ''A'', sp_body = ''a'', sp_keywords = [''k'', ''l'']\<rparr>,
                    \<lparr>sp_label = ''B'', sp_body = ''b'', sp_keywords = [''k'', ''m'']\<rparr>],
     sm_editor = ''user'', sm_machine_id = ''m'', sm_project_key = None, sm_thread_origin = None,
     sm_origin_thread_id = None, sm_origin_path = None, sm_origin_location = None\<rparr>"

lemma py_small: "strip ''source'' = ''source''" "strip ''A'' = ''A''" "strip ''B'' = ''B''" "strip ''a'' = ''a''"
  "strip ''b'' = ''b''" "strip ''k'' = ''k''" "strip ''l'' = ''l''" "strip ''m'' = ''m''"
   "py_lower ''k'' = ''k''" "py_lower ''l'' = ''l''" "py_lower ''m'' = ''m''"
  by code_simp+

lemmas store_run = act_defs embed_one_def transaction_def clock_timestamp_def draw_def empty_db_def
  savepoint_def insert_unit_def check_unit_def label_taken_def tick_curator_write_def mint_def
  bump_trigger_def insert_revision_def insert_edge_def mint_ulid_eq Let_def

lemmas memory_run = store_run validate_label_def validate_body_def validate_split_def
  validate_split_keywords_def dedup_matches_def refuse_rejected_def rejected_body_def top_score_def
  classify_dedup_score_def raise_label_conflict_def find_active_label_def insert_root_def
  root_row_def root_revision_def first_revision_uid_def

lemma sample_split_run:
  "\<exists>src rows t. split sample_env sample_config sample_split empty_db = (Inr (MemorySplitCreated src rows), t)"
  by (simp add: split_def sample_config_def sample_split_def py_small memory_run insert_family_def
      split_source_command_def split_child_command_def relate_siblings_def relate_pair_def)

theorem split_family_witness:
  "\<exists>src rows t. split sample_env sample_config sample_split empty_db = (Inr (MemorySplitCreated src rows), t) \<and>
     memory_units t = src # rows \<and> map mu_label rows = [''A'', ''B'']"
proof -
  obtain src rows t where run:
    "split sample_env sample_config sample_split empty_db = (Inr (MemorySplitCreated src rows), t)"
    using sample_split_run by blast
  have "lineage_ok empty_db" by (simp add: lineage_ok_def empty_db_def)
  from split_family [OF run this] have
    "memory_units t = src # rows" and
    f: "map (\<lambda>u. (mu_label u, mu_body u, mu_keywords u, mu_status u)) rows =
       map (\<lambda>ch. (sp_label ch, sp_body ch, sp_keywords ch, Active)) (sm_children sample_split)"
    by (simp_all add: empty_db_def)
  moreover have "map mu_label rows = map fst (map (\<lambda>u. (mu_label u, mu_body u, mu_keywords u, mu_status u)) rows)"
    by simp
  ultimately show ?thesis using run unfolding f by (auto simp: sample_split_def)
qed

end
