(* ===== verification/Queue.thy ===== *)
theory Queue
  imports Memory
begin

text \<open>
  The consent queue (\<open>src/spine/queue/service.py\<close> and its contracts): extraction and seed
  documents enqueue candidates, curators enqueue their verdicts, and a decision moves a
  candidate to active or tombstoned, enacts the verdict on its targets, and is recorded once.
  A card is the queue row with its candidate and neighbours. The memory service is called as
  the code calls it; each of its methods is its own transaction, and \<open>decide\<close> and \<open>decide_batch\<close>
  are one transaction each.
\<close>

section \<open>Requests and responses\<close>

record extraction_candidate =
  ec_label :: string
  ec_body :: string
  ec_kind :: memory_kind
  ec_keywords :: "string list"
  ec_project_key :: "string option"
  ec_origin_locations :: "string list"
  ec_verdict :: verdict
  ec_target_ids :: "uuid list"

text \<open>The validator of \<open>ExtractionCandidate\<close> with its field limits.\<close>

definition candidate_shape :: "extraction_candidate \<Rightarrow> bool" where
  "candidate_shape d \<longleftrightarrow> 1 \<le> length (ec_label d) \<and> length (ec_label d) \<le> 64 \<and> 1 \<le> length (ec_body d) \<and>
     2 \<le> length (ec_keywords d) \<and> length (ec_keywords d) \<le> 5 \<and>
     (\<forall>k \<in> set (ec_keywords d). strip k \<noteq> [] \<and> k = strip k) \<and> distinct (ec_keywords d) \<and>
     distinct (ec_target_ids d) \<and> (ec_verdict d = V_new \<longleftrightarrow> ec_target_ids d = [])"

record extraction_request =
  er_principal_id :: string
  er_thread_id :: uuid
  er_machine_id :: string
  er_editor :: string
  er_origin_location :: "string option"
  er_candidates :: "extraction_candidate list"

record seed_request =
  sd_principal_id :: string
  sd_batch_uid :: uuid
  sd_source_name :: string
  sd_source_sha256 :: string
  sd_markdown :: string
  sd_machine_id :: string
  sd_editor :: string
  sd_candidates :: "extraction_candidate list"

record queue_card =
  qc_row :: approval_queue_item
  qc_candidate :: memory_unit
  qc_neighbors :: "similarity_card list"

record decision_request =
  dr_decision :: decision
  dr_approval_mode :: approval_mode
  dr_actor_class :: actor_class
  dr_machine_id :: string
  dr_amended_body :: "string option"

text \<open>\<open>require_signal_pair\<close>\<close>

definition signal_pair :: "decision_request \<Rightarrow> bool" where
  "signal_pair r \<longleftrightarrow>
     (dr_decision r = Deny \<longrightarrow> dr_approval_mode r = Explicit \<and> dr_actor_class r = Human) \<and>
     (dr_approval_mode r = Passive_mode \<longleftrightarrow> dr_actor_class r = Passive)"

record decision_response =
  dp_card :: queue_card
  dp_decision :: decision
  dp_approval_mode :: approval_mode
  dp_actor_class :: actor_class
  dp_decision_uid :: string

record batch_response =
  br_batch_uid :: uuid
  br_decision :: decision
  br_cards :: "queue_card list"
  br_already_decided :: nat

record extraction_response =
  ep_cards :: "queue_card list"
  ep_duplicate_count :: int

section \<open>Reading proposals\<close>

definition proposal_text :: "dict \<Rightarrow> string \<Rightarrow> string op" where
  "proposal_text p k = (case dget p k of
       Some (JStr v) \<Rightarrow> if strip v = [] then raise (QueueValidation k) else ret v
     | _ \<Rightarrow> raise (QueueValidation k))"

definition is_keyword :: "json \<Rightarrow> bool" where
  "is_keyword j = (case j of JStr v \<Rightarrow> v \<noteq> [] \<and> v = strip v \<and> v = py_lower v | _ \<Rightarrow> False)"

definition json_string :: "json \<Rightarrow> string" where
  "json_string j = (case j of JStr v \<Rightarrow> v | _ \<Rightarrow> [])"

definition proposal_keywords :: "dict \<Rightarrow> string list op" where
  "proposal_keywords p = (case dget p ''keywords'' of
       Some (JList vs) \<Rightarrow>
         sqn (raise_if (\<not> (2 \<le> length vs \<and> length vs \<le> 5))
                (QueueValidation ''curator keywords must contain 2-5 values''))
        (sqn (raise_if (\<not> list_all is_keyword vs \<or> \<not> distinct vs)
                (QueueValidation ''curator keywords must be distinct lowercase terms''))
             (ret (map json_string vs)))
     | _ \<Rightarrow> raise (QueueValidation ''curator keywords must contain 2-5 values''))"

definition proposal_child :: "json \<Rightarrow> split_child op" where
  "proposal_child j = (case j of
       JObj d \<Rightarrow>
         bnd (proposal_text d ''label'') (\<lambda>l.
         bnd (proposal_text d ''body'') (\<lambda>b.
         bnd (proposal_keywords d) (\<lambda>ks.
         ret \<lparr>sp_label = l, sp_body = b, sp_keywords = ks\<rparr>)))
     | _ \<Rightarrow> raise (QueueValidation ''curator split child must be an object''))"

definition proposal_children :: "dict \<Rightarrow> split_child list op" where
  "proposal_children p = (case dget p ''children'' of
       Some (JList xs) \<Rightarrow> mapM proposal_child xs
     | _ \<Rightarrow> raise (QueueValidation ''curator split requires children''))"

section \<open>Cards and locked reads\<close>

definition memory_row :: "uuid \<Rightarrow> string \<Rightarrow> memory_unit op" where
  "memory_row i prin =
     bnd (gets (\<lambda>s. find (\<lambda>u. mu_id u = i \<and> mu_principal_id u = prin) (memory_units s))) (\<lambda>row.
     case row of None \<Rightarrow> raise (QueueValidation ''curator memory is missing'') | Some u \<Rightarrow> ret u)"

definition locked_memory :: "uuid \<Rightarrow> memory_unit op" where
  "locked_memory i =
     bnd (gets (\<lambda>s. unit_by_id s i)) (\<lambda>row.
     case row of None \<Rightarrow> raise (QueueConflict ''memory is missing'') | Some u \<Rightarrow> ret u)"

definition neighbor_cards :: "env \<Rightarrow> db \<Rightarrow> memory_unit \<Rightarrow> uuid list \<Rightarrow> similarity_card list" where
  "neighbor_cards \<epsilon> s candidate ids =
     List.map_filter (\<lambda>i. map_option
       (\<lambda>u. similarity_card_from_row u (cosine_score \<epsilon> (mu_embedding u) (mu_embedding candidate)))
       (unit_by_id s i)) ids"

definition card :: "env \<Rightarrow> approval_queue_item \<Rightarrow> similarity_card list option \<Rightarrow> queue_card op" where
  "card \<epsilon> row neighbors =
     bnd (gets (\<lambda>s. unit_by_id s (qi_candidate_memory_id row))) (\<lambda>c.
     case c of
       None \<Rightarrow> raise (RuntimeErr ''NoResultFound'')
     | Some u \<Rightarrow>
         bnd (gets (\<lambda>s. neighbor_cards \<epsilon> s u (qi_neighbor_ids row))) (\<lambda>found.
         ret \<lparr>qc_row = row, qc_candidate = u,
              qc_neighbors = (case neighbors of None \<Rightarrow> found | Some ns \<Rightarrow> ns)\<rparr>))"

definition is_active :: "db \<Rightarrow> string \<Rightarrow> uuid \<Rightarrow> bool" where
  "is_active s prin i \<longleftrightarrow> (\<exists>u \<in> set (memory_units s). mu_id u = i \<and> mu_principal_id u = prin \<and>
     mu_status u = Active)"

section \<open>Enqueueing\<close>

definition pending_item :: "string \<Rightarrow> uuid \<Rightarrow> string \<Rightarrow> birthplace \<Rightarrow> verdict \<Rightarrow> uuid list \<Rightarrow> uuid list \<Rightarrow>
    timestamp \<Rightarrow> approval_queue_item" where
  "pending_item uid mid prin b v neighbors targets now =
     \<lparr>qi_item_uid = uid, qi_candidate_memory_id = mid, qi_principal_id = prin, qi_birthplace = b,
      qi_birthplace_thread_id = None, qi_batch_uid = None, qi_source_name = None,
      qi_source_sha256 = None, qi_birthplace_run_id = None, qi_birthplace_origin_agent = None,
      qi_judged_context = None, qi_candidate_revision = None, qi_curator_run_uid = None,
      qi_curator_finding_uid = None, qi_proposal_payload = None, qi_verdict = v,
      qi_neighbor_ids = neighbors, qi_target_ids = targets, qi_state = Q_pending,
      qi_created_at = now, qi_decided_at = None\<rparr>"

definition discard_candidate :: "env \<Rightarrow> uuid \<Rightarrow> string \<Rightarrow> unit op" where
  "discard_candidate \<epsilon> i machine = transaction \<epsilon>
     (bnd (locked_memory i) (\<lambda>u.
      bnd (mint \<epsilon>) (\<lambda>uid.
      sqn (cas_update_memory_unit \<epsilon>
             \<lparr>cu_memory_id = i, cu_expected_revision = mu_revision u, cu_rev_uid = uid,
              cu_editor = ''extraction'', cu_origin_machine_id = machine,
              cu_reason = ''invalid_queue_target'', cu_changes = status_change Tombstoned\<rparr>)
          (ret ()))))"

text \<open>The part \<open>_enqueue\<close> and \<open>_enqueue_seed\<close> share: the neighbours still active, and the check
  that every target is one of them, failing which the candidate is discarded.\<close>

definition active_neighbors :: "env \<Rightarrow> string \<Rightarrow> string \<Rightarrow> uuid list \<Rightarrow> candidate_created \<Rightarrow>
    similarity_card list op" where
  "active_neighbors \<epsilon> prin machine targets created =
     bnd (gets (\<lambda>s. filter (\<lambda>n. is_active s prin (card_memory_id n)) (cc_neighbors created))) (\<lambda>ns.
     if \<exists>t \<in> set targets. t \<notin> card_memory_id ` set ns
     then sqn (discard_candidate \<epsilon> (mu_id (cc_memory created)) machine)
              (raise (QueueValidation ''verdict targets must be active machine-fetched neighbors''))
     else ret ns)"

definition enqueue :: "env \<Rightarrow> extraction_request \<Rightarrow> verdict \<Rightarrow> uuid list \<Rightarrow> candidate_created \<Rightarrow>
    queue_card op" where
  "enqueue \<epsilon> req v targets created =
     bnd (active_neighbors \<epsilon> (er_principal_id req) (er_machine_id req) targets created) (\<lambda>ns.
     bnd (mint \<epsilon>) (\<lambda>uid.
     transaction \<epsilon>
      (bnd (gets txn_now) (\<lambda>now.
       let row = (pending_item uid (mu_id (cc_memory created)) (er_principal_id req) B_thread v
                    (map card_memory_id ns) targets now)\<lparr>qi_birthplace_thread_id := Some (er_thread_id req)\<rparr> in
       sqn (insert_item row) (card \<epsilon> row (Some ns))))))"

definition enqueue_seed :: "env \<Rightarrow> seed_request \<Rightarrow> verdict \<Rightarrow> uuid list \<Rightarrow> candidate_created \<Rightarrow>
    queue_card op" where
  "enqueue_seed \<epsilon> req v targets created =
     bnd (active_neighbors \<epsilon> (sd_principal_id req) (sd_machine_id req) targets created) (\<lambda>ns.
     transaction \<epsilon>
      (bnd (gets txn_now) (\<lambda>now.
       bnd (mint \<epsilon>) (\<lambda>uid.
       let row = (pending_item uid (mu_id (cc_memory created)) (sd_principal_id req) B_seed v
                    (map card_memory_id ns) targets now)
                 \<lparr>qi_batch_uid := Some (sd_batch_uid req), qi_source_name := Some (sd_source_name req),
                  qi_source_sha256 := Some (sd_source_sha256 req)\<rparr> in
       sqn (insert_item row) (card \<epsilon> row (Some ns))))))"

text \<open>A merge or a supersession may duplicate what it replaces.\<close>

definition replaces_of :: "extraction_candidate \<Rightarrow> uuid list" where
  "replaces_of d = (if ec_verdict d = V_merge \<or> ec_verdict d = V_supersede then ec_target_ids d else [])"

definition extraction_command :: "extraction_request \<Rightarrow> extraction_candidate \<Rightarrow> create_command" where
  "extraction_command req d =
     \<lparr>cm_principal_id = er_principal_id req, cm_label = ec_label d, cm_body = ec_body d,
      cm_kind = ec_kind d, cm_editor = er_editor req, cm_machine_id = er_machine_id req,
      cm_keywords = ec_keywords d, cm_project_key = ec_project_key d,
      cm_thread_origin = Some (uuid_str (er_thread_id req)),
      cm_origin_thread_id = Some (er_thread_id req), cm_origin_path = None,
      cm_origin_location = er_origin_location req, cm_origin_locations = ec_origin_locations d,
      cm_force = False, cm_parent_uid = None, cm_revision_reason = []\<rparr>"

fun extract_loop :: "env \<Rightarrow> memory_config \<Rightarrow> extraction_request \<Rightarrow> extraction_candidate list \<Rightarrow>
    queue_card list \<Rightarrow> int \<Rightarrow> extraction_response op" where
  "extract_loop \<epsilon> c req [] cards dups = ret \<lparr>ep_cards = cards, ep_duplicate_count = dups\<rparr>"
| "extract_loop \<epsilon> c req (d # ds) cards dups =
     bnd (create_candidate \<epsilon> c (extraction_command req d) (replaces_of d)) (\<lambda>created.
     case created of
       None \<Rightarrow> extract_loop \<epsilon> c req ds cards (dups + 1)
     | Some cc \<Rightarrow>
         bnd (enqueue \<epsilon> req (ec_verdict d) (ec_target_ids d) cc) (\<lambda>qc.
         extract_loop \<epsilon> c req ds (cards @ [qc]) dups))"

definition extract_candidates :: "env \<Rightarrow> memory_config \<Rightarrow> extraction_request \<Rightarrow> extraction_response op" where
  "extract_candidates \<epsilon> c req = extract_loop \<epsilon> c req (er_candidates req) [] 0"

section \<open>Seed documents\<close>

definition validate_seed :: "env \<Rightarrow> seed_request \<Rightarrow> unit op" where
  "validate_seed \<epsilon> req =
     sqn (raise_if (path_name (sd_source_name req) \<noteq> sd_source_name req \<or>
                    \<not> (endswith (py_lower (sd_source_name req)) ''.md'' \<or>
                       endswith (py_lower (sd_source_name req)) ''.markdown''))
            (QueueValidation ''source_name must be a Markdown basename''))
    (sqn (raise_if (strip (sd_markdown req) = []) (QueueValidation ''seed markdown must not be blank''))
    (sqn (raise_if (utf8_length (sd_markdown req) > 24 * 1024)
            (QueueValidation ''seed markdown exceeds the 24 KiB limit''))
         (raise_if (sha256_hex \<epsilon> (sd_markdown req) \<noteq> sd_source_sha256 req)
            (QueueValidation ''seed markdown digest does not match source_sha256''))))"

definition seed_origin :: "seed_request \<Rightarrow> string" where
  "seed_origin req = ''seed:'' @ uuid_str (sd_batch_uid req)"

text \<open>\<open>Some cards\<close> when the batch was ingested or its source was rejected before.\<close>

definition seed_batch :: "env \<Rightarrow> seed_request \<Rightarrow> queue_card list option op" where
  "seed_batch \<epsilon> req =
     bnd (gets (\<lambda>s. sort_key (\<lambda>q. (qi_created_at q, qi_item_uid q))
            (filter (\<lambda>q. qi_batch_uid q = Some (sd_batch_uid req)) (queue_items s)))) (\<lambda>rows.
     case rows of
       q # _ \<Rightarrow>
         sqn (raise_if (qi_principal_id q \<noteq> sd_principal_id req \<or>
                        qi_source_name q \<noteq> Some (sd_source_name req) \<or>
                        qi_source_sha256 q \<noteq> Some (sd_source_sha256 req))
                (QueueConflict ''seed batch UID already names a different document''))
             (bnd (mapM (\<lambda>q. card \<epsilon> q None) rows) (\<lambda>cs. ret (Some cs)))
     | [] \<Rightarrow>
         bnd (gets (\<lambda>s. \<exists>q \<in> set (queue_items s). qi_principal_id q = sd_principal_id req \<and>
                qi_birthplace q = B_seed \<and> qi_source_sha256 q = Some (sd_source_sha256 req) \<and>
                qi_state q = Q_rejected)) (\<lambda>rejected.
         if rejected then ret (Some [])
         else bnd (gets (\<lambda>s. filter (\<lambda>u. mu_principal_id u = sd_principal_id req \<and>
                     mu_thread_origin u = Some (seed_origin req)) (memory_units s))) (\<lambda>sources.
              case sources of
                [] \<Rightarrow> ret None
              | [u] \<Rightarrow>
                  sqn (raise_if (mu_origin_path u \<noteq> Some (sd_source_name req) \<or>
                                 sha256_hex \<epsilon> (mu_body u) \<noteq> sd_source_sha256 req)
                         (QueueConflict ''seed batch UID already names a different document''))
                      (ret (Some []))
              | _ \<Rightarrow> raise (RuntimeErr ''MultipleResultsFound''))))"

definition seed_source_command :: "seed_request \<Rightarrow> create_command" where
  "seed_source_command req =
     \<lparr>cm_principal_id = sd_principal_id req,
      cm_label = take 120 (''Seed source '' @ [CHR 0xB7, CHR '' ''] @ sd_source_name req),
      cm_body = sd_markdown req, cm_kind = Project_note, cm_editor = sd_editor req,
      cm_machine_id = sd_machine_id req, cm_keywords = [''seed'', ''source''],
      cm_project_key = None, cm_thread_origin = Some (seed_origin req), cm_origin_thread_id = None,
      cm_origin_path = Some (sd_source_name req), cm_origin_location = None,
      cm_origin_locations = [], cm_force = False, cm_parent_uid = None,
      cm_revision_reason = ''seed_source_split''\<rparr>"

definition seed_command :: "seed_request \<Rightarrow> string \<Rightarrow> extraction_candidate \<Rightarrow> create_command" where
  "seed_command req parent d =
     \<lparr>cm_principal_id = sd_principal_id req, cm_label = ec_label d, cm_body = ec_body d,
      cm_kind = ec_kind d, cm_editor = sd_editor req, cm_machine_id = sd_machine_id req,
      cm_keywords = ec_keywords d, cm_project_key = ec_project_key d, cm_thread_origin = None,
      cm_origin_thread_id = None, cm_origin_path = Some (sd_source_name req),
      cm_origin_location = None, cm_origin_locations = [], cm_force = False,
      cm_parent_uid = Some parent, cm_revision_reason = ''seed_split_child''\<rparr>"

fun seed_loop :: "env \<Rightarrow> memory_config \<Rightarrow> seed_request \<Rightarrow> string \<Rightarrow> extraction_candidate list \<Rightarrow>
    queue_card list \<Rightarrow> int \<Rightarrow> extraction_response op" where
  "seed_loop \<epsilon> c req parent [] cards dups = ret \<lparr>ep_cards = cards, ep_duplicate_count = dups\<rparr>"
| "seed_loop \<epsilon> c req parent (d # ds) cards dups =
     bnd (create_candidate \<epsilon> c (seed_command req parent d) (replaces_of d)) (\<lambda>created.
     case created of
       None \<Rightarrow> seed_loop \<epsilon> c req parent ds cards (dups + 1)
     | Some cc \<Rightarrow>
         bnd (enqueue_seed \<epsilon> req (ec_verdict d) (ec_target_ids d) cc) (\<lambda>qc.
         seed_loop \<epsilon> c req parent ds (cards @ [qc]) dups))"

definition relate_batch :: "env \<Rightarrow> uuid list \<Rightarrow> unit op" where
  "relate_batch \<epsilon> ids = (if length ids < 2 then ret () else transaction \<epsilon> (relate_siblings \<epsilon> ids))"

definition ingest_seed :: "env \<Rightarrow> memory_config \<Rightarrow> seed_request \<Rightarrow> extraction_response op" where
  "ingest_seed \<epsilon> c req =
     sqn (validate_seed \<epsilon> req)
    (bnd (seed_batch \<epsilon> req) (\<lambda>existing.
     case existing of
       Some cards \<Rightarrow>
         ret \<lparr>ep_cards = cards, ep_duplicate_count = int (length (sd_candidates req)) - int (length cards)\<rparr>
     | None \<Rightarrow>
         bnd (create_split_source \<epsilon> c (seed_source_command req)) (\<lambda>(src, parent).
         bnd (seed_loop \<epsilon> c req parent (sd_candidates req) [] 0) (\<lambda>resp.
         sqn (relate_batch \<epsilon> (map (\<lambda>qc. mu_id (qc_candidate qc)) (ep_cards resp)))
             (ret resp)))))"

section \<open>Listing\<close>

definition list_pending :: "env \<Rightarrow> string \<Rightarrow> uuid option \<Rightarrow> birthplace option \<Rightarrow> queue_card list op" where
  "list_pending \<epsilon> prin thread birth =
     bnd (gets (\<lambda>s. sort_key (\<lambda>q. (qi_created_at q, qi_item_uid q))
       (filter (\<lambda>q. qi_principal_id q = prin \<and> qi_state q = Q_pending \<and>
                    (thread = None \<or> qi_birthplace_thread_id q = thread) \<and>
                    (case birth of None \<Rightarrow> True | Some b \<Rightarrow> qi_birthplace q = b)) (queue_items s))))
     (mapM (\<lambda>q. card \<epsilon> q None))"

definition list_batch :: "env \<Rightarrow> uuid \<Rightarrow> birthplace \<Rightarrow> queue_card list op" where
  "list_batch \<epsilon> batch birth =
     bnd (gets (\<lambda>s. sort_key (\<lambda>q. (qi_created_at q, qi_item_uid q))
       (filter (\<lambda>q. qi_batch_uid q = Some batch \<and> qi_birthplace q = birth) (queue_items s))))
     (mapM (\<lambda>q. card \<epsilon> q None))"

section \<open>Curator verdicts\<close>

definition curator_command :: "env \<Rightarrow> string \<Rightarrow> string \<Rightarrow> string \<Rightarrow> memory_unit \<Rightarrow> dict \<Rightarrow> create_command op" where
  "curator_command \<epsilon> prin machine finding source proposal =
     bnd (proposal_text proposal ''label'') (\<lambda>l.
     bnd (proposal_text proposal ''body'') (\<lambda>b.
     bnd (proposal_keywords proposal) (\<lambda>ks.
     ret \<lparr>cm_principal_id = prin, cm_label = l, cm_body = b, cm_kind = mu_kind source,
          cm_editor = ''maintenance'', cm_machine_id = machine, cm_keywords = ks,
          cm_project_key = mu_project_key source, cm_thread_origin = mu_thread_origin source,
          cm_origin_thread_id = mu_origin_thread_id source, cm_origin_path = mu_origin_path source,
          cm_origin_location = None, cm_origin_locations = [], cm_force = False,
          cm_parent_uid = None, cm_revision_reason = curation_reason finding ''proposal''\<rparr>)))"

definition insert_curator_item :: "env \<Rightarrow> string \<Rightarrow> string \<Rightarrow> string \<Rightarrow> verdict \<Rightarrow> dict \<Rightarrow>
    memory_unit \<Rightarrow> uuid list \<Rightarrow> similarity_card list \<Rightarrow> queue_card option op" where
  "insert_curator_item \<epsilon> run finding prin action proposal candidate targets neighbors =
     bnd (mint \<epsilon>) (\<lambda>uid.
     transaction \<epsilon>
      (bnd (gets txn_now) (\<lambda>now.
       let row = (pending_item uid (mu_id candidate) prin B_curator action
                    (map card_memory_id neighbors) targets now)
                 \<lparr>qi_candidate_revision := Some (mu_revision candidate), qi_curator_run_uid := Some run,
                  qi_curator_finding_uid := Some finding, qi_proposal_payload := Some proposal\<rparr> in
       sqn (insert_item row) (bnd (card \<epsilon> row (Some neighbors)) (\<lambda>qc. ret (Some qc))))))"

definition enqueue_curator :: "env \<Rightarrow> memory_config \<Rightarrow> string \<Rightarrow> string \<Rightarrow> string \<Rightarrow> string \<Rightarrow> verdict \<Rightarrow>
    uuid list \<Rightarrow> dict \<Rightarrow> queue_card option op" where
  "enqueue_curator \<epsilon> c run finding prin machine action ids proposal =
     sqn (raise_if (ids = []) (QueueValidation ''curator actions require implicated memories''))
    (bnd (memory_row (hd ids) prin) (\<lambda>source.
     if action = V_merge \<or> action = V_supersede then
       bnd (curator_command \<epsilon> prin machine finding source proposal) (\<lambda>cmd.
       bnd (create_curator_candidate \<epsilon> c cmd ids) (\<lambda>created.
       case created of
         None \<Rightarrow> ret None
       | Some cc \<Rightarrow>
           bnd (memory_row (mu_id (cc_memory cc)) prin) (\<lambda>candidate.
           insert_curator_item \<epsilon> run finding prin action proposal candidate ids (cc_neighbors cc))))
     else insert_curator_item \<epsilon> run finding prin action proposal source
            (if action = V_contradict then tl ids else []) []))"

section \<open>Enacting a verdict\<close>

definition verdict_edge :: "verdict \<Rightarrow> edge_type option" where
  "verdict_edge v = (case v of V_merge \<Rightarrow> Some Merged_from | V_supersede \<Rightarrow> Some Supersedes
     | V_contradict \<Rightarrow> Some Contradicts | _ \<Rightarrow> None)"

definition verdict_name :: "verdict \<Rightarrow> string" where
  "verdict_name v = (case v of V_new \<Rightarrow> ''new'' | V_merge \<Rightarrow> ''merge'' | V_supersede \<Rightarrow> ''supersede''
     | V_contradict \<Rightarrow> ''contradict'' | V_retire \<Rightarrow> ''retire'' | V_keyword_repair \<Rightarrow> ''keyword_repair''
     | V_split \<Rightarrow> ''split'')"

definition finding_of :: "approval_queue_item \<Rightarrow> string" where
  "finding_of row = (case qi_curator_finding_uid row of None \<Rightarrow> ''None'' | Some f \<Rightarrow> f)"

definition enact_target :: "env \<Rightarrow> approval_queue_item \<Rightarrow> memory_unit \<Rightarrow> string \<Rightarrow> edge_type \<Rightarrow> uuid \<Rightarrow> unit op" where
  "enact_target \<epsilon> row candidate machine et raw =
     bnd (locked_memory raw) (\<lambda>target.
     sqn (raise_if (mu_principal_id target \<noteq> mu_principal_id candidate \<or> mu_status target \<noteq> Active)
            (QueueConflict ''verdict target is no longer an active same-principal unit''))
    (sqn (if qi_verdict row = V_merge \<or> qi_verdict row = V_supersede then
            bnd (mint \<epsilon>) (\<lambda>uid.
            sqn (cas_update_memory_unit \<epsilon>
                   \<lparr>cu_memory_id = mu_id target, cu_expected_revision = mu_revision target,
                    cu_rev_uid = uid, cu_editor = ''maintenance'', cu_origin_machine_id = machine,
                    cu_reason = (if qi_birthplace row = B_curator
                                 then curation_reason (finding_of row) (verdict_name (qi_verdict row))
                                 else verdict_name (qi_verdict row)),
                    cu_changes = status_change Tombstoned\<rparr>)
                (ret ()))
          else ret ())
         (bnd (mint \<epsilon>) (\<lambda>uid. bnd (gets txn_now) (\<lambda>now.
          insert_edge \<lparr>edge_uid = uid, edge_from = mu_id candidate, edge_to = mu_id target,
            edge_type = et, edge_created_at = now\<rparr>)))))"

definition enact_targets :: "env \<Rightarrow> approval_queue_item \<Rightarrow> memory_unit \<Rightarrow> string \<Rightarrow> unit op" where
  "enact_targets \<epsilon> row candidate machine = (case verdict_edge (qi_verdict row) of
       None \<Rightarrow> ret ()
     | Some et \<Rightarrow> iterM (enact_target \<epsilon> row candidate machine et) (qi_target_ids row))"

section \<open>Decisions\<close>

text \<open>The end of \<open>_decide_row\<close> and of \<open>_decide_curator_row\<close>: the decision row and the item's state.\<close>

definition settle_item :: "env \<Rightarrow> approval_queue_item \<Rightarrow> decision_request \<Rightarrow> decision_response op" where
  "settle_item \<epsilon> row req =
     bnd (mint \<epsilon>) (\<lambda>uid.
     bnd (gets txn_now) (\<lambda>now.
     sqn (insert_decision \<lparr>ad_decision_uid = uid, ad_item_uid = qi_item_uid row,
            ad_decision = dr_decision req, ad_approval_mode = dr_approval_mode req,
            ad_actor_class = dr_actor_class req, ad_created_at = now\<rparr>)
    (let st = (if dr_decision req = Approve then Q_approved else Q_rejected) in
     sqn (set_item_state (qi_item_uid row) st)
    (bnd (card \<epsilon> (row\<lparr>qi_state := st, qi_decided_at := Some now\<rparr>) None) (\<lambda>qc.
     ret \<lparr>dp_card = qc, dp_decision = dr_decision req, dp_approval_mode = dr_approval_mode req,
          dp_actor_class = dr_actor_class req, dp_decision_uid = uid\<rparr>)))))"

definition curator_cas :: "env \<Rightarrow> memory_unit \<Rightarrow> string \<Rightarrow> approval_queue_item \<Rightarrow> string \<Rightarrow>
    memory_unit_changes \<Rightarrow> unit op" where
  "curator_cas \<epsilon> candidate machine row suffix ch =
     bnd (mint \<epsilon>) (\<lambda>uid.
     sqn (cas_update_memory_unit \<epsilon>
            \<lparr>cu_memory_id = mu_id candidate, cu_expected_revision = mu_revision candidate,
             cu_rev_uid = uid, cu_editor = ''maintenance'', cu_origin_machine_id = machine,
             cu_reason = curation_reason (finding_of row) suffix, cu_changes = ch\<rparr>)
         (ret ()))"

definition enact_curator :: "env \<Rightarrow> approval_queue_item \<Rightarrow> memory_unit \<Rightarrow> decision_request \<Rightarrow>
    prepared_child list option \<Rightarrow> memory_unit_changes option \<Rightarrow> unit op" where
  "enact_curator \<epsilon> row candidate req prepared amendment =
     (let machine = dr_machine_id req; action = qi_verdict row in
      if dr_decision req = Deny then
        (if mu_status candidate = Candidate
         then curator_cas \<epsilon> candidate machine row ''rejected'' (status_change Tombstoned)
         else ret ())
      else if action = V_merge \<or> action = V_supersede then
        sqn (raise_if (mu_status candidate \<noteq> Candidate)
               (QueueConflict ''curator replacement is no longer pending''))
       (sqn (enact_targets \<epsilon> row candidate machine)
            (curator_cas \<epsilon> candidate machine row ''activate'' (set_or amendment (status_change Active))))
      else if action = V_contradict then
        sqn (raise_if (mu_status candidate \<noteq> Active)
               (QueueConflict ''curator contradiction source is no longer active''))
            (enact_targets \<epsilon> row candidate machine)
      else if action = V_retire then
        curator_cas \<epsilon> candidate machine row ''retire'' (status_change Tombstoned)
      else if action = V_keyword_repair then
        (case qi_proposal_payload row of
           None \<Rightarrow> raise (AttributeError ''get'')
         | Some p \<Rightarrow>
             bnd (proposal_keywords p) (\<lambda>ks.
             curator_cas \<epsilon> candidate machine row ''keyword-repair'' (no_changes\<lparr>ch_keywords := Some ks\<rparr>)))
      else if action = V_split then
        (case prepared of
           None \<Rightarrow> raise (QueueValidation ''curator split children were not prepared'')
         | Some chs \<Rightarrow>
             sqn (enact_curator_split \<epsilon> candidate chs machine (finding_of row)) (ret ()))
      else raise (QueueValidation ''unknown curator action''))"

definition decide_curator_row :: "env \<Rightarrow> approval_queue_item \<Rightarrow> memory_unit \<Rightarrow> decision_request \<Rightarrow>
    prepared_child list option \<Rightarrow> memory_unit_changes option \<Rightarrow> decision_response op" where
  "decide_curator_row \<epsilon> row candidate req prepared amendment =
     sqn (raise_if (dr_approval_mode req \<noteq> Explicit \<or> dr_actor_class req \<noteq> Human)
            (QueueValidation ''curator verdicts require an explicit human decision''))
    (sqn (raise_if (Some (mu_revision candidate) \<noteq> qi_candidate_revision row)
            (QueueConflict ''curator target changed after diagnosis; run curators again''))
    (sqn (enact_curator \<epsilon> row candidate req prepared amendment)
         (settle_item \<epsilon> row req)))"

definition replay_decision :: "env \<Rightarrow> approval_queue_item \<Rightarrow> decision_request \<Rightarrow> approval_decision \<Rightarrow>
    decision_response op" where
  "replay_decision \<epsilon> row req prior =
     sqn (case dr_amended_body req of
            None \<Rightarrow> ret ()
          | Some b \<Rightarrow> bnd (locked_memory (qi_candidate_memory_id row)) (\<lambda>cur.
              raise_if (mu_body cur \<noteq> b) (QueueConflict ''the decided replacement has different text'')))
    (sqn (raise_if ((ad_decision prior, ad_approval_mode prior, ad_actor_class prior) \<noteq>
                    (dr_decision req, dr_approval_mode req, dr_actor_class req))
            (QueueConflict ''queue item already has a different decision''))
    (bnd (card \<epsilon> row None) (\<lambda>qc.
     ret \<lparr>dp_card = qc, dp_decision = ad_decision prior, dp_approval_mode = ad_approval_mode prior,
          dp_actor_class = ad_actor_class prior, dp_decision_uid = ad_decision_uid prior\<rparr>)))"

definition settle_candidate :: "env \<Rightarrow> memory_config \<Rightarrow> approval_queue_item \<Rightarrow> memory_unit \<Rightarrow>
    decision_request \<Rightarrow> unit op" where
  "settle_candidate \<epsilon> c row candidate req =
     sqn (raise_if (mu_status candidate \<noteq> Candidate) (QueueConflict ''queue candidate is no longer pending''))
    (bnd (if dr_decision req = Approve then
            sqn (enact_targets \<epsilon> row candidate (dr_machine_id req))
           (bnd (approval_label c candidate) (\<lambda>l.
            ret ((status_change Active)\<lparr>ch_label := Some l\<rparr>)))
          else ret (status_change Tombstoned)) (\<lambda>ch.
     bnd (mint \<epsilon>) (\<lambda>uid.
     sqn (cas_update_memory_unit \<epsilon>
            \<lparr>cu_memory_id = mu_id candidate, cu_expected_revision = mu_revision candidate,
             cu_rev_uid = uid,
             cu_editor = (if dr_actor_class req = Human then ''human'' else ''passive''),
             cu_origin_machine_id = dr_machine_id req,
             cu_reason = (if dr_decision req = Approve then ''approved'' else ''rejected''),
             cu_changes = ch\<rparr>)
         (ret ()))))"

definition decide_row :: "env \<Rightarrow> memory_config \<Rightarrow> approval_queue_item \<Rightarrow> decision_request \<Rightarrow>
    prepared_child list option \<Rightarrow> memory_unit_changes option \<Rightarrow> decision_response op" where
  "decide_row \<epsilon> c row req prepared amendment =
     bnd (gets (\<lambda>s. decision_for s (qi_item_uid row))) (\<lambda>prior.
     case prior of
       Some d \<Rightarrow> replay_decision \<epsilon> row req d
     | None \<Rightarrow>
         sqn (raise_if (qi_verdict row = V_contradict \<and> dr_approval_mode req = Passive_mode)
                (QueueValidation ''contradictions require explicit approval''))
        (bnd (locked_memory (qi_candidate_memory_id row)) (\<lambda>candidate.
         if qi_birthplace row = B_curator
         then decide_curator_row \<epsilon> row candidate req prepared amendment
         else sqn (settle_candidate \<epsilon> c row candidate req) (settle_item \<epsilon> row req))))"

definition prepare_amendment :: "env \<Rightarrow> memory_config \<Rightarrow> string \<Rightarrow> approval_queue_item option \<Rightarrow>
    decision_request \<Rightarrow> memory_unit_changes option op" where
  "prepare_amendment \<epsilon> c item_uid preflight req = (case dr_amended_body req of
       None \<Rightarrow> ret None
     | Some b \<Rightarrow> (case preflight of
           None \<Rightarrow> raise (QueueNotFound item_uid)
         | Some row \<Rightarrow>
             sqn (raise_if (qi_birthplace row \<noteq> B_curator \<or>
                            \<not> (qi_verdict row = V_merge \<or> qi_verdict row = V_supersede) \<or>
                            dr_decision req \<noteq> Approve \<or> dr_actor_class req \<noteq> Human)
                    (QueueValidation ''only an explicit curator replacement can be amended''))
                 (bnd (prepare_curator_amendment \<epsilon> c b) (\<lambda>ch. ret (Some ch)))))"

definition prepare_split :: "env \<Rightarrow> memory_config \<Rightarrow> approval_queue_item option \<Rightarrow>
    prepared_child list option op" where
  "prepare_split \<epsilon> c preflight = (case preflight of
       None \<Rightarrow> ret None
     | Some row \<Rightarrow>
         if qi_birthplace row = B_curator \<and> qi_verdict row = V_split then
           (case qi_proposal_payload row of
              None \<Rightarrow> raise (AttributeError ''get'')
            | Some p \<Rightarrow> bnd (proposal_children p) (\<lambda>chs.
                        bnd (prepare_curator_split \<epsilon> c chs) (\<lambda>ps. ret (Some ps))))
         else ret None)"

definition decide :: "env \<Rightarrow> memory_config \<Rightarrow> string \<Rightarrow> decision_request \<Rightarrow> decision_response op" where
  "decide \<epsilon> c item_uid req =
     bnd (gets (\<lambda>s. item_by_uid s item_uid)) (\<lambda>preflight.
     bnd (prepare_amendment \<epsilon> c item_uid preflight req) (\<lambda>amendment.
     bnd (prepare_split \<epsilon> c preflight) (\<lambda>prepared.
     transaction \<epsilon>
      (bnd (gets (\<lambda>s. item_by_uid s item_uid)) (\<lambda>row.
       case row of
         None \<Rightarrow> raise (QueueNotFound item_uid)
       | Some q \<Rightarrow> decide_row \<epsilon> c q req prepared amendment)))))"

definition decide_batch_row :: "env \<Rightarrow> memory_config \<Rightarrow> decision_request \<Rightarrow> approval_queue_item \<Rightarrow>
    queue_card list \<times> nat \<Rightarrow> (queue_card list \<times> nat) op" where
  "decide_batch_row \<epsilon> c req row acc =
     (if qi_state row \<noteq> Q_pending
      then bnd (card \<epsilon> row None) (\<lambda>qc. ret (fst acc @ [qc], snd acc + 1))
      else bnd (decide_row \<epsilon> c row req None None) (\<lambda>resp. ret (fst acc @ [dp_card resp], snd acc)))"

definition decide_batch :: "env \<Rightarrow> memory_config \<Rightarrow> uuid \<Rightarrow> decision_request \<Rightarrow> batch_response op" where
  "decide_batch \<epsilon> c batch req =
     sqn (raise_if (dr_approval_mode req \<noteq> Explicit \<or> dr_actor_class req \<noteq> Human)
            (QueueValidation ''queue batches require an explicit human decision''))
    (sqn (raise_if (dr_amended_body req \<noteq> None) (QueueValidation ''amend one curator replacement at a time''))
    (transaction \<epsilon>
      (bnd (gets (\<lambda>s. sort_key (\<lambda>q. (qi_created_at q, qi_item_uid q))
         (filter (\<lambda>q. qi_batch_uid q = Some batch \<and> (qi_birthplace q = B_seed \<or> qi_birthplace q = B_symphony))
           (queue_items s)))) (\<lambda>rows.
       sqn (raise_if (rows = []) (QueueNotFound (uuid_str batch)))
      (bnd (foldM (decide_batch_row \<epsilon> c req) rows ([], 0)) (\<lambda>acc.
       ret \<lparr>br_batch_uid = batch, br_decision = dr_decision req, br_cards = fst acc,
            br_already_decided = snd acc\<rparr>))))))"

section \<open>Owner feedback on a curator card\<close>

definition queue_feedback :: "env \<Rightarrow> string \<Rightarrow> string \<Rightarrow> string \<Rightarrow> string op" where
  "queue_feedback \<epsilon> item_uid feedback machine = transaction \<epsilon>
     (bnd (gets (\<lambda>s. [(q, v). q \<leftarrow> queue_items s, v \<leftarrow> curator_verdicts s,
                        Some (cv_finding_uid v) = qi_curator_finding_uid q \<and>
                        qi_item_uid q = item_uid \<and> qi_birthplace q = B_curator])) (\<lambda>rows.
      case rows of
        [] \<Rightarrow> raise (QueueNotFound item_uid)
      | [(q, v)] \<Rightarrow>
          bnd (mint \<epsilon>) (\<lambda>uid.
          bnd (gets txn_now) (\<lambda>now.
          bnd (gets curator_actions) (\<lambda>acts.
          sqn (raise_if (uid \<in> ca_action_uid ` set acts) (IntegrityError ''curator_action_pkey''))
         (sqn (modify (\<lambda>s. s\<lparr>curator_actions := curator_actions s @
                 [\<lparr>ca_action_uid = uid, ca_verdict_uid = cv_verdict_uid v, ca_finding_uid = finding_of q,
                   ca_queue_item_uid = Some item_uid, ca_outcome = ''noop'',
                   ca_detail = [(''feedback'', JStr feedback), (''actor_class'', JStr ''human''),
                                (''machine_id'', JStr machine)], ca_created_at = now\<rparr>]\<rparr>))
              (ret uid)))))
      | _ \<Rightarrow> raise (RuntimeErr ''MultipleResultsFound'')))"

section \<open>Every operation of the queue is a safe step\<close>

lemma decision_for_None: "decision_for s i = None \<longleftrightarrow> i \<notin> ad_item_uid ` set (approval_decisions s)"
  by (auto simp: decision_for_def find_None_iff)

lemma safe_insert_item:
  assumes "qi_state q = Q_pending" "qi_decided_at q = None"
  shows "safe.oks (insert_item q)"
proof (rule safe.oksI)
  fix s x t
  assume "insert_item q s = (Inr x, t)"
  then have t: "t = s\<lparr>queue_items := queue_items s @ [q]\<rparr>" and q: "birthplace_shape q"
      "qi_item_uid q \<notin> qi_item_uid ` set (queue_items s)"
      "qi_candidate_memory_id q \<in> mu_id ` set (memory_units s)"
    by (auto simp: insert_item_Inr)
  have "queue_ok t" if "queue_ok s"
  proof -
    from that q(2) have "decision_for s (qi_item_uid q) = None"
      by (auto simp: decision_for_None queue_ok_def)
    with that q assms show ?thesis
      by (auto simp: t queue_ok_def item_settled_def decision_for_def)
  qed
  moreover have "lineage_ok t = lineage_ok s" "labels_ok t = labels_ok s"
    by (simp_all add: t lineage_ok_def labels_ok_def head_lineage_def revisions_at_def)
  ultimately show "safe_step s t" by (simp add: safe_step_def append_only_def db_ok_def t)
qed

lemma keep_card: "keep.steps (card \<epsilon> row ns)"
  unfolding card_def by (intro keep.steps_rules)

lemma keep_safe: "keep.steps m \<Longrightarrow> safe.steps m"
  by (auto intro!: safe.stepsI dest: keep.stepsD simp: safe.R_refl)

lemma find_snoc: "find P (xs @ ys) = (case find P xs of None \<Rightarrow> find P ys | Some x \<Rightarrow> Some x)"
  by (induction xs) auto

lemma settle_item_success:
  assumes "settle_item \<epsilon> row req s = (Inr resp, t)"
  obtains d n where
    "t = s\<lparr>approval_decisions := approval_decisions s @ [d], queue_items :=
        map (\<lambda>q. if qi_item_uid q = qi_item_uid row
             then q\<lparr>qi_state := (if dr_decision req = Approve then Q_approved else Q_rejected),
                    qi_decided_at := Some (txn_now s)\<rparr> else q) (queue_items s), readings := n\<rparr>"
    "ad_item_uid d = qi_item_uid row" "ad_decision d = dr_decision req"
    "ad_approval_mode d = dr_approval_mode req" "ad_actor_class d = dr_actor_class req"
    "dp_decision_uid resp = ad_decision_uid d" "dp_decision resp = dr_decision req"
    "qi_item_uid row \<notin> ad_item_uid ` set (approval_decisions s)"
    "qi_item_uid row \<in> qi_item_uid ` set (queue_items s)"
proof -
  let ?d = "\<lparr>ad_decision_uid = mint_ulid (time_ms \<epsilon> (readings s)) (randbits80 \<epsilon> (readings s)),
     ad_item_uid = qi_item_uid row, ad_decision = dr_decision req,
     ad_approval_mode = dr_approval_mode req, ad_actor_class = dr_actor_class req, ad_created_at = txn_now s\<rparr>"
  from assms show ?thesis
    by (intro that [where d = ?d and n = "Suc (readings s)"])
      (auto simp: settle_item_def act_iff mint_Inr insert_decision_Inr set_item_state_def Let_def
        dest!: keep.stepsD [OF keep_card])
qed

lemma birthplace_shape_settled [simp]:
  "birthplace_shape (q\<lparr>qi_state := st, qi_decided_at := w\<rparr>) = birthplace_shape q"
  by (cases "qi_birthplace q") (simp_all add: birthplace_shape_def)

lemma safe_settle_item: "safe.oks (settle_item \<epsilon> row req)"
proof (rule safe.oksI)
  fix s resp t
  assume "settle_item \<epsilon> row req s = (Inr resp, t)"
  then obtain d n where
    t: "t = s\<lparr>approval_decisions := approval_decisions s @ [d], queue_items :=
        map (\<lambda>q. if qi_item_uid q = qi_item_uid row
             then q\<lparr>qi_state := (if dr_decision req = Approve then Q_approved else Q_rejected),
                    qi_decided_at := Some (txn_now s)\<rparr> else q) (queue_items s), readings := n\<rparr>"
    and d: "ad_item_uid d = qi_item_uid row" "ad_decision d = dr_decision req"
    and new: "qi_item_uid row \<notin> ad_item_uid ` set (approval_decisions s)"
      "qi_item_uid row \<in> qi_item_uid ` set (queue_items s)"
    by (rule settle_item_success)
  have uids: "map qi_item_uid (queue_items t) = map qi_item_uid (queue_items s)"
    by (simp add: t comp_def)
  then have uid_set: "qi_item_uid ` set (queue_items t) = qi_item_uid ` set (queue_items s)"
    by (metis list.set_map)
  have "grown item_kept (queue_items s) (queue_items t)"
    by (auto simp: t item_kept_def intro!: grown_map)
  then have app: "append_only s t" by (simp add: append_only_def t)
  have dec: "decision_for t i = (if i = qi_item_uid row then Some d else decision_for s i)" for i
    using new(1) decision_for_None [of s "qi_item_uid row"]
    by (auto simp: t decision_for_def find_snoc d split: option.split)
  have "queue_ok t" if ok: "queue_ok s"
    unfolding queue_ok_def uids uid_set
  proof (intro conjI)
    show "distinct (map qi_item_uid (queue_items s))" using ok by (simp add: queue_ok_def)
    show "distinct (map ad_item_uid (approval_decisions t))"
      using ok new(1) by (simp add: queue_ok_def t d)
    show "\<forall>d\<in>set (approval_decisions t). ad_item_uid d \<in> qi_item_uid ` set (queue_items s)"
      using ok new(2) by (simp add: queue_ok_def t d)
    show "\<forall>q\<in>set (queue_items t). birthplace_shape q \<and>
        qi_candidate_memory_id q \<in> mu_id ` set (memory_units t) \<and> item_settled t q"
    proof
      fix q assume "q \<in> set (queue_items t)"
      then obtain p where p: "p \<in> set (queue_items s)" and q: "q = (if qi_item_uid p = qi_item_uid row
          then p\<lparr>qi_state := (if dr_decision req = Approve then Q_approved else Q_rejected),
                 qi_decided_at := Some (txn_now s)\<rparr> else p)"
        by (auto simp: t)
      from ok p have "birthplace_shape p" "qi_candidate_memory_id p \<in> mu_id ` set (memory_units s)" "item_settled s p"
        by (simp_all add: queue_ok_def)
      then show "birthplace_shape q \<and> qi_candidate_memory_id q \<in> mu_id ` set (memory_units t) \<and> item_settled t q"
        by (simp add: q item_settled_def dec d) (simp add: t)
    qed
  qed
  moreover have "lineage_ok t = lineage_ok s" "labels_ok t = labels_ok s"
    by (simp_all add: t lineage_ok_def labels_ok_def head_lineage_def revisions_at_def)
  ultimately show "safe_step s t"
    using app by (simp add: safe_step_def db_ok_def)
qed

lemma keep_proposal_text: "keep.steps (proposal_text p k)"
  unfolding proposal_text_def by (auto intro!: keep.steps_rules split: option.split json.split)

lemma keep_proposal_keywords: "keep.steps (proposal_keywords p)"
  unfolding proposal_keywords_def by (auto intro!: keep.steps_rules split: option.split json.split)

lemma keep_proposal_child: "keep.steps (proposal_child j)"
  unfolding proposal_child_def
  by (cases j) (auto intro!: keep.steps_rules keep_proposal_text keep_proposal_keywords)

lemma keep_proposal_children: "keep.steps (proposal_children p)"
  unfolding proposal_children_def
  by (auto intro!: keep.steps_rules keep_proposal_child split: option.split json.split)

lemma keep_memory_row: "keep.steps (memory_row i prin)"
  unfolding memory_row_def by (intro keep.steps_rules)

lemma keep_locked_memory: "keep.steps (locked_memory i)"
  unfolding locked_memory_def by (intro keep.steps_rules)

lemma keep_curator_command: "keep.steps (curator_command \<epsilon> p m f u d)"
  unfolding curator_command_def by (intro keep.steps_rules keep_proposal_text keep_proposal_keywords)

lemma keep_validate_seed: "keep.steps (validate_seed \<epsilon> req)"
  unfolding validate_seed_def by (intro keep.steps_rules)

lemma keep_seed_batch: "keep.steps (seed_batch \<epsilon> req)"
  unfolding seed_batch_def by (intro keep.steps_rules keep_card)

lemmas safe_queue_reads = keep_card [THEN keep_safe] keep_proposal_text [THEN keep_safe]
  keep_proposal_keywords [THEN keep_safe] keep_proposal_children [THEN keep_safe]
  keep_memory_row [THEN keep_safe] keep_locked_memory [THEN keep_safe]
  keep_curator_command [THEN keep_safe] keep_validate_seed [THEN keep_safe]
  keep_seed_batch [THEN keep_safe]

lemmas safe_queue_ok_reads = safe_queue_reads [THEN safe.steps_oks]

lemma safe_discard_candidate: "safe.steps (discard_candidate \<epsilon> i m)"
  unfolding discard_candidate_def
  by (intro safe_transaction safe.oks_rules safe_ok_parts safe_queue_ok_reads)

lemma safe_active_neighbors: "safe.steps (active_neighbors \<epsilon> p m ts cc)"
  unfolding active_neighbors_def by (intro safe.steps_rules safe_discard_candidate)

lemma safe_enqueue: "safe.steps (enqueue \<epsilon> req v ts cc)"
  unfolding enqueue_def Let_def
  by (intro safe.steps_rules safe_active_neighbors safe_parts safe_transaction safe.oks_rules
      safe_queue_ok_reads safe_insert_item) (simp_all add: pending_item_def)

lemma safe_enqueue_seed: "safe.steps (enqueue_seed \<epsilon> req v ts cc)"
  unfolding enqueue_seed_def Let_def
  by (intro safe.steps_rules safe_active_neighbors safe_parts safe_transaction safe.oks_rules
      safe_queue_ok_reads safe_ok_parts safe_insert_item) (simp_all add: pending_item_def)

lemma safe_extract: "safe.steps (extract_candidates \<epsilon> c req)"
proof -
  have "safe.steps (extract_loop \<epsilon> c req ds cards n)" for ds cards n
    by (induction ds arbitrary: cards n)
      (auto intro!: safe.steps_ret safe.steps_bnd safe_create_candidate safe_enqueue split: option.split)
  then show ?thesis by (simp add: extract_candidates_def)
qed

lemma safe_relate_batch: "safe.steps (relate_batch \<epsilon> ids)"
  unfolding relate_batch_def by (intro safe.steps_rules safe_transaction safe_relate_siblings)

lemma safe_ingest_seed: "safe.steps (ingest_seed \<epsilon> c req)"
proof -
  have "safe.steps (seed_loop \<epsilon> c req p ds cards n)" for p ds cards n
    by (induction ds arbitrary: cards n)
      (auto intro!: safe.steps_ret safe.steps_bnd safe_create_candidate safe_enqueue_seed split: option.split)
  then show ?thesis
    unfolding ingest_seed_def
    by (intro safe.steps_rules safe_queue_reads safe_create_split_source safe_relate_batch)
qed

lemma safe_insert_curator_item: "safe.steps (insert_curator_item \<epsilon> r f p a d u ts ns)"
  unfolding insert_curator_item_def Let_def
  by (intro safe.steps_rules safe_parts safe_transaction safe.oks_rules safe_queue_ok_reads
      safe_insert_item) (simp_all add: pending_item_def)

lemma safe_enqueue_curator: "safe.steps (enqueue_curator \<epsilon> c r f p m a ids d)"
  unfolding enqueue_curator_def
  by (intro safe.steps_rules safe_queue_reads safe_create_curator_candidate safe_insert_curator_item)

lemma safe_enact_target: "safe.oks (enact_target \<epsilon> row u m et i)"
  unfolding enact_target_def
  by (intro safe.oks_rules safe_ok_parts safe_queue_ok_reads safe_insert_edge)

lemma safe_enact_targets: "safe.oks (enact_targets \<epsilon> row u m)"
  unfolding enact_targets_def by (intro safe.oks_rules safe_enact_target)

lemma safe_curator_cas: "safe.oks (curator_cas \<epsilon> u m row sfx ch)"
  unfolding curator_cas_def by (intro safe.oks_rules safe_ok_parts)

lemma safe_enact_curator: "safe.oks (enact_curator \<epsilon> row u req ps am)"
  unfolding enact_curator_def
  by (intro safe.oks_rules safe_curator_cas safe_enact_targets safe_enact_curator_split
      safe_queue_ok_reads)

lemma safe_decide_curator_row: "safe.oks (decide_curator_row \<epsilon> row u req ps am)"
  unfolding decide_curator_row_def by (intro safe.oks_rules safe_enact_curator safe_settle_item)

lemma safe_settle_candidate: "safe.oks (settle_candidate \<epsilon> c row u req)"
  unfolding settle_candidate_def
  by (intro safe.oks_rules safe_ok_parts safe_enact_targets safe.steps_oks [OF safe_approval_label])

lemma safe_decide_row: "safe.oks (decide_row \<epsilon> c row req ps am)"
  unfolding decide_row_def replay_decision_def
  by (intro safe.oks_rules safe_queue_ok_reads safe_decide_curator_row safe_settle_candidate safe_settle_item)

lemma safe_decide: "safe.steps (decide \<epsilon> c i req)"
  unfolding decide_def prepare_amendment_def prepare_split_def
  by (intro safe.steps_rules safe_queue_reads safe_prepare_curator_amendment
      safe_prepare_curator_split safe_transaction safe.oks_rules safe_decide_row)

lemma safe_decide_batch: "safe.steps (decide_batch \<epsilon> c b req)"
  unfolding decide_batch_def decide_batch_row_def
  by (intro safe.steps_rules safe_transaction safe.oks_rules safe_queue_ok_reads safe_decide_row)

lemma safe_queue_feedback: "safe.steps (queue_feedback \<epsilon> i f m)"
proof -
  have "safe.oks (modify (\<lambda>s. s\<lparr>curator_actions := curator_actions s @ g s\<rparr>))" for g
    by (rule safe.oksI, rule safe_same) (auto simp: act_iff append_only_def)
  then show ?thesis
    unfolding queue_feedback_def
    by (intro safe_transaction safe.oks_rules safe_ok_parts) 
qed

section \<open>What a decision does\<close>

definition retires_targets :: "verdict \<Rightarrow> bool" where
  "retires_targets v \<longleftrightarrow> v = V_merge \<or> v = V_supersede"

text \<open>One target: it was active and of the candidate's principal; a merge or a supersession
  tombstones it, and the edge names it.\<close>

lemma enact_target_effect:
  assumes run: "enact_target \<epsilon> row cand machine et i s = (Inr x, t)" and ok: "lineage_ok s"
  obtains v e where
    "unit_by_id s i = Some v" "mu_status v = Active" "mu_principal_id v = mu_principal_id cand"
    "\<forall>j. unit_by_id t j = (if j = i \<and> retires_targets (qi_verdict row)
        then Some (bumped_head \<epsilon> (status_change Tombstoned) (txn_now s) v) else unit_by_id s j)"
    "memory_edges t = memory_edges s @ [e]" "edge_from e = mu_id cand" "edge_to e = i" "edge_type e = et"
    "queue_items t = queue_items s" "approval_decisions t = approval_decisions s"
    "lineage_ok t"
proof (cases "retires_targets (qi_verdict row)")
  case True
  with run obtain v uid w w' where v: "unit_by_id s i = Some v" "mu_status v = Active"
      "mu_principal_id v = mu_principal_id cand"
    and cas: "cas_update_memory_unit \<epsilon>
        \<lparr>cu_memory_id = mu_id v, cu_expected_revision = mu_revision v,
         cu_rev_uid = uid, cu_editor = ''maintenance'', cu_origin_machine_id = machine,
         cu_reason = (if qi_birthplace row = B_curator
                      then curation_reason (finding_of row) (verdict_name (qi_verdict row))
                      else verdict_name (qi_verdict row)),
         cu_changes = status_change Tombstoned\<rparr> (s\<lparr>readings := Suc (readings s)\<rparr>) = (Inr w', w)"
    and t: "t = w\<lparr>readings := Suc (readings w), memory_edges := memory_edges w @
         [\<lparr>edge_uid = mint_ulid (time_ms \<epsilon> (readings w)) (randbits80 \<epsilon> (readings w)),
           edge_from = mu_id cand, edge_to = mu_id v, edge_type = et, edge_created_at = txn_now w\<rparr>]\<rparr>"
    by (auto simp: enact_target_def locked_memory_def act_iff mint_Inr insert_edge_Inr retires_targets_def
        simp del: if_act_iff)
  let ?s = "s\<lparr>readings := Suc (readings s)\<rparr>"
  have id: "mu_id v = i" using v by (simp add: unit_by_id_id)
  have ok': "lineage_ok ?s" using ok by (simp add: lineage_ok_def head_lineage_def revisions_at_def)
  have v': "unit_by_id ?s i = Some v" using v by (simp add: unit_by_id_def)
  let ?e = "\<lparr>edge_uid = mint_ulid (time_ms \<epsilon> (readings w)) (randbits80 \<epsilon> (readings w)),
     edge_from = mu_id cand, edge_to = i, edge_type = et, edge_created_at = txn_now w\<rparr>"
  note eff = cas_effect [OF cas ok', unfolded cas_update.select_convs id, OF v']
  show ?thesis
  proof (rule that [where v = v and e = ?e])
    have "unit_by_id t j = unit_by_id w j" for j by (simp add: t unit_by_id_def)
    then show "\<forall>j. unit_by_id t j = (if j = i \<and> retires_targets (qi_verdict row)
        then Some (bumped_head \<epsilon> (status_change Tombstoned) (txn_now s) v) else unit_by_id s j)"
      using eff(1,2) True by (simp add: unit_by_id_def [of "s\<lparr>readings := _\<rparr>"] unit_by_id_def [of s])
    show "lineage_ok t" using eff(6) by (simp add: t lineage_ok_def head_lineage_def revisions_at_def)
  qed (simp_all add: v, simp_all add: t id eff(3,4,5))
next
  case False
  with run obtain v where v: "unit_by_id s i = Some v" "mu_status v = Active"
      "mu_principal_id v = mu_principal_id cand"
    and t: "t = s\<lparr>readings := Suc (readings s), memory_edges := memory_edges s @
         [\<lparr>edge_uid = mint_ulid (time_ms \<epsilon> (readings s)) (randbits80 \<epsilon> (readings s)),
           edge_from = mu_id cand, edge_to = mu_id v, edge_type = et, edge_created_at = txn_now s\<rparr>]\<rparr>"
    by (auto simp: enact_target_def locked_memory_def act_iff mint_Inr insert_edge_Inr retires_targets_def)
  have id: "mu_id v = i" using v by (simp add: unit_by_id_id)
  let ?e = "\<lparr>edge_uid = mint_ulid (time_ms \<epsilon> (readings s)) (randbits80 \<epsilon> (readings s)),
     edge_from = mu_id cand, edge_to = i, edge_type = et, edge_created_at = txn_now s\<rparr>"
  have same: "unit_by_id t j = unit_by_id s j" for j by (simp add: t unit_by_id_def)
  show ?thesis
  proof (rule that [where v = v and e = ?e])
    show "lineage_ok t" using ok by (simp add: t lineage_ok_def head_lineage_def revisions_at_def)
  qed (simp_all add: v same False, simp_all add: t id)
qed

text \<open>All targets: the units that are not targets keep their rows, retired targets are tombstoned
  at their next revision, and the edges name the targets in order.\<close>

lemma enact_loop_effect:
  assumes "iterM (enact_target \<epsilon> row cand machine et) is s = (Inr x, t)" and "lineage_ok s"
  shows "lineage_ok t \<and> queue_items t = queue_items s \<and> approval_decisions t = approval_decisions s \<and>
     (\<forall>j. j \<notin> set is \<longrightarrow> unit_by_id t j = unit_by_id s j) \<and>
     (\<not> retires_targets (qi_verdict row) \<longrightarrow> (\<forall>j. unit_by_id t j = unit_by_id s j)) \<and>
     (\<forall>i \<in> set is. \<exists>v. unit_by_id s i = Some v \<and> mu_status v = Active \<and>
        mu_principal_id v = mu_principal_id cand \<and>
        (retires_targets (qi_verdict row) \<longrightarrow> (\<exists>v'. unit_by_id t i = Some v' \<and>
           mu_status v' = Tombstoned \<and> mu_revision v' = mu_revision v + 1 \<and> mu_body v' = mu_body v))) \<and>
     (\<exists>es. memory_edges t = memory_edges s @ es \<and>
        map (\<lambda>e. (edge_from e, edge_to e, edge_type e)) es = map (\<lambda>i. (mu_id cand, i, et)) is)"
  using assms
proof (induction "is" arbitrary: s)
  case Nil
  then show ?case by (simp add: act_iff)
next
  case (Cons i "is")
  from Cons.prems(1) obtain y w where one: "enact_target \<epsilon> row cand machine et i s = (Inr y, w)"
    and rest: "iterM (enact_target \<epsilon> row cand machine et) is w = (Inr x, t)"
    by (auto simp: sqn_Inr_iff)
  from one Cons.prems(2) obtain v e where
    v: "unit_by_id s i = Some v" "mu_status v = Active" "mu_principal_id v = mu_principal_id cand"
    and w: "\<forall>j. unit_by_id w j = (if j = i \<and> retires_targets (qi_verdict row)
        then Some (bumped_head \<epsilon> (status_change Tombstoned) (txn_now s) v) else unit_by_id s j)"
    and e: "memory_edges w = memory_edges s @ [e]" "edge_from e = mu_id cand" "edge_to e = i" "edge_type e = et"
    and q: "queue_items w = queue_items s" "approval_decisions w = approval_decisions s" "lineage_ok w"
    by (rule enact_target_effect)
  let ?v = "bumped_head \<epsilon> (status_change Tombstoned) (txn_now s) v"
  have v': "mu_status ?v = Tombstoned" "mu_revision ?v = mu_revision v + 1" "mu_body ?v = mu_body v"
    by (simp_all add: bumped_head_def apply_changes_def status_change_def no_changes_def)
  note IH = Cons.IH [OF rest q(3)]
  then obtain es where es: "memory_edges t = memory_edges w @ es"
    "map (\<lambda>e. (edge_from e, edge_to e, edge_type e)) es = map (\<lambda>i. (mu_id cand, i, et)) is" by blast
  have notin: "i \<notin> set is" if "retires_targets (qi_verdict row)"
    using IH v' w [rule_format, of i] that by (metis memory_status.distinct(7) option.inject)
  have "\<forall>k \<in> set (i # is). \<exists>v. unit_by_id s k = Some v \<and> mu_status v = Active \<and>
        mu_principal_id v = mu_principal_id cand \<and>
        (retires_targets (qi_verdict row) \<longrightarrow> (\<exists>v'. unit_by_id t k = Some v' \<and>
           mu_status v' = Tombstoned \<and> mu_revision v' = mu_revision v + 1 \<and> mu_body v' = mu_body v))"
  proof
    fix k assume k: "k \<in> set (i # is)"
    show "\<exists>v. unit_by_id s k = Some v \<and> mu_status v = Active \<and>
        mu_principal_id v = mu_principal_id cand \<and>
        (retires_targets (qi_verdict row) \<longrightarrow> (\<exists>v'. unit_by_id t k = Some v' \<and>
           mu_status v' = Tombstoned \<and> mu_revision v' = mu_revision v + 1 \<and> mu_body v' = mu_body v))"
    proof (cases "k = i")
      case True
      with v v' IH w [rule_format, of i] notin show ?thesis by auto
    next
      case False
      with k have k: "k \<in> set is" and wk: "unit_by_id s k = unit_by_id w k" by (simp_all add: w)
      show ?thesis unfolding wk using IH k by blast
    qed
  qed
  moreover have "\<exists>es. memory_edges t = memory_edges s @ es \<and>
        map (\<lambda>e. (edge_from e, edge_to e, edge_type e)) es = map (\<lambda>i. (mu_id cand, i, et)) (i # is)"
    using es e by (intro exI [of _ "e # es"]) simp
  ultimately show ?case
    using IH w q by auto
qed

text \<open>What an approval leaves of the targets, and a decision of the candidate.\<close>

definition targets_enacted :: "db \<Rightarrow> db \<Rightarrow> approval_queue_item \<Rightarrow> bool" where
  "targets_enacted s t q \<longleftrightarrow>
     (\<forall>j. j \<noteq> qi_candidate_memory_id q \<and> (j \<notin> set (qi_target_ids q) \<or> \<not> retires_targets (qi_verdict q)) \<longrightarrow>
        unit_by_id t j = unit_by_id s j) \<and>
     (retires_targets (qi_verdict q) \<longrightarrow> (\<forall>i \<in> set (qi_target_ids q). \<exists>v v'.
        unit_by_id s i = Some v \<and> mu_status v = Active \<and>
        unit_by_id t i = Some v' \<and> mu_status v' = Tombstoned \<and>
        mu_revision v' = mu_revision v + 1 \<and> mu_body v' = mu_body v)) \<and>
     (\<exists>es. memory_edges t = memory_edges s @ es \<and>
        map (\<lambda>e. (edge_from e, edge_to e, edge_type e)) es =
          (case verdict_edge (qi_verdict q) of None \<Rightarrow> []
           | Some et \<Rightarrow> map (\<lambda>i. (qi_candidate_memory_id q, i, et)) (qi_target_ids q)))"

definition candidate_settled :: "db \<Rightarrow> db \<Rightarrow> approval_queue_item \<Rightarrow> decision_request \<Rightarrow> bool" where
  "candidate_settled s t q req \<longleftrightarrow>
     (\<exists>u u'. unit_by_id s (qi_candidate_memory_id q) = Some u \<and> mu_status u = Candidate \<and>
        unit_by_id t (qi_candidate_memory_id q) = Some u' \<and>
        mu_revision u' = mu_revision u + 1 \<and> mu_body u' = mu_body u \<and>
        (if dr_decision req = Approve then mu_status u' = Active
         else mu_status u' = Tombstoned \<and> mu_label u' = mu_label u)) \<and>
     (if dr_decision req = Approve then targets_enacted s t q
      else memory_edges t = memory_edges s \<and>
        (\<forall>j. j \<noteq> qi_candidate_memory_id q \<longrightarrow> unit_by_id t j = unit_by_id s j))"

lemma enact_targets_effect:
  assumes run: "enact_targets \<epsilon> q cand machine s = (Inr x, t)" and ok: "lineage_ok s"
    and cand: "unit_by_id s (qi_candidate_memory_id q) = Some cand" "mu_status cand \<noteq> Active"
  shows "lineage_ok t \<and> queue_items t = queue_items s \<and> approval_decisions t = approval_decisions s \<and>
     unit_by_id t (qi_candidate_memory_id q) = Some cand \<and> targets_enacted s t q \<and>
     (retires_targets (qi_verdict q) \<longrightarrow> qi_candidate_memory_id q \<notin> set (qi_target_ids q))"
proof (cases "verdict_edge (qi_verdict q)")
  case None
  then have no: "\<not> retires_targets (qi_verdict q)"
    by (auto simp: verdict_edge_def retires_targets_def)
  from None run have "t = s" by (simp add: enact_targets_def act_iff)
  with no None ok cand show ?thesis by (simp add: targets_enacted_def)
next
  case (Some et)
  with run have "iterM (enact_target \<epsilon> q cand machine et) (qi_target_ids q) s = (Inr x, t)"
    by (simp add: enact_targets_def)
  note eff = enact_loop_effect [OF this ok]
  have id: "mu_id cand = qi_candidate_memory_id q" using cand(1) by (simp add: unit_by_id_id)
  have notin: "qi_candidate_memory_id q \<notin> set (qi_target_ids q)"
    using eff cand by (metis option.inject)
  then have "unit_by_id t (qi_candidate_memory_id q) = Some cand" using eff cand(1) by simp
  moreover have "targets_enacted s t q"
    unfolding targets_enacted_def using eff Some id by (intro conjI) (blast, blast, simp)
  ultimately show ?thesis using eff notin by blast
qed

lemma targets_enacted_later:
  assumes "targets_enacted s w q" "retires_targets (qi_verdict q) \<longrightarrow> qi_candidate_memory_id q \<notin> set (qi_target_ids q)"
    "\<And>j. j \<noteq> qi_candidate_memory_id q \<Longrightarrow> unit_by_id t j = unit_by_id w j" "memory_edges t = memory_edges w"
  shows "targets_enacted s t q"
  using assms unfolding targets_enacted_def by (metis (no_types, lifting))

lemma settle_candidate_effect:
  assumes run: "settle_candidate \<epsilon> c q cand req s = (Inr x, t)" and ok: "lineage_ok s"
    and cand: "unit_by_id s (qi_candidate_memory_id q) = Some cand"
  shows "lineage_ok t \<and> queue_items t = queue_items s \<and> approval_decisions t = approval_decisions s \<and>
     candidate_settled s t q req"
proof -
  let ?i = "qi_candidate_memory_id q"
  have id: "mu_id cand = ?i" using cand by (simp add: unit_by_id_id)
  from run obtain ch w uid where st: "mu_status cand = Candidate"
    and pre: "if dr_decision req = Approve
       then enact_targets \<epsilon> q cand (dr_machine_id req) s = (Inr (), w) \<and>
          (\<exists>l. ch = (status_change Active)\<lparr>ch_label := Some l\<rparr>)
       else w = s \<and> ch = status_change Tombstoned"
    and cas: "\<exists>u'. cas_update_memory_unit \<epsilon>
            \<lparr>cu_memory_id = mu_id cand, cu_expected_revision = mu_revision cand,
             cu_rev_uid = uid,
             cu_editor = (if dr_actor_class req = Human then ''human'' else ''passive''),
             cu_origin_machine_id = dr_machine_id req,
             cu_reason = (if dr_decision req = Approve then ''approved'' else ''rejected''),
             cu_changes = ch\<rparr> (w\<lparr>readings := Suc (readings w)\<rparr>) = (Inr u', t)"
    by (auto simp: settle_candidate_def act_iff mint_Inr approval_label_def split: if_splits)
  let ?w = "w\<lparr>readings := Suc (readings w)\<rparr>"
  have w: "lineage_ok w \<and> queue_items w = queue_items s \<and> approval_decisions w = approval_decisions s \<and>
     unit_by_id w ?i = Some cand \<and>
     (if dr_decision req = Approve then targets_enacted s w q \<and>
        (retires_targets (qi_verdict q) \<longrightarrow> ?i \<notin> set (qi_target_ids q)) else w = s)"
    using pre enact_targets_effect [of \<epsilon> q cand "dr_machine_id req" s "()" w] ok cand st
    by (auto split: if_splits)
  then have "lineage_ok ?w" "unit_by_id ?w ?i = Some cand"
    by (simp_all add: lineage_ok_def head_lineage_def revisions_at_def unit_by_id_def)
  from cas obtain u' where cas: "cas_update_memory_unit \<epsilon>
            \<lparr>cu_memory_id = mu_id cand, cu_expected_revision = mu_revision cand,
             cu_rev_uid = uid,
             cu_editor = (if dr_actor_class req = Human then ''human'' else ''passive''),
             cu_origin_machine_id = dr_machine_id req,
             cu_reason = (if dr_decision req = Approve then ''approved'' else ''rejected''),
             cu_changes = ch\<rparr> ?w = (Inr u', t)" by blast
  note eff = cas_effect [OF cas \<open>lineage_ok ?w\<close>, unfolded cas_update.select_convs id, OF \<open>unit_by_id ?w ?i = _\<close>]
  have other: "unit_by_id t j = unit_by_id w j" if "j \<noteq> ?i" for j
    using eff(2) [of j] that by (simp add: unit_by_id_def)
  have edges: "memory_edges t = memory_edges w" using eff(5) by simp
  have u': "unit_by_id t ?i = Some u'" "u' = bumped_head \<epsilon> ch (txn_now w) cand"
    using eff(1) eff(2) [of ?i] by simp_all
  have u'f: "mu_revision u' = mu_revision cand + 1" "mu_body u' = mu_body cand"
    "if dr_decision req = Approve then mu_status u' = Active
         else mu_status u' = Tombstoned \<and> mu_label u' = mu_label cand"
    using pre by (auto simp: u'(2) bumped_head_def apply_changes_def status_change_def no_changes_def split: if_splits)
  have "candidate_settled s t q req"
    unfolding candidate_settled_def
    using cand st u' u'f w other edges targets_enacted_later [of s w q t] by auto
  with eff w show ?thesis by simp
qed

lemma item_by_uid_id: "item_by_uid s i = Some q \<Longrightarrow> qi_item_uid q = i"
  by (auto simp: item_by_uid_def dest: find_Some_set)

lemma item_by_uid_map:
  assumes "\<And>q. qi_item_uid (f q) = qi_item_uid q"
  shows "find (\<lambda>q. qi_item_uid q = i) (map f qs) = map_option f (find (\<lambda>q. qi_item_uid q = i) qs)"
  by (induction qs) (auto simp: assms)

lemma settle_item_effect:
  assumes "settle_item \<epsilon> q req s = (Inr resp, t)" "item_by_uid s (qi_item_uid q) = Some q"
  shows "memory_units t = memory_units s \<and> memory_edges t = memory_edges s \<and>
     item_by_uid t (qi_item_uid q) = Some (q\<lparr>qi_state := (if dr_decision req = Approve then Q_approved else Q_rejected),
       qi_decided_at := Some (txn_now s)\<rparr>) \<and>
     (\<exists>d. approval_decisions t = approval_decisions s @ [d] \<and> ad_item_uid d = qi_item_uid q \<and>
        ad_decision d = dr_decision req \<and> ad_approval_mode d = dr_approval_mode req \<and>
        ad_actor_class d = dr_actor_class req \<and> dp_decision_uid resp = ad_decision_uid d)"
proof -
  from assms(1) obtain d n where
    t: "t = s\<lparr>approval_decisions := approval_decisions s @ [d], queue_items :=
        map (\<lambda>p. if qi_item_uid p = qi_item_uid q
             then p\<lparr>qi_state := (if dr_decision req = Approve then Q_approved else Q_rejected),
                    qi_decided_at := Some (txn_now s)\<rparr> else p) (queue_items s), readings := n\<rparr>"
    and d: "ad_item_uid d = qi_item_uid q" "ad_decision d = dr_decision req"
      "ad_approval_mode d = dr_approval_mode req" "ad_actor_class d = dr_actor_class req"
      "dp_decision_uid resp = ad_decision_uid d"
    by (rule settle_item_success)
  have "item_by_uid t (qi_item_uid q) = map_option (\<lambda>p. if qi_item_uid p = qi_item_uid q
             then p\<lparr>qi_state := (if dr_decision req = Approve then Q_approved else Q_rejected),
                    qi_decided_at := Some (txn_now s)\<rparr> else p) (item_by_uid s (qi_item_uid q))"
    unfolding item_by_uid_def t by (simp add: item_by_uid_map)
  with assms(2) d show ?thesis by (simp add: t)
qed

lemma candidate_settled_cong:
  assumes "memory_units s = memory_units s'" "memory_edges s = memory_edges s'"
    "memory_units t = memory_units t'" "memory_edges t = memory_edges t'"
  shows "candidate_settled s t q req = candidate_settled s' t' q req"
  using assms by (simp add: candidate_settled_def targets_enacted_def unit_by_id_def)

text \<open>What runs before the transaction of a decision writes nothing.\<close>

lemma keep_prepare_amendment: "keep.steps (prepare_amendment \<epsilon> c i p req)"
  unfolding prepare_amendment_def prepare_curator_amendment_def validate_body_def
  by (intro keep.steps_rules keep_embed_one)

lemma keep_prepare_children: "keep.steps (prepare_children \<epsilon> c ls bs chs)"
  by (induction chs arbitrary: ls bs)
    (auto simp: validate_label_def validate_body_def intro!: keep.steps_sqn keep.steps_bnd keep.steps_raise_if keep.steps_ret
      keep_embed_one keep_split_keywords)

lemma keep_prepare_split: "keep.steps (prepare_split \<epsilon> c p)"
  unfolding prepare_split_def prepare_curator_split_def
  by (intro keep.steps_rules keep_proposal_children keep_prepare_children)

text \<open>The order of the writes shows in the revisions, which only grow: every retired target's revision is
  written before the candidate's.\<close>

lemma cas_revision_row:
  "cas_update_memory_unit \<epsilon> c s = (Inr u', t) \<Longrightarrow> \<exists>r. memory_revisions t = memory_revisions s @ [r] \<and> rev_memory_id r = cu_memory_id c"
  by (erule cas_success) (simp add: cas_revision_def)

lemma enact_target_revisions:
  assumes "enact_target \<epsilon> row cand machine et i s = (Inr x, t)"
  shows "\<exists>rs. memory_revisions t = memory_revisions s @ rs \<and>
     map rev_memory_id rs = (if retires_targets (qi_verdict row) then [i] else [])"
proof (cases "retires_targets (qi_verdict row)")
  case True
  with assms obtain v uid w w' where v: "unit_by_id s i = Some v"
    and cas: "cas_update_memory_unit \<epsilon>
        \<lparr>cu_memory_id = mu_id v, cu_expected_revision = mu_revision v,
         cu_rev_uid = uid, cu_editor = ''maintenance'', cu_origin_machine_id = machine,
         cu_reason = (if qi_birthplace row = B_curator
                      then curation_reason (finding_of row) (verdict_name (qi_verdict row))
                      else verdict_name (qi_verdict row)),
         cu_changes = status_change Tombstoned\<rparr> (s\<lparr>readings := Suc (readings s)\<rparr>) = (Inr w', w)"
    and t: "memory_revisions t = memory_revisions w"
    by (auto simp: enact_target_def locked_memory_def act_iff mint_Inr insert_edge_Inr retires_targets_def
        simp del: if_act_iff)
  from cas_revision_row [OF cas] v True t show ?thesis by (auto simp: unit_by_id_id)
next
  case False
  with assms show ?thesis
    by (auto simp: enact_target_def locked_memory_def act_iff mint_Inr insert_edge_Inr retires_targets_def)
qed

lemma enact_loop_revisions:
  assumes "iterM (enact_target \<epsilon> row cand machine et) is s = (Inr x, t)"
  shows "\<exists>rs. memory_revisions t = memory_revisions s @ rs \<and>
     map rev_memory_id rs = (if retires_targets (qi_verdict row) then is else [])"
  using assms
proof (induction "is" arbitrary: s)
  case (Cons i "is")
  then obtain y w where one: "enact_target \<epsilon> row cand machine et i s = (Inr y, w)"
    and rest: "iterM (enact_target \<epsilon> row cand machine et) is w = (Inr x, t)"
    by (auto simp: sqn_Inr_iff)
  from enact_target_revisions [OF one] Cons.IH [OF rest] obtain ps rs where
    "memory_revisions t = memory_revisions s @ ps @ rs"
    "map rev_memory_id ps = (if retires_targets (qi_verdict row) then [i] else [])"
    "map rev_memory_id rs = (if retires_targets (qi_verdict row) then is else [])" by auto
  then show ?case by (intro exI [of _ "ps @ rs"]) simp
qed (simp add: act_iff)

lemma enact_targets_revisions:
  assumes "enact_targets \<epsilon> row cand machine s = (Inr x, t)"
  shows "\<exists>rs. memory_revisions t = memory_revisions s @ rs \<and>
     map rev_memory_id rs = (if retires_targets (qi_verdict row) then qi_target_ids row else [])"
proof (cases "verdict_edge (qi_verdict row)")
  case None
  with assms show ?thesis
    by (auto simp: enact_targets_def act_iff verdict_edge_def retires_targets_def)
next
  case (Some et)
  with assms show ?thesis by (simp add: enact_targets_def enact_loop_revisions)
qed

lemma settle_candidate_revisions:
  assumes "settle_candidate \<epsilon> c row cand req s = (Inr x, t)"
  shows "\<exists>rs r. memory_revisions t = memory_revisions s @ rs @ [r] \<and> rev_memory_id r = mu_id cand \<and>
     map rev_memory_id rs = (if dr_decision req = Approve \<and> retires_targets (qi_verdict row) then qi_target_ids row else [])"
proof -
  from assms obtain ch w uid u' where
    pre: "if dr_decision req = Approve then enact_targets \<epsilon> row cand (dr_machine_id req) s = (Inr (), w) else w = s"
    and cas: "cas_update_memory_unit \<epsilon>
            \<lparr>cu_memory_id = mu_id cand, cu_expected_revision = mu_revision cand,
             cu_rev_uid = uid,
             cu_editor = (if dr_actor_class req = Human then ''human'' else ''passive''),
             cu_origin_machine_id = dr_machine_id req,
             cu_reason = (if dr_decision req = Approve then ''approved'' else ''rejected''),
             cu_changes = ch\<rparr> (w\<lparr>readings := Suc (readings w)\<rparr>) = (Inr u', t)"
    by (auto simp: settle_candidate_def act_iff mint_Inr approval_label_def split: if_splits)
  from pre have "\<exists>rs. memory_revisions w = memory_revisions s @ rs \<and>
     map rev_memory_id rs = (if dr_decision req = Approve \<and> retires_targets (qi_verdict row) then qi_target_ids row else [])"
    by (auto dest: enact_targets_revisions split: if_splits)
  with cas_revision_row [OF cas] show ?thesis by fastforce
qed

text \<open>C1: Deciding an undecided card that is no curator verdict appends exactly one decision row with
  the requested signal, moves the card to approved or rejected, and moves its candidate by one
  revision: an approval makes it active, tombstones the merged or superseded targets at their next
  revision and writes one edge per target, leaving all other memories alone; a denial
  tombstones it and touches no other memory and no edge. The revisions appended are those of the retired
  targets, in order, and then the candidate's: it becomes active only after its targets are retired.\<close>

theorem decide_effect:
  assumes ok: "lineage_ok s" and item: "item_by_uid s i = Some q" and "qi_birthplace q \<noteq> B_curator"
    and none: "decision_for s i = None" and run: "decide \<epsilon> c i req s = (Inr resp, t)"
  shows "candidate_settled s t q req \<and>
     (\<exists>rs r. memory_revisions t = memory_revisions s @ rs @ [r] \<and> rev_memory_id r = qi_candidate_memory_id q \<and>
        map rev_memory_id rs =
          (if dr_decision req = Approve \<and> retires_targets (qi_verdict q) then qi_target_ids q else [])) \<and>
     (\<exists>d. approval_decisions t = approval_decisions s @ [d] \<and> ad_item_uid d = i \<and>
        ad_decision d = dr_decision req \<and> ad_approval_mode d = dr_approval_mode req \<and>
        ad_actor_class d = dr_actor_class req \<and> dp_decision_uid resp = ad_decision_uid d) \<and>
     (\<exists>q'. item_by_uid t i = Some q' \<and>
        qi_state q' = (if dr_decision req = Approve then Q_approved else Q_rejected)) \<and>
     \<not> (qi_verdict q = V_contradict \<and> dr_approval_mode req = Passive_mode)"
proof -
  let ?s = "s\<lparr>readings := Suc (readings s), txn_now := clock \<epsilon> (readings s)\<rparr>"
  have uid: "qi_item_uid q = i" using item by (rule item_by_uid_id)
  have amd: "keep.steps (prepare_amendment \<epsilon> c i p req)" for p by (rule keep_prepare_amendment)
  have sp: "prepare_split \<epsilon> c (Some q) = ret None"
    using assms(3) by (simp add: prepare_split_def)
  have itm: "item_by_uid ?s i = Some q" and dcn: "decision_for ?s i = None"
    using item none by (simp_all add: item_by_uid_def decision_for_def)
  from run have row: "\<exists>am. decide_row \<epsilon> c q req None am ?s = (Inr resp, t)"
    unfolding decide_def using item
    by (auto simp: act_iff sp transaction_Inr itm dest!: keep.stepsD [OF amd])
  then obtain cand w where
    con: "\<not> (qi_verdict q = V_contradict \<and> dr_approval_mode req = Passive_mode)"
    and cand: "unit_by_id ?s (qi_candidate_memory_id q) = Some cand"
    and sc: "settle_candidate \<epsilon> c q cand req ?s = (Inr (), w)"
    and si: "settle_item \<epsilon> q req w = (Inr resp, t)"
    using assms(3) dcn uid by (auto simp: decide_row_def locked_memory_def act_iff)
  have ok': "lineage_ok ?s" using ok by (simp add: lineage_ok_def head_lineage_def revisions_at_def)
  note w = settle_candidate_effect [OF sc ok' cand]
  with itm uid have "item_by_uid w (qi_item_uid q) = Some q" by (simp add: item_by_uid_def)
  note fin = settle_item_effect [OF si this]
  have "candidate_settled s t q req"
    using w fin candidate_settled_cong [of s ?s t w] by simp
  moreover have "memory_revisions t = memory_revisions w"
    by (rule settle_item_success [OF si]) simp
  moreover have "mu_id cand = qi_candidate_memory_id q" using cand by (simp add: unit_by_id_id)
  ultimately show ?thesis using settle_candidate_revisions [OF sc] fin w con uid by simp
qed

text \<open>What runs before the transaction of a decision: an amended text is checked, and the children of a
  curator split are prepared. Neither writes.\<close>

definition decide_preflight :: "env \<Rightarrow> memory_config \<Rightarrow> string \<Rightarrow> approval_queue_item \<Rightarrow> decision_request \<Rightarrow> db \<Rightarrow> err option" where
  "decide_preflight \<epsilon> c i q req s =
     (case fst (bnd (prepare_amendment \<epsilon> c i (Some q) req) (\<lambda>_. prepare_split \<epsilon> c (Some q)) s) of
        Inl e \<Rightarrow> Some e | Inr _ \<Rightarrow> None)"

lemma preflight_passes:
  "dr_amended_body req = None \<Longrightarrow> qi_verdict q \<noteq> V_split \<or> qi_birthplace q \<noteq> B_curator \<Longrightarrow>
     decide_preflight \<epsilon> c i q req s = None"
  by (auto simp: decide_preflight_def prepare_amendment_def prepare_split_def act_defs)

lemma decide_after_preflight:
  assumes "item_by_uid s i = Some q"
  shows "case decide_preflight \<epsilon> c i q req s of
      Some e \<Rightarrow> decide \<epsilon> c i req s = (Inl e, s)
    | None \<Rightarrow> \<exists>ps am. decide \<epsilon> c i req s = transaction \<epsilon> (bnd (gets (\<lambda>s. item_by_uid s i)) (\<lambda>row.
        case row of None \<Rightarrow> raise (QueueNotFound i) | Some q \<Rightarrow> decide_row \<epsilon> c q req ps am)) s"
proof -
  obtain x u where x: "prepare_amendment \<epsilon> c i (Some q) req s = (x, u)" by fastforce
  obtain y v where y: "prepare_split \<epsilon> c (Some q) s = (y, v)" by fastforce
  have "u = s" "v = s"
    using keep.stepsD [OF keep_prepare_amendment x] keep.stepsD [OF keep_prepare_split y] by simp_all
  with x y assms show ?thesis
    by (cases x; cases y) (auto simp: decide_preflight_def decide_def bnd_def gets_def)
qed

text \<open>C3: A decision is written once. On a decided card no request changes a table, whatever it asks. One
  whose amended text or split fails the checks that come first is refused with their error. Any other is answered from
  the record: a text that differs from the candidate's is a conflict, a signal that differs from the recorded one is
  a conflict, and a request that repeats the record returns the recorded decision and the card. A request without
  amended text for a card that is no curator split meets no earlier check.\<close>

theorem decide_replay:
  assumes item: "item_by_uid s i = Some q" and d: "decision_for s i = Some d"
    and run: "decide \<epsilon> c i req s = (r, t)" and unit: "unit_by_id s (qi_candidate_memory_id q) = Some u"
  shows "same_tables s t \<and>
     (case decide_preflight \<epsilon> c i q req s of
        Some e \<Rightarrow> r = Inl e
      | None \<Rightarrow>
          if \<exists>b. dr_amended_body req = Some b \<and> mu_body u \<noteq> b
          then r = Inl (QueueConflict ''the decided replacement has different text'')
          else if (ad_decision d, ad_approval_mode d, ad_actor_class d) =
             (dr_decision req, dr_approval_mode req, dr_actor_class req)
          then \<exists>resp. r = Inr resp \<and> dp_decision_uid resp = ad_decision_uid d \<and> dp_decision resp = ad_decision d \<and>
             dp_approval_mode resp = ad_approval_mode d \<and> dp_actor_class resp = ad_actor_class d \<and> qc_row (dp_card resp) = q
          else r = Inl (QueueConflict ''queue item already has a different decision'')) \<and>
     (dr_amended_body req = None \<and> (qi_verdict q \<noteq> V_split \<or> qi_birthplace q \<noteq> B_curator) \<longrightarrow>
        decide_preflight \<epsilon> c i q req s = None)"
proof (cases "decide_preflight \<epsilon> c i q req s")
  case None
  let ?s = "s\<lparr>readings := Suc (readings s), txn_now := clock \<epsilon> (readings s)\<rparr>"
  have "qi_item_uid q = i" using item by (rule item_by_uid_id)
  then have at: "item_by_uid ?s i = Some q" "decision_for ?s (qi_item_uid q) = Some d"
    "unit_by_id ?s (qi_candidate_memory_id q) = Some u"
    using item d unit by (simp_all add: item_by_uid_def decision_for_def unit_by_id_def)
  from decide_after_preflight [OF item, of \<epsilon> c req] None run obtain ps am where
    "transaction \<epsilon> (bnd (gets (\<lambda>s. item_by_uid s i)) (\<lambda>row.
        case row of None \<Rightarrow> raise (QueueNotFound i) | Some q \<Rightarrow> decide_row \<epsilon> c q req ps am)) s = (r, t)" by auto
  with at None show ?thesis
    by (cases "dr_amended_body req")
      (auto simp: decide_row_def replay_decision_def locked_memory_def card_def act_defs transaction_def
        clock_timestamp_def draw_def rollback_def same_tables_def split: if_splits)
next
  case (Some e)
  with decide_after_preflight [OF item, of \<epsilon> c req] run preflight_passes [of req q \<epsilon> c i s] show ?thesis
    by (auto simp: same_tables_def)
qed

section \<open>A queue with one pending card\<close>

definition sample_queue_db :: "queue_state \<Rightarrow> db" where
  "sample_queue_db st = empty_db\<lparr>memory_units := [sample_unit Candidate 1],
     memory_revisions := [root_revision sample_command ''R'' (sample_unit Candidate 1) 0],
     queue_items := [sample_item ''q'' 1 st]\<rparr>"

definition sample_approval :: decision_request where
  "sample_approval = \<lparr>dr_decision = Approve, dr_approval_mode = Explicit, dr_actor_class = Human,
     dr_machine_id = ''m'', dr_amended_body = None\<rparr>"

lemma sample_queue_lineage: "lineage_ok (sample_queue_db st)"
  by (auto simp: lineage_ok_def head_lineage_def revisions_at_def sample_queue_db_def empty_db_def
      sample_unit_def root_row_def root_revision_def)

lemma sample_decide:
  "\<exists>resp t. decide sample_env sample_config ''q'' sample_approval (sample_queue_db Q_pending) = (Inr resp, t)"
  by (simp add: decide_def prepare_amendment_def prepare_split_def sample_approval_def sample_queue_db_def
      item_by_uid_def sample_item_def store_run decide_row_def decision_for_def locked_memory_def unit_by_id_def
      sample_unit_def sample_command_def root_row_def settle_candidate_def enact_targets_def verdict_edge_def
      approval_label_def numeral_3_eq_3 find_active_label_def cas_update_memory_unit_def cas_update_inner_def
      status_change_def no_changes_def update_unit_def bumped_head_def apply_changes_def replace_unit_def
      removals_of_def revisions_at_def root_revision_def cas_revision_def settle_item_def
      insert_decision_def set_item_state_def card_def dget_def default_stats_def)

theorem decide_effect_witness:
  "\<exists>resp t. decide sample_env sample_config ''q'' sample_approval (sample_queue_db Q_pending) = (Inr resp, t) \<and>
     candidate_settled (sample_queue_db Q_pending) t (sample_item ''q'' 1 Q_pending) sample_approval"
proof -
  obtain resp t where run:
    "decide sample_env sample_config ''q'' sample_approval (sample_queue_db Q_pending) = (Inr resp, t)"
    using sample_decide by blast
  have "item_by_uid (sample_queue_db Q_pending) ''q'' = Some (sample_item ''q'' 1 Q_pending)"
    "qi_birthplace (sample_item ''q'' 1 Q_pending) \<noteq> B_curator"
    "decision_for (sample_queue_db Q_pending) ''q'' = None"
    by (simp_all add: item_by_uid_def sample_queue_db_def sample_item_def decision_for_def empty_db_def)
  from decide_effect [OF sample_queue_lineage this run] run show ?thesis by blast
qed

theorem decide_replay_witness:
  "fst (decide sample_env sample_config ''q'' (sample_approval\<lparr>dr_decision := Deny\<rparr>)
     ((sample_queue_db Q_approved)\<lparr>approval_decisions := [\<lparr>ad_decision_uid = ''d'', ad_item_uid = ''q'',
        ad_decision = Approve, ad_approval_mode = Explicit, ad_actor_class = Human, ad_created_at = 0\<rparr>]\<rparr>)) =
   Inl (QueueConflict ''queue item already has a different decision'')"
  (is "fst (decide _ _ _ ?req ?s) = _")
proof -
  obtain r t where run: "decide sample_env sample_config ''q'' ?req ?s = (r, t)" by fastforce
  have item: "item_by_uid ?s ''q'' = Some (sample_item ''q'' 1 Q_approved)"
    and decided: "decision_for ?s ''q'' = Some \<lparr>ad_decision_uid = ''d'', ad_item_uid = ''q'', ad_decision = Approve,
      ad_approval_mode = Explicit, ad_actor_class = Human, ad_created_at = 0\<rparr>"
    and unit: "unit_by_id ?s (qi_candidate_memory_id (sample_item ''q'' 1 Q_approved)) = Some (sample_unit Candidate 1)"
    by (simp_all add: item_by_uid_def decision_for_def sample_queue_db_def sample_item_def empty_db_def unit_by_id_def
        sample_unit_def root_row_def)
  have req: "dr_amended_body ?req = None" "dr_decision ?req = Deny"
    and birth: "qi_birthplace (sample_item ''q'' 1 Q_approved) \<noteq> B_curator"
    by (simp_all add: sample_approval_def sample_item_def)
  note replay = decide_replay [OF item decided run unit, THEN conjunct2, THEN conjunct1]
  have "decide_preflight sample_env sample_config ''q'' (sample_item ''q'' 1 Q_approved) ?req ?s = None"
    using req birth by (intro preflight_passes) blast+
  from replay [unfolded this] run req show ?thesis by simp
qed

section \<open>Seed documents with long names\<close>

text \<open>The label of a seed's source head is cut at 120 characters, but a label may only have
  \<open>label_max\<close> (64 by default): every new, valid seed document whose name is longer than
  \<open>label_max - 14\<close> characters is refused, although the contract allows names of 255.\<close>

theorem long_seed_name_refused:
  assumes "validate_seed \<epsilon> req s = (Inr (), s)" and "seed_batch \<epsilon> req s = (Inr None, s)"
    and "label_max c < 120" and "int (length (sd_source_name req)) + 14 > label_max c"
  shows "ingest_seed \<epsilon> c req s = (Inl (MemoryValidation ''label''), s)"
proof -
  have "label_max c < int (length (cm_label (seed_source_command req)))"
    using assms(3,4) by (simp add: seed_source_command_def)
  with assms(1,2) show ?thesis
    by (simp add: ingest_seed_def sqn_def bnd_eval create_split_source_def validate_label_def raise_if_def
        raise_def bnd_def)
qed

definition sample_seed :: seed_request where
  "sample_seed = \<lparr>sd_principal_id = ''p'', sd_batch_uid = 7,
     sd_source_name = ''architecture-decisions-and-open-questions-2024-01-31.md'',
     sd_source_sha256 = ''# Notes'', sd_markdown = ''# Notes'', sd_machine_id = ''m'', sd_editor = ''user'',
     sd_candidates = []\<rparr>"

theorem long_seed_name_refused_witness:
  "ingest_seed sample_env sample_config sample_seed empty_db = (Inl (MemoryValidation ''label''), empty_db)"
proof (rule long_seed_name_refused)
  have "path_name (sd_source_name sample_seed) = sd_source_name sample_seed"
    "endswith (py_lower (sd_source_name sample_seed)) ''.md''"
    "strip (sd_markdown sample_seed) \<noteq> []" "utf8_length (sd_markdown sample_seed) \<le> 24 * 1024"
    by code_simp+
  then show "validate_seed sample_env sample_seed empty_db = (Inr (), empty_db)"
    by (simp add: validate_seed_def act_defs) (simp add: sample_seed_def)
  show "seed_batch sample_env sample_seed empty_db = (Inr None, empty_db)"
    by (simp add: seed_batch_def act_defs empty_db_def)
qed (simp_all add: sample_config_def sample_seed_def)

end
