(* ===== verification/Scorer.thy ===== *)
theory Scorer
  imports Heads "HOL-Library.Multiset" "HOL-Library.Sublist"
begin

text \<open>
  The injection scorer (\<open>src/spine/inject/scorer.py\<close> and \<open>axes.py\<close>): the features of a candidate,
  their weighted score, and the selection of pinned, locked and regular memories under the
  token budget. Floating-point operations round through the environment, in the order and
  at the places the code computes them. A failing computation is an error value.
\<close>

section \<open>Configuration\<close>

record scorer_weights =
  w_sem :: rat
  w_kw :: rat
  w_time :: rat
  w_proj :: rat
  w_freq :: rat
  w_hist :: rat

record scorer_params =
  sp_tau :: rat
  sp_near_miss_k :: int
  sp_memory_context_share :: rat
  sp_half_life_time_days :: rat
  sp_half_life_hist_days :: rat
  sp_candidate_pool :: int
  sp_location_weight :: rat
  sp_half_life_location_hops :: rat
  sp_thread_weight :: rat
  sp_where_weight :: rat
  sp_legacy_budget_tokens :: "int option"

record scorer_config =
  cfg_version :: string
  cfg_weights :: scorer_weights
  cfg_params :: scorer_params
  cfg_bias_offsets :: "(uuid \<times> rat) list"
  cfg_project_offsets :: json
  cfg_axes :: "(string \<times> axis_nomination) list"

text \<open>\<open>ScorerParams.__post_init__\<close>, the first failing test\<close>

definition check_params :: "env \<Rightarrow> scorer_params \<Rightarrow> err + unit" where
  "check_params \<epsilon> p =
     sbind (check (\<not> (0 \<le> sp_tau p \<and> sp_tau p \<le> 1)) (ValueError ''tau must be between zero and one'')) (\<lambda>_.
     sbind (check (sp_near_miss_k p < 0) (ValueError ''near_miss_k must not be negative'')) (\<lambda>_.
     sbind (check (\<not> (fl64 \<epsilon> (1/100) \<le> sp_memory_context_share p \<and> sp_memory_context_share p \<le> 1/2))
              (ValueError ''memory_context_share must be between 0.01 and 0.50'')) (\<lambda>_.
     sbind (check (case sp_legacy_budget_tokens p of None \<Rightarrow> False | Some b \<Rightarrow> b \<le> 0)
              (ValueError ''legacy budget_tokens must be positive'')) (\<lambda>_.
     sbind (check (sp_half_life_time_days p \<le> 0 \<or> sp_half_life_hist_days p \<le> 0)
              (ValueError ''scorer half lives must be positive'')) (\<lambda>_.
     sbind (check (sp_candidate_pool p \<le> 0) (ValueError ''candidate_pool must be positive'')) (\<lambda>_.
     sbind (check (\<not> (0 \<le> sp_location_weight p \<and> sp_location_weight p < 1))
              (ValueError ''location_weight must be at least zero and less than one'')) (\<lambda>_.
     sbind (check (sp_half_life_location_hops p \<le> 0) (ValueError ''location half life must be positive'')) (\<lambda>_.
     sbind (check (\<not> (0 \<le> sp_thread_weight p \<and> sp_thread_weight p < 1))
              (ValueError ''thread_weight must be at least zero and less than one'')) (\<lambda>_.
     check (\<not> (0 \<le> sp_where_weight p \<and> sp_where_weight p < 1))
              (ValueError ''where_weight must be at least zero and less than one''))))))))))"

section \<open>Numbers in JSON\<close>

text \<open>\<open>_finite_number\<close>: a Boolean is no number, an integer becomes a double.\<close>

definition finite_number :: "env \<Rightarrow> json \<Rightarrow> string \<Rightarrow> err + rat" where
  "finite_number \<epsilon> j name = (case j of
       JInt n \<Rightarrow> Inr (fl64 \<epsilon> (of_int n))
     | JFloat x \<Rightarrow> Inr x
     | _ \<Rightarrow> Inl (ValueError name))"

definition number :: "env \<Rightarrow> dict \<Rightarrow> string \<Rightarrow> err + rat" where
  "number \<epsilon> d k = (case dget d k of None \<Rightarrow> Inl (KeyError k) | Some j \<Rightarrow> finite_number \<epsilon> j k)"

definition integer :: "dict \<Rightarrow> string \<Rightarrow> err + int" where
  "integer d k = (case dget d k of
       None \<Rightarrow> Inl (KeyError k)
     | Some (JInt n) \<Rightarrow> Inr n
     | Some _ \<Rightarrow> Inl (ValueError k))"

definition optional_number :: "env \<Rightarrow> dict \<Rightarrow> string \<Rightarrow> rat \<Rightarrow> err + rat" where
  "optional_number \<epsilon> d k v = (case dget d k of None \<Rightarrow> Inr v | Some j \<Rightarrow> finite_number \<epsilon> j k)"

section \<open>Weights of a project\<close>

definition fsum :: "env \<Rightarrow> rat list \<Rightarrow> rat" where
  "fsum \<epsilon> xs = fl64 \<epsilon> (sum_list xs)"

text \<open>The loop of \<open>project_simplex\<close> over the values in decreasing order: the last index at which the
  value stays above the running threshold.\<close>

fun simplex_rho :: "env \<Rightarrow> rat list \<Rightarrow> nat \<Rightarrow> rat \<Rightarrow> nat \<Rightarrow> nat" where
  "simplex_rho \<epsilon> [] index cumulative rho = rho"
| "simplex_rho \<epsilon> (v # vs) index cumulative rho =
     (let c = fl64 \<epsilon> (cumulative + v) in
      simplex_rho \<epsilon> vs (index + 1) c
        (if fl64 \<epsilon> (v - fl64 \<epsilon> (fl64 \<epsilon> (c - 1) / of_nat index)) > 0 then index else rho))"

definition add_to_last :: "env \<Rightarrow> rat \<Rightarrow> rat list \<Rightarrow> rat list" where
  "add_to_last \<epsilon> d xs = butlast xs @ [fl64 \<epsilon> (last xs + d)]"

definition project_simplex :: "env \<Rightarrow> rat list \<Rightarrow> err + rat list" where
  "project_simplex \<epsilon> values =
     (let ordered = rev (sort values); rho = simplex_rho \<epsilon> ordered 1 0 0 in
      if rho = 0 then
        (if values = [] then Inr [] else Inr (map (\<lambda>_. fl64 \<epsilon> (1 / of_nat (length values))) values))
      else
        let theta = fl64 \<epsilon> (fl64 \<epsilon> (fsum \<epsilon> (take rho ordered) - 1) / of_nat rho);
            projected = map (\<lambda>v. max (fl64 \<epsilon> (v - theta)) 0) values;
            total = fsum \<epsilon> projected
        in if total = 0 then Inl ZeroDivisionError
           else let normalized = map (\<lambda>v. fl64 \<epsilon> (v / total)) projected
                in Inr (add_to_last \<epsilon> (fl64 \<epsilon> (1 - fsum \<epsilon> normalized)) normalized))"

definition weight_names :: "string list" where
  "weight_names = [''sem'', ''kw'', ''time'', ''proj'', ''freq'', ''hist'']"

definition weight_values :: "scorer_weights \<Rightarrow> rat list" where
  "weight_values w = [w_sem w, w_kw w, w_time w, w_proj w, w_freq w, w_hist w]"

definition weights_of :: "rat list \<Rightarrow> scorer_weights" where
  "weights_of v = \<lparr>w_sem = v ! 0, w_kw = v ! 1, w_time = v ! 2, w_proj = v ! 3, w_freq = v ! 4, w_hist = v ! 5\<rparr>"

text \<open>Python's truth value of a JSON value, \<open>value.get(key)\<close>, and whether a value can be a member of a set.\<close>

definition json_falsy :: "json \<Rightarrow> bool" where
  "json_falsy j = (case j of JNull \<Rightarrow> True | JBool b \<Rightarrow> \<not> b | JInt n \<Rightarrow> n = 0 | JFloat x \<Rightarrow> x = 0
     | JStr s \<Rightarrow> s = [] | JList l \<Rightarrow> l = [] | JObj d \<Rightarrow> d = [])"

definition py_get :: "json \<Rightarrow> string \<Rightarrow> err + json option" where
  "py_get j k = (case j of JObj d \<Rightarrow> Inr (dget d k) | _ \<Rightarrow> Inl (AttributeError ''get''))"

definition hashable :: "json \<Rightarrow> bool" where
  "hashable j = (case j of JList _ \<Rightarrow> False | JObj _ \<Rightarrow> False | _ \<Rightarrow> True)"

text \<open>\<open>set(offsets)\<close> compared with the six names, and the entry of each name.\<close>

definition named_offsets :: "json \<Rightarrow> err + dict" where
  "named_offsets j = (case j of
       JObj d \<Rightarrow> if fst ` set d \<noteq> set weight_names
                 then Inl (ValueError ''project offsets require the six named weights'') else Inr d
     | JStr s \<Rightarrow> Inl (ValueError ''project offsets require the six named weights'')
     | JList l \<Rightarrow> if list_all hashable l \<and> set l \<noteq> JStr ` set weight_names
                  then Inl (ValueError ''project offsets require the six named weights'')
                  else Inl (TypeError ''offsets'')
     | _ \<Rightarrow> Inl (TypeError ''offsets''))"

definition weights_for_project :: "env \<Rightarrow> scorer_config \<Rightarrow> string option \<Rightarrow> err + scorer_weights" where
  "weights_for_project \<epsilon> c project = (case project of
       None \<Rightarrow> Inr (cfg_weights c)
     | Some p \<Rightarrow>
         sbind (py_get (cfg_project_offsets c) p) (\<lambda>found.
         let offsets = (case found of None \<Rightarrow> JObj [] | Some j \<Rightarrow> j) in
         if json_falsy offsets then Inr (cfg_weights c)
         else sbind (named_offsets offsets) (\<lambda>d.
              sbind (smap (\<lambda>(n, w). sbind (finite_number \<epsilon> (the (dget d n)) n) (\<lambda>x. Inr (fl64 \<epsilon> (w + x))))
                       (zip weight_names (weight_values (cfg_weights c)))) (\<lambda>values.
              sbind (check (\<bar>fl64 \<epsilon> (fsum \<epsilon> values - 1)\<bar> > fl64 \<epsilon> (1 / 10 ^ 7))
                       (ValueError ''project offsets must sum to zero'')) (\<lambda>_.
              if Min (set values) < 0
              then sbind (project_simplex \<epsilon> values) (\<lambda>ws. Inr (weights_of ws))
              else Inr (weights_of values))))))"

definition bias_offset :: "scorer_config \<Rightarrow> uuid \<Rightarrow> rat" where
  "bias_offset c i = (case map_of (cfg_bias_offsets c) i of None \<Rightarrow> 0 | Some x \<Rightarrow> x)"

section \<open>Reading a configuration\<close>

text \<open>The learner's bias offsets, keyed by parsed identifiers; a repeated identifier overwrites.\<close>

fun parse_bias_offsets :: "env \<Rightarrow> dict \<Rightarrow> (uuid \<times> rat) list \<Rightarrow> err + (uuid \<times> rat) list" where
  "parse_bias_offsets \<epsilon> [] acc = Inr acc"
| "parse_bias_offsets \<epsilon> ((k, j) # d) acc = (case uuid_of_string k of
       None \<Rightarrow> Inl (ValueError ''scorer learner bias offset key must be a UUID'')
     | Some i \<Rightarrow> sbind (finite_number \<epsilon> j ''bias offset'') (\<lambda>x. parse_bias_offsets \<epsilon> d (AList.update i x acc)))"

definition learner_offsets :: "env \<Rightarrow> dict \<Rightarrow> err + (uuid \<times> rat) list" where
  "learner_offsets \<epsilon> params = (case dget params ''_learner'' of
       None \<Rightarrow> Inr []
     | Some (JObj learner) \<Rightarrow> (case dget learner ''bias_offsets'' of
           None \<Rightarrow> Inr []
         | Some (JObj d) \<Rightarrow> parse_bias_offsets \<epsilon> d []
         | Some _ \<Rightarrow> Inl (ValueError ''scorer learner bias_offsets must be an object''))
     | Some _ \<Rightarrow> Inl (ValueError ''scorer _learner metadata must be an object''))"

definition weights_from :: "env \<Rightarrow> dict \<Rightarrow> err + scorer_weights" where
  "weights_from \<epsilon> w = sbind (smap (number \<epsilon> w) weight_names) (\<lambda>vs. Inr (weights_of vs))"

definition params_from :: "env \<Rightarrow> dict \<Rightarrow> err + scorer_params" where
  "params_from \<epsilon> p =
     (let shared = dget p ''memory_context_share'' \<noteq> None in
      sbind (number \<epsilon> p ''tau'') (\<lambda>tau.
      sbind (integer p ''near_miss_k'') (\<lambda>k.
      sbind (number \<epsilon> p (if shared then ''memory_context_share'' else ''budget_pct'')) (\<lambda>share.
      sbind (number \<epsilon> p ''half_life_time_days'') (\<lambda>ht.
      sbind (number \<epsilon> p ''half_life_hist_days'') (\<lambda>hh.
      sbind (integer p ''candidate_pool'') (\<lambda>pool.
      sbind (optional_number \<epsilon> p ''location_weight'' 0) (\<lambda>lw.
      sbind (optional_number \<epsilon> p ''half_life_location_hops'' 2) (\<lambda>hl.
      sbind (optional_number \<epsilon> p ''thread_weight'' 0) (\<lambda>tw.
      sbind (optional_number \<epsilon> p ''where_weight'' 0) (\<lambda>ww.
      sbind (if shared then Inr None else sbind (integer p ''budget_tokens'') (\<lambda>b. Inr (Some b))) (\<lambda>legacy.
      let params = \<lparr>sp_tau = tau, sp_near_miss_k = k, sp_memory_context_share = share,
            sp_half_life_time_days = ht, sp_half_life_hist_days = hh, sp_candidate_pool = pool,
            sp_location_weight = lw, sp_half_life_location_hops = hl, sp_thread_weight = tw,
            sp_where_weight = ww, sp_legacy_budget_tokens = legacy\<rparr>
      in sbind (check_params \<epsilon> params) (\<lambda>_. Inr params)))))))))))))"

definition axes_from :: "env \<Rightarrow> dict \<Rightarrow> err + (string \<times> axis_nomination) list" where
  "axes_from \<epsilon> p = (case dget p ''axes'' of
       None \<Rightarrow> Inr []
     | Some (JObj d) \<Rightarrow> smap (\<lambda>(n, j). case axis_validate \<epsilon> j of
           None \<Rightarrow> Inl (ValueError ''axis'') | Some a \<Rightarrow> Inr (n, a)) d
     | Some _ \<Rightarrow> Inl (AttributeError ''items''))"

text \<open>\<open>for project in self.project_offsets\<close>: the keys of an object, the characters of a string, and the
  members of a list, which are no projects but are looked up all the same.\<close>

definition check_projects :: "env \<Rightarrow> scorer_config \<Rightarrow> err + unit" where
  "check_projects \<epsilon> c = (case cfg_project_offsets c of
       JObj d \<Rightarrow> sbind (smap (\<lambda>(p, _). weights_for_project \<epsilon> c (Some p)) d) (\<lambda>_. Inr ())
     | JStr s \<Rightarrow> check (s \<noteq> []) (AttributeError ''get'')
     | JList l \<Rightarrow> check (\<exists>j \<in> set l. j \<noteq> JNull) (AttributeError ''get'')
     | _ \<Rightarrow> Inl (TypeError ''project_offsets''))"

text \<open>\<open>ScorerConfig.__post_init__\<close>; numbers are finite in this model.\<close>

definition check_config :: "env \<Rightarrow> scorer_config \<Rightarrow> err + unit" where
  "check_config \<epsilon> c =
     sbind (check (strip (cfg_version c) = []) (ValueError ''scorer version must not be blank'')) (\<lambda>_.
     check_projects \<epsilon> c)"

definition from_mappings :: "env \<Rightarrow> string \<Rightarrow> dict \<Rightarrow> dict \<Rightarrow> err + scorer_config" where
  "from_mappings \<epsilon> version weights params =
     sbind (learner_offsets \<epsilon> params) (\<lambda>bias.
     sbind (weights_from \<epsilon> weights) (\<lambda>ws.
     sbind (params_from \<epsilon> params) (\<lambda>ps.
     sbind (axes_from \<epsilon> params) (\<lambda>axes.
     let config = \<lparr>cfg_version = version, cfg_weights = ws, cfg_params = ps, cfg_bias_offsets = bias,
           cfg_project_offsets = (case dget params ''project_offsets'' of None \<Rightarrow> JObj [] | Some j \<Rightarrow> j),
           cfg_axes = axes\<rparr>
     in sbind (check_config \<epsilon> config) (\<lambda>_. Inr config)))))"

section \<open>Features\<close>

record scoring_candidate =
  sk_memory_id :: uuid
  sk_label :: string
  sk_body :: string
  sk_kind :: memory_kind
  sk_keywords :: "string list"
  sk_embedding :: "rat list"
  sk_project_key :: "string option"
  sk_origin_thread_id :: "uuid option"
  sk_origin_path :: "string option"
  sk_origin_location :: "string option"
  sk_pin :: bool
  sk_updated_at :: timestamp
  sk_last_human_edit_at :: "timestamp option"
  sk_stats :: dict
  sk_bias :: rat
  sk_revision :: int
  sk_pool_sources :: "string list"

record score_features =
  f_sem :: rat
  f_kw :: rat
  f_time :: rat
  f_proj :: rat
  f_freq :: rat
  f_hist :: rat
  f_loc :: "rat option"
  f_thread :: "rat option"
  f_where :: "rat option"
  f_axes :: "(string \<times> rat) list"

text \<open>The scalar part of \<open>as_dict\<close>.\<close>

definition scalar_features :: "score_features \<Rightarrow> (string \<times> rat) list" where
  "scalar_features f =
     [(''sem'', f_sem f), (''kw'', f_kw f), (''time'', f_time f), (''proj'', f_proj f),
      (''freq'', f_freq f), (''hist'', f_hist f)] @
     (case f_loc f of None \<Rightarrow> [] | Some x \<Rightarrow> [(''loc'', x)]) @
     (case f_thread f of None \<Rightarrow> [] | Some x \<Rightarrow> [(''thread'', x)]) @
     (case f_where f of None \<Rightarrow> [] | Some x \<Rightarrow> [(''where'', x)])"

definition as_dict :: "score_features \<Rightarrow> dict" where
  "as_dict f = map (\<lambda>(k, x). (k, JFloat x)) (scalar_features f) @
     (if f_axes f = [] then [] else [(''axes'', JObj (map (\<lambda>(k, x). (k, JFloat x)) (f_axes f)))])"

fun tokens_loop :: "string \<Rightarrow> string \<Rightarrow> string list" where
  "tokens_loop [] current = (if current = [] then [] else [current])"
| "tokens_loop (c # s) current =
     (if is_alnum c then tokens_loop s (current @ [c])
      else if current = [] then tokens_loop s [] else current # tokens_loop s [])"

definition tokens :: "string \<Rightarrow> string list" where
  "tokens s = tokens_loop (py_lower s) []"

definition stopwords :: "string list" where
  "stopwords = [''a'', ''an'', ''and'', ''are'', ''as'', ''at'', ''be'', ''by'', ''for'', ''from'', ''has'',
     ''he'', ''in'', ''is'', ''it'', ''its'', ''of'', ''on'', ''that'', ''the'', ''to'', ''was'', ''were'',
     ''will'', ''with'']"

text \<open>A frozen set, as a list without repetitions.\<close>

definition prompt_keywords :: "string \<Rightarrow> string list" where
  "prompt_keywords s = remdups (filter (\<lambda>t. t \<notin> set stopwords) (tokens s))"

definition validated_vector :: "env \<Rightarrow> rat list \<Rightarrow> err + rat list" where
  "validated_vector \<epsilon> v =
     sbind (check (v = []) (ValueError ''must not be empty'')) (\<lambda>_.
     sbind (check (fsum \<epsilon> (map (\<lambda>x. fl64 \<epsilon> (x * x)) v) = 0) (ValueError ''must not have zero norm'')) (\<lambda>_.
     Inr v))"

definition cosine :: "env \<Rightarrow> rat list \<Rightarrow> rat list \<Rightarrow> err + rat" where
  "cosine \<epsilon> left right =
     (let numerator = fsum \<epsilon> (map2 (\<lambda>a b. fl64 \<epsilon> (a * b)) left right);
          left_norm = sqrt64 \<epsilon> (fsum \<epsilon> (map (\<lambda>x. fl64 \<epsilon> (x * x)) left));
          right_norm = sqrt64 \<epsilon> (fsum \<epsilon> (map (\<lambda>x. fl64 \<epsilon> (x * x)) right));
          denominator = fl64 \<epsilon> (left_norm * right_norm)
      in if denominator = 0 then Inl ZeroDivisionError
         else Inr (min 1 (max (-1) (fl64 \<epsilon> (numerator / denominator)))))"

definition vector_similarity :: "env \<Rightarrow> scoring_candidate \<Rightarrow> rat list \<Rightarrow> err + rat" where
  "vector_similarity \<epsilon> k query =
     sbind (validated_vector \<epsilon> (sk_embedding k)) (\<lambda>embedding.
     sbind (check (length query \<noteq> length embedding) (ValueError ''dimensions'')) (\<lambda>_.
     cosine \<epsilon> query embedding))"

definition semantic_similarity :: "env \<Rightarrow> scoring_candidate \<Rightarrow> rat list \<Rightarrow> err + rat" where
  "semantic_similarity \<epsilon> k query = sbind (vector_similarity \<epsilon> k query) (\<lambda>x. Inr (max 0 x))"

definition decay :: "env \<Rightarrow> timestamp \<Rightarrow> timestamp \<Rightarrow> rat \<Rightarrow> rat" where
  "decay \<epsilon> snapshot event half_life =
     (let age = max 0 (fl64 \<epsilon> (fl64 \<epsilon> (of_int (snapshot - event) / 1000000) / 86400))
      in exp2 \<epsilon> (fl64 \<epsilon> (- age / half_life)))"

definition project_feature :: "string option \<Rightarrow> string option \<Rightarrow> rat" where
  "project_feature thread_project memory_project =
     (if thread_project \<noteq> None \<and> memory_project = thread_project then 1
      else if memory_project = None then 1/2 else 0)"

definition location_parts :: "string \<Rightarrow> err + string list" where
  "location_parts s =
     sbind (check (path_absolute s \<or> ''..'' \<in> set (path_parts s))
              (ValueError ''location paths must be workspace-relative'')) (\<lambda>_.
     Inr (path_components s))"

fun common_prefix :: "string list \<Rightarrow> string list \<Rightarrow> nat" where
  "common_prefix (x # xs) (y # ys) = (if x \<noteq> y then 0 else Suc (common_prefix xs ys))"
| "common_prefix _ _ = 0"

definition location_feature :: "env \<Rightarrow> string option \<Rightarrow> string option \<Rightarrow> string option \<Rightarrow> string option \<Rightarrow>
    rat \<Rightarrow> err + rat option" where
  "location_feature \<epsilon> location origin thread_project memory_project half_life =
     (case (location, origin) of
        (Some loc, Some org) \<Rightarrow>
          (case (thread_project, memory_project) of
             (Some tp, Some mp) \<Rightarrow>
               if tp \<noteq> mp then Inr (Some 0)
               else
                 let org' = (if org = mp then ''.''
                             else if startswith org (mp @ ''/'') then drop (length mp + 1) org else org) in
                 sbind (location_parts loc) (\<lambda>current.
                 sbind (location_parts org') (\<lambda>learned.
                 let hops = int (length current) + int (length learned) - 2 * int (common_prefix current learned)
                 in Inr (Some (exp2 \<epsilon> (fl64 \<epsilon> (- of_int hops / half_life))))))
           | _ \<Rightarrow> Inr None)
      | _ \<Rightarrow> Inr None)"

definition thread_feature :: "uuid option \<Rightarrow> uuid option \<Rightarrow> rat option" where
  "thread_feature thread origin = (case (thread, origin) of
       (Some t, Some u) \<Rightarrow> Some (if u = t then 1 else 0)
     | _ \<Rightarrow> None)"

definition canonical_location :: "string \<Rightarrow> bool" where
  "canonical_location s \<longleftrightarrow> path_absolute s \<and> ''..'' \<notin> set (path_parts s) \<and> path_str s = s"

definition is_relative_to :: "string list \<Rightarrow> string list \<Rightarrow> bool" where
  "is_relative_to p q \<longleftrightarrow> take (length q) p = q"

text \<open>\<open>path.parent\<close> as its parts: the root is its own parent.\<close>

definition path_parent :: "string \<Rightarrow> string list" where
  "path_parent s = (if path_components s = [] then path_parts s else butlast (path_parts s))"

definition where_feature :: "env \<Rightarrow> string option \<Rightarrow> string option \<Rightarrow> err + rat option" where
  "where_feature \<epsilon> current origin = (case (current, origin) of
       (Some c, Some g) \<Rightarrow>
         sbind (check (\<not> canonical_location c \<or> \<not> canonical_location g)
                  (ValueError ''origin locations must be canonical absolute paths'')) (\<lambda>_.
         let p = path_parts c; q = path_parts g in
         if p = q then Inr (Some 1)
         else if is_relative_to p q \<or> is_relative_to q p then
           let distance = \<bar>int (length p) - int (length q)\<bar>
           in Inr (Some (fl64 \<epsilon> (3/4 + fl64 \<epsilon> (1/4 * exp2 \<epsilon> (- of_int distance)))))
         else if path_parent c = path_parent g then Inr (Some (1/2))
         else Inr (Some 0))
     | _ \<Rightarrow> Inr None)"

definition citations :: "env \<Rightarrow> dict \<Rightarrow> err + rat" where
  "citations \<epsilon> stats =
     sbind (case dget stats ''citations'' of None \<Rightarrow> Inr 0 | Some j \<Rightarrow> finite_number \<epsilon> j ''citations'') (\<lambda>x.
     sbind (check (x < 0) (ValueError ''stats.citations must be a finite non-negative number'')) (\<lambda>_.
     Inr x))"

section \<open>Score of a candidate\<close>

text \<open>\<open>AxisNomination.value\<close>: the product of two features, when both are present.\<close>

definition axis_value :: "env \<Rightarrow> axis_nomination \<Rightarrow> (string \<times> rat) list \<Rightarrow> rat option" where
  "axis_value \<epsilon> a fs = (case (map_of fs (fst (ax_inputs a)), map_of fs (snd (ax_inputs a))) of
       (Some x, Some y) \<Rightarrow> Some (fl64 \<epsilon> (x * y))
     | _ \<Rightarrow> None)"

definition blend :: "env \<Rightarrow> rat \<Rightarrow> rat \<Rightarrow> rat \<Rightarrow> rat" where
  "blend \<epsilon> w score v = fl64 \<epsilon> (fl64 \<epsilon> (fl64 \<epsilon> (1 - w) * score) + fl64 \<epsilon> (w * v))"

definition apply_axes :: "env \<Rightarrow> rat \<Rightarrow> (string \<times> rat) list \<Rightarrow> (string \<times> axis_nomination) list \<Rightarrow> rat" where
  "apply_axes \<epsilon> score fs axes =
     foldl (\<lambda>acc (n, a). case axis_value \<epsilon> a fs of
              None \<Rightarrow> acc
            | Some v \<Rightarrow> if ax_weight a \<noteq> 0 then blend \<epsilon> (ax_weight a) acc v else acc)
       score (sort_key fst axes)"

definition linear_score :: "env \<Rightarrow> scorer_weights \<Rightarrow> score_features \<Rightarrow> rat" where
  "linear_score \<epsilon> w f = fsum \<epsilon> (map2 (\<lambda>a b. fl64 \<epsilon> (a * b)) (weight_values w)
     [f_sem f, f_kw f, f_time f, f_proj f, f_freq f, f_hist f])"

definition blend_optional :: "env \<Rightarrow> rat \<Rightarrow> rat option \<Rightarrow> rat \<Rightarrow> rat" where
  "blend_optional \<epsilon> w v score = (case v of None \<Rightarrow> score | Some x \<Rightarrow> blend \<epsilon> w score x)"

definition score_of_features :: "env \<Rightarrow> scorer_weights \<Rightarrow> scorer_params \<Rightarrow>
    (string \<times> axis_nomination) list \<Rightarrow> score_features \<Rightarrow> rat" where
  "score_of_features \<epsilon> w p axes f =
     apply_axes \<epsilon>
       (blend_optional \<epsilon> (sp_where_weight p) (f_where f)
         (blend_optional \<epsilon> (sp_thread_weight p) (f_thread f)
           (blend_optional \<epsilon> (sp_location_weight p) (f_loc f) (linear_score \<epsilon> w f))))
       (scalar_features f) axes"

text \<open>What stays fixed while one prompt is scored.\<close>

record scoring_request =
  rq_query :: "rat list"
  rq_prompt_keywords :: "string list"
  rq_snapshot_ts :: timestamp
  rq_thread_project_key :: "string option"
  rq_thread_id :: "uuid option"
  rq_location_path :: "string option"
  rq_current_location :: "string option"

record unranked =
  un_candidate :: scoring_candidate
  un_features :: score_features
  un_score :: rat
  un_token_cost :: int

definition memory_tokens :: "scoring_candidate \<Rightarrow> string set" where
  "memory_tokens k = set (tokens (sk_label k)) \<union> \<Union> (set (map (\<lambda>w. set (tokens w)) (sk_keywords k)))"

definition keyword_overlap :: "env \<Rightarrow> string list \<Rightarrow> scoring_candidate \<Rightarrow> rat" where
  "keyword_overlap \<epsilon> ks k =
     fl64 \<epsilon> (of_nat (length (filter (\<lambda>w. w \<in> memory_tokens k) ks)) / of_nat (max 1 (length ks)))"

definition features_of :: "env \<Rightarrow> scoring_request \<Rightarrow> scorer_params \<Rightarrow> scoring_candidate \<Rightarrow>
    err + score_features" where
  "features_of \<epsilon> r p k =
     sbind (semantic_similarity \<epsilon> k (rq_query r)) (\<lambda>sem.
     sbind (citations \<epsilon> (sk_stats k)) (\<lambda>cited.
     sbind (location_feature \<epsilon> (rq_location_path r) (sk_origin_path k) (rq_thread_project_key r)
              (sk_project_key k) (sp_half_life_location_hops p)) (\<lambda>loc.
     sbind (where_feature \<epsilon> (rq_current_location r) (sk_origin_location k)) (\<lambda>wh.
     Inr \<lparr>f_sem = sem, f_kw = min 1 (keyword_overlap \<epsilon> (rq_prompt_keywords r) k),
          f_time = decay \<epsilon> (rq_snapshot_ts r) (sk_updated_at k) (sp_half_life_time_days p),
          f_proj = project_feature (rq_thread_project_key r) (sk_project_key k),
          f_freq = min 1 (fl64 \<epsilon> (cited / 10)),
          f_hist = (case sk_last_human_edit_at k of None \<Rightarrow> 0
                    | Some t \<Rightarrow> decay \<epsilon> (rq_snapshot_ts r) t (sp_half_life_hist_days p)),
          f_loc = loc, f_thread = thread_feature (rq_thread_id r) (sk_origin_thread_id k),
          f_where = wh, f_axes = []\<rparr>))))"

definition with_axes :: "env \<Rightarrow> (string \<times> axis_nomination) list \<Rightarrow> score_features \<Rightarrow> score_features" where
  "with_axes \<epsilon> axes f = f\<lparr>f_axes := List.map_filter (\<lambda>(n, a).
     map_option (\<lambda>v. (n, v)) (axis_value \<epsilon> a (scalar_features f))) axes\<rparr>"

definition score_candidate :: "env \<Rightarrow> scoring_request \<Rightarrow> scorer_config \<Rightarrow> scoring_candidate \<Rightarrow> err + unranked" where
  "score_candidate \<epsilon> r c k =
     sbind (weights_for_project \<epsilon> c (rq_thread_project_key r)) (\<lambda>w.
     sbind (features_of \<epsilon> r (cfg_params c) k) (\<lambda>f.
     let score = score_of_features \<epsilon> w (cfg_params c) (cfg_axes c) f;
         biased = fl64 \<epsilon> (score + fl64 \<epsilon> (sk_bias k + bias_offset c (sk_memory_id k)))
     in Inr \<lparr>un_candidate = k, un_features = with_axes \<epsilon> (cfg_axes c) f,
             un_score = fl32 \<epsilon> biased, un_token_cost = int (token_count \<epsilon> (sk_body k))\<rparr>))"

section \<open>Selection\<close>

record scored_candidate =
  sc_candidate :: scoring_candidate
  sc_features :: score_features
  sc_score :: rat
  sc_rank :: int
  sc_token_cost :: int

record scoring_selection =
  sel_injected :: "scored_candidate list"
  sel_near_misses :: "scored_candidate list"
  sel_budget_cuts :: "scored_candidate list"
  sel_unselected :: "scored_candidate list"
  sel_regular_budget :: int
  sel_pin_token_cost :: int
  sel_regular_token_cost :: int
  sel_total_token_cost :: int
  sel_pinned_overflow_tokens :: int

definition with_rank :: "unranked \<Rightarrow> int \<Rightarrow> scored_candidate" where
  "with_rank u r = \<lparr>sc_candidate = un_candidate u, sc_features = un_features u, sc_score = un_score u,
     sc_rank = r, sc_token_cost = un_token_cost u\<rparr>"

text \<open>\<open>enumerate(pool, start)\<close>\<close>

definition ranked_from :: "int \<Rightarrow> unranked list \<Rightarrow> scored_candidate list" where
  "ranked_from start us = map2 with_rank us (map (\<lambda>i. start + int i) [0..<length us])"

definition un_id :: "unranked \<Rightarrow> uuid" where
  "un_id u = sk_memory_id (un_candidate u)"

definition by_score :: "unranked list \<Rightarrow> unranked list" where
  "by_score us = sort_key (\<lambda>u. (- un_score u, un_id u)) us"

text \<open>\<open>share.numerator * model_context_tokens // share.denominator\<close>\<close>

definition share_tokens :: "env \<Rightarrow> scorer_params \<Rightarrow> int \<Rightarrow> int" where
  "share_tokens \<epsilon> p context =
     (let share = \<lfloor>float_decimal \<epsilon> (sp_memory_context_share p) * of_int context\<rfloor> in
      case sp_legacy_budget_tokens p of None \<Rightarrow> share | Some b \<Rightarrow> min b share)"

text \<open>The greedy pass: selected, unselected and budget-cut candidates, in order.\<close>

fun budget_pass :: "rat \<Rightarrow> int \<Rightarrow> scored_candidate list \<Rightarrow>
    scored_candidate list \<times> scored_candidate list \<times> scored_candidate list" where
  "budget_pass tau remaining [] = ([], [], [])"
| "budget_pass tau remaining (x # xs) =
     (let cut = (sc_score x \<ge> tau \<and> sc_token_cost x > remaining);
          selectable = (sc_score x \<ge> tau \<and> sc_token_cost x \<le> remaining) in
      if selectable then
        (case budget_pass tau (remaining - sc_token_cost x) xs of (sel, un, cuts) \<Rightarrow> (x # sel, un, cuts))
      else
        (case budget_pass tau remaining xs of (sel, un, cuts) \<Rightarrow>
           (sel, x # un, if cut then x # cuts else cuts)))"

definition validate_partition :: "scoring_candidate list \<Rightarrow> scoring_candidate list \<Rightarrow> err + unit" where
  "validate_partition pins regular =
     sbind (check (\<exists>k \<in> set pins. \<not> sk_pin k) (ValueError ''every pinned candidate must have pin=true'')) (\<lambda>_.
     sbind (check (\<exists>k \<in> set regular. sk_pin k) (ValueError ''regular candidates must have pin=false'')) (\<lambda>_.
     check (\<not> distinct (map sk_memory_id (pins @ regular))) (ValueError ''candidate memory IDs must be unique'')))"

definition token_sum :: "scored_candidate list \<Rightarrow> int" where
  "token_sum xs = sum_list (map sc_token_cost xs)"

text \<open>From the scored pools to the selection.\<close>

definition select_scored :: "scorer_params \<Rightarrow> int \<Rightarrow> unranked list \<Rightarrow> unranked list \<Rightarrow> unranked list \<Rightarrow>
    scoring_selection" where
  "select_scored p share pins locked regular =
     (let ranked_pins = ranked_from 1 (sort_key un_id pins);
          ranked_locked = ranked_from (int (length ranked_pins) + 1) (by_score locked);
          ranked_regular = ranked_from (int (length ranked_pins) + int (length ranked_locked) + 1) (by_score regular);
          pin_cost = token_sum ranked_pins;
          locked_cost = token_sum ranked_locked
      in case budget_pass (sp_tau p) (max 0 (share - locked_cost)) ranked_regular of (sel, un, cuts) \<Rightarrow>
           let regular_cost = locked_cost + token_sum sel; total = pin_cost + regular_cost in
           \<lparr>sel_injected = ranked_pins @ ranked_locked @ sel,
            sel_near_misses = slice_to (sp_near_miss_k p) un,
            sel_budget_cuts = cuts, sel_unselected = un, sel_regular_budget = share,
            sel_pin_token_cost = pin_cost, sel_regular_token_cost = regular_cost,
            sel_total_token_cost = total,
            sel_pinned_overflow_tokens = min pin_cost (max 0 (total - share))\<rparr>)"

definition score_and_select :: "env \<Rightarrow> scorer_config \<Rightarrow> string \<Rightarrow> rat list \<Rightarrow> timestamp \<Rightarrow> string option \<Rightarrow>
    uuid option \<Rightarrow> string option \<Rightarrow> string option \<Rightarrow> scoring_candidate list \<Rightarrow> scoring_candidate list \<Rightarrow>
    uuid list \<Rightarrow> int \<Rightarrow> err + scoring_selection" where
  "score_and_select \<epsilon> c prompt query snapshot project thread location current pins regular locked context =
     sbind (check (context \<le> 0) (ValueError ''model_context_tokens must be positive'')) (\<lambda>_.
     sbind (validated_vector \<epsilon> query) (\<lambda>query.
     sbind (validate_partition pins regular) (\<lambda>_.
     let r = \<lparr>rq_query = query, rq_prompt_keywords = prompt_keywords prompt, rq_snapshot_ts = snapshot,
              rq_thread_project_key = project, rq_thread_id = thread, rq_location_path = location,
              rq_current_location = current\<rparr> in
     sbind (smap (score_candidate \<epsilon> r c) pins) (\<lambda>pin_scores.
     let locked_ids = filter (\<lambda>i. i \<notin> un_id ` set pin_scores) (remdups locked) in
     sbind (smap (score_candidate \<epsilon> r c) regular) (\<lambda>pool.
     let locked_pool = filter (\<lambda>u. un_id u \<in> set locked_ids) pool;
         regular_pool = filter (\<lambda>u. un_id u \<notin> set locked_ids) pool in
     sbind (check (length locked_pool \<noteq> length locked_ids)
              (ValueError ''every locked memory must be an eligible candidate'')) (\<lambda>_.
     Inr (select_scored (cfg_params c) (share_tokens \<epsilon> (cfg_params c) context)
            pin_scores locked_pool regular_pool)))))))"

section \<open>The greedy pass\<close>

lemma budget_pass_append:
  "budget_pass tau b (xs @ ys) =
     (case budget_pass tau b xs of (s1, u1, c1) \<Rightarrow>
        case budget_pass tau (b - token_sum s1) ys of (s2, u2, c2) \<Rightarrow> (s1 @ s2, u1 @ u2, c1 @ c2))"
proof (induction xs arbitrary: b)
  case Nil
  then show ?case by (simp add: token_sum_def split: prod.splits)
next
  case (Cons x xs)
  then show ?case
    by (auto simp: Let_def token_sum_def algebra_simps split: prod.splits)
qed

definition pass_ok :: "rat \<Rightarrow> int \<Rightarrow> scored_candidate list \<Rightarrow>
    scored_candidate list \<times> scored_candidate list \<times> scored_candidate list \<Rightarrow> bool" where
  "pass_ok tau b xs r = (case r of (sel, un, cuts) \<Rightarrow>
     mset sel + mset un = mset xs \<and> subseq sel xs \<and> subseq un xs \<and>
     cuts = filter (\<lambda>x. tau \<le> sc_score x) un \<and> token_sum sel \<le> b \<and>
     (\<forall>x \<in> set sel. tau \<le> sc_score x))"

lemma budget_pass_ok:
  assumes "\<forall>x \<in> set xs. 0 \<le> sc_token_cost x" "0 \<le> b"
  shows "pass_ok tau b xs (budget_pass tau b xs)"
  using assms
proof (induction xs arbitrary: b)
  case Nil
  then show ?case by (simp add: pass_ok_def token_sum_def)
next
  case (Cons x xs)
  show ?case
  proof (cases "tau \<le> sc_score x \<and> sc_token_cost x \<le> b")
    case True
    with Cons.IH [of "b - sc_token_cost x"] Cons.prems show ?thesis
      by (auto simp: pass_ok_def token_sum_def Let_def split: prod.splits)
  next
    case False
    with Cons.IH [of b] Cons.prems show ?thesis
      by (auto simp: pass_ok_def token_sum_def Let_def split: prod.splits)
  qed
qed

lemma pass_ok_sets: "pass_ok tau b xs (sel, un, cuts) \<Longrightarrow> set sel \<union> set un = set xs"
proof -
  assume "pass_ok tau b xs (sel, un, cuts)"
  then have "set_mset (mset sel + mset un) = set_mset (mset xs)" by (simp add: pass_ok_def)
  then show ?thesis by simp
qed

lemma budget_pass_head:
  assumes "budget_pass tau b (x # zs) = (sel, un, cuts)" "x \<notin> set zs"
    "\<forall>x \<in> set (x # zs). 0 \<le> sc_token_cost x" "0 \<le> b"
  shows "x \<in> set sel \<longleftrightarrow> tau \<le> sc_score x \<and> sc_token_cost x \<le> b"
proof (cases "tau \<le> sc_score x \<and> sc_token_cost x \<le> b")
  case True
  with assms(1) show ?thesis by (auto simp: Let_def split: prod.splits)
next
  case False
  obtain s1 u1 c1 where r: "budget_pass tau b zs = (s1, u1, c1)" by (cases "budget_pass tau b zs") auto
  have "pass_ok tau b zs (s1, u1, c1)" using budget_pass_ok [of zs b tau] assms(3,4) r by simp
  then have "x \<notin> set s1" using assms(2) pass_ok_sets by blast
  with False assms(1) r show ?thesis by (auto simp: Let_def)
qed

lemma budget_pass_at:
  assumes run: "budget_pass tau b (ys @ x # zs) = (sel, un, cuts)" and dist: "distinct (ys @ x # zs)"
    and costs: "\<forall>x \<in> set (ys @ x # zs). 0 \<le> sc_token_cost x" and "0 \<le> b"
  shows "x \<in> set sel \<longleftrightarrow> tau \<le> sc_score x \<and>
     sc_token_cost x \<le> b - token_sum (filter (\<lambda>y. y \<in> set ys) sel)"
proof -
  obtain s1 u1 c1 where 1: "budget_pass tau b ys = (s1, u1, c1)" by (cases "budget_pass tau b ys") auto
  have ok1: "pass_ok tau b ys (s1, u1, c1)" using budget_pass_ok [of ys b tau] costs assms(4) 1 by simp
  then have b1: "0 \<le> b - token_sum s1" and s1: "set s1 \<subseteq> set ys"
    using pass_ok_sets [OF ok1] by (auto simp: pass_ok_def)
  obtain s2 u2 c2 where 2: "budget_pass tau (b - token_sum s1) (x # zs) = (s2, u2, c2)"
    by (cases "budget_pass tau (b - token_sum s1) (x # zs)") auto
  have "pass_ok tau (b - token_sum s1) (x # zs) (s2, u2, c2)"
    using budget_pass_ok [of "x # zs" "b - token_sum s1" tau] costs b1 2 by simp
  then have s2: "set s2 \<subseteq> set (x # zs)" using pass_ok_sets by blast
  have sel: "sel = s1 @ s2" using run by (simp add: budget_pass_append 1 2 del: budget_pass.simps)
  have "filter (\<lambda>y. y \<in> set ys) sel = s1"
  proof -
    have "filter (\<lambda>y. y \<in> set ys) s1 = s1" using s1 by (intro filter_True) auto
    moreover have "filter (\<lambda>y. y \<in> set ys) s2 = []" using s2 dist by (intro filter_False) auto
    ultimately show ?thesis by (simp add: sel)
  qed
  moreover have "x \<in> set sel \<longleftrightarrow> x \<in> set s2" using s1 dist by (auto simp: sel)
  moreover have "x \<in> set s2 \<longleftrightarrow> tau \<le> sc_score x \<and> sc_token_cost x \<le> b - token_sum s1"
    using budget_pass_head [OF 2 _ _ b1] dist costs by simp
  ultimately show ?thesis by simp
qed

section \<open>Ranks\<close>

lemma length_ranked_from [simp]: "length (ranked_from r us) = length us"
  by (simp add: ranked_from_def)

lemma map_ranked_from:
  assumes "\<And>u i. f (with_rank u i) = g u"
  shows "map f (ranked_from r us) = map g us"
  by (rule nth_equalityI) (simp_all add: ranked_from_def assms)

lemma ranked_from_simps [simp]:
  "map sc_candidate (ranked_from r us) = map un_candidate us"
  "map sc_token_cost (ranked_from r us) = map un_token_cost us"
  "map sc_score (ranked_from r us) = map un_score us"
  by (rule map_ranked_from, simp add: with_rank_def)+

lemma ranks_from: "map sc_rank (ranked_from r us) = map (\<lambda>i. r + int i) [0..<length us]"
  by (rule nth_equalityI) (simp_all add: ranked_from_def with_rank_def)

lemma ranked_from_sorted: "sorted_wrt (<) (map sc_rank (ranked_from r us))"
  by (simp add: ranks_from sorted_wrt_map sorted_wrt_upt)

lemma ranked_from_distinct: "distinct (ranked_from r us)"
proof -
  have "distinct (map sc_rank (ranked_from r us))"
    using ranked_from_sorted strict_sorted_iff by blast
  then show ?thesis by (simp add: distinct_map)
qed

lemma rank_bounds: "x \<in> set (ranked_from r us) \<Longrightarrow> r \<le> sc_rank x \<and> sc_rank x < r + int (length us)"
proof -
  assume "x \<in> set (ranked_from r us)"
  then have "sc_rank x \<in> set (map sc_rank (ranked_from r us))" by simp
  then show ?thesis by (auto simp: ranks_from)
qed

lemma before_iff_rank:
  assumes "ranked_from r us = ys @ x # zs" "y \<in> set (ranked_from r us)"
  shows "y \<in> set ys \<longleftrightarrow> sc_rank y < sc_rank x"
proof -
  have "sorted_wrt (<) (map sc_rank (ys @ x # zs))"
    using ranked_from_sorted [of r us] assms(1) by simp
  with assms(2) show ?thesis unfolding assms(1)
    by (auto simp: sorted_wrt_append)
qed

section \<open>The selection\<close>

abbreviation sc_id :: "scored_candidate \<Rightarrow> uuid" where
  "sc_id x \<equiv> sk_memory_id (sc_candidate x)"

lemma map_sc_id [simp]: "map sc_id (ranked_from r us) = map un_id us"
  by (rule map_ranked_from) (simp add: with_rank_def un_id_def)

lemma mset_map_by_score: "mset (map f (by_score us)) = mset (map f us)"
  by (simp add: by_score_def)

lemma select_scored_run:
  assumes S: "S = select_scored p share pins locked regular"
    and pos: "\<forall>u \<in> set pins \<union> set locked \<union> set regular. 0 \<le> un_token_cost u"
  obtains rp rl rr sel un cuts where
    "rp = ranked_from 1 (sort_key un_id pins)"
    "rl = ranked_from (int (length pins) + 1) (by_score locked)"
    "rr = ranked_from (int (length pins) + int (length locked) + 1) (by_score regular)"
    "budget_pass (sp_tau p) (max 0 (share - token_sum rl)) rr = (sel, un, cuts)"
    "pass_ok (sp_tau p) (max 0 (share - token_sum rl)) rr (sel, un, cuts)"
    "\<forall>x \<in> set rr. 0 \<le> sc_token_cost x"
    "sel_injected S = rp @ rl @ sel" "sel_unselected S = un" "sel_budget_cuts S = cuts"
    "sel_near_misses S = slice_to (sp_near_miss_k p) un"
    "sel_regular_budget S = share" "sel_pin_token_cost S = token_sum rp"
    "sel_regular_token_cost S = token_sum rl + token_sum sel"
    "sel_total_token_cost S = token_sum rp + (token_sum rl + token_sum sel)"
    "sel_pinned_overflow_tokens S = min (token_sum rp)
       (max 0 (token_sum rp + (token_sum rl + token_sum sel) - share))"
proof -
  let ?rl = "ranked_from (int (length pins) + 1) (by_score locked)"
  let ?rr = "ranked_from (int (length pins) + int (length locked) + 1) (by_score regular)"
  let ?b = "max 0 (share - token_sum ?rl)"
  obtain sel un cuts where r: "budget_pass (sp_tau p) ?b ?rr = (sel, un, cuts)"
    by (cases "budget_pass (sp_tau p) ?b ?rr") auto
  have costs: "\<forall>x \<in> set ?rr. 0 \<le> sc_token_cost x"
  proof
    fix x assume "x \<in> set ?rr"
    then have "sc_token_cost x \<in> set (map sc_token_cost ?rr)" by (simp only: set_map) (rule imageI)
    then show "0 \<le> sc_token_cost x"
      unfolding ranked_from_simps using pos by (auto simp: by_score_def)
  qed
  then have "pass_ok (sp_tau p) ?b ?rr (sel, un, cuts)"
    using budget_pass_ok [of ?rr ?b "sp_tau p"] r by simp
  moreover have lens: "length (by_score locked) = length locked" "length (sort_key un_id pins) = length pins"
    by (simp_all add: by_score_def)
  ultimately show ?thesis
    using r costs by (intro that) (auto simp: S select_scored_def Let_def lens)
qed

lemma score_and_select_run:
  assumes "score_and_select \<epsilon> c prompt query snapshot project thread location current pins regular locked context = Inr S"
  obtains ps pool L where
    "map un_candidate ps = pins" "map un_candidate pool = regular"
    "\<forall>u \<in> set ps \<union> set pool. 0 \<le> un_token_cost u"
    "\<forall>u \<in> set ps \<union> set pool. un_token_cost u = int (token_count \<epsilon> (sk_body (un_candidate u)))"
    "distinct (map sk_memory_id (pins @ regular))" "\<forall>k \<in> set pins. sk_pin k" "\<forall>k \<in> set regular. \<not> sk_pin k"
    "L = set locked - sk_memory_id ` set pins" "L \<subseteq> sk_memory_id ` set regular"
    "S = select_scored (cfg_params c) (share_tokens \<epsilon> (cfg_params c) context) ps
       (filter (\<lambda>u. un_id u \<in> L) pool) (filter (\<lambda>u. un_id u \<notin> L) pool)"
proof -
  have cand: "map un_candidate us = ks \<and> (\<forall>u \<in> set us. un_token_cost u = int (token_count \<epsilon> (sk_body (un_candidate u))))"
    if "smap (score_candidate \<epsilon> r c) ks = Inr us" for r ks us
    using that unfolding smap_Inr
    by (induction rule: list_all2_induct) (auto simp: score_candidate_def Let_def)
  let ?r = "\<lparr>rq_query = query, rq_prompt_keywords = prompt_keywords prompt, rq_snapshot_ts = snapshot,
              rq_thread_project_key = project, rq_thread_id = thread, rq_location_path = location,
              rq_current_location = current\<rparr>"
  from assms obtain ps pool where
    ps: "smap (score_candidate \<epsilon> ?r c) pins = Inr ps" and pool: "smap (score_candidate \<epsilon> ?r c) regular = Inr pool"
    and dist: "distinct (map sk_memory_id (pins @ regular))"
    and pin: "\<forall>k \<in> set pins. sk_pin k" "\<forall>k \<in> set regular. \<not> sk_pin k"
    and len: "length (filter (\<lambda>u. un_id u \<in> set (filter (\<lambda>i. i \<notin> un_id ` set ps) (remdups locked))) pool) =
       length (filter (\<lambda>i. i \<notin> un_id ` set ps) (remdups locked))"
    and S: "S = select_scored (cfg_params c) (share_tokens \<epsilon> (cfg_params c) context) ps
       (filter (\<lambda>u. un_id u \<in> set (filter (\<lambda>i. i \<notin> un_id ` set ps) (remdups locked))) pool)
       (filter (\<lambda>u. un_id u \<notin> set (filter (\<lambda>i. i \<notin> un_id ` set ps) (remdups locked))) pool)"
    unfolding score_and_select_def validate_partition_def validated_vector_def Let_def sbind_Inr check_Inr
      sum.inject by blast
  let ?L = "set (filter (\<lambda>i. i \<notin> un_id ` set ps) (remdups locked))"
  from cand [OF ps] cand [OF pool] have m: "map un_candidate ps = pins" "map un_candidate pool = regular" by auto
  then have ids: "un_id ` set ps = sk_memory_id ` set pins" "map un_id pool = map sk_memory_id regular"
    by (auto simp: un_id_def)
  let ?lk = "filter (\<lambda>u. un_id u \<in> ?L) pool"
  have "distinct (map un_id pool)" using dist unfolding ids(2) by simp
  then have "distinct (map un_id ?lk)" by (rule distinct_map_filter)
  then have "card (set (map un_id ?lk)) = length ?lk" using distinct_card by fastforce
  also have "\<dots> = card ?L" unfolding len by (rule distinct_card [symmetric]) simp
  finally have "card (un_id ` set ?lk) = card ?L" unfolding set_map .
  then have "un_id ` set (filter (\<lambda>u. un_id u \<in> ?L) pool) = ?L"
    by (intro card_subset_eq) auto
  then have "?L \<subseteq> un_id ` set pool" by auto
  also have "un_id ` set pool = sk_memory_id ` set regular" using arg_cong [OF ids(2), of set] by simp
  finally have "?L \<subseteq> sk_memory_id ` set regular" .
  moreover have "?L = set locked - sk_memory_id ` set pins" using ids(1) by auto
  ultimately show ?thesis
    using that [OF m _ _ dist pin _ _ S] cand [OF ps] cand [OF pool] by (simp add: ball_Un)
qed

lemma pass_mset:
  "pass_ok tau b rr (sel, un, cuts) \<Longrightarrow> mset (map f sel) + mset (map f un) = mset (map f rr)"
  unfolding pass_ok_def by (auto simp flip: image_mset_union)

lemma subseq_ranks: "subseq xs (ranked_from r us) \<Longrightarrow> sorted_wrt (<) (map sc_rank xs)"
proof -
  have "subseq xs ys \<Longrightarrow> sorted_wrt (<) (map sc_rank ys) \<Longrightarrow> sorted_wrt (<) (map sc_rank xs)"
    for xs ys :: "scored_candidate list"
  proof (induction rule: list_emb.induct)
    case (list_emb_Cons2 x y xs ys)
    then have "set xs \<subseteq> set ys" by (auto dest: list_emb_set)
    with list_emb_Cons2 show ?case by auto
  qed auto
  with ranked_from_sorted show "subseq xs (ranked_from r us) \<Longrightarrow> ?thesis" by blast
qed

lemma upt_split_ranks:
  "mset (map (\<lambda>i. (1::int) + int i) [0..<a]) + (mset (map (\<lambda>i. int a + 1 + int i) [0..<b]) +
     mset (map (\<lambda>i. int a + int b + 1 + int i) [0..<d])) = mset (map int [1..<Suc (a + b + d)])"
proof -
  have shift: "map (\<lambda>i. int k + 1 + int i) [0..<m] = map int [Suc k..<Suc (k + m)]" for k m
    by (rule nth_equalityI) (auto simp del: upt_Suc)
  have "[1..<Suc a + b + d] = [1..<Suc a + b] @ [Suc a + b..<Suc a + b + d]"
    "[1..<Suc a + b] = [1..<Suc a] @ [Suc a..<Suc a + b]"
    by (rule upt_add_eq_append, simp)+
  then have "[1..<Suc (a + b + d)] = [1..<Suc a] @ [Suc a..<Suc (a + b)] @ [Suc (a + b)..<Suc (a + b + d)]"
    by simp
  then show ?thesis
    using shift [of 0 a] shift [of a b] shift [of "a + b" d] by simp
qed

text \<open>The same facts about the pools that scoring produced.\<close>

lemma select_scored_partition:
  assumes S: "S = select_scored p share pins locked regular"
    and pos: "\<forall>u \<in> set pins \<union> set locked \<union> set regular. 0 \<le> un_token_cost u"
  shows "mset (map sc_candidate (sel_injected S @ sel_unselected S)) = mset (map un_candidate (pins @ locked @ regular))"
    "mset (map sc_rank (sel_injected S @ sel_unselected S)) =
       mset (map int [1..<Suc (length pins + length locked + length regular)])"
    "sorted_wrt (<) (map sc_rank (sel_injected S))" "sorted_wrt (<) (map sc_rank (sel_unselected S))"
    "un_candidate ` (set pins \<union> set locked) \<subseteq> sc_candidate ` set (sel_injected S)"
    "sel_budget_cuts S = filter (\<lambda>x. sp_tau p \<le> sc_score x) (sel_unselected S)"
    "sel_near_misses S = slice_to (sp_near_miss_k p) (sel_unselected S)"
proof -
  from S pos obtain rp rl rr sel un cuts where
    rp: "rp = ranked_from 1 (sort_key un_id pins)"
    and rl: "rl = ranked_from (int (length pins) + 1) (by_score locked)"
    and rr: "rr = ranked_from (int (length pins) + int (length locked) + 1) (by_score regular)"
    and ok: "pass_ok (sp_tau p) (max 0 (share - token_sum rl)) rr (sel, un, cuts)"
    and inj: "sel_injected S = rp @ rl @ sel" and un: "sel_unselected S = un" and cut: "sel_budget_cuts S = cuts"
    and near: "sel_near_misses S = slice_to (sp_near_miss_k p) un"
    by (rule select_scored_run)
  have lens: "length (by_score us) = length us" for us by (simp add: by_score_def)
  have all: "mset (map f (sel_injected S @ sel_unselected S)) = mset (map f rp) + (mset (map f rl) + mset (map f rr))"
    for f :: "scored_candidate \<Rightarrow> 'z"
    using pass_mset [OF ok, of f] by (simp add: inj un add_ac)
  show "mset (map sc_candidate (sel_injected S @ sel_unselected S)) = mset (map un_candidate (pins @ locked @ regular))"
    unfolding all rp rl rr ranked_from_simps mset_map_by_score by simp
  show "mset (map sc_rank (sel_injected S @ sel_unselected S)) =
       mset (map int [1..<Suc (length pins + length locked + length regular)])"
    unfolding all rp rl rr ranks_from lens length_sort by (rule upt_split_ranks)
  show "sel_budget_cuts S = filter (\<lambda>x. sp_tau p \<le> sc_score x) (sel_unselected S)"
    using ok by (simp add: cut un pass_ok_def)
  show "sel_near_misses S = slice_to (sp_near_miss_k p) (sel_unselected S)" by (simp add: near un)
  show "sorted_wrt (<) (map sc_rank (sel_unselected S))"
    unfolding un using ok by (auto simp: pass_ok_def rr intro: subseq_ranks)
  have sel: "sorted_wrt (<) (map sc_rank sel)" "set sel \<subseteq> set rr"
    using ok pass_ok_sets [OF ok] by (auto simp: pass_ok_def rr intro: subseq_ranks)
  have bounds: "\<And>x. x \<in> set rp \<Longrightarrow> sc_rank x < 1 + int (length pins)"
    "\<And>x. x \<in> set rl \<Longrightarrow> int (length pins) + 1 \<le> sc_rank x \<and> sc_rank x < int (length pins) + 1 + int (length locked)"
    "\<And>x. x \<in> set sel \<Longrightarrow> int (length pins) + int (length locked) + 1 \<le> sc_rank x"
    using sel(2) by (auto simp: rp rl rr lens dest: rank_bounds subsetD)
  then have "\<forall>x \<in> set rp. \<forall>y \<in> set (rl @ sel). sc_rank x < sc_rank y" "\<forall>x \<in> set rl. \<forall>y \<in> set sel. sc_rank x < sc_rank y"
    by fastforce+
  then show "sorted_wrt (<) (map sc_rank (sel_injected S))"
    unfolding inj map_append sorted_wrt_append
    using sel(1) ranked_from_sorted by (auto simp: rp rl)
  have "un_candidate ` set pins = sc_candidate ` set rp" "un_candidate ` set locked = sc_candidate ` set rl"
    by (simp_all flip: set_map add: rp rl) (simp_all add: by_score_def)
  then show "un_candidate ` (set pins \<union> set locked) \<subseteq> sc_candidate ` set (sel_injected S)"
    by (auto simp: inj)
qed

lemma selection_all:
  assumes "score_and_select \<epsilon> c prompt query snapshot project thread location current pins regular locked context = Inr S"
  shows "mset (map sc_candidate (sel_injected S @ sel_unselected S)) = mset (pins @ regular)"
proof -
  from assms obtain ps pool L where
    cands: "map un_candidate ps = pins" "map un_candidate pool = regular"
    and costs: "\<forall>u \<in> set ps \<union> set pool. 0 \<le> un_token_cost u"
    and S: "S = select_scored (cfg_params c) (share_tokens \<epsilon> (cfg_params c) context) ps
       (filter (\<lambda>u. un_id u \<in> L) pool) (filter (\<lambda>u. un_id u \<notin> L) pool)"
    by (rule score_and_select_run)
  let ?lk = "filter (\<lambda>u. un_id u \<in> L) pool" and ?rg = "filter (\<lambda>u. un_id u \<notin> L) pool"
  have "\<forall>u \<in> set ps \<union> set ?lk \<union> set ?rg. 0 \<le> un_token_cost u" using costs by auto
  note part = select_scored_partition(1) [OF S this]
  have "mset ?lk + mset ?rg = mset pool" by (simp add: multiset_partition [symmetric])
  then have "mset (map un_candidate (ps @ ?lk @ ?rg)) = mset (map un_candidate (ps @ pool))"
    by (simp flip: image_mset_union)
  then show ?thesis using part cands by simp
qed

lemma selection_distinct:
  assumes "score_and_select \<epsilon> c prompt query snapshot project thread location current pins regular locked context = Inr S"
  shows "distinct (map sc_id (sel_injected S @ sel_unselected S))"
proof -
  from assms have "distinct (map sk_memory_id (pins @ regular))" by (rule score_and_select_run)
  then show ?thesis
    using mset_eq_imp_distinct_iff [of "map sc_id (sel_injected S @ sel_unselected S)" "map sk_memory_id (pins @ regular)"]
      arg_cong [OF selection_all [OF assms], of "image_mset sk_memory_id"]
    by (simp add: multiset.map_comp comp_def)
qed

lemma selection_parts:
  assumes "score_and_select \<epsilon> c prompt query snapshot project thread location current pins regular locked context = Inr S"
  shows "\<exists>n. sel_near_misses S = take n (sel_unselected S)"
    "sel_budget_cuts S = filter (\<lambda>x. sp_tau (cfg_params c) \<le> sc_score x) (sel_unselected S)"
    "set pins \<subseteq> sc_candidate ` set (sel_injected S)"
    "\<forall>k \<in> set regular. sk_memory_id k \<in> set locked \<longrightarrow> k \<in> sc_candidate ` set (sel_injected S)"
proof -
  from assms obtain ps pool L where
    cands: "map un_candidate ps = pins" "map un_candidate pool = regular"
    and costs: "\<forall>u \<in> set ps \<union> set pool. 0 \<le> un_token_cost u"
    and dist: "distinct (map sk_memory_id (pins @ regular))"
    and L: "L = set locked - sk_memory_id ` set pins"
    and S: "S = select_scored (cfg_params c) (share_tokens \<epsilon> (cfg_params c) context) ps
       (filter (\<lambda>u. un_id u \<in> L) pool) (filter (\<lambda>u. un_id u \<notin> L) pool)"
    by (rule score_and_select_run)
  let ?lk = "filter (\<lambda>u. un_id u \<in> L) pool" and ?rg = "filter (\<lambda>u. un_id u \<notin> L) pool"
  have "\<forall>u \<in> set ps \<union> set ?lk \<union> set ?rg. 0 \<le> un_token_cost u" using costs by auto
  note part = select_scored_partition [OF S this]
  show "\<exists>n. sel_near_misses S = take n (sel_unselected S)" unfolding part(7) by (auto simp: slice_to_def)
  show "sel_budget_cuts S = filter (\<lambda>x. sp_tau (cfg_params c) \<le> sc_score x) (sel_unselected S)" by (rule part(6))
  show "set pins \<subseteq> sc_candidate ` set (sel_injected S)"
    using part(5) by (auto simp flip: cands(1))
  show "\<forall>k \<in> set regular. sk_memory_id k \<in> set locked \<longrightarrow> k \<in> sc_candidate ` set (sel_injected S)"
  proof (intro ballI impI)
    fix k assume k: "k \<in> set regular" "sk_memory_id k \<in> set locked"
    then obtain u where u: "u \<in> set pool" "un_candidate u = k" using cands(2) by auto
    have "sk_memory_id k \<notin> sk_memory_id ` set pins" using dist k by auto
    with k u have "u \<in> set ?lk" by (simp add: L un_id_def)
    with part(5) u show "k \<in> sc_candidate ` set (sel_injected S)" by blast
  qed
qed

lemma selection_candidates:
  assumes "score_and_select \<epsilon> c prompt query snapshot project thread location current pins regular locked context = Inr S"
    "i \<in> set (sel_injected S @ sel_unselected S)"
  shows "sc_candidate i \<in> set pins \<union> set regular"
  using arg_cong [OF selection_all [OF assms(1)], of set_mset] assms(2) by auto

text \<open>A selection loses and invents nothing: injected and unselected cards together are exactly the
  given candidates, ranked \<open>1, 2, \<dots>\<close> without gap or repetition and listed by increasing rank;
  every pinned and every locked memory is injected; the budget cuts are the unselected cards that
  reach the threshold, and near misses are the first unselected ones.\<close>

theorem selection_partition:
  assumes "score_and_select \<epsilon> c prompt query snapshot project thread location current pins regular locked context = Inr S"
  shows "mset (map sc_candidate (sel_injected S @ sel_unselected S)) = mset (pins @ regular) \<and>
     mset (map sc_rank (sel_injected S @ sel_unselected S)) = mset (map int [1..<Suc (length (pins @ regular))]) \<and>
     sorted_wrt (<) (map sc_rank (sel_injected S)) \<and> sorted_wrt (<) (map sc_rank (sel_unselected S)) \<and>
     set pins \<subseteq> sc_candidate ` set (sel_injected S) \<and>
     (\<forall>k \<in> set regular. sk_memory_id k \<in> set locked \<longrightarrow> k \<in> sc_candidate ` set (sel_injected S)) \<and>
     sel_budget_cuts S = filter (\<lambda>x. sp_tau (cfg_params c) \<le> sc_score x) (sel_unselected S) \<and>
     sel_near_misses S = slice_to (sp_near_miss_k (cfg_params c)) (sel_unselected S)"
proof -
  from assms obtain ps pool L where
    cands: "map un_candidate ps = pins" "map un_candidate pool = regular"
    and costs: "\<forall>u \<in> set ps \<union> set pool. 0 \<le> un_token_cost u"
    and S: "S = select_scored (cfg_params c) (share_tokens \<epsilon> (cfg_params c) context) ps
       (filter (\<lambda>u. un_id u \<in> L) pool) (filter (\<lambda>u. un_id u \<notin> L) pool)"
    by (rule score_and_select_run)
  let ?lk = "filter (\<lambda>u. un_id u \<in> L) pool" and ?rg = "filter (\<lambda>u. un_id u \<notin> L) pool"
  have "\<forall>u \<in> set ps \<union> set ?lk \<union> set ?rg. 0 \<le> un_token_cost u" using costs by auto
  note part = select_scored_partition [OF S this]
  have pool: "mset ?lk + mset ?rg = mset pool" by (simp add: multiset_partition [symmetric])
  then have len: "length ps = length pins" "length ?lk + length ?rg = length regular"
    using cands by (auto simp flip: size_mset size_union)
  have "mset (map sc_rank (sel_injected S @ sel_unselected S)) = mset (map int [1..<Suc (length (pins @ regular))])"
    using part(2) len by (simp add: add.assoc del: upt_Suc)
  then show ?thesis using selection_all [OF assms] selection_parts(2-4) [OF assms] part(3,4,7) by simp
qed

lemma sum_list_sort_key: "sum_list (map f (sort_key g xs)) = sum_list (map f xs)"
  for f :: "'a \<Rightarrow> int"
  by (metis mset_map mset_sort sum_mset_sum_list)

text \<open>C8: Token accounting: the regular cards injected beyond the locked ones fit into what the share of
  the model's context leaves after the locked cards, so injected regular cards stay within the
  share whenever the locked ones do; the total is pinned plus regular cost and is the cost of
  what is injected, and the reported overflow is what exceeds the share, capped by the pinned cost.\<close>

theorem selection_budget:
  assumes "score_and_select \<epsilon> c prompt query snapshot project thread location current pins regular locked context = Inr S"
    and "locked_cost = (\<Sum>k \<leftarrow> filter (\<lambda>k. sk_memory_id k \<in> set locked) regular. int (token_count \<epsilon> (sk_body k)))"
    and "share = share_tokens \<epsilon> (cfg_params c) context"
  shows "sel_regular_budget S = share \<and>
     sel_regular_token_cost S - locked_cost \<le> max 0 (share - locked_cost) \<and>
     (locked_cost \<le> share \<longrightarrow> sel_regular_token_cost S \<le> share) \<and>
     sel_total_token_cost S = sel_pin_token_cost S + sel_regular_token_cost S \<and>
     sel_total_token_cost S = token_sum (sel_injected S) \<and>
     sel_pin_token_cost S = (\<Sum>k \<leftarrow> pins. int (token_count \<epsilon> (sk_body k))) \<and>
     sel_pinned_overflow_tokens S = min (sel_pin_token_cost S) (max 0 (sel_total_token_cost S - share))"
proof -
  from assms(1) obtain ps pool L where
    cands: "map un_candidate ps = pins" "map un_candidate pool = regular"
    and nn: "\<forall>u \<in> set ps \<union> set pool. 0 \<le> un_token_cost u"
    and costs: "\<forall>u \<in> set ps \<union> set pool. un_token_cost u = int (token_count \<epsilon> (sk_body (un_candidate u)))"
    and dist: "distinct (map sk_memory_id (pins @ regular))"
    and L: "L = set locked - sk_memory_id ` set pins"
    and S: "S = select_scored (cfg_params c) (share_tokens \<epsilon> (cfg_params c) context) ps
       (filter (\<lambda>u. un_id u \<in> L) pool) (filter (\<lambda>u. un_id u \<notin> L) pool)"
    by (rule score_and_select_run)
  let ?lk = "filter (\<lambda>u. un_id u \<in> L) pool" and ?rg = "filter (\<lambda>u. un_id u \<notin> L) pool"
  have "\<forall>u \<in> set ps \<union> set ?lk \<union> set ?rg. 0 \<le> un_token_cost u" using nn by auto
  with S obtain rp rl rr sel un cuts where
    rp: "rp = ranked_from 1 (sort_key un_id ps)"
    and rl: "rl = ranked_from (int (length ps) + 1) (by_score ?lk)"
    and ok: "pass_ok (sp_tau (cfg_params c)) (max 0 (share_tokens \<epsilon> (cfg_params c) context - token_sum rl)) rr (sel, un, cuts)"
    and f: "sel_injected S = rp @ rl @ sel" "sel_regular_budget S = share_tokens \<epsilon> (cfg_params c) context"
      "sel_pin_token_cost S = token_sum rp"
      "sel_regular_token_cost S = token_sum rl + token_sum sel"
      "sel_total_token_cost S = token_sum rp + (token_sum rl + token_sum sel)"
      "sel_pinned_overflow_tokens S = min (token_sum rp)
         (max 0 (token_sum rp + (token_sum rl + token_sum sel) - share_tokens \<epsilon> (cfg_params c) context))"
    by (rule select_scored_run)
  have cost_map: "map un_token_cost us = map (\<lambda>k. int (token_count \<epsilon> (sk_body k))) (map un_candidate us)"
    if "set us \<subseteq> set ps \<union> set pool" for us using that costs by auto
  have "token_sum rp = sum_list (map un_token_cost ps)"
    unfolding token_sum_def rp ranked_from_simps by (rule sum_list_sort_key)
  then have pin: "token_sum rp = (\<Sum>k \<leftarrow> pins. int (token_count \<epsilon> (sk_body k)))"
    using cost_map [of ps] cands(1) by simp
  have "filter (\<lambda>k. sk_memory_id k \<in> set locked) regular = filter (\<lambda>k. sk_memory_id k \<in> L) regular"
    using dist by (intro filter_cong) (auto simp: L)
  also have "\<dots> = map un_candidate ?lk" by (simp add: filter_map un_id_def comp_def flip: cands(2))
  finally have fl: "filter (\<lambda>k. sk_memory_id k \<in> set locked) regular = map un_candidate ?lk" .
  have cm: "map un_token_cost ?lk = map (\<lambda>k. int (token_count \<epsilon> (sk_body k))) (map un_candidate ?lk)"
    by (rule cost_map) auto
  have "locked_cost = sum_list (map un_token_cost ?lk)" unfolding assms(2) fl cm ..
  moreover have "token_sum rl = sum_list (map un_token_cost ?lk)"
    unfolding token_sum_def rl ranked_from_simps by_score_def by (rule sum_list_sort_key)
  ultimately have lk: "token_sum rl = locked_cost" by simp
  have "token_sum sel \<le> max 0 (share - locked_cost)" using ok lk assms(3) by (simp add: pass_ok_def)
  with lk pin show ?thesis by (auto simp: f assms(3) token_sum_def)
qed

lemma regular_in_ranked:
  assumes "x \<in> set (ranked_from r us)"
  shows "\<exists>u \<in> set us. sc_candidate x = un_candidate u"
proof -
  have "sc_candidate x \<in> set (map sc_candidate (ranked_from r us))"
    using assms by (simp only: set_map) (rule imageI)
  then show ?thesis by auto
qed

lemma regular_choice:
  assumes "score_and_select \<epsilon> c prompt query snapshot project thread location current pins regular locked context = Inr S"
    and cost: "locked_cost = token_sum (filter (\<lambda>x. \<not> sk_pin (sc_candidate x) \<and> sc_id x \<in> set locked) (sel_injected S))"
    and x: "x \<in> set (sel_injected S @ sel_unselected S)" "\<not> sk_pin (sc_candidate x)" "sc_id x \<notin> set locked"
  shows "x \<in> set (sel_injected S) \<longleftrightarrow> sp_tau (cfg_params c) \<le> sc_score x \<and>
     sc_token_cost x \<le> max 0 (sel_regular_budget S - locked_cost) -
       token_sum (filter (\<lambda>y. \<not> sk_pin (sc_candidate y) \<and> sc_id y \<notin> set locked \<and> sc_rank y < sc_rank x) (sel_injected S))"
proof -
  from assms(1) obtain ps pool L where
    cands: "map un_candidate ps = pins" "map un_candidate pool = regular"
    and nn: "\<forall>u \<in> set ps \<union> set pool. 0 \<le> un_token_cost u"
    and dist: "distinct (map sk_memory_id (pins @ regular))"
    and pin: "\<forall>k \<in> set pins. sk_pin k" "\<forall>k \<in> set regular. \<not> sk_pin k"
    and L: "L = set locked - sk_memory_id ` set pins"
    and S: "S = select_scored (cfg_params c) (share_tokens \<epsilon> (cfg_params c) context) ps
       (filter (\<lambda>u. un_id u \<in> L) pool) (filter (\<lambda>u. un_id u \<notin> L) pool)"
    by (rule score_and_select_run)
  let ?lk = "filter (\<lambda>u. un_id u \<in> L) pool" and ?rg = "filter (\<lambda>u. un_id u \<notin> L) pool"
  have "\<forall>u \<in> set ps \<union> set ?lk \<union> set ?rg. 0 \<le> un_token_cost u" using nn by auto
  with S obtain rp rl rr sel un cuts where
    rp: "rp = ranked_from 1 (sort_key un_id ps)"
    and rl: "rl = ranked_from (int (length ps) + 1) (by_score ?lk)"
    and rr: "rr = ranked_from (int (length ps) + int (length ?lk) + 1) (by_score ?rg)"
    and run: "budget_pass (sp_tau (cfg_params c)) (max 0 (share_tokens \<epsilon> (cfg_params c) context - token_sum rl)) rr = (sel, un, cuts)"
    and ok: "pass_ok (sp_tau (cfg_params c)) (max 0 (share_tokens \<epsilon> (cfg_params c) context - token_sum rl)) rr (sel, un, cuts)"
    and rc: "\<forall>x \<in> set rr. 0 \<le> sc_token_cost x"
    and f: "sel_injected S = rp @ rl @ sel" "sel_unselected S = un" "sel_regular_budget S = share_tokens \<epsilon> (cfg_params c) context"
    by (rule select_scored_run)
  have kp: "sk_pin (sc_candidate y)" if "y \<in> set rp" for y
    using regular_in_ranked [OF that [unfolded rp]] pin(1) cands(1) by auto
  have kl: "\<not> sk_pin (sc_candidate y) \<and> sc_id y \<in> set locked" if "y \<in> set rl" for y
    using regular_in_ranked [OF that [unfolded rl]] pin(2) cands(2) by (auto simp: by_score_def L un_id_def)
  have kr: "\<not> sk_pin (sc_candidate y) \<and> sc_id y \<notin> set locked" if y: "y \<in> set rr" for y
  proof -
    obtain u where u: "u \<in> set pool" "un_id u \<notin> L" "sc_candidate y = un_candidate u"
      using regular_in_ranked [OF y [unfolded rr]] by (auto simp: by_score_def)
    then have "un_candidate u \<in> set regular" using cands(2) by auto
    with dist pin(2) u show ?thesis by (force simp: L un_id_def)
  qed
  have sets: "set sel \<union> set un = set rr" using pass_ok_sets [OF ok] .
  have xr: "x \<in> set rr" using x kp kl sets by (auto simp: f)
  have inj: "x \<in> set (sel_injected S) \<longleftrightarrow> x \<in> set sel" using x kp kl by (auto simp: f)
  obtain ys zs where split: "rr = ys @ x # zs" using xr by (auto dest: split_list)
  have "filter (\<lambda>y. \<not> sk_pin (sc_candidate y) \<and> sc_id y \<in> set locked) (sel_injected S) = rl"
    using kp kl kr sets by (auto simp: f filter_empty_conv filter_id_conv)
  then have lc: "locked_cost = token_sum rl" using cost by simp
  have "filter (\<lambda>y. \<not> sk_pin (sc_candidate y) \<and> sc_id y \<notin> set locked \<and> sc_rank y < sc_rank x) (sel_injected S) =
      filter (\<lambda>y. y \<in> set ys) sel"
  proof -
    have "\<not> sk_pin (sc_candidate y) \<and> sc_id y \<notin> set locked \<and> (y \<in> set ys \<longleftrightarrow> sc_rank y < sc_rank x)"
      if "y \<in> set sel" for y
      using kr [of y] before_iff_rank [OF trans [OF rr [symmetric] split], of y] that sets
      unfolding rr [symmetric] by blast
    then have "filter (\<lambda>y. \<not> sk_pin (sc_candidate y) \<and> sc_id y \<notin> set locked \<and> sc_rank y < sc_rank x) sel =
        filter (\<lambda>y. y \<in> set ys) sel" by (intro filter_cong) auto
    then show ?thesis using kp kl by (auto simp: f filter_empty_conv)
  qed
  moreover have "distinct (ys @ x # zs)" using ranked_from_distinct split rr by metis
  ultimately show ?thesis
    using budget_pass_at [OF run [unfolded split]] rc inj by (simp add: split f lc)
qed

text \<open>What the budget cuts, when nothing is locked.\<close>

lemma budget_cut_iff:
  assumes S: "score_and_select \<epsilon> c prompt query snapshot project thread location current pins regular [] context = Inr S"
  shows "\<forall>x \<in> set (sel_injected S @ sel_unselected S). x \<in> set (sel_budget_cuts S) \<longleftrightarrow>
     \<not> sk_pin (sc_candidate x) \<and> sp_tau (cfg_params c) \<le> sc_score x \<and>
     sc_token_cost x > max 0 (sel_regular_budget S) -
       token_sum (filter (\<lambda>y. \<not> sk_pin (sc_candidate y) \<and> sc_rank y < sc_rank x) (sel_injected S))"
proof
  fix x assume x: "x \<in> set (sel_injected S @ sel_unselected S)"
  have out: "x \<in> set (sel_unselected S) \<longleftrightarrow> x \<notin> set (sel_injected S)"
    using x selection_distinct [OF S] by auto
  note cuts = selection_parts(2) [OF S]
  show "x \<in> set (sel_budget_cuts S) \<longleftrightarrow>
     \<not> sk_pin (sc_candidate x) \<and> sp_tau (cfg_params c) \<le> sc_score x \<and>
     sc_token_cost x > max 0 (sel_regular_budget S) -
       token_sum (filter (\<lambda>y. \<not> sk_pin (sc_candidate y) \<and> sc_rank y < sc_rank x) (sel_injected S))"
  proof (cases "sk_pin (sc_candidate x)")
    case True
    obtain y where y: "y \<in> set (sel_injected S)" "sc_candidate y = sc_candidate x"
    proof -
      have "\<forall>k \<in> set regular. \<not> sk_pin k" using S by (rule score_and_select_run)
      with True x selection_candidates [OF S x] have "sc_candidate x \<in> set pins" by blast
      with selection_parts(3) [OF S] that show thesis by (metis imageE subsetD)
    qed
    then have "sc_id y = sc_id x" by simp
    with y(1) x selection_distinct [OF S] have "x \<in> set (sel_injected S)" by (auto simp: distinct_map inj_on_def)
    with True out show ?thesis by (auto simp: cuts)
  next
    case False
    from regular_choice [OF S refl x False] False out show ?thesis by (auto simp: cuts token_sum_def)
  qed
qed

text \<open>C7: The regular pool is selected greedily by rank: a card that is neither pinned nor locked is
  injected exactly when its score reaches the threshold and its cost fits into what the budget
  leaves after the locked cards and the better-ranked regular cards that were injected.\<close>

theorem selection_greedy:
  assumes "score_and_select \<epsilon> c prompt query snapshot project thread location current pins regular locked context = Inr S"
    and cost: "locked_cost = token_sum (filter (\<lambda>x. \<not> sk_pin (sc_candidate x) \<and> sc_id x \<in> set locked) (sel_injected S))"
    and x: "x \<in> set (sel_injected S @ sel_unselected S)" "\<not> sk_pin (sc_candidate x)" "sc_id x \<notin> set locked"
  shows "x \<in> set (sel_injected S) \<longleftrightarrow> sp_tau (cfg_params c) \<le> sc_score x \<and>
     sc_token_cost x \<le> max 0 (sel_regular_budget S - locked_cost) -
       token_sum (filter (\<lambda>y. \<not> sk_pin (sc_candidate y) \<and> sc_id y \<notin> set locked \<and> sc_rank y < sc_rank x) (sel_injected S))"
  by (rule regular_choice [OF assms])

lemma smap_Inr_iff:
  "smap f xs = Inr ys \<longleftrightarrow> (\<forall>x \<in> set xs. \<exists>y. f x = Inr y) \<and> ys = map (\<lambda>x. projr (f x)) xs"
  unfolding smap_Inr by (induction xs arbitrary: ys) (auto simp: list_all2_Cons1)

lemma sort_key_mset_cong:
  "mset xs = mset ys \<Longrightarrow> inj_on k (set xs) \<Longrightarrow> sort_key k xs = sort_key k ys"
  by (rule sort_key_inj_key_eq) (simp_all add: sorted_sort_key)

lemma select_scored_cong:
  assumes "mset pins = mset pins'" "mset locked = mset locked'" "mset regular = mset regular'"
    and "inj_on un_id (set pins)" "inj_on un_id (set locked)" "inj_on un_id (set regular)"
  shows "select_scored p share pins locked regular = select_scored p share pins' locked' regular'"
proof -
  have inj: "inj_on (\<lambda>u. (- un_score u, un_id u)) A" if "inj_on un_id A" for A
    using that by (auto simp: inj_on_def)
  have "by_score locked = by_score locked'" "by_score regular = by_score regular'"
    "sort_key un_id pins = sort_key un_id pins'"
    unfolding by_score_def using assms inj by (blast intro: sort_key_mset_cong)+
  moreover have "length pins = length pins'" "length locked = length locked'"
    using assms(1,2) by (metis size_mset)+
  ultimately show ?thesis by (simp only: select_scored_def)
qed

lemma score_and_select_scores:
  assumes "score_and_select \<epsilon> c prompt query snapshot project thread location current pins regular locked context = Inr S"
  defines "f \<equiv> score_candidate \<epsilon> \<lparr>rq_query = query, rq_prompt_keywords = prompt_keywords prompt, rq_snapshot_ts = snapshot,
              rq_thread_project_key = project, rq_thread_id = thread, rq_location_path = location,
              rq_current_location = current\<rparr> c"
  defines "ps \<equiv> map (\<lambda>k. projr (f k)) pins" and "pool \<equiv> map (\<lambda>k. projr (f k)) regular"
  defines "ids \<equiv> filter (\<lambda>i. i \<notin> un_id ` set ps) (remdups locked)"
  shows "context > 0" "validated_vector \<epsilon> query = Inr query" "validate_partition pins regular = Inr ()"
    "\<forall>k \<in> set pins. \<exists>u. f k = Inr u" "\<forall>k \<in> set regular. \<exists>u. f k = Inr u"
    "length (filter (\<lambda>u. un_id u \<in> set ids) pool) = length ids"
    "S = select_scored (cfg_params c) (share_tokens \<epsilon> (cfg_params c) context) ps
       (filter (\<lambda>u. un_id u \<in> set ids) pool) (filter (\<lambda>u. un_id u \<notin> set ids) pool)"
proof -
  let ?L = "\<lambda>q. filter (\<lambda>i. i \<notin> un_id ` set q) (remdups locked)"
  from assms(1) obtain q xs ys where run: "context > 0" "validated_vector \<epsilon> query = Inr q" "validate_partition pins regular = Inr ()"
      "q = query"
    and sm: "smap f pins = Inr xs" "smap f regular = Inr ys"
    and len: "length (filter (\<lambda>u. un_id u \<in> set (?L xs)) ys) = length (?L xs)"
    and S: "Inr S = Inr (select_scored (cfg_params c) (share_tokens \<epsilon> (cfg_params c) context) xs
       (filter (\<lambda>u. un_id u \<in> set (?L xs)) ys) (filter (\<lambda>u. un_id u \<notin> set (?L xs)) ys))"
    unfolding score_and_select_def Let_def sbind_Inr check_Inr validated_vector_def sum.inject f_def by (elim exE conjE) simp
  note e = sm [unfolded smap_Inr_iff, folded ps_def pool_def]
  show "context > 0" "validated_vector \<epsilon> query = Inr query" "validate_partition pins regular = Inr ()"
    using run by simp_all
  show "\<forall>k \<in> set pins. \<exists>u. f k = Inr u" "\<forall>k \<in> set regular. \<exists>u. f k = Inr u" using e by blast+
  show "length (filter (\<lambda>u. un_id u \<in> set ids) pool) = length ids"
    using len e by (simp add: ids_def)
  show "S = select_scored (cfg_params c) (share_tokens \<epsilon> (cfg_params c) context) ps
       (filter (\<lambda>u. un_id u \<in> set ids) pool) (filter (\<lambda>u. un_id u \<notin> set ids) pool)"
    using S e by (simp add: ids_def)
qed

text \<open>C9: The selection does not depend on the order in which the pinned and regular candidates and the
  locked identifiers are presented: any permutation of them gives the same cards, ranks and accounting.\<close>

theorem selection_order_independent:
  assumes "score_and_select \<epsilon> c prompt query snapshot project thread location current pins regular locked context = Inr S"
    and perm: "mset pins' = mset pins" "mset regular' = mset regular" "set locked' = set locked"
  shows "score_and_select \<epsilon> c prompt query snapshot project thread location current pins' regular' locked' context = Inr S"
proof -
  let ?r = "\<lparr>rq_query = query, rq_prompt_keywords = prompt_keywords prompt, rq_snapshot_ts = snapshot,
              rq_thread_project_key = project, rq_thread_id = thread, rq_location_path = location,
              rq_current_location = current\<rparr>"
  let ?f = "score_candidate \<epsilon> ?r c"
  let ?ps = "map (\<lambda>k. projr (?f k)) pins" and ?pool = "map (\<lambda>k. projr (?f k)) regular"
  let ?ps' = "map (\<lambda>k. projr (?f k)) pins'" and ?pool' = "map (\<lambda>k. projr (?f k)) regular'"
  let ?L = "\<lambda>l q. filter (\<lambda>i. i \<notin> un_id ` set q) (remdups l)"
  note parts = score_and_select_scores [OF assms(1)]
  have ctx: "context > 0" and vec: "validated_vector \<epsilon> query = Inr query"
    and part: "validate_partition pins regular = Inr ()"
    and ok: "\<forall>k \<in> set pins. \<exists>u. ?f k = Inr u" "\<forall>k \<in> set regular. \<exists>u. ?f k = Inr u"
    and len: "length (filter (\<lambda>u. un_id u \<in> set (?L locked ?ps)) ?pool) = length (?L locked ?ps)"
    and S: "S = select_scored (cfg_params c) (share_tokens \<epsilon> (cfg_params c) context) ?ps
       (filter (\<lambda>u. un_id u \<in> set (?L locked ?ps)) ?pool) (filter (\<lambda>u. un_id u \<notin> set (?L locked ?ps)) ?pool)"
    by (rule parts)+
  have m: "mset ?ps' = mset ?ps" "mset ?pool' = mset ?pool" using perm by simp_all
  have sets: "set pins' = set pins" "set regular' = set regular" using perm by (metis set_mset_mset)+
  then have Ls: "set (?L locked' ?ps') = set (?L locked ?ps)" using perm(3) by auto
  then have Ll: "length (?L locked' ?ps') = length (?L locked ?ps)"
    by (metis distinct_card distinct_filter distinct_remdups)
  have fm: "mset (filter P ?pool') = mset (filter P ?pool)" for P by (simp only: mset_filter m)
  have dist: "distinct (map sk_memory_id (pins @ regular))" and dist': "distinct (map sk_memory_id (pins' @ regular'))"
  proof -
    show "distinct (map sk_memory_id (pins @ regular))" using part by (simp add: validate_partition_def)
    moreover have "mset (map sk_memory_id (pins' @ regular')) = mset (map sk_memory_id (pins @ regular))"
      using perm by simp
    ultimately show "distinct (map sk_memory_id (pins' @ regular'))"
      by (metis distinct_count_atmost_1 set_mset_mset)
  qed
  have part': "validate_partition pins' regular' = Inr ()"
    using part dist' sets by (simp add: validate_partition_def)
  have un: "un_id (projr (?f k)) = sk_memory_id k" if "\<exists>u. ?f k = Inr u" for k
    using that by (auto simp: score_candidate_def Let_def un_id_def sbind_def split: sum.splits)
  have inj: "inj_on un_id (set ?ps')" "inj_on un_id (set ?pool')"
    using dist' ok sets by (auto simp: inj_on_def un distinct_map)
  have eq: "select_scored (cfg_params c) sh ?ps' (filter P ?pool') (filter Q ?pool') =
      select_scored (cfg_params c) sh ?ps (filter P ?pool) (filter Q ?pool)" for sh P Q
    by (rule select_scored_cong) (use m fm inj in \<open>auto intro: inj_on_subset\<close>)
  have len': "length (filter (\<lambda>u. un_id u \<in> set (?L locked' ?ps')) ?pool') = length (?L locked' ?ps')"
    unfolding Ls Ll using len fm by (metis size_mset)
  have S': "S = select_scored (cfg_params c) (share_tokens \<epsilon> (cfg_params c) context) ?ps'
       (filter (\<lambda>u. un_id u \<in> set (?L locked' ?ps')) ?pool') (filter (\<lambda>u. un_id u \<notin> set (?L locked' ?ps')) ?pool')"
    unfolding Ls eq by (rule S)
  have runs: "smap ?f pins' = Inr ?ps'" "smap ?f regular' = Inr ?pool'"
    using ok sets by (simp_all add: smap_Inr_iff)
  have "check (context \<le> 0) (ValueError ''model_context_tokens must be positive'') = Inr ()"
    using ctx by (simp add: check_def)
  moreover have "check (length (filter (\<lambda>u. un_id u \<in> set (?L locked' ?ps')) ?pool') \<noteq> length (?L locked' ?ps'))
      (ValueError ''every locked memory must be an eligible candidate'') = Inr ()"
    unfolding len' by (simp add: check_def)
  ultimately show ?thesis
    unfolding score_and_select_def Let_def
    by (simp only: sbind_def sum.case vec part' runs S')
qed

section \<open>A small pool\<close>

definition sample_params :: scorer_params where
  "sample_params = \<lparr>sp_tau = 1/4, sp_near_miss_k = 2, sp_memory_context_share = 1/10,
     sp_half_life_time_days = 30, sp_half_life_hist_days = 30, sp_candidate_pool = 50,
     sp_location_weight = 0, sp_half_life_location_hops = 2, sp_thread_weight = 0, sp_where_weight = 0,
     sp_legacy_budget_tokens = None\<rparr>"

definition sample_scorer :: scorer_config where
  "sample_scorer = \<lparr>cfg_version = ''v0'',
     cfg_weights = \<lparr>w_sem = 1/2, w_kw = 1/10, w_time = 1/10, w_proj = 1/10, w_freq = 1/10, w_hist = 1/10\<rparr>,
     cfg_params = sample_params, cfg_bias_offsets = [], cfg_project_offsets = JObj [], cfg_axes = []\<rparr>"

definition sample_candidate :: "uuid \<Rightarrow> bool \<Rightarrow> string \<Rightarrow> scoring_candidate" where
  "sample_candidate i p body = \<lparr>sk_memory_id = i, sk_label = ''L'', sk_body = body, sk_kind = Fact, sk_keywords = [],
     sk_embedding = [1], sk_project_key = None, sk_origin_thread_id = None, sk_origin_path = None,
     sk_origin_location = None, sk_pin = p, sk_updated_at = 0, sk_last_human_edit_at = None, sk_stats = [],
     sk_bias = 0, sk_revision = 1, sk_pool_sources = []\<rparr>"

definition sample_selection :: "scoring_candidate list \<Rightarrow> err + scoring_selection" where
  "sample_selection regular = score_and_select sample_env sample_scorer ''p'' [1] 0 None None None None
     [sample_candidate 1 True ''ab''] regular [] 30"

lemma sample_selection_runs:
  "\<not> isl (sample_selection [sample_candidate 3 False ''ab'', sample_candidate 2 False ''ab''])"
  by (simp add: sample_selection_def score_and_select_def Let_def check_def sbind_def validated_vector_def
      validate_partition_def sample_candidate_def sample_scorer_def sample_params_def score_candidate_def
      weights_for_project_def features_of_def semantic_similarity_def vector_similarity_def cosine_def
      fsum_def citations_def location_feature_def where_feature_def)


abbreviation sample_pool :: "scoring_candidate list" where
  "sample_pool \<equiv> [sample_candidate 3 False ''ab'', sample_candidate 2 False ''ab'']"

lemma sample_selection_Inr: "\<exists>S. sample_selection sample_pool = Inr S"
  using sample_selection_runs by (metis isl_def sum.exhaust)

theorem selection_partition_witness:
  "\<exists>S. sample_selection sample_pool = Inr S \<and>
     mset (map sc_candidate (sel_injected S @ sel_unselected S)) = mset (sample_candidate 1 True ''ab'' # sample_pool)"
proof -
  obtain S where S: "sample_selection sample_pool = Inr S" using sample_selection_Inr by blast
  from selection_partition [OF S [unfolded sample_selection_def]] S show ?thesis by auto
qed

theorem selection_budget_witness:
  "\<exists>S. sample_selection sample_pool = Inr S \<and> sel_regular_token_cost S \<le> 3 \<and> sel_pin_token_cost S = 2"
proof -
  obtain S where S: "sample_selection sample_pool = Inr S" using sample_selection_Inr by blast
  have "share_tokens sample_env (cfg_params sample_scorer) 30 = 3"
    by (simp add: share_tokens_def sample_scorer_def sample_params_def)
  with selection_budget [OF S [unfolded sample_selection_def] refl refl] S show ?thesis
    by (auto simp: sample_candidate_def)
qed

theorem selection_greedy_witness:
  "\<exists>S x. sample_selection sample_pool = Inr S \<and> x \<in> set (sel_injected S @ sel_unselected S) \<and>
     sc_id x = 2 \<and> (x \<in> set (sel_injected S) \<longrightarrow> 1/4 \<le> sc_score x)"
proof -
  obtain S where S: "sample_selection sample_pool = Inr S" using sample_selection_Inr by blast
  have "mset (map sc_candidate (sel_injected S @ sel_unselected S)) = mset (sample_candidate 1 True ''ab'' # sample_pool)"
    using selection_all [OF S [unfolded sample_selection_def]] by simp
  from arg_cong [OF this, of set_mset] have "sample_candidate 2 False ''ab'' \<in> sc_candidate ` set (sel_injected S @ sel_unselected S)"
    unfolding set_mset_mset set_map by simp
  then obtain x where x: "x \<in> set (sel_injected S @ sel_unselected S)" "sc_candidate x = sample_candidate 2 False ''ab''"
    by (metis imageE)
  then have "\<not> sk_pin (sc_candidate x)" "sc_id x \<notin> set []" "sc_id x = 2" by (simp_all add: sample_candidate_def)
  with selection_greedy [OF S [unfolded sample_selection_def] refl x(1)] S x(1) show ?thesis
    by (auto simp: sample_scorer_def sample_params_def)
qed

theorem selection_order_independent_witness:
  "sample_selection (rev sample_pool) = sample_selection sample_pool"
proof -
  obtain S where S: "sample_selection sample_pool = Inr S" using sample_selection_Inr by blast
  have "sample_selection (rev sample_pool) = Inr S"
    unfolding sample_selection_def
    by (rule selection_order_independent [OF S [unfolded sample_selection_def]]) simp_all
  with S show ?thesis by simp
qed

end
