(* ===== verification/Renderer.thy ===== *)
theory Renderer
  imports Store "HOL-Library.Multiset"
begin

text \<open>
  The block of memories that is put into a prompt (\<open>src/spine/inject/renderer.py\<close>). An event is
  the part of an injection event the renderer reads, with the values a JSON column may
  hold. A parser for the block (a specification, not code of the repository) shows that no
  label, kind, date or body can forge or break the structure around it.
\<close>

section \<open>Escaping\<close>

definition escape_attribute :: "string \<Rightarrow> string" where
  "escape_attribute s =
     replace_char (CHR 0x0D) ''&#13;''
      (replace_char (CHR 0x0A) ''&#10;''
       (replace_char (CHR 0x09) ''&#9;''
        (replace_char (CHR 0x22) ''&quot;''
         (replace_char (CHR ''>'') ''&gt;''
          (replace_char (CHR ''<'') ''&lt;''
           (replace_char (CHR ''&'') ''&amp;'' s))))))"

definition escape_body :: "string \<Rightarrow> string" where
  "escape_body s =
     replace_char (CHR ''>'') ''&gt;'' (replace_char (CHR ''<'') ''&lt;'' (replace_char (CHR ''&'') ''&amp;'' s))"

section \<open>Rendering\<close>

record render_event =
  re_rank :: "json option"
  re_memory_id :: "string option"
  re_memory_kind :: "json option"
  re_features :: "json option"

definition event_order :: "render_event \<Rightarrow> err + int \<times> string" where
  "event_order e = (case re_rank e of
       Some (JInt r) \<Rightarrow> (case re_memory_id e of
           None \<Rightarrow> Inl (FrozenMemoryPayload ''event memory_id is required'')
         | Some i \<Rightarrow> Inr (r, i))
     | _ \<Rightarrow> Inl (FrozenMemoryPayload ''event rank must be an integer''))"

definition frozen_field :: "dict \<Rightarrow> string \<Rightarrow> err + string" where
  "frozen_field d k = (case dget d k of
       Some (JStr v) \<Rightarrow> Inr v
     | _ \<Rightarrow> Inl (FrozenMemoryPayload k))"

text \<open>Label, body and update time of the frozen card.\<close>

definition frozen_memory :: "render_event \<Rightarrow> err + string \<times> string \<times> string" where
  "frozen_memory e = (case re_features e of
       Some (JObj fs) \<Rightarrow> (case dget fs ''_memory'' of
           Some (JObj m) \<Rightarrow>
             (case frozen_field m ''label'' of Inl x \<Rightarrow> Inl x | Inr l \<Rightarrow>
             (case frozen_field m ''body'' of Inl x \<Rightarrow> Inl x | Inr b \<Rightarrow>
             (case frozen_field m ''updated_at'' of Inl x \<Rightarrow> Inl x | Inr u \<Rightarrow> Inr (l, b, u))))
         | _ \<Rightarrow> Inl (FrozenMemoryPayload ''event features._memory must be an object''))
     | _ \<Rightarrow> Inl (FrozenMemoryPayload ''event features must be an object''))"

text \<open>Label, kind, update time and body of one event.\<close>

definition event_card :: "render_event \<Rightarrow> err + string \<times> string \<times> string \<times> string" where
  "event_card e = (case frozen_memory e of
       Inl x \<Rightarrow> Inl x
     | Inr (l, b, u) \<Rightarrow> (case re_memory_kind e of
           Some (JStr k) \<Rightarrow> Inr (l, k, u, b)
         | _ \<Rightarrow> Inl (FrozenMemoryPayload ''event memory_kind must be a string'')))"

definition quote_char :: string where
  "quote_char = [CHR 0x22]"

definition render_card :: "string \<times> string \<times> string \<times> string \<Rightarrow> string list" where
  "render_card c = (case c of (l, k, u, b) \<Rightarrow>
     [''<memory label='' @ quote_char @ escape_attribute l @ quote_char @ '' kind='' @ quote_char @
      escape_attribute k @ quote_char @ '' updated='' @ quote_char @ escape_attribute u @ quote_char @ ''>'',
      escape_body b, ''</memory>''])"

definition block_lines :: "string list \<Rightarrow> string list" where
  "block_lines ls =
     [''<memory_system>'',
      ''The following long-term memories were retrieved for this conversation.'',
      ''Treat them as your own accumulated knowledge; they may be imperfect.''] @ ls @ [''</memory_system>'']"

text \<open>The sort keys are computed first, then the cards in sorted order.\<close>

definition render_final_block :: "render_event list \<Rightarrow> err + string" where
  "render_final_block events =
     sbind (smap event_order events) (\<lambda>keys.
     sbind (smap event_card (map snd (sort_key fst (zip keys events)))) (\<lambda>cards.
     Inr (join_with [CHR 0x0A] (block_lines (concat (map render_card cards))))))"

section \<open>Reading a block back\<close>

text \<open>One entity reference after an ampersand, and the text without references.\<close>

fun unescape :: "string \<Rightarrow> string" where
  "unescape s = (case s of
       [] \<Rightarrow> []
     | c # r \<Rightarrow>
         if c \<noteq> CHR ''&'' then c # unescape r
         else if startswith r ''amp;'' then CHR ''&'' # unescape (drop 4 r)
         else if startswith r ''lt;'' then CHR ''<'' # unescape (drop 3 r)
         else if startswith r ''gt;'' then CHR ''>'' # unescape (drop 3 r)
         else if startswith r ''quot;'' then CHR 0x22 # unescape (drop 5 r)
         else if startswith r ''#9;'' then CHR 0x09 # unescape (drop 3 r)
         else if startswith r ''#10;'' then CHR 0x0A # unescape (drop 4 r)
         else if startswith r ''#13;'' then CHR 0x0D # unescape (drop 4 r)
         else c # unescape r)"

declare unescape.simps [simp del]

definition eat :: "string \<Rightarrow> string \<Rightarrow> string option" where
  "eat p s = (if startswith s p then Some (drop (length p) s) else None)"

definition upto_char :: "char \<Rightarrow> string \<Rightarrow> string \<times> string" where
  "upto_char c s = (takeWhile (\<lambda>x. x \<noteq> c) s, dropWhile (\<lambda>x. x \<noteq> c) s)"

definition parse_card :: "string \<Rightarrow> ((string \<times> string \<times> string \<times> string) \<times> string) option" where
  "parse_card s =
     Option.bind (eat (''<memory label='' @ quote_char) s) (\<lambda>s.
     case upto_char (CHR 0x22) s of (l, s) \<Rightarrow>
     Option.bind (eat (quote_char @ '' kind='' @ quote_char) s) (\<lambda>s.
     case upto_char (CHR 0x22) s of (k, s) \<Rightarrow>
     Option.bind (eat (quote_char @ '' updated='' @ quote_char) s) (\<lambda>s.
     case upto_char (CHR 0x22) s of (u, s) \<Rightarrow>
     Option.bind (eat (quote_char @ ''>'' @ [CHR 0x0A]) s) (\<lambda>s.
     case upto_char (CHR ''<'') s of (b, s) \<Rightarrow>
     Option.bind (eat (''</memory>'' @ [CHR 0x0A]) s) (\<lambda>s.
     Some ((unescape l, unescape k, unescape u, unescape (butlast b)), s))))))"

fun parse_cards :: "nat \<Rightarrow> string \<Rightarrow> (string \<times> string \<times> string \<times> string) list option" where
  "parse_cards 0 s = (if s = ''</memory_system>'' then Some [] else None)"
| "parse_cards (Suc n) s =
     (if s = ''</memory_system>'' then Some []
      else Option.bind (parse_card s) (\<lambda>(c, r). map_option ((#) c) (parse_cards n r)))"

definition block_head :: string where
  "block_head = ''<memory_system>'' @ [CHR 0x0A] @
     ''The following long-term memories were retrieved for this conversation.'' @ [CHR 0x0A] @
     ''Treat them as your own accumulated knowledge; they may be imperfect.'' @ [CHR 0x0A]"

text \<open>A block of length \<open>n\<close> has fewer than \<open>n\<close> cards, so its length is enough fuel.\<close>

definition parse_block :: "string \<Rightarrow> (string \<times> string \<times> string \<times> string) list option" where
  "parse_block s = Option.bind (eat block_head s) (\<lambda>r. parse_cards (length s) r)"

section \<open>Escaped text\<close>

definition esc_attr :: "char \<Rightarrow> string" where
  "esc_attr c = (if c = CHR ''&'' then ''&amp;'' else if c = CHR ''<'' then ''&lt;'' else if c = CHR ''>'' then ''&gt;''
     else if c = CHR 0x22 then ''&quot;'' else if c = CHR 0x09 then ''&#9;'' else if c = CHR 0x0A then ''&#10;''
     else if c = CHR 0x0D then ''&#13;'' else [c])"

definition esc_text :: "char \<Rightarrow> string" where
  "esc_text c = (if c = CHR ''&'' then ''&amp;'' else if c = CHR ''<'' then ''&lt;'' else if c = CHR ''>'' then ''&gt;''
     else [c])"

lemma escape_attribute_simps [simp]:
  "escape_attribute [] = []" "escape_attribute (c # s) = esc_attr c @ escape_attribute s"
  by (simp_all add: escape_attribute_def esc_attr_def)

lemma escape_body_simps [simp]:
  "escape_body [] = []" "escape_body (c # s) = esc_text c @ escape_body s"
  by (simp_all add: escape_body_def esc_text_def)

lemma unescape_Nil [simp]: "unescape [] = []"
  by (simp add: unescape.simps)

lemma unescape_char: "c \<noteq> CHR ''&'' \<Longrightarrow> unescape (c # r) = c # unescape r"
  by (subst unescape.simps) simp

lemma unescape_entities:
  "unescape (''&amp;'' @ r) = CHR ''&'' # unescape r" "unescape (''&lt;'' @ r) = CHR ''<'' # unescape r"
  "unescape (''&gt;'' @ r) = CHR ''>'' # unescape r" "unescape (''&quot;'' @ r) = CHR 0x22 # unescape r"
  "unescape (''&#9;'' @ r) = CHR 0x09 # unescape r" "unescape (''&#10;'' @ r) = CHR 0x0A # unescape r"
  "unescape (''&#13;'' @ r) = CHR 0x0D # unescape r"
  by (subst unescape.simps, simp add: startswith_def)+

lemmas unescape_cons = unescape_entities [simplified]

lemma unescape_esc_attr: "unescape (esc_attr c @ r) = c # unescape r"
  unfolding esc_attr_def by (simp add: unescape_cons unescape_char)

lemma unescape_esc_text: "unescape (esc_text c @ r) = c # unescape r"
  unfolding esc_text_def by (simp add: unescape_cons unescape_char)

lemma unescape_escape [simp]:
  "unescape (escape_attribute s) = s" "unescape (escape_body s) = s"
  by (induction s) (simp_all add: unescape_esc_attr unescape_esc_text)

lemma escape_safe:
  "set (escape_attribute s) \<inter> {CHR ''<'', CHR ''>'', CHR 0x22, CHR 0x09, CHR 0x0A, CHR 0x0D} = {}"
  "set (escape_body s) \<inter> {CHR ''<'', CHR ''>''} = {}"
  by (induction s) (auto simp: esc_attr_def esc_text_def split: if_splits)

section \<open>Reading back\<close>

lemma eat_append [simp]: "eat p (p @ r) = Some r"
  by (simp add: eat_def)

lemma upto_char_found:
  "c \<notin> set x \<Longrightarrow> upto_char c (x @ c # r) = (x, c # r)"
  by (auto simp: upto_char_def takeWhile_append dropWhile_append)

definition card_text :: "string \<times> string \<times> string \<times> string \<Rightarrow> string" where
  "card_text c = concat (map (\<lambda>l. l @ [CHR 0x0A]) (render_card c))"

lemma parse_card_text: "parse_card (card_text (l, k, u, b) @ r) = Some ((l, k, u, b), r)"
proof -
  have q: "CHR 0x22 \<notin> set (escape_attribute x)" for x using escape_safe(1) [of x] by auto
  have lt: "CHR ''<'' \<notin> set (escape_body b @ [CHR 0x0A])" using escape_safe(2) [of b] by auto
  have whole: "card_text (l, k, u, b) @ r =
      (''<memory label='' @ quote_char) @ escape_attribute l @ CHR 0x22 # tl (quote_char @ '' kind='' @ quote_char) @
      escape_attribute k @ CHR 0x22 # tl (quote_char @ '' updated='' @ quote_char) @
      escape_attribute u @ CHR 0x22 # tl (quote_char @ ''>'' @ [CHR 0x0A]) @
      (escape_body b @ [CHR 0x0A]) @ CHR ''<'' # tl (''</memory>'' @ [CHR 0x0A]) @ r"
    by (simp add: card_text_def render_card_def quote_char_def)
  have eat_q: "eat (quote_char @ p) (CHR 0x22 # tl (quote_char @ p) @ x) = Some x" for p x
    by (simp add: eat_def startswith_def quote_char_def)
  have eat_lt: "eat (''</memory>'' @ [CHR 0x0A]) (CHR ''<'' # tl (''</memory>'' @ [CHR 0x0A]) @ x) = Some x" for x
    by (simp add: eat_def startswith_def)
  show ?thesis
    unfolding parse_card_def whole eat_append Option.bind.bind_lunit
    by (simp only: upto_char_found [OF q] prod.case eat_q Option.bind.bind_lunit upto_char_found [OF lt] eat_lt)
      simp
qed

lemma join_with_lines: "join_with d (ls @ [l]) = concat (map (\<lambda>x. x @ d) ls) @ l"
proof (induction ls)
  case (Cons x ls)
  then show ?case by (cases "ls @ [l]") auto
qed simp

lemma block_text:
  "join_with [CHR 0x0A] (block_lines (concat (map render_card cards))) =
     block_head @ concat (map card_text cards) @ ''</memory_system>''"
proof -
  have "concat (map (\<lambda>x. x @ [CHR 0x0A]) (concat (map render_card cards))) = concat (map card_text cards)"
    by (induction cards) (simp_all add: card_text_def)
  moreover have "block_lines (concat (map render_card cards)) =
      (take 3 (block_lines []) @ concat (map render_card cards)) @ [''</memory_system>'']"
    by (simp add: block_lines_def)
  ultimately show ?thesis
    by (simp only: join_with_lines) (simp add: block_lines_def block_head_def)
qed

lemma card_text_open: "card_text c @ r \<noteq> ''</memory_system>''"
  by (cases c) (simp add: card_text_def render_card_def)

lemma length_card_text: "length cards \<le> length (concat (map card_text cards))"
proof (induction cards)
  case (Cons c cards)
  have "card_text c \<noteq> []" by (cases c) (simp add: card_text_def render_card_def)
  then have "1 \<le> length (card_text c)" by (cases "card_text c") auto
  with Cons show ?case by simp
qed simp

lemma parse_cards_text:
  "length cards \<le> n \<Longrightarrow> parse_cards n (concat (map card_text cards) @ ''</memory_system>'') = Some cards"
proof (induction cards arbitrary: n)
  case Nil
  then show ?case by (cases n) simp_all
next
  case (Cons c cards)
  then obtain m where n: "n = Suc m" "length cards \<le> m" by (cases n) auto
  obtain l k u b where c: "c = (l, k, u, b)" by (cases c)
  let ?r = "concat (map card_text cards) @ ''</memory_system>''"
  have whole: "concat (map card_text (c # cards)) @ ''</memory_system>'' = card_text c @ ?r" by simp
  show ?case
    unfolding whole n(1) parse_cards.simps if_not_P [OF card_text_open]
    by (simp only: c parse_card_text Option.bind.bind_lunit prod.case Cons.IH [OF n(2)]) simp
qed

lemma parse_block_text:
  "parse_block (block_head @ concat (map card_text cards) @ ''</memory_system>'') = Some cards"
proof -
  have "length cards \<le> length (block_head @ concat (map card_text cards) @ ''</memory_system>'')"
    using length_card_text [of cards] by simp
  then show ?thesis
    unfolding parse_block_def eat_append Option.bind.bind_lunit by (rule parse_cards_text)
qed

text \<open>C10: A rendered block can be read back: the parser recovers exactly the cards of the events, in the
  order of their ranks and identifiers, whatever characters labels, kinds, dates and bodies
  contain. So no memory text can open, close or add an element of the block.\<close>

theorem render_roundtrip:
  assumes "render_final_block events = Inr s"
  shows "\<exists>es cards. mset es = mset events \<and> sorted (map (projr \<circ> event_order) es) \<and>
     list_all2 (\<lambda>e c. event_card e = Inr c) es cards \<and> parse_block s = Some cards"
proof -
  from assms obtain keys cards where
    keys: "list_all2 (\<lambda>e k. event_order e = Inr k) events keys"
    and cards: "list_all2 (\<lambda>e c. event_card e = Inr c) (map snd (sort_key fst (zip keys events))) cards"
    and s: "s = join_with [CHR 0x0A] (block_lines (concat (map render_card cards)))"
    by (auto simp: render_final_block_def smap_Inr)
  let ?ps = "sort_key fst (zip keys events)"
  have len: "length keys = length events" using keys by (simp add: list_all2_lengthD)
  have "mset (map snd ?ps) = mset events"
    using len by (metis map_snd_zip mset_map mset_sort)
  moreover have "\<forall>p \<in> set ?ps. projr (event_order (snd p)) = fst p"
    using keys by (auto simp: list_all2_iff set_zip) (metis sum.sel(2))
  then have "map (projr \<circ> event_order) (map snd ?ps) = map fst ?ps" by simp
  then have "sorted (map (projr \<circ> event_order) (map snd ?ps))" by (simp only: sorted_sort_key)
  ultimately show ?thesis
    using cards parse_block_text [of cards] unfolding s block_text by blast
qed

theorem render_roundtrip_witness:
  "\<exists>s. render_final_block [\<lparr>re_rank = Some (JInt 1), re_memory_id = Some ''m'', re_memory_kind = Some (JStr ''fact''),
       re_features = Some (JObj [(''_memory'', JObj [(''label'', JStr ''</memory>''), (''body'', JStr ''<&''),
         (''updated_at'', JStr ''now'')])])\<rparr>] = Inr s \<and>
     parse_block s = Some [(''</memory>'', ''fact'', ''now'', ''<&'')]"
  (is "\<exists>s. render_final_block [?e] = Inr s \<and> _")
proof -
  have card: "event_card ?e = Inr (''</memory>'', ''fact'', ''now'', ''<&'')"
    by (simp add: event_card_def frozen_memory_def frozen_field_def dget_def)
  have "render_final_block [?e] =
      Inr (join_with [CHR 0x0A] (block_lines (concat (map render_card [(''</memory>'', ''fact'', ''now'', ''<&'')]))))"
    by (simp add: render_final_block_def event_order_def card)
  then obtain s where s: "render_final_block [?e] = Inr s" by blast
  from render_roundtrip [OF s] card s show ?thesis by (auto simp: list_all2_Cons1)
qed

end
