(* ===== verification/Decisions.thy ===== *)
theory Decisions
  imports Memory Renderer
begin

text \<open>
  Decisions on one injection (\<open>src/spine/inject/decisions.py\<close>): the commit of a gate, the feedback
  transitions of a single event, and the restoration of a thread's recorded state. The gate is
  the batch of events with one injection identifier, without its budget cuts; a commit plans an
  outcome for every gate event, writes the new ones once, and applies their effect to the
  memory heads through the compare-and-swap update. Both writers are one transaction.
\<close>

section \<open>Commands and results\<close>

record removed_decision =
  rd_memory_id :: uuid
  rd_reason :: removal_reason

record commit_command =
  cc_injection_id :: uuid
  cc_removed :: "removed_decision list"
  cc_added_back :: "uuid list"

datatype feedback_signal = Signal_removed | Signal_added | Signal_cited

record feedback_command =
  fc_injection_id :: uuid
  fc_memory_id :: uuid
  fc_signal :: feedback_signal

record planned_outcome =
  pl_event :: injection_event
  pl_desired :: "outcome option"
  pl_is_new :: bool

record never_rule =
  nr_bias_step :: rat
  nr_quarantine_kills :: int

record commit_response =
  cr_final_block :: string
  cr_wrong_removed :: "memory_unit list"

section \<open>Texts of the closed domains\<close>

fun kind_name :: "memory_kind \<Rightarrow> string" where
  "kind_name Fact = ''fact''"
| "kind_name Preference = ''preference''"
| "kind_name Procedure = ''procedure''"
| "kind_name Project_note = ''project_note''"
| "kind_name Persona = ''persona''"
| "kind_name Pinned_kind = ''pinned''"

fun reason_name :: "removal_reason \<Rightarrow> string" where
  "reason_name Not_relevant = ''not_relevant''"
| "reason_name Wrong = ''wrong''"
| "reason_name Never = ''never''"

fun outcome_name :: "outcome \<Rightarrow> string" where
  "outcome_name Kept = ''kept''"
| "outcome_name Added_back = ''added_back''"
| "outcome_name (Removed r) = ''removed:'' @ reason_name r"
| "outcome_name Cited = ''cited''"
| "outcome_name Mid_thread_removed = ''mid_thread_removed''"
| "outcome_name Mid_thread_added = ''mid_thread_added''"
| "outcome_name Auto_entered = ''auto_entered''"
| "outcome_name Auto_exited = ''auto_exited''"
| "outcome_name Outcome_budget_cut = ''budget_cut''"

fun signal_outcome :: "feedback_signal \<Rightarrow> outcome" where
  "signal_outcome Signal_removed = Mid_thread_removed"
| "signal_outcome Signal_added = Mid_thread_added"
| "signal_outcome Signal_cited = Cited"

definition render_row :: "injection_event \<Rightarrow> render_event" where
  "render_row e = \<lparr>re_rank = Some (JInt (ev_rank e)), re_memory_id = Some (uuid_str (ev_memory_id e)),
     re_memory_kind = Some (JStr (kind_name (ev_memory_kind e))), re_features = Some (JObj (ev_features e))\<rparr>"

definition positive_outcomes :: "outcome list" where
  "positive_outcomes = [Kept, Added_back, Cited]"

definition feedback_outcomes :: "outcome list" where
  "feedback_outcomes = [Cited, Mid_thread_removed, Mid_thread_added]"

section \<open>Reading and writing events\<close>

definition load_batch :: "db \<Rightarrow> uuid \<Rightarrow> injection_event list" where
  "load_batch s i = sort_key (\<lambda>e. (ev_rank e, ev_memory_id e, ev_id e))
     (filter (\<lambda>e. ev_injection_id e = i) (injection_events s))"

text \<open>\<open>UPDATE injection_event SET outcome WHERE id = :id AND outcome IS :expected\<close>, which has to hit exactly
  one row. \<open>_write_new_outcome\<close> expects no outcome, \<open>_replace_outcome\<close> the one it has read (SQLAlchemy
  compares with \<open>None\<close> by \<open>IS NULL\<close>).\<close>

definition write_outcome :: "nat \<Rightarrow> outcome option \<Rightarrow> outcome \<Rightarrow> unit op" where
  "write_outcome i expected desired =
     bnd (gets (\<lambda>s. length (filter (\<lambda>e. ev_id e = i \<and> ev_outcome e = expected) (injection_events s)))) (\<lambda>n.
     sqn (modify (\<lambda>s. s\<lparr>injection_events :=
            map (\<lambda>e. if ev_id e = i \<and> ev_outcome e = expected then e\<lparr>ev_outcome := Some desired\<rparr> else e)
              (injection_events s)\<rparr>))
         (raise_if (n \<noteq> 1) OutcomeConflict))"

section \<open>Planning a commit\<close>

definition in_gate :: "injection_event \<Rightarrow> bool" where
  "in_gate e \<longleftrightarrow> ev_shown_as e \<noteq> Budget_cut"

definition removal_of :: "commit_command \<Rightarrow> uuid \<Rightarrow> removal_reason option" where
  "removal_of c i = map_of (map (\<lambda>d. (rd_memory_id d, rd_reason d)) (cc_removed c)) i"

text \<open>\<open>by_memory.get(memory_id)\<close>\<close>

definition gate_member :: "injection_event list \<Rightarrow> uuid \<Rightarrow> injection_event option" where
  "gate_member gate i = find (\<lambda>e. ev_memory_id e = i) gate"

definition removable :: "injection_event list \<Rightarrow> removed_decision \<Rightarrow> bool" where
  "removable gate d = (case gate_member gate (rd_memory_id d) of
       None \<Rightarrow> False
     | Some e \<Rightarrow> ev_shown_as e = Injected \<or> ev_shown_as e = Pinned \<or>
         (ev_shown_as e = Near_miss \<and> rd_reason d = Never))"

definition addable :: "injection_event list \<Rightarrow> uuid \<Rightarrow> bool" where
  "addable gate i = (case gate_member gate i of None \<Rightarrow> False | Some e \<Rightarrow> ev_shown_as e = Near_miss)"

definition desired_outcome :: "commit_command \<Rightarrow> injection_event \<Rightarrow> outcome option" where
  "desired_outcome c e =
     (if ev_shown_as e = Near_miss then
        (if removal_of c (ev_memory_id e) = Some Never then Some (Removed Never)
         else if ev_memory_id e \<in> set (cc_added_back c) then Some Added_back else None)
      else (case removal_of c (ev_memory_id e) of Some r \<Rightarrow> Some (Removed r) | None \<Rightarrow> Some Kept))"

definition is_feedback_descendant :: "injection_event \<Rightarrow> outcome \<Rightarrow> outcome \<Rightarrow> bool" where
  "is_feedback_descendant e current desired \<longleftrightarrow> current \<in> set feedback_outcomes \<and>
     desired = (if ev_shown_as e = Near_miss then Added_back else Kept)"

definition plan_event :: "commit_command \<Rightarrow> injection_event \<Rightarrow> err + planned_outcome" where
  "plan_event c e = (case (desired_outcome c e, ev_outcome e) of
       (None, None) \<Rightarrow> Inr \<lparr>pl_event = e, pl_desired = None, pl_is_new = False\<rparr>
     | (None, Some _) \<Rightarrow> Inl OutcomeConflict
     | (Some d, None) \<Rightarrow> Inr \<lparr>pl_event = e, pl_desired = Some d, pl_is_new = True\<rparr>
     | (Some d, Some cur) \<Rightarrow>
         if cur = d \<or> is_feedback_descendant e cur d
         then Inr \<lparr>pl_event = e, pl_desired = Some d, pl_is_new = False\<rparr>
         else Inl OutcomeConflict)"

definition plan_commit :: "injection_event list \<Rightarrow> commit_command \<Rightarrow> err + planned_outcome list" where
  "plan_commit events c =
     (let gate = filter in_gate events; removed_ids = map rd_memory_id (cc_removed c) in
      sbind (check (\<not> distinct (map ev_memory_id gate)) (DecisionState ''injection contains duplicate memory'')) (\<lambda>_.
      sbind (check (\<not> distinct removed_ids) (InvalidCommitChoices ''removed repeats memory'')) (\<lambda>_.
      sbind (check (\<not> distinct (cc_added_back c)) (InvalidCommitChoices ''added_back contains duplicate memory IDs'')) (\<lambda>_.
      sbind (check (set removed_ids \<inter> set (cc_added_back c) \<noteq> {}) (InvalidCommitChoices ''memory is in both lists'')) (\<lambda>_.
      sbind (check (\<not> list_all (removable gate) (cc_removed c)) (InvalidCommitChoices ''removed memory'')) (\<lambda>_.
      sbind (check (\<not> list_all (addable gate) (cc_added_back c)) (InvalidCommitChoices ''added_back memory'')) (\<lambda>_.
      smap (plan_event c) gate)))))))"

section \<open>Effects on the heads\<close>

text \<open>The rule of one scorer version for \<open>removed:never\<close>.\<close>

definition never_step :: "env \<Rightarrow> dict \<Rightarrow> err + rat" where
  "never_step \<epsilon> params = (case dget params ''never_bias_step'' of
       Some (JInt n) \<Rightarrow> if fl64 \<epsilon> (of_int n) \<ge> 0 then Inl (DecisionState ''never_bias_step is invalid'')
         else Inr (fl64 \<epsilon> (of_int n))
     | Some (JFloat x) \<Rightarrow> if x \<ge> 0 then Inl (DecisionState ''never_bias_step is invalid'') else Inr x
     | _ \<Rightarrow> Inl (DecisionState ''never_bias_step is invalid''))"

definition never_kills :: "dict \<Rightarrow> err + int" where
  "never_kills params = (case dget params ''quarantine_kills'' of
       Some (JInt k) \<Rightarrow> if k \<le> 0 then Inl (DecisionState ''quarantine_kills is invalid'') else Inr k
     | _ \<Rightarrow> Inl (DecisionState ''quarantine_kills is invalid''))"

definition never_rule_of :: "env \<Rightarrow> db \<Rightarrow> string \<Rightarrow> err + string \<times> never_rule" where
  "never_rule_of \<epsilon> s v = (case find (\<lambda>r. sc_version r = v) (scorer_configs s) of
       None \<Rightarrow> Inl (DecisionState ''scorer_config is missing or invalid'')
     | Some row \<Rightarrow>
         sbind (never_step \<epsilon> (sc_params row)) (\<lambda>step.
         sbind (never_kills (sc_params row)) (\<lambda>kills.
         Inr (v, \<lparr>nr_bias_step = step, nr_quarantine_kills = kills\<rparr>))))"

definition load_never_rules :: "env \<Rightarrow> string list \<Rightarrow> (string \<times> never_rule) list op" where
  "load_never_rules \<epsilon> versions = bnd (gets id) (\<lambda>s. lift (smap (never_rule_of \<epsilon> s) versions))"

definition increment_stat :: "dict \<Rightarrow> string \<Rightarrow> err + dict" where
  "increment_stat stats k = (case dget stats k of
       None \<Rightarrow> Inr (dset k (JInt 1) stats)
     | Some (JInt n) \<Rightarrow> if n < 0 then Inl (DecisionState k) else Inr (dset k (JInt (n + 1)) stats)
     | Some _ \<Rightarrow> Inl (DecisionState k))"

definition int_stat :: "dict \<Rightarrow> string \<Rightarrow> int" where
  "int_stat d k = (case dget d k of Some (JInt n) \<Rightarrow> n | _ \<Rightarrow> 0)"

definition commit_head_changes :: "env \<Rightarrow> memory_unit \<Rightarrow> outcome \<Rightarrow> timestamp \<Rightarrow> never_rule option \<Rightarrow>
    err + memory_unit_changes" where
  "commit_head_changes \<epsilon> u desired ts rule =
     (if desired = Added_back then
        sbind (increment_stat (mu_stats u) ''injections'') (\<lambda>stats.
        Inr (no_changes\<lparr>ch_stats := Some (dset ''last_injected_at'' (JStr (isoformat \<epsilon> ts)) stats)\<rparr>))
      else
        sbind (increment_stat (mu_stats u) ''removals'') (\<lambda>stats.
        if desired \<noteq> Removed Never then Inr (no_changes\<lparr>ch_stats := Some stats\<rparr>)
        else (case rule of
            None \<Rightarrow> Inl (DecisionState ''removed:never has no scorer-version rule'')
          | Some r \<Rightarrow>
              sbind (increment_stat stats ''never_kills'') (\<lambda>stats.
              Inr (no_changes\<lparr>ch_stats := Some stats, ch_bias := Some (fl64 \<epsilon> (mu_bias u + nr_bias_step r)),
                ch_status := Some (if mu_status u = Active \<and> int_stat stats ''never_kills'' \<ge> nr_quarantine_kills r
                                   then Quarantined else mu_status u)\<rparr>)))))"

definition has_effect :: "outcome option \<Rightarrow> bool" where
  "has_effect d = (case d of Some Added_back \<Rightarrow> True | Some (Removed r) \<Rightarrow> True | _ \<Rightarrow> False)"

text \<open>One step of the loop over the new effects: the head of the event's memory is updated, and the
  snapshot replaces the one read before.\<close>

definition commit_effect :: "env \<Rightarrow> timestamp \<Rightarrow> (string \<times> never_rule) list \<Rightarrow> planned_outcome \<Rightarrow>
    (uuid \<times> memory_unit) list \<Rightarrow> (uuid \<times> memory_unit) list op" where
  "commit_effect \<epsilon> ts rules p snaps = (let e = pl_event p; i = ev_memory_id e in
     case (pl_desired p, map_of snaps i) of
       (None, _) \<Rightarrow> ret snaps
     | (Some d, None) \<Rightarrow> raise (DecisionState ''memory does not exist'')
     | (Some d, Some u) \<Rightarrow>
         bnd (lift (commit_head_changes \<epsilon> u d ts (map_of rules (ev_scorer_version e)))) (\<lambda>changes.
         bnd (mint \<epsilon>) (\<lambda>uid.
         bnd (cas_update_memory_unit \<epsilon>
                \<lparr>cu_memory_id = i, cu_expected_revision = mu_revision u, cu_rev_uid = uid,
                 cu_editor = ''system:inject'', cu_origin_machine_id = ev_machine_id e,
                 cu_reason = ''inject/commit:'' @ outcome_name d, cu_changes = changes\<rparr>) (\<lambda>v.
         ret (AList.update i v snaps)))))"

definition effective_event :: "planned_outcome \<Rightarrow> injection_event" where
  "effective_event p = (if pl_is_new p then (pl_event p)\<lparr>ev_outcome := pl_desired p\<rparr> else pl_event p)"

definition is_positive :: "injection_event \<Rightarrow> bool" where
  "is_positive e = (case ev_outcome e of None \<Rightarrow> False | Some x \<Rightarrow> x \<in> set positive_outcomes)"

definition wrong_ids :: "commit_command \<Rightarrow> uuid list" where
  "wrong_ids c = map rd_memory_id (filter (\<lambda>d. rd_reason d = Wrong) (cc_removed c))"

definition commit_planned :: "env \<Rightarrow> commit_command \<Rightarrow> planned_outcome list \<Rightarrow> commit_response op" where
  "commit_planned \<epsilon> c planned =
     (let new = filter (\<lambda>p. pl_is_new p \<and> pl_desired p \<noteq> None) planned;
          effects = sort_key (\<lambda>p. ev_memory_id (pl_event p)) (filter (\<lambda>p. has_effect (pl_desired p)) new)
      in
      bnd (load_never_rules \<epsilon> (remdups (map (\<lambda>p. ev_scorer_version (pl_event p))
             (filter (\<lambda>p. pl_desired p = Some (Removed Never)) new)))) (\<lambda>rules.
      bnd (gets (\<lambda>s. map (\<lambda>u. (mu_id u, u)) (filter (\<lambda>u. mu_id u \<in>
             set (map (\<lambda>p. ev_memory_id (pl_event p)) effects) \<union> set (wrong_ids c)) (memory_units s)))) (\<lambda>heads.
      bnd (clock_timestamp \<epsilon>) (\<lambda>ts.
      bnd (foldM (commit_effect \<epsilon> ts rules) effects heads) (\<lambda>snaps.
      sqn (iterM (\<lambda>p. write_outcome (ev_id (pl_event p)) None (the (pl_desired p))) new)
     (bnd (mapM (\<lambda>p. case map_of snaps (ev_memory_id (pl_event p)) of
                    None \<Rightarrow> raise (DecisionState ''memory does not exist'')
                  | Some u \<Rightarrow> ret u)
             (sort_key (\<lambda>p. (ev_rank (pl_event p), ev_memory_id (pl_event p)))
                (filter (\<lambda>p. pl_desired p = Some (Removed Wrong)) planned))) (\<lambda>wrong.
      bnd (lift (render_final_block (map render_row (filter is_positive (map effective_event planned))))) (\<lambda>block.
      ret \<lparr>cr_final_block = block, cr_wrong_removed = wrong\<rparr>))))))))"

definition commit :: "env \<Rightarrow> commit_command \<Rightarrow> commit_response op" where
  "commit \<epsilon> c = transaction \<epsilon>
     (bnd (gets (\<lambda>s. load_batch s (cc_injection_id c))) (\<lambda>events.
      if events = [] then
        sqn (raise_if (cc_removed c \<noteq> [] \<or> cc_added_back c \<noteq> []) InjectionNotFound)
       (bnd (lift (render_final_block [])) (\<lambda>block. ret \<lparr>cr_final_block = block, cr_wrong_removed = []\<rparr>))
      else
        bnd (lift (plan_commit events c)) (\<lambda>planned.
        commit_planned \<epsilon> c planned)))"

section \<open>Feedback\<close>

definition feedback_allowed :: "feedback_signal \<Rightarrow> injection_event \<Rightarrow> bool" where
  "feedback_allowed sig e \<longleftrightarrow> (case sig of
       Signal_added \<Rightarrow> ev_outcome e = Some Mid_thread_removed \<or> (ev_outcome e = None \<and> ev_shown_as e = Near_miss)
     | Signal_removed \<Rightarrow> ev_outcome e \<in> Some ` {Kept, Added_back, Auto_entered, Mid_thread_added}
     | Signal_cited \<Rightarrow> ev_outcome e \<in> Some ` {Kept, Added_back, Auto_entered})"

definition feedback_event :: "uuid \<Rightarrow> uuid \<Rightarrow> injection_event op" where
  "feedback_event injection mem =
     bnd (gets (\<lambda>s. filter (\<lambda>e. ev_injection_id e = injection \<and> ev_memory_id e = mem) (injection_events s))) (\<lambda>rows.
     case rows of
       [] \<Rightarrow> raise InjectionNotFound
     | e # rest \<Rightarrow> if rest = [] then ret e else raise (DecisionState ''feedback membership is not unique''))"

definition feedback_stat :: "feedback_signal \<Rightarrow> string option" where
  "feedback_stat sig = (case sig of Signal_removed \<Rightarrow> Some ''removals'' | Signal_cited \<Rightarrow> Some ''citations''
     | Signal_added \<Rightarrow> None)"

definition feedback_head :: "env \<Rightarrow> injection_event \<Rightarrow> feedback_signal \<Rightarrow> string \<Rightarrow> unit op" where
  "feedback_head \<epsilon> e sig stat =
     bnd (gets (\<lambda>s. unit_by_id s (ev_memory_id e))) (\<lambda>row.
     case row of
       None \<Rightarrow> raise (DecisionState ''memory does not exist'')
     | Some u \<Rightarrow>
         bnd (lift (increment_stat (mu_stats u) stat)) (\<lambda>stats.
         bnd (mint \<epsilon>) (\<lambda>uid.
         sqn (cas_update_memory_unit \<epsilon>
                \<lparr>cu_memory_id = ev_memory_id e, cu_expected_revision = mu_revision u, cu_rev_uid = uid,
                 cu_editor = ''system:feedback'', cu_origin_machine_id = ev_machine_id e,
                 cu_reason = ''feedback/'' @ outcome_name (signal_outcome sig),
                 cu_changes = no_changes\<lparr>ch_stats := Some stats\<rparr>\<rparr>)
             (ret ()))))"

definition feedback :: "env \<Rightarrow> feedback_command \<Rightarrow> unit op" where
  "feedback \<epsilon> c = transaction \<epsilon>
     (bnd (feedback_event (fc_injection_id c) (fc_memory_id c)) (\<lambda>e.
      if ev_outcome e = Some (signal_outcome (fc_signal c)) then ret ()
      else
        sqn (raise_if (\<not> feedback_allowed (fc_signal c) e) OutcomeConflict)
       (sqn (case feedback_stat (fc_signal c) of None \<Rightarrow> ret () | Some stat \<Rightarrow> feedback_head \<epsilon> e (fc_signal c) stat)
            (write_outcome (ev_id e) (ev_outcome e) (signal_outcome (fc_signal c))))))"

section \<open>Restoring a thread\<close>

record memory_allocation =
  ma_memory_context_share :: rat
  ma_share_tokens :: int
  ma_regular_tokens :: int
  ma_pinned_tokens :: int
  ma_total_tokens :: int
  ma_pinned_overflow_tokens :: int

text \<open>What pydantic makes of a card's label, body, pin and features, and of an allocation, is a parameter;
  \<open>None\<close> is its \<open>ValidationError\<close>.\<close>

record 'f card_validators =
  validate_card :: "json \<times> json \<times> json \<times> dict \<Rightarrow> (string \<times> string \<times> bool \<times> 'f) option"
  validate_allocation :: "dict \<Rightarrow> memory_allocation option"

record 'f restored_card =
  rc_event :: injection_event
  rc_payload :: "string \<times> string \<times> bool \<times> 'f"

record 'f restored_injection =
  ri_injection_id :: uuid
  ri_snapshot_ts :: timestamp
  ri_scorer_version :: string
  ri_injected :: "'f restored_card list"
  ri_near_misses :: "'f restored_card list"
  ri_final_block :: "string option"
  ri_allocation :: memory_allocation
  ri_confirmed :: "uuid list"
  ri_excluded :: "uuid list"
  ri_event_sources :: "(uuid \<times> uuid) list"
  ri_pending :: bool

definition restore_positive :: "outcome option \<Rightarrow> bool" where
  "restore_positive x \<longleftrightarrow> x \<in> Some ` {Kept, Added_back, Cited, Auto_entered, Mid_thread_added}"

definition is_removal :: "outcome option \<Rightarrow> bool" where
  "is_removal x = (case x of Some Mid_thread_removed \<Rightarrow> True | Some (Removed r) \<Rightarrow> True | _ \<Rightarrow> False)"

record restore_state =
  rs_latest :: "(uuid \<times> injection_event) list"
  rs_confirmed :: "uuid list"
  rs_excluded :: "uuid list"

definition restore_step :: "injection_event \<Rightarrow> restore_state \<Rightarrow> restore_state" where
  "restore_step e st = (let i = ev_memory_id e; st = st\<lparr>rs_latest := AList.update i e (rs_latest st)\<rparr> in
     if is_removal (ev_outcome e)
     then st\<lparr>rs_excluded := List.insert i (rs_excluded st), rs_confirmed := removeAll i (rs_confirmed st)\<rparr>
     else if ev_outcome e = Some Mid_thread_added \<or> (ev_actor_class e = Human \<and> restore_positive (ev_outcome e))
     then st\<lparr>rs_confirmed := List.insert i (rs_confirmed st), rs_excluded := removeAll i (rs_excluded st)\<rparr>
     else st)"

definition restore_fold :: "injection_event list \<Rightarrow> restore_state" where
  "restore_fold events = fold restore_step events \<lparr>rs_latest = [], rs_confirmed = [], rs_excluded = []\<rparr>"

definition undecided :: "injection_event \<Rightarrow> bool" where
  "undecided e \<longleftrightarrow> ev_outcome e = None \<and> (ev_shown_as e = Injected \<or> ev_shown_as e = Pinned)"

definition restore_pending :: "restore_state \<Rightarrow> bool" where
  "restore_pending st \<longleftrightarrow> list_ex undecided (map snd (rs_latest st))"

definition restore_selected :: "restore_state \<Rightarrow> injection_event list" where
  "restore_selected st = filter (\<lambda>e. ev_memory_id e \<notin> set (rs_excluded st) \<and>
     (restore_positive (ev_outcome e) \<or> (restore_pending st \<and> undecided e))) (map snd (rs_latest st))"

definition restore_near :: "restore_state \<Rightarrow> injection_event list" where
  "restore_near st = filter (\<lambda>e. ev_shown_as e = Near_miss \<and> \<not> restore_positive (ev_outcome e) \<and>
     ev_memory_id e \<notin> set (rs_excluded st)) (map snd (rs_latest st))"

definition key_of :: "dict \<Rightarrow> string \<Rightarrow> err + json" where
  "key_of d k = (case dget d k of None \<Rightarrow> Inl (KeyError k) | Some j \<Rightarrow> Inr j)"

definition as_object :: "json \<Rightarrow> err + dict" where
  "as_object j = (case j of JObj d \<Rightarrow> Inr d | _ \<Rightarrow> Inl (TypeError ''object''))"

definition restore_card :: "'f card_validators \<Rightarrow> injection_event \<Rightarrow> err + 'f restored_card" where
  "restore_card V e =
     sbind (key_of (ev_features e) ''_memory'') (\<lambda>j.
     sbind (as_object j) (\<lambda>frozen.
     sbind (key_of frozen ''label'') (\<lambda>l.
     sbind (key_of frozen ''body'') (\<lambda>b.
     sbind (key_of frozen ''pin'') (\<lambda>p.
     case validate_card V (l, b, p, filter (\<lambda>(k, _). \<not> startswith k ''_'') (ev_features e)) of
       None \<Rightarrow> Inl (ValueError ''card'')
     | Some payload \<Rightarrow> Inr \<lparr>rc_event = e, rc_payload = payload\<rparr>)))))"

definition restore_allocation :: "env \<Rightarrow> 'f card_validators \<Rightarrow> injection_event list \<Rightarrow> err + memory_allocation" where
  "restore_allocation \<epsilon> V events =
     sbind (if events = [] then Inr [(''memory_context_share'', JFloat (fl64 \<epsilon> (1/10))), (''share_tokens'', JInt 0),
              (''regular_tokens'', JInt 0), (''pinned_tokens'', JInt 0), (''total_tokens'', JInt 0),
              (''pinned_overflow_tokens'', JInt 0)]
            else sbind (key_of (ev_features (last events)) ''_prepare'') (\<lambda>j.
              case j of JObj d \<Rightarrow> Inr d | _ \<Rightarrow> Inl (AttributeError ''items''))) (\<lambda>allocation.
     case validate_allocation V (filter (\<lambda>(k, _). k \<noteq> ''model_context_tokens'') allocation) of
       None \<Rightarrow> Inl (ValueError ''allocation'')
     | Some a \<Rightarrow> Inr a)"

definition restore :: "env \<Rightarrow> 'f card_validators \<Rightarrow> uuid \<Rightarrow> string \<Rightarrow> 'f restored_injection option op" where
  "restore \<epsilon> V thread prin =
     bnd (gets (\<lambda>s. find (\<lambda>h. th_id h = thread \<and> th_principal_id h = prin \<and> th_snapshot_ts h \<noteq> None) (threads s))) (\<lambda>row.
     case row of
       None \<Rightarrow> ret None
     | Some h \<Rightarrow>
         bnd (gets (\<lambda>s. sort_key (\<lambda>e. (ev_ts e, ev_id e)) (filter (\<lambda>e. ev_thread_id e = thread \<and>
                ev_principal_id e = prin) (injection_events s)))) (\<lambda>events.
         let st = restore_fold events; pending = restore_pending st; selected = restore_selected st in
         bnd (lift (smap (restore_card V) selected)) (\<lambda>injected.
         bnd (lift (smap (restore_card V) (restore_near st))) (\<lambda>near.
         bnd (lift (if pending then Inr None
                    else sbind (render_final_block (map render_row selected)) (\<lambda>b. Inr (Some b)))) (\<lambda>block.
         bnd (lift (restore_allocation \<epsilon> V events)) (\<lambda>allocation.
         ret (Some \<lparr>ri_injection_id = (if events = [] then thread else ev_injection_id (last events)),
            ri_snapshot_ts = the (th_snapshot_ts h),
            ri_scorer_version = (if events = [] then ''empty'' else ev_scorer_version (last events)),
            ri_injected = injected, ri_near_misses = near, ri_final_block = block, ri_allocation = allocation,
            ri_confirmed = sort (rs_confirmed st), ri_excluded = sort (rs_excluded st),
            ri_event_sources = map (\<lambda>(i, e). (i, ev_injection_id e)) (rs_latest st), ri_pending = pending\<rparr>)))))))"

section \<open>Every decision is a safe step\<close>

lemma map_uid_write [simp]:
  "map (ev_event_uid \<circ> (\<lambda>e. if P e then e\<lparr>ev_outcome := x\<rparr> else e)) es = map ev_event_uid es"
  by (induction es) auto

lemma safe_write_outcome: "safe.steps (write_outcome i x d)"
  by (rule safe.stepsI, rule safe_same)
    (auto simp: write_outcome_def act_defs append_only_def event_kept_def intro!: grown_map split: if_splits)

lemma safe_commit_effect: "safe.steps (commit_effect \<epsilon> ts rules p snaps)"
  unfolding commit_effect_def Let_def
  by (auto split: option.splits intro!: safe.steps_rules safe_mint safe_cas)

lemma safe_commit: "safe.steps (commit \<epsilon> c)"
  unfolding commit_def commit_planned_def load_never_rules_def Let_def
  by (intro safe_transaction safe.steps_oks safe.steps_rules safe_clock safe_commit_effect safe_write_outcome)

lemma safe_feedback: "safe.steps (feedback \<epsilon> c)"
  unfolding feedback_def feedback_event_def feedback_head_def
  by (intro safe_transaction safe.steps_oks safe.steps_rules safe_mint safe_cas safe_write_outcome)

lemma restore_pure: "snd (restore \<epsilon> V th p s) = s"
proof -
  have "keep.steps (restore \<epsilon> V th p)"
    unfolding restore_def Let_def by (intro keep.steps_rules)
  then show ?thesis by (auto simp: keep.steps_def)
qed

section \<open>What a plan says\<close>

text \<open>The plan of an event that passes its checks.\<close>

definition planned_of :: "commit_command \<Rightarrow> injection_event \<Rightarrow> planned_outcome" where
  "planned_of c e = \<lparr>pl_event = e, pl_desired = desired_outcome c e,
     pl_is_new = (ev_outcome e = None \<and> desired_outcome c e \<noteq> None)\<rparr>"

definition plan_fits :: "commit_command \<Rightarrow> injection_event \<Rightarrow> bool" where
  "plan_fits c e \<longleftrightarrow> (case (desired_outcome c e, ev_outcome e) of
       (None, cur) \<Rightarrow> cur = None
     | (Some d, None) \<Rightarrow> True
     | (Some d, Some cur) \<Rightarrow> cur = d \<or> is_feedback_descendant e cur d)"

lemma plan_event_Inr: "plan_event c e = Inr p \<longleftrightarrow> p = planned_of c e \<and> plan_fits c e"
  by (auto simp: plan_event_def planned_of_def plan_fits_def split: option.splits)

definition choices_ok :: "injection_event list \<Rightarrow> commit_command \<Rightarrow> bool" where
  "choices_ok gate c \<longleftrightarrow> distinct (map rd_memory_id (cc_removed c)) \<and> distinct (cc_added_back c) \<and>
     rd_memory_id ` set (cc_removed c) \<inter> set (cc_added_back c) = {} \<and>
     list_all (removable gate) (cc_removed c) \<and> list_all (addable gate) (cc_added_back c)"

lemma plan_commit_Inr:
  "plan_commit events c = Inr planned \<longleftrightarrow>
     planned = map (planned_of c) (filter in_gate events) \<and> distinct (map ev_memory_id (filter in_gate events)) \<and>
     choices_ok (filter in_gate events) c \<and> (\<forall>e \<in> set (filter in_gate events). plan_fits c e)"
proof -
  have "smap (plan_event c) xs = Inr planned \<longleftrightarrow>
      planned = map (planned_of c) xs \<and> (\<forall>e \<in> set xs. plan_fits c e)" for xs
  proof (induction xs arbitrary: planned)
    case (Cons e xs)
    then show ?case by (auto simp: plan_event_Inr)
  qed auto
  then show ?thesis by (auto simp: plan_commit_def Let_def choices_ok_def)
qed

section \<open>Writing the outcomes\<close>

definition outcome_written :: "planned_outcome \<Rightarrow> injection_event \<Rightarrow> injection_event" where
  "outcome_written p e = (if ev_id e = ev_id (pl_event p) \<and> ev_outcome e = None
     then e\<lparr>ev_outcome := Some (the (pl_desired p))\<rparr> else e)"

lemma write_outcome_Inr:
  "write_outcome i x d s = (Inr y, t) \<longleftrightarrow>
     length (filter (\<lambda>e. ev_id e = i \<and> ev_outcome e = x) (injection_events s)) = 1 \<and>
     t = s\<lparr>injection_events := map (\<lambda>e. if ev_id e = i \<and> ev_outcome e = x then e\<lparr>ev_outcome := Some d\<rparr> else e)
       (injection_events s)\<rparr>"
  by (auto simp: write_outcome_def act_iff)

lemma write_outcomes:
  "iterM (\<lambda>p. write_outcome (ev_id (pl_event p)) None (the (pl_desired p))) ps s = (Inr y, t) \<Longrightarrow>
     t = s\<lparr>injection_events := map (fold outcome_written ps) (injection_events s)\<rparr>"
proof (induction ps arbitrary: s)
  case Nil
  then show ?case by (simp add: act_iff)
next
  case (Cons p ps)
  then obtain u where u: "u = s\<lparr>injection_events := map (outcome_written p) (injection_events s)\<rparr>"
    and "iterM (\<lambda>p. write_outcome (ev_id (pl_event p)) None (the (pl_desired p))) ps u = (Inr y, t)"
    by (auto simp: act_iff write_outcome_Inr outcome_written_def [abs_def])
  from Cons.IH [OF this(2)] show ?case by (simp add: u comp_def)
qed

lemma fold_outcome_written:
  "fold outcome_written ps e = (if ev_outcome e \<noteq> None then e else
     case find (\<lambda>p. ev_id e = ev_id (pl_event p)) ps of
       None \<Rightarrow> e | Some p \<Rightarrow> e\<lparr>ev_outcome := Some (the (pl_desired p))\<rparr>)"
  by (induction ps arbitrary: e) (auto simp: outcome_written_def split: option.splits)

text \<open>What a commit makes of an event.\<close>

definition committed :: "commit_command \<Rightarrow> injection_event \<Rightarrow> injection_event" where
  "committed c e = (if ev_injection_id e = cc_injection_id c \<and> in_gate e \<and> ev_outcome e = None
     then e\<lparr>ev_outcome := desired_outcome c e\<rparr> else e)"

lemma fold_committed:
  assumes "distinct (map ev_id (injection_events s))" and e: "e \<in> set (injection_events s)"
  shows "fold outcome_written (filter (\<lambda>p. pl_is_new p \<and> pl_desired p \<noteq> None)
       (map (planned_of c) (filter in_gate (load_batch s (cc_injection_id c))))) e = committed c e"
    (is "fold outcome_written ?new e = _")
proof -
  have same: "f = e" if "f \<in> set (injection_events s)" "ev_id f = ev_id e" for f
    using assms that by (metis distinct_map inj_onD)
  have new: "p \<in> set ?new \<longleftrightarrow> (\<exists>f \<in> set (injection_events s). p = planned_of c f \<and> in_gate f \<and>
      ev_injection_id f = cc_injection_id c \<and> ev_outcome f = None \<and> desired_outcome c f \<noteq> None)" for p
    by (auto simp: load_batch_def planned_of_def)
  note written = fold_outcome_written [of ?new e]
  show ?thesis
  proof (cases "find (\<lambda>p. ev_id e = ev_id (pl_event p)) ?new")
    case None
    then have "planned_of c e \<notin> set ?new" by (auto simp: find_None_iff planned_of_def)
    then have "\<not> (in_gate e \<and> ev_injection_id e = cc_injection_id c \<and> ev_outcome e = None \<and> desired_outcome c e \<noteq> None)"
      unfolding new using e by blast
    then have "committed c e = e" by (cases e) (auto simp: committed_def)
    with written None show ?thesis by (simp only: option.case if_cancel)
  next
    case (Some p)
    then have p: "p \<in> set ?new" "ev_id e = ev_id (pl_event p)" by (auto dest: find_Some_set)
    with same have pe: "p = planned_of c e" "in_gate e" "ev_injection_id e = cc_injection_id c" "ev_outcome e = None"
        "desired_outcome c e \<noteq> None"
      unfolding new by (auto simp: planned_of_def)
    from written Some pe(4) have "fold outcome_written ?new e = e\<lparr>ev_outcome := Some (the (pl_desired p))\<rparr>"
      by (simp only: option.case not_True_eq_False if_False simp_thms)
    with pe show ?thesis by (auto simp: committed_def planned_of_def)
  qed
qed

section \<open>Updating the heads\<close>

definition snaps_ok :: "uuid set \<Rightarrow> (uuid \<times> memory_unit) list \<Rightarrow> db \<Rightarrow> bool" where
  "snaps_ok K snaps s \<longleftrightarrow> (\<forall>i. map_of snaps i = (if i \<in> K then unit_by_id s i else None))"

text \<open>The head a commit leaves for a memory whose event has an effect.\<close>

definition effect_changes :: "env \<Rightarrow> commit_command \<Rightarrow> timestamp \<Rightarrow> (string \<times> never_rule) list \<Rightarrow> injection_event \<Rightarrow>
    memory_unit \<Rightarrow> err + memory_unit_changes" where
  "effect_changes \<epsilon> c ts rules e u = commit_head_changes \<epsilon> u (the (desired_outcome c e)) ts (map_of rules (ev_scorer_version e))"

lemma commit_effect_Inr:
  assumes run: "commit_effect \<epsilon> ts rules (planned_of c e) snaps s = (Inr snaps', t)"
    and d: "desired_outcome c e \<noteq> None" and ok: "lineage_ok s" and snaps: "snaps_ok K snaps s"
  obtains u ch where
    "unit_by_id s (ev_memory_id e) = Some u" "effect_changes \<epsilon> c ts rules e u = Inr ch"
    "\<forall>j. unit_by_id t j = (if j = ev_memory_id e then Some (bumped_head \<epsilon> ch (txn_now s) u) else unit_by_id s j)"
    "snaps_ok K snaps' t" "lineage_ok t" "injection_events t = injection_events s" "txn_now t = txn_now s"
proof -
  let ?i = "ev_memory_id e"
  from d obtain d' where d': "desired_outcome c e = Some d'" by blast
  from run d' obtain u where m: "map_of snaps ?i = Some u"
    by (auto simp: commit_effect_def planned_of_def Let_def act_iff split: option.splits)
  define w where w: "w = s\<lparr>readings := Suc (readings s)\<rparr>"
  from run d' m obtain ch cu v where ch: "effect_changes \<epsilon> c ts rules e u = Inr ch"
    and snaps': "snaps' = AList.update ?i v snaps" and cas: "cas_update_memory_unit \<epsilon> cu w = (Inr v, t)"
    and cu: "cu_memory_id cu = ?i" "cu_changes cu = ch"
    by (simp add: commit_effect_def planned_of_def Let_def effect_changes_def act_iff mint_Inr w [symmetric])
      (metis cas_update.select_convs)
  from m snaps have K: "?i \<in> K" and u: "unit_by_id s ?i = Some u" by (auto simp: snaps_ok_def split: if_splits)
  have ok': "lineage_ok w" using ok by (simp add: w lineage_ok_def head_lineage_def revisions_at_def)
  have u': "unit_by_id w ?i = Some u" using u by (simp add: w unit_by_id_def)
  note eff = cas_effect [OF cas ok', unfolded cu, OF u']
  have look: "unit_by_id t j = (if j = ?i then Some (bumped_head \<epsilon> ch (txn_now s) u) else unit_by_id s j)" for j
    using eff(1,2) by (simp add: w unit_by_id_def)
  show ?thesis
  proof (rule that [OF u ch])
    show "\<forall>j. unit_by_id t j = (if j = ?i then Some (bumped_head \<epsilon> ch (txn_now s) u) else unit_by_id s j)"
      using look by blast
    show "snaps_ok K snaps' t"
      using snaps K eff(1) unfolding snaps_ok_def snaps' by (auto simp: update_conv' look w)
    show "lineage_ok t" using eff by simp
    show "injection_events t = injection_events s" "txn_now t = txn_now s"
      using cas_frame [OF cas] by (simp_all add: w)
  qed
qed

lemma commit_effects:
  assumes "foldM (commit_effect \<epsilon> ts rules) (map (planned_of c) es) snaps s = (Inr snaps', t)"
    and "\<forall>e \<in> set es. desired_outcome c e \<noteq> None" and "distinct (map ev_memory_id es)"
    and "lineage_ok s" and "snaps_ok K snaps s"
  shows "snaps_ok K snaps' t \<and> lineage_ok t \<and> injection_events t = injection_events s \<and> txn_now t = txn_now s \<and>
    (\<forall>j. j \<notin> ev_memory_id ` set es \<longrightarrow> unit_by_id t j = unit_by_id s j) \<and>
    (\<forall>e \<in> set es. \<exists>u ch. unit_by_id s (ev_memory_id e) = Some u \<and> effect_changes \<epsilon> c ts rules e u = Inr ch \<and>
       unit_by_id t (ev_memory_id e) = Some (bumped_head \<epsilon> ch (txn_now s) u))"
  using assms
proof (induction es arbitrary: snaps s)
  case Nil
  then show ?case by (simp add: act_iff)
next
  case (Cons e es)
  from Cons.prems(1) obtain sn w where
    run: "commit_effect \<epsilon> ts rules (planned_of c e) snaps s = (Inr sn, w)"
    and rest: "foldM (commit_effect \<epsilon> ts rules) (map (planned_of c) es) sn w = (Inr snaps', t)"
    by (auto simp: act_iff)
  from Cons.prems(2) have d: "desired_outcome c e \<noteq> None" by simp
  from commit_effect_Inr [OF run d Cons.prems(4,5)] obtain u ch where
    u: "unit_by_id s (ev_memory_id e) = Some u" "effect_changes \<epsilon> c ts rules e u = Inr ch"
    and look: "\<forall>j. unit_by_id w j = (if j = ev_memory_id e then Some (bumped_head \<epsilon> ch (txn_now s) u) else unit_by_id s j)"
    and w: "snaps_ok K sn w" "lineage_ok w" "injection_events w = injection_events s" "txn_now w = txn_now s"
    by metis
  from Cons.prems(2,3) have ds: "\<forall>e \<in> set es. desired_outcome c e \<noteq> None" "distinct (map ev_memory_id es)"
    and e: "ev_memory_id e \<notin> ev_memory_id ` set es" by auto
  note IH = Cons.IH [OF rest ds w(2,1)]
  have "\<exists>u ch. unit_by_id s (ev_memory_id f) = Some u \<and> effect_changes \<epsilon> c ts rules f u = Inr ch \<and>
       unit_by_id t (ev_memory_id f) = Some (bumped_head \<epsilon> ch (txn_now s) u)" if "f \<in> set (e # es)" for f
  proof (cases "f = e")
    case True
    with IH u look e show ?thesis by simp
  next
    case False
    with that have f: "f \<in> set es" by simp
    with e have "ev_memory_id f \<noteq> ev_memory_id e" by (metis image_eqI)
    with IH f look w(4) show ?thesis by auto
  qed
  with IH look w(3,4) show ?case by auto
qed

lemma snaps_ok_load:
  "snaps_ok K (map (\<lambda>u. (mu_id u, u)) (filter (\<lambda>u. mu_id u \<in> K) (memory_units s))) s"
proof -
  have "map_of (map (\<lambda>u. (mu_id u, u)) (filter (\<lambda>u. mu_id u \<in> K) us)) i =
      (if i \<in> K then find (\<lambda>u. mu_id u = i) us else None)" for us :: "memory_unit list" and i
    by (induction us) auto
  then show ?thesis by (simp add: snaps_ok_def unit_by_id_def)
qed

section \<open>What a successful commit does\<close>

text \<open>The events with an effect on their heads, in the order of the memories.\<close>

definition commit_effects_of :: "db \<Rightarrow> commit_command \<Rightarrow> injection_event list" where
  "commit_effects_of s c = sort_key ev_memory_id (filter (\<lambda>e. in_gate e \<and> ev_outcome e = None \<and> has_effect (desired_outcome c e))
     (load_batch s (cc_injection_id c)))"

definition gate_of :: "db \<Rightarrow> commit_command \<Rightarrow> injection_event list" where
  "gate_of s c = filter in_gate (load_batch s (cc_injection_id c))"

lemma sort_key_map: "sort_key k (map f xs) = map f (sort_key (\<lambda>x. k (f x)) xs)"
proof (induction xs)
  case (Cons x xs)
  have "insort_key k (f x) (map f ys) = map f (insort_key (\<lambda>x. k (f x)) x ys)" for ys
    by (induction ys) auto
  with Cons show ?case by simp
qed simp

lemma has_effect_Some: "has_effect d \<Longrightarrow> \<exists>x. d = Some x"
  by (cases d) (simp_all add: has_effect_def)

lemma planned_effects:
  "sort_key (\<lambda>p. ev_memory_id (pl_event p)) (filter (\<lambda>p. has_effect (pl_desired p))
     (filter (\<lambda>p. pl_is_new p \<and> pl_desired p \<noteq> None) (map (planned_of c) (gate_of s c)))) =
   map (planned_of c) (commit_effects_of s c)"
proof -
  have "filter (\<lambda>p. has_effect (pl_desired p)) (filter (\<lambda>p. pl_is_new p \<and> pl_desired p \<noteq> None)
      (map (planned_of c) (gate_of s c))) = map (planned_of c) (filter (\<lambda>e. in_gate e \<and> ev_outcome e = None \<and>
        has_effect (desired_outcome c e)) (load_batch s (cc_injection_id c)))"
    by (auto simp: filter_map gate_of_def comp_def planned_of_def intro!: arg_cong [where f = "map _"] filter_cong
        dest: has_effect_Some)
  then show ?thesis by (simp add: sort_key_map commit_effects_of_def comp_def) (simp add: planned_of_def)
qed

lemma gate_of_cong: "injection_events t = injection_events s \<Longrightarrow> gate_of t c = gate_of s c"
  by (simp add: gate_of_def load_batch_def)

lemma desired_wrong:
  assumes "desired_outcome c e = Some (Removed Wrong)"
  shows "ev_memory_id e \<in> set (wrong_ids c)"
proof -
  from assms have "removal_of c (ev_memory_id e) = Some Wrong"
    by (auto simp: desired_outcome_def split: if_splits option.splits)
  then show ?thesis by (force simp: removal_of_def wrong_ids_def dest!: map_of_SomeD)
qed

lemma mapM_lookup:
  "mapM (\<lambda>p. case f p of None \<Rightarrow> raise e | Some u \<Rightarrow> ret u) ps s = (Inr us, t) \<longleftrightarrow>
     t = s \<and> list_all2 (\<lambda>p u. f p = Some u) ps us"
  by (induction ps arbitrary: us) (auto simp: act_iff list_all2_Cons1)

lemma effective_planned: "e \<in> set (gate_of s c) \<Longrightarrow> effective_event (planned_of c e) = committed c e"
  by (auto simp: effective_event_def planned_of_def committed_def gate_of_def load_batch_def)

lemma commit_planned_Inr:
  assumes "commit_planned \<epsilon> c (map (planned_of c) (gate_of s c)) s = (Inr r, t)"
  obtains rules snaps u where
    "smap (never_rule_of \<epsilon> s) (remdups (map ev_scorer_version (filter (\<lambda>e. ev_outcome e = None \<and>
        desired_outcome c e = Some (Removed Never)) (gate_of s c)))) = Inr rules"
    "foldM (commit_effect \<epsilon> (clock \<epsilon> (readings s)) rules) (map (planned_of c) (commit_effects_of s c))
       (map (\<lambda>u. (mu_id u, u)) (filter (\<lambda>u. mu_id u \<in> ev_memory_id ` set (commit_effects_of s c) \<union> set (wrong_ids c))
          (memory_units s))) (s\<lparr>readings := Suc (readings s)\<rparr>) = (Inr snaps, u)"
    "t = u\<lparr>injection_events := map (fold outcome_written (filter (\<lambda>p. pl_is_new p \<and> pl_desired p \<noteq> None)
       (map (planned_of c) (gate_of s c)))) (injection_events u)\<rparr>"
    "list_all2 (\<lambda>e v. map_of snaps (ev_memory_id e) = Some v)
       (sort_key (\<lambda>e. (ev_rank e, ev_memory_id e)) (filter (\<lambda>e. desired_outcome c e = Some (Removed Wrong)) (gate_of s c)))
       (cr_wrong_removed r)"
    "render_final_block (map render_row (filter is_positive (map (committed c) (gate_of s c)))) = Inr (cr_final_block r)"
proof -
  let ?new = "filter (\<lambda>p. pl_is_new p \<and> pl_desired p \<noteq> None) (map (planned_of c) (gate_of s c))"
  have never: "map (\<lambda>p. ev_scorer_version (pl_event p)) (filter (\<lambda>p. pl_desired p = Some (Removed Never)) ?new) =
      map ev_scorer_version (filter (\<lambda>e. ev_outcome e = None \<and> desired_outcome c e = Some (Removed Never)) (gate_of s c))"
    by (auto simp: filter_map comp_def planned_of_def intro!: arg_cong [where f = "map _"] filter_cong)
  have wrong: "sort_key (\<lambda>p. (ev_rank (pl_event p), ev_memory_id (pl_event p)))
      (filter (\<lambda>p. pl_desired p = Some (Removed Wrong)) (map (planned_of c) (gate_of s c))) =
      map (planned_of c) (sort_key (\<lambda>e. (ev_rank e, ev_memory_id e))
        (filter (\<lambda>e. desired_outcome c e = Some (Removed Wrong)) (gate_of s c)))"
    by (simp add: filter_map sort_key_map comp_def) (simp add: planned_of_def)
  have block: "map effective_event (map (planned_of c) (gate_of s c)) = map (committed c) (gate_of s c)"
    by (simp add: effective_planned)
  have ids: "set (map (\<lambda>p. ev_memory_id (pl_event p)) (map (planned_of c) (commit_effects_of s c))) =
      ev_memory_id ` set (commit_effects_of s c)"
    by (simp add: image_image planned_of_def)
  show ?thesis
    using assms unfolding commit_planned_def Let_def never wrong planned_effects block ids
    by (auto simp: act_iff load_never_rules_def clock_Inr mapM_lookup list_all2_map1 planned_of_def
        intro!: that dest!: write_outcomes)
qed

lemma commit_success:
  assumes run: "commit \<epsilon> c s = (Inr r, t)" and batch: "load_batch s (cc_injection_id c) \<noteq> []"
    and ids: "distinct (map ev_id (injection_events s))" and ok: "lineage_ok s"
  obtains ts rules snaps where
    "choices_ok (gate_of s c) c" "distinct (map ev_memory_id (gate_of s c))" "\<forall>e \<in> set (gate_of s c). plan_fits c e"
    "injection_events t = map (committed c) (injection_events s)" "lineage_ok t"
    "\<forall>j. j \<notin> ev_memory_id ` set (commit_effects_of s c) \<longrightarrow> unit_by_id t j = unit_by_id s j"
    "\<forall>e \<in> set (commit_effects_of s c). \<exists>u ch. unit_by_id s (ev_memory_id e) = Some u \<and>
       effect_changes \<epsilon> c ts rules e u = Inr ch \<and>
       unit_by_id t (ev_memory_id e) = Some (bumped_head \<epsilon> ch (clock \<epsilon> (readings s)) u)"
    "render_final_block (map render_row (filter is_positive (map (committed c) (gate_of s c)))) = Inr (cr_final_block r)"
    "list_all2 (\<lambda>e u. unit_by_id t (ev_memory_id e) = Some u)
       (sort_key (\<lambda>e. (ev_rank e, ev_memory_id e)) (filter (\<lambda>e. desired_outcome c e = Some (Removed Wrong)) (gate_of s c)))
       (cr_wrong_removed r)"
    "snaps_ok (ev_memory_id ` set (commit_effects_of s c) \<union> set (wrong_ids c)) snaps t"
    "smap (never_rule_of \<epsilon> s) (remdups (map ev_scorer_version (filter (\<lambda>e. ev_outcome e = None \<and>
        desired_outcome c e = Some (Removed Never)) (gate_of s c)))) = Inr rules"
proof -
  define w where w: "w = s\<lparr>readings := Suc (readings s), txn_now := clock \<epsilon> (readings s)\<rparr>"
  have same: "injection_events w = injection_events s" "memory_units w = memory_units s"
      "scorer_configs w = scorer_configs s" "load_batch w = load_batch s"
    by (simp_all add: w load_batch_def [abs_def])
  have gate: "gate_of w c = gate_of s c" "commit_effects_of w c = commit_effects_of s c"
    by (simp_all add: gate_of_def commit_effects_of_def same)
  have rule: "never_rule_of \<epsilon> w = never_rule_of \<epsilon> s" by (simp add: fun_eq_iff never_rule_of_def same)
  have okw: "lineage_ok w" using ok by (simp add: w lineage_ok_def head_lineage_def revisions_at_def)
  from run batch obtain planned where plan: "plan_commit (load_batch s (cc_injection_id c)) c = Inr planned"
    and com: "commit_planned \<epsilon> c planned w = (Inr r, t)"
    by (auto simp: commit_def transaction_Inr act_iff w same(4) [unfolded w] dest: sym [of "Inr _"])
  from plan have planned: "planned = map (planned_of c) (gate_of s c)" "distinct (map ev_memory_id (gate_of s c))"
      "choices_ok (gate_of s c) c" "\<forall>e \<in> set (gate_of s c). plan_fits c e"
    by (simp_all add: plan_commit_Inr gate_of_def)
  let ?K = "ev_memory_id ` set (commit_effects_of s c) \<union> set (wrong_ids c)"
  from com planned(1) have "commit_planned \<epsilon> c (map (planned_of c) (gate_of w c)) w = (Inr r, t)"
    by (simp add: gate)
  then obtain rules snaps u where
    rules: "smap (never_rule_of \<epsilon> s) (remdups (map ev_scorer_version (filter (\<lambda>e. ev_outcome e = None \<and>
        desired_outcome c e = Some (Removed Never)) (gate_of s c)))) = Inr rules"
    and heads: "foldM (commit_effect \<epsilon> (clock \<epsilon> (readings w)) rules) (map (planned_of c) (commit_effects_of s c))
       (map (\<lambda>u. (mu_id u, u)) (filter (\<lambda>u. mu_id u \<in> ?K) (memory_units w))) (w\<lparr>readings := Suc (readings w)\<rparr>) = (Inr snaps, u)"
    and t: "t = u\<lparr>injection_events := map (fold outcome_written (filter (\<lambda>p. pl_is_new p \<and> pl_desired p \<noteq> None)
       (map (planned_of c) (gate_of s c)))) (injection_events u)\<rparr>"
    and wrong: "list_all2 (\<lambda>e v. map_of snaps (ev_memory_id e) = Some v)
       (sort_key (\<lambda>e. (ev_rank e, ev_memory_id e)) (filter (\<lambda>e. desired_outcome c e = Some (Removed Wrong)) (gate_of s c)))
       (cr_wrong_removed r)"
    and block: "render_final_block (map render_row (filter is_positive (map (committed c) (gate_of s c)))) = Inr (cr_final_block r)"
    by (rule commit_planned_Inr) (auto simp: gate rule)
  let ?v = "w\<lparr>readings := Suc (readings w)\<rparr>"
  have eff: "\<forall>e \<in> set (commit_effects_of s c). desired_outcome c e \<noteq> None"
    by (auto simp: commit_effects_of_def dest: has_effect_Some)
  have "distinct (map ev_memory_id (filter (\<lambda>e. in_gate e \<and> ev_outcome e = None \<and> has_effect (desired_outcome c e))
      (load_batch s (cc_injection_id c))))"
    using distinct_map_filter [OF planned(2), of "\<lambda>e. ev_outcome e = None \<and> has_effect (desired_outcome c e)"]
    by (simp add: gate_of_def conj_commute)
  then have dist: "distinct (map ev_memory_id (commit_effects_of s c))"
    unfolding commit_effects_of_def by (simp add: distinct_map)
  have okv: "lineage_ok ?v" using okw by (simp add: lineage_ok_def head_lineage_def revisions_at_def)
  have "snaps_ok ?K (map (\<lambda>u. (mu_id u, u)) (filter (\<lambda>u. mu_id u \<in> ?K) (memory_units ?v))) ?v" by (rule snaps_ok_load)
  then have load: "snaps_ok ?K (map (\<lambda>u. (mu_id u, u)) (filter (\<lambda>u. mu_id u \<in> ?K) (memory_units w))) ?v" by simp
  note E = commit_effects [OF heads eff dist okv load]
  have vs: "unit_by_id ?v = unit_by_id s" by (simp add: fun_eq_iff unit_by_id_def w)
  have now: "txn_now ?v = clock \<epsilon> (readings s)" by (simp add: w)
  have ut: "unit_by_id t = unit_by_id u" by (simp add: fun_eq_iff unit_by_id_def t)
  have wr: "set (filter (\<lambda>e. desired_outcome c e = Some (Removed Wrong)) (gate_of s c)) \<subseteq> {e. ev_memory_id e \<in> set (wrong_ids c)}"
    by (auto dest: desired_wrong)
  show ?thesis
  proof (rule that [of "clock \<epsilon> (readings w)" rules snaps])
    show "injection_events t = map (committed c) (injection_events s)"
      using fold_committed [OF ids] E by (simp add: t w gate_of_def)
    show "lineage_ok t" using E by (simp add: t lineage_ok_def head_lineage_def revisions_at_def)
    show "\<forall>j. j \<notin> ev_memory_id ` set (commit_effects_of s c) \<longrightarrow> unit_by_id t j = unit_by_id s j"
      using E by (simp add: ut vs)
    show "\<forall>e \<in> set (commit_effects_of s c). \<exists>u ch. unit_by_id s (ev_memory_id e) = Some u \<and>
       effect_changes \<epsilon> c (clock \<epsilon> (readings w)) rules e u = Inr ch \<and>
       unit_by_id t (ev_memory_id e) = Some (bumped_head \<epsilon> ch (clock \<epsilon> (readings s)) u)"
      using E unfolding ut vs now by blast
    show S: "snaps_ok ?K snaps t" using E by (simp add: snaps_ok_def ut)
    show "list_all2 (\<lambda>e u. unit_by_id t (ev_memory_id e) = Some u)
       (sort_key (\<lambda>e. (ev_rank e, ev_memory_id e)) (filter (\<lambda>e. desired_outcome c e = Some (Removed Wrong)) (gate_of s c)))
       (cr_wrong_removed r)"
      using wrong by (rule list_all2_mono) (use S in \<open>auto simp: snaps_ok_def split: if_splits\<close>)
  qed (use planned rules block in simp_all)
qed

definition events_ok :: "db \<Rightarrow> bool" where
  "events_ok s \<longleftrightarrow> distinct (map ev_id (injection_events s))"

lemma committed_sel [simp]:
  "ev_id (committed c e) = ev_id e" "ev_memory_id (committed c e) = ev_memory_id e"
  "ev_rank (committed c e) = ev_rank e" "ev_injection_id (committed c e) = ev_injection_id e"
  "ev_shown_as (committed c e) = ev_shown_as e" "in_gate (committed c e) = in_gate e"
  "desired_outcome c (committed c e) = desired_outcome c e"
  by (auto simp: committed_def in_gate_def desired_outcome_def)

lemma committed_idem [simp]: "committed c (committed c e) = committed c e"
  by (auto simp: committed_def in_gate_def desired_outcome_def)

lemma load_batch_committed:
  assumes "injection_events t = map (committed c) (injection_events s)"
  shows "load_batch t i = map (committed c) (load_batch s i)"
  using assms by (simp add: load_batch_def filter_map sort_key_map comp_def)

lemma gate_of_committed:
  assumes "injection_events t = map (committed c) (injection_events s)"
  shows "gate_of t c = map (committed c) (gate_of s c)"
  using load_batch_committed [OF assms] by (simp add: gate_of_def filter_map comp_def)

lemma gate_member_committed: "gate_member (map (committed c) gate) i = map_option (committed c) (gate_member gate i)"
  by (induction gate) (auto simp: gate_member_def)

lemma choices_ok_committed: "choices_ok (map (committed c) gate) c = choices_ok gate c"
proof -
  have "removable (map (committed c) gate) = removable gate" "addable (map (committed c) gate) = addable gate"
    by (auto simp: fun_eq_iff removable_def addable_def gate_member_committed split: option.splits)
  then show ?thesis by (simp add: choices_ok_def)
qed

lemma committed_outcome:
  "ev_outcome (committed c e) = (if ev_injection_id e = cc_injection_id c \<and> in_gate e \<and> ev_outcome e = None
     then desired_outcome c e else ev_outcome e)"
  by (simp add: committed_def)

lemma plan_fits_committed: "plan_fits c e \<Longrightarrow> plan_fits c (committed c e)"
  by (cases "desired_outcome c e"; cases "ev_outcome e")
    (simp_all add: plan_fits_def committed_outcome is_feedback_descendant_def)

lemma sort_key_Nil [simp]: "sort_key k xs = [] \<longleftrightarrow> xs = []"
  by (metis length_0_conv length_sort)

lemma commit_no_batch:
  assumes "load_batch s (cc_injection_id c) = []" and "commit \<epsilon> c s = (Inr r, t)"
  shows "t = s\<lparr>readings := Suc (readings s), txn_now := clock \<epsilon> (readings s)\<rparr> \<and>
     injection_events t = map (committed c) (injection_events s)"
proof -
  have "\<forall>e \<in> set (injection_events s). ev_injection_id e \<noteq> cc_injection_id c"
    using assms(1) by (simp add: load_batch_def filter_empty_conv)
  then have "map (committed c) (injection_events s) = injection_events s"
    by (intro map_idI) (simp add: committed_def)
  with assms show ?thesis by (clarsimp simp: commit_def transaction_Inr act_iff load_batch_def)
qed

text \<open>A replay: every gate event already has its outcome, so nothing is new.\<close>

lemma commit_planned_replay:
  assumes old: "\<forall>e \<in> set (gate_of t c). ev_outcome e \<noteq> None \<or> desired_outcome c e = None"
    and wrong: "list_all2 (\<lambda>e u. unit_by_id t (ev_memory_id e) = Some u)
       (sort_key (\<lambda>e. (ev_rank e, ev_memory_id e)) (filter (\<lambda>e. desired_outcome c e = Some (Removed Wrong)) (gate_of t c)))
       (cr_wrong_removed r)"
    and block: "render_final_block (map render_row (filter is_positive (gate_of t c))) = Inr (cr_final_block r)"
  shows "commit_planned \<epsilon> c (map (planned_of c) (gate_of t c)) t = (Inr r, t\<lparr>readings := Suc (readings t)\<rparr>)"
proof -
  let ?w = "t\<lparr>readings := Suc (readings t)\<rparr>"
  have new: "filter (\<lambda>p. pl_is_new p \<and> pl_desired p \<noteq> None) (map (planned_of c) (gate_of t c)) = []"
    using old by (auto simp: filter_empty_conv planned_of_def)
  have eff: "map effective_event (map (planned_of c) (gate_of t c)) = gate_of t c"
    using old by (auto simp: effective_event_def planned_of_def intro!: map_idI)
  have rank: "sort_key (\<lambda>p. (ev_rank (pl_event p), ev_memory_id (pl_event p)))
      (filter (\<lambda>p. pl_desired p = Some (Removed Wrong)) (map (planned_of c) (gate_of t c))) =
      map (planned_of c) (sort_key (\<lambda>e. (ev_rank e, ev_memory_id e))
        (filter (\<lambda>e. desired_outcome c e = Some (Removed Wrong)) (gate_of t c)))"
    by (simp add: filter_map sort_key_map comp_def) (simp add: planned_of_def)
  let ?heads = "map (\<lambda>u. (mu_id u, u)) (filter (\<lambda>u. mu_id u \<in> set (wrong_ids c)) (memory_units t))"
  have "list_all2 (\<lambda>e u. map_of ?heads (ev_memory_id e) = Some u)
       (sort_key (\<lambda>e. (ev_rank e, ev_memory_id e)) (filter (\<lambda>e. desired_outcome c e = Some (Removed Wrong)) (gate_of t c)))
       (cr_wrong_removed r)"
  proof -
    have *: "map_of ?heads (ev_memory_id e) = unit_by_id t (ev_memory_id e)"
      if "e \<in> set (filter (\<lambda>e. desired_outcome c e = Some (Removed Wrong)) (gate_of t c))" for e
      using that desired_wrong [of c e] snaps_ok_load [of "set (wrong_ids c)" t] by (auto simp: snaps_ok_def)
    show ?thesis
      by (rule list.rel_mono_strong [OF wrong]) (use * in simp)
  qed
  then have lk: "mapM (\<lambda>p. case map_of ?heads (ev_memory_id (pl_event p)) of
        None \<Rightarrow> raise (DecisionState ''memory does not exist'') | Some u \<Rightarrow> ret u)
      (map (planned_of c) (sort_key (\<lambda>e. (ev_rank e, ev_memory_id e))
        (filter (\<lambda>e. desired_outcome c e = Some (Removed Wrong)) (gate_of t c)))) ?w = (Inr (cr_wrong_removed r), ?w)"
    unfolding mapM_lookup by (simp add: list_all2_map1 planned_of_def)
  show ?thesis
    unfolding commit_planned_def Let_def new eff rank
    by (simp add: act_iff load_never_rules_def clock_Inr block lk)
qed

lemma increment_stat_Inr:
  "increment_stat d k = Inr d' \<longleftrightarrow> d' = dset k (JInt (int_stat d k + 1)) d \<and>
     (dget d k = None \<or> (\<exists>n. dget d k = Some (JInt n) \<and> 0 \<le> n))"
  by (auto simp: increment_stat_def int_stat_def split: option.splits json.splits if_splits)

lemma int_stat_dset: "int_stat (dset k (JInt n) d) k' = (if k' = k then n else int_stat d k')"
  by (simp add: int_stat_def)

lemma never_step_neg: "never_step \<epsilon> d = Inr x \<Longrightarrow> x < 0"
  by (cases "dget d ''never_bias_step''") (auto simp: never_step_def split: json.split_asm if_split_asm)

lemma never_kills_pos: "never_kills d = Inr k \<Longrightarrow> 0 < k"
  by (cases "dget d ''quarantine_kills''") (auto simp: never_kills_def split: json.split_asm if_split_asm)

lemma never_rule_of_Inr:
  assumes "never_rule_of \<epsilon> s v = Inr (v', rule)"
  shows "v' = v" "nr_bias_step rule < 0" "nr_quarantine_kills rule > 0"
  using assms never_step_neg never_kills_pos by (auto simp: never_rule_of_def split: option.splits)

lemma never_rules_sound:
  assumes "smap (never_rule_of \<epsilon> s) vs = Inr rules" and "map_of rules v = Some rule"
  shows "never_rule_of \<epsilon> s v = Inr (v, rule) \<and> nr_bias_step rule < 0"
proof -
  from assms(2) have "(v, rule) \<in> set rules" by (rule map_of_SomeD)
  with assms(1) obtain w where "never_rule_of \<epsilon> s w = Inr (v, rule)"
    by (blast dest: smap_member)
  with never_rule_of_Inr [OF this] show ?thesis by simp
qed

text \<open>C12: A successful commit decides exactly the open events of its gate: an injected or pinned card becomes
  kept or removed with the given reason, a near miss becomes added back, removed for good, or stays
  open; every other event of the table, every budget cut and every outcome recorded before stays as
  it was. The returned block renders the gate's events whose outcome is then kept, added back or cited.\<close>

theorem commit_outcomes:
  assumes "commit \<epsilon> c s = (Inr r, t)" and "lineage_ok s" and "events_ok s"
  shows "injection_events t = map (\<lambda>e.
      if ev_injection_id e = cc_injection_id c \<and> ev_shown_as e \<noteq> Budget_cut \<and> ev_outcome e = None
      then e\<lparr>ev_outcome :=
             (if ev_shown_as e = Near_miss
              then (if removal_of c (ev_memory_id e) = Some Never then Some (Removed Never)
                    else if ev_memory_id e \<in> set (cc_added_back c) then Some Added_back else None)
              else Some (case removal_of c (ev_memory_id e) of Some x \<Rightarrow> Removed x | None \<Rightarrow> Kept))\<rparr>
      else e) (injection_events s) \<and>
    render_final_block (map render_row (filter is_positive (gate_of t c))) = Inr (cr_final_block r)"
proof -
  have ev: "injection_events t = map (committed c) (injection_events s) \<and>
      render_final_block (map render_row (filter is_positive (gate_of t c))) = Inr (cr_final_block r)"
  proof (cases "load_batch s (cc_injection_id c) = []")
    case True
    from commit_no_batch [OF True assms(1)] have
      ev: "injection_events t = map (committed c) (injection_events s)" by blast
    with assms(1) True show ?thesis
      by (clarsimp simp: commit_def transaction_Inr act_iff gate_of_def load_batch_def) 
  next
    case False
    from commit_success [OF assms(1) False assms(3) [unfolded events_ok_def] assms(2)]
    have "injection_events t = map (committed c) (injection_events s)"
      and "render_final_block (map render_row (filter is_positive (map (committed c) (gate_of s c)))) = Inr (cr_final_block r)"
      by blast+
    then show ?thesis by (simp add: gate_of_committed)
  qed
  moreover have "committed c = (\<lambda>e.
      if ev_injection_id e = cc_injection_id c \<and> ev_shown_as e \<noteq> Budget_cut \<and> ev_outcome e = None
      then e\<lparr>ev_outcome :=
             (if ev_shown_as e = Near_miss
              then (if removal_of c (ev_memory_id e) = Some Never then Some (Removed Never)
                    else if ev_memory_id e \<in> set (cc_added_back c) then Some Added_back else None)
              else Some (case removal_of c (ev_memory_id e) of Some x \<Rightarrow> Removed x | None \<Rightarrow> Kept))\<rparr>
      else e)"
    by (auto simp: fun_eq_iff committed_def in_gate_def desired_outcome_def split: option.splits)
  ultimately show ?thesis by simp
qed

text \<open>C13: A commit is exactly once: sent again, the same request succeeds with the same response and changes
  no table, so no statistic is counted twice.\<close>

theorem commit_replay:
  assumes run: "commit \<epsilon> c s = (Inr r, t)" and ok: "lineage_ok s" and ev: "events_ok s"
  shows "\<exists>u. commit \<epsilon> c t = (Inr r, u) \<and> same_tables t u"
proof (cases "load_batch s (cc_injection_id c) = []")
  case True
  from commit_no_batch [OF True run] True run show ?thesis
    by (clarsimp simp: commit_def transaction_Inr act_iff load_batch_def same_tables_def)
next
  case False
  from commit_success [OF run False ev [unfolded events_ok_def] ok] have
    S: "choices_ok (gate_of s c) c" "distinct (map ev_memory_id (gate_of s c))" "\<forall>e \<in> set (gate_of s c). plan_fits c e"
       "injection_events t = map (committed c) (injection_events s)"
       "render_final_block (map render_row (filter is_positive (map (committed c) (gate_of s c)))) = Inr (cr_final_block r)"
    and W: "list_all2 (\<lambda>e u. unit_by_id t (ev_memory_id e) = Some u)
       (sort_key (\<lambda>e. (ev_rank e, ev_memory_id e)) (filter (\<lambda>e. desired_outcome c e = Some (Removed Wrong)) (gate_of s c)))
       (cr_wrong_removed r)"
    by metis+
  define w where w: "w = t\<lparr>readings := Suc (readings t), txn_now := clock \<epsilon> (readings t)\<rparr>"
  have gate: "gate_of w c = map (committed c) (gate_of s c)"
    using gate_of_committed [OF S(4)] by (simp add: w gate_of_def load_batch_def)
  have batch: "load_batch w (cc_injection_id c) = map (committed c) (load_batch s (cc_injection_id c))"
    using load_batch_committed [OF S(4)] by (simp add: w load_batch_def)
  have "plan_commit (load_batch w (cc_injection_id c)) c = Inr (map (planned_of c) (gate_of w c))"
    using S(1-3) unfolding plan_commit_Inr gate_of_def [symmetric] gate
    by (auto simp: choices_ok_committed comp_def intro: plan_fits_committed)
  moreover have "commit_planned \<epsilon> c (map (planned_of c) (gate_of w c)) w = (Inr r, w\<lparr>readings := Suc (readings w)\<rparr>)"
  proof (rule commit_planned_replay)
    show "\<forall>e \<in> set (gate_of w c). ev_outcome e \<noteq> None \<or> desired_outcome c e = None"
      unfolding gate by (auto simp: committed_outcome gate_of_def load_batch_def)
    show "render_final_block (map render_row (filter is_positive (gate_of w c))) = Inr (cr_final_block r)"
      using S(5) by (simp add: gate)
    show "list_all2 (\<lambda>e u. unit_by_id w (ev_memory_id e) = Some u)
       (sort_key (\<lambda>e. (ev_rank e, ev_memory_id e)) (filter (\<lambda>e. desired_outcome c e = Some (Removed Wrong)) (gate_of w c)))
       (cr_wrong_removed r)"
      unfolding gate using W by (simp add: filter_map sort_key_map comp_def list_all2_map1 w unit_by_id_def)
  qed
  ultimately have "commit \<epsilon> c t = (Inr r, w\<lparr>readings := Suc (readings w)\<rparr>)"
    using False batch by (auto simp: commit_def transaction_Inr act_iff w [symmetric])
  moreover have "same_tables t (w\<lparr>readings := Suc (readings w)\<rparr>)" by (simp add: w same_tables_def)
  ultimately show ?thesis by blast
qed

text \<open>Removing a card for good is counted once on its memory: the head moves to its next revision with one
  more removal and one more kill, its bias is lowered by the step of the scorer version that ranked
  it, and an active head whose kills reach that version's limit is quarantined.\<close>

theorem commit_never:
  assumes run: "commit \<epsilon> c s = (Inr r, t)" and ok: "lineage_ok s" and ev: "events_ok s"
    and e: "e \<in> set (injection_events s)" "ev_injection_id e = cc_injection_id c" "ev_shown_as e \<noteq> Budget_cut"
      "ev_outcome e = None" "removal_of c (ev_memory_id e) = Some Never"
  shows "\<exists>u v rule. unit_by_id s (ev_memory_id e) = Some u \<and> unit_by_id t (ev_memory_id e) = Some v \<and>
     never_rule_of \<epsilon> s (ev_scorer_version e) = Inr (ev_scorer_version e, rule) \<and> nr_bias_step rule < 0 \<and>
     mu_revision v = mu_revision u + 1 \<and> mu_bias v = fl32 \<epsilon> (fl64 \<epsilon> (mu_bias u + nr_bias_step rule)) \<and>
     dget (mu_stats v) ''removals'' = Some (JInt (int_stat (mu_stats u) ''removals'' + 1)) \<and>
     dget (mu_stats v) ''never_kills'' = Some (JInt (int_stat (mu_stats u) ''never_kills'' + 1)) \<and>
     mu_status v = (if mu_status u = Active \<and> int_stat (mu_stats u) ''never_kills'' + 1 \<ge> nr_quarantine_kills rule
                    then Quarantined else mu_status u)"
proof -
  have batch: "load_batch s (cc_injection_id c) \<noteq> []"
    using e(1,2) by (auto simp: load_batch_def filter_empty_conv)
  have d: "desired_outcome c e = Some (Removed Never)" using e(5) by (simp add: desired_outcome_def)
  with e have gate: "e \<in> set (gate_of s c)" and eff: "e \<in> set (commit_effects_of s c)"
    by (simp_all add: gate_of_def commit_effects_of_def load_batch_def in_gate_def has_effect_def)
  have "\<exists>ts rules. (\<forall>e \<in> set (commit_effects_of s c). \<exists>u ch. unit_by_id s (ev_memory_id e) = Some u \<and>
       effect_changes \<epsilon> c ts rules e u = Inr ch \<and>
       unit_by_id t (ev_memory_id e) = Some (bumped_head \<epsilon> ch (clock \<epsilon> (readings s)) u)) \<and>
     smap (never_rule_of \<epsilon> s) (remdups (map ev_scorer_version (filter (\<lambda>e. ev_outcome e = None \<and>
        desired_outcome c e = Some (Removed Never)) (gate_of s c)))) = Inr rules"
    by (rule commit_success [OF run batch ev [unfolded events_ok_def] ok]) (intro exI conjI)
  then obtain ts rules where
    H: "\<forall>e \<in> set (commit_effects_of s c). \<exists>u ch. unit_by_id s (ev_memory_id e) = Some u \<and>
       effect_changes \<epsilon> c ts rules e u = Inr ch \<and>
       unit_by_id t (ev_memory_id e) = Some (bumped_head \<epsilon> ch (clock \<epsilon> (readings s)) u)"
    and rules: "smap (never_rule_of \<epsilon> s) (remdups (map ev_scorer_version (filter (\<lambda>e. ev_outcome e = None \<and>
        desired_outcome c e = Some (Removed Never)) (gate_of s c)))) = Inr rules"
    by (elim exE conjE)
  from H eff obtain u ch where u: "unit_by_id s (ev_memory_id e) = Some u"
    and ch: "effect_changes \<epsilon> c ts rules e u = Inr ch"
    and v: "unit_by_id t (ev_memory_id e) = Some (bumped_head \<epsilon> ch (clock \<epsilon> (readings s)) u)" by metis
  from ch d obtain rule where rule: "map_of rules (ev_scorer_version e) = Some rule"
    by (auto simp: effect_changes_def commit_head_changes_def split: option.splits)
  from never_rules_sound [OF rules rule] have nr:
    "never_rule_of \<epsilon> s (ev_scorer_version e) = Inr (ev_scorer_version e, rule)" "nr_bias_step rule < 0" by auto
  from ch d rule have
    "ch_stats ch \<noteq> None" "dget (the (ch_stats ch)) ''removals'' = Some (JInt (int_stat (mu_stats u) ''removals'' + 1))"
    "dget (the (ch_stats ch)) ''never_kills'' = Some (JInt (int_stat (mu_stats u) ''never_kills'' + 1))"
    "ch_bias ch = Some (fl64 \<epsilon> (mu_bias u + nr_bias_step rule))"
    "ch_status ch = Some (if mu_status u = Active \<and> int_stat (mu_stats u) ''never_kills'' + 1 \<ge> nr_quarantine_kills rule
        then Quarantined else mu_status u)"
    by (auto simp: effect_changes_def commit_head_changes_def increment_stat_Inr int_stat_dset)
  with u v nr show ?thesis by (auto simp: bumped_head_def apply_changes_def)
qed

section \<open>The feedback machine\<close>

text \<open>The transitions feedback may make on the outcome of an event, by how the card was shown.\<close>

inductive feedback_step :: "shown_as \<Rightarrow> outcome option \<Rightarrow> outcome option \<Rightarrow> bool" for sh where
  add_near: "sh = Near_miss \<Longrightarrow> feedback_step sh None (Some Mid_thread_added)"
| add_again: "feedback_step sh (Some Mid_thread_removed) (Some Mid_thread_added)"
| remove: "x \<in> {Kept, Added_back, Auto_entered, Mid_thread_added} \<Longrightarrow>
    feedback_step sh (Some x) (Some Mid_thread_removed)"
| cite: "x \<in> {Kept, Added_back, Auto_entered} \<Longrightarrow> feedback_step sh (Some x) (Some Cited)"

code_pred feedback_step .

inductive_simps feedback_step_simps: "feedback_step sh x y"

lemma feedback_allowed_step:
  "feedback_allowed sig e \<longleftrightarrow> feedback_step (ev_shown_as e) (ev_outcome e) (Some (signal_outcome sig))"
  by (cases sig) (auto simp: feedback_allowed_def feedback_step_simps)

lemma feedback_event_Inr:
  "feedback_event i m s = (Inr e, t) \<longleftrightarrow>
     t = s \<and> filter (\<lambda>e. ev_injection_id e = i \<and> ev_memory_id e = m) (injection_events s) = [e]"
  by (auto simp: feedback_event_def act_iff split: list.splits)

lemma feedback_head_Inr:
  assumes run: "feedback_head \<epsilon> e sig stat s = (Inr x, t)" and ok: "lineage_ok s"
  obtains u stats where "unit_by_id s (ev_memory_id e) = Some u" "increment_stat (mu_stats u) stat = Inr stats"
    "\<forall>j. unit_by_id t j = (if j = ev_memory_id e
       then Some (bumped_head \<epsilon> (no_changes\<lparr>ch_stats := Some stats\<rparr>) (txn_now s) u) else unit_by_id s j)"
    "injection_events t = injection_events s"
proof -
  define w where w: "w = s\<lparr>readings := Suc (readings s)\<rparr>"
  from run obtain u where u: "unit_by_id s (ev_memory_id e) = Some u" by (auto simp: feedback_head_def act_iff)
  with run obtain stats cu v where stats: "increment_stat (mu_stats u) stat = Inr stats"
    and cas: "cas_update_memory_unit \<epsilon> cu w = (Inr v, t)"
    and cu: "cu_memory_id cu = ev_memory_id e" "cu_changes cu = no_changes\<lparr>ch_stats := Some stats\<rparr>"
    by (simp add: feedback_head_def act_iff mint_Inr w [symmetric]) (metis cas_update.select_convs(1,7))
  have "lineage_ok w" using ok by (simp add: w lineage_ok_def head_lineage_def revisions_at_def)
  note eff = cas_effect [OF cas this, unfolded cu, of u]
  have "unit_by_id w (ev_memory_id e) = Some u" using u by (simp add: w unit_by_id_def)
  with eff(1,2) have "unit_by_id t j = (if j = ev_memory_id e
       then Some (bumped_head \<epsilon> (no_changes\<lparr>ch_stats := Some stats\<rparr>) (txn_now s) u) else unit_by_id s j)" for j
    by (simp add: w unit_by_id_def)
  with u stats cas_frame(1) [OF cas] show ?thesis by (intro that) (auto simp: w)
qed

lemma filter_one:
  assumes "filter P xs = [x]"
  shows "x \<in> set xs" "P x"
proof -
  have "x \<in> set (filter P xs)" by (simp only: assms) simp
  then show "x \<in> set xs" "P x" by simp_all
qed

text \<open>C14: Successful feedback names exactly one event. Either the event already has the signal as its outcome and
  nothing changes, or the transition is one the machine allows: the event takes the signal as its
  outcome, and citing or removing counts once on the head of its memory and on no other.\<close>

theorem feedback_effect:
  assumes run: "feedback \<epsilon> c s = (Inr x, t)" and ok: "lineage_ok s" and ev: "events_ok s"
  shows "\<exists>e. filter (\<lambda>e. ev_injection_id e = fc_injection_id c \<and> ev_memory_id e = fc_memory_id c) (injection_events s) = [e] \<and>
    (ev_outcome e = Some (signal_outcome (fc_signal c)) \<and> same_tables s t \<or>
     feedback_step (ev_shown_as e) (ev_outcome e) (Some (signal_outcome (fc_signal c))) \<and>
     injection_events t = map (\<lambda>f. if ev_id f = ev_id e then f\<lparr>ev_outcome := Some (signal_outcome (fc_signal c))\<rparr> else f)
       (injection_events s) \<and>
     (\<forall>j. j \<noteq> fc_memory_id c \<or> fc_signal c = Signal_added \<longrightarrow> unit_by_id t j = unit_by_id s j) \<and>
     (\<forall>stat. feedback_stat (fc_signal c) = Some stat \<longrightarrow> (\<exists>u. unit_by_id s (fc_memory_id c) = Some u \<and>
        unit_by_id t (fc_memory_id c) = Some (bumped_head \<epsilon> (no_changes\<lparr>ch_stats :=
          Some (dset stat (JInt (int_stat (mu_stats u) stat + 1)) (mu_stats u))\<rparr>) (clock \<epsilon> (readings s)) u))))"
proof -
  define w where w: "w = s\<lparr>readings := Suc (readings s), txn_now := clock \<epsilon> (readings s)\<rparr>"
  have okw: "lineage_ok w" using ok by (simp add: w lineage_ok_def head_lineage_def revisions_at_def)
  have uw: "unit_by_id w = unit_by_id s" by (simp add: fun_eq_iff unit_by_id_def w)
  from run obtain e where one: "filter (\<lambda>e. ev_injection_id e = fc_injection_id c \<and> ev_memory_id e = fc_memory_id c)
        (injection_events s) = [e]"
    by (auto simp: feedback_def transaction_Inr act_iff feedback_event_Inr)
  then have e: "e \<in> set (injection_events s)" "ev_memory_id e = fc_memory_id c"
    by (blast dest: filter_one)+
  show ?thesis
  proof (cases "ev_outcome e = Some (signal_outcome (fc_signal c))")
    case True
    with run one have "t = w" by (auto simp: feedback_def transaction_Inr act_iff feedback_event_Inr w)
    with one True show ?thesis by (auto simp: w same_tables_def)
  next
    case False
    with run one obtain v where al: "feedback_allowed (fc_signal c) e"
      and head: "(case feedback_stat (fc_signal c) of None \<Rightarrow> ret () | Some stat \<Rightarrow> feedback_head \<epsilon> e (fc_signal c) stat) w
          = (Inr (), v)"
      and wr: "write_outcome (ev_id e) (ev_outcome e) (signal_outcome (fc_signal c)) v = (Inr x, t)"
      by (auto simp: feedback_def transaction_Inr act_iff feedback_event_Inr w)
    have H: "injection_events v = injection_events s \<and>
      (\<forall>j. j \<noteq> fc_memory_id c \<or> fc_signal c = Signal_added \<longrightarrow> unit_by_id v j = unit_by_id s j) \<and>
      (\<forall>stat. feedback_stat (fc_signal c) = Some stat \<longrightarrow> (\<exists>u. unit_by_id s (fc_memory_id c) = Some u \<and>
        unit_by_id v (fc_memory_id c) = Some (bumped_head \<epsilon> (no_changes\<lparr>ch_stats :=
          Some (dset stat (JInt (int_stat (mu_stats u) stat + 1)) (mu_stats u))\<rparr>) (clock \<epsilon> (readings s)) u)))"
    proof (cases "feedback_stat (fc_signal c)")
      case None
      with head show ?thesis by (auto simp: act_iff w unit_by_id_def)
    next
      case (Some stat)
      with head have "feedback_head \<epsilon> e (fc_signal c) stat w = (Inr (), v)" by simp
      from feedback_head_Inr [OF this okw] obtain u stats where "unit_by_id w (ev_memory_id e) = Some u"
        "increment_stat (mu_stats u) stat = Inr stats" "injection_events v = injection_events w"
        "\<forall>j. unit_by_id v j = (if j = ev_memory_id e
          then Some (bumped_head \<epsilon> (no_changes\<lparr>ch_stats := Some stats\<rparr>) (txn_now w) u) else unit_by_id w j)"
        by metis
      with Some e show ?thesis
        unfolding uw by (auto simp: increment_stat_Inr w feedback_stat_def split: feedback_signal.splits)
    qed
    have "ev_id f = ev_id e \<Longrightarrow> f \<in> set (injection_events s) \<Longrightarrow> f = e" for f
      using ev e(1) by (metis events_ok_def distinct_map inj_onD)
    with wr H have "injection_events t = map (\<lambda>f. if ev_id f = ev_id e
        then f\<lparr>ev_outcome := Some (signal_outcome (fc_signal c))\<rparr> else f) (injection_events s)"
      by (auto simp: write_outcome_Inr)
    moreover have "unit_by_id t = unit_by_id v" using wr by (auto simp: write_outcome_Inr unit_by_id_def fun_eq_iff)
    ultimately show ?thesis using one al H by (auto simp: feedback_allowed_step)
  qed
qed

lemma filter_length_one:
  assumes "length (filter P xs) = 1" "x \<in> set xs" "P x" "y \<in> set xs" "P y"
  shows "x = y"
proof -
  from assms(1) obtain z where z: "filter P xs = [z]" by (auto simp: length_Suc_conv)
  have "x \<in> set (filter P xs)" "y \<in> set (filter P xs)" using assms by simp_all
  with z show ?thesis by simp
qed

lemma feedback_head_events: "feedback_head \<epsilon> e sig stat s = (Inr x, t) \<Longrightarrow> injection_events t = injection_events s"
  by (auto simp: feedback_head_def act_iff mint_Inr dest: cas_frame(1))

lemma feedback_events:
  assumes "feedback \<epsilon> c s = (Inr x, t)"
  obtains e where "filter (\<lambda>e. ev_injection_id e = fc_injection_id c \<and> ev_memory_id e = fc_memory_id c) (injection_events s) = [e]"
    "injection_events t = injection_events s \<or> feedback_allowed (fc_signal c) e \<and>
      length (filter (\<lambda>f. ev_id f = ev_id e \<and> ev_outcome f = ev_outcome e) (injection_events s)) = 1 \<and>
      injection_events t = map (\<lambda>f. if ev_id f = ev_id e \<and> ev_outcome f = ev_outcome e
          then f\<lparr>ev_outcome := Some (signal_outcome (fc_signal c))\<rparr> else f) (injection_events s)"
proof -
  let ?body = "\<lambda>e. if ev_outcome e = Some (signal_outcome (fc_signal c)) then ret ()
      else
        sqn (raise_if (\<not> feedback_allowed (fc_signal c) e) OutcomeConflict)
       (sqn (case feedback_stat (fc_signal c) of None \<Rightarrow> ret () | Some stat \<Rightarrow> feedback_head \<epsilon> e (fc_signal c) stat)
            (write_outcome (ev_id e) (ev_outcome e) (signal_outcome (fc_signal c))))"
  obtain w where w: "injection_events w = injection_events s"
    "bnd (feedback_event (fc_injection_id c) (fc_memory_id c)) ?body w = (Inr x, t)"
    using assms unfolding feedback_def transaction_Inr by (rule that [rotated]) simp
  then obtain e where one: "filter (\<lambda>e. ev_injection_id e = fc_injection_id c \<and> ev_memory_id e = fc_memory_id c)
          (injection_events s) = [e]" and run: "?body e w = (Inr x, t)"
    by (auto simp: bnd_Inr_iff feedback_event_Inr)
  show thesis
  proof (cases "ev_outcome e = Some (signal_outcome (fc_signal c))")
    case True
    with run have "t = w" by (simp add: ret_def)
    with one that w(1) show thesis by simp
  next
    case False
    with run obtain y v where al: "feedback_allowed (fc_signal c) e"
      and v: "(case feedback_stat (fc_signal c) of None \<Rightarrow> ret () | Some stat \<Rightarrow> feedback_head \<epsilon> e (fc_signal c) stat) w = (Inr y, v)"
      and wr: "write_outcome (ev_id e) (ev_outcome e) (signal_outcome (fc_signal c)) v = (Inr x, t)"
      by (auto simp: sqn_Inr_iff raise_if_Inr_iff)
    have "injection_events v = injection_events s"
      using v w(1) by (cases "feedback_stat (fc_signal c)") (auto simp: ret_def dest: feedback_head_events)
    with one that [of e] al wr show thesis by (simp add: write_outcome_Inr)
  qed
qed

definition feedback_row :: "injection_event \<Rightarrow> injection_event \<Rightarrow> bool" where
  "feedback_row e f \<longleftrightarrow> f = e\<lparr>ev_outcome := ev_outcome f\<rparr> \<and> (feedback_step (ev_shown_as e))\<^sup>*\<^sup>* (ev_outcome e) (ev_outcome f)"

lemma feedback_row_refl: "feedback_row e e"
  by (simp add: feedback_row_def)

lemma feedback_row_trans:
  assumes "feedback_row e f" "feedback_row f g"
  shows "feedback_row e g"
proof -
  from assms obtain x y where f: "f = e\<lparr>ev_outcome := x\<rparr>" and g: "g = f\<lparr>ev_outcome := y\<rparr>"
    unfolding feedback_row_def by blast
  with assms have "(feedback_step (ev_shown_as e))\<^sup>*\<^sup>* (ev_outcome e) x" "(feedback_step (ev_shown_as e))\<^sup>*\<^sup>* x y"
    by (simp_all add: feedback_row_def)
  then show ?thesis by (simp add: feedback_row_def f g)
qed

lemma feedback_rows: "list_all2 feedback_row (injection_events s) (injection_events (snd (feedback \<epsilon> c s)))"
proof (cases "feedback \<epsilon> c s")
  case (Pair r t)
  show ?thesis
  proof (cases r)
    case (Inl e)
    with Pair have "same_tables s t" by (auto simp: feedback_def dest: transaction_Inl)
    with Pair show ?thesis by (simp add: same_tables_def feedback_row_refl list_all2_refl)
  next
    case (Inr x)
    with Pair have "feedback \<epsilon> c s = (Inr x, t)" by simp
    then obtain e where one: "filter (\<lambda>e. ev_injection_id e = fc_injection_id c \<and> ev_memory_id e = fc_memory_id c)
          (injection_events s) = [e]"
      and R: "injection_events t = injection_events s \<or> feedback_allowed (fc_signal c) e \<and>
        length (filter (\<lambda>f. ev_id f = ev_id e \<and> ev_outcome f = ev_outcome e) (injection_events s)) = 1 \<and>
        injection_events t = map (\<lambda>f. if ev_id f = ev_id e \<and> ev_outcome f = ev_outcome e
            then f\<lparr>ev_outcome := Some (signal_outcome (fc_signal c))\<rparr> else f) (injection_events s)"
      by (rule feedback_events)
    from R show ?thesis
    proof (elim disjE conjE)
      assume "injection_events t = injection_events s"
      with Pair show ?thesis by (simp add: feedback_row_refl list_all2_refl)
    next
      assume al: "feedback_allowed (fc_signal c) e"
        and len: "length (filter (\<lambda>f. ev_id f = ev_id e \<and> ev_outcome f = ev_outcome e) (injection_events s)) = 1"
        and t: "injection_events t = map (\<lambda>f. if ev_id f = ev_id e \<and> ev_outcome f = ev_outcome e
            then f\<lparr>ev_outcome := Some (signal_outcome (fc_signal c))\<rparr> else f) (injection_events s)"
      from al have st: "feedback_step (ev_shown_as e) (ev_outcome e) (Some (signal_outcome (fc_signal c)))"
        by (simp add: feedback_allowed_step)
      have "f = e" if "f \<in> set (injection_events s)" "ev_id f = ev_id e" "ev_outcome f = ev_outcome e" for f
        by (rule filter_length_one [OF len]) (use that filter_one [OF one] in auto)
      with st show ?thesis
        unfolding Pair snd_conv t
        by (auto simp: list_all2_map2 list_all2_same feedback_row_def)
    qed
  qed
qed

definition run_feedback :: "env \<Rightarrow> feedback_command list \<Rightarrow> db \<Rightarrow> db" where
  "run_feedback \<epsilon> cs s = foldl (\<lambda>s c. snd (feedback \<epsilon> c s)) s cs"

lemma feedback_final:
  assumes "(feedback_step sh)\<^sup>*\<^sup>* x y" and "x \<in> {Some Cited, Some Auto_exited, Some Outcome_budget_cut} \<union> range (Some \<circ> Removed)"
  shows "y = x"
  using assms by (induction rule: rtranclp_induct) (auto simp: feedback_step_simps)

text \<open>C15: Whatever feedback arrives, and in whatever order, an event only ever changes its outcome, and only along
  the machine's transitions. In particular a cited card stays cited, and a card removed at the gate, an
  automatic exit or a budget cut is never revived.\<close>

theorem feedback_machine:
  "list_all2 (\<lambda>e f. f = e\<lparr>ev_outcome := ev_outcome f\<rparr> \<and>
      (feedback_step (ev_shown_as e))\<^sup>*\<^sup>* (ev_outcome e) (ev_outcome f) \<and>
      (ev_outcome e \<in> {Some Cited, Some Auto_exited, Some Outcome_budget_cut} \<union> range (Some \<circ> Removed) \<longrightarrow> f = e))
    (injection_events s) (injection_events (run_feedback \<epsilon> cs s))"
proof -
  have "list_all2 feedback_row (injection_events s) (injection_events (run_feedback \<epsilon> cs s))"
  proof (induction cs rule: rev_induct)
    case Nil
    then show ?case by (simp add: run_feedback_def feedback_row_refl list_all2_refl)
  next
    case (snoc c cs)
    have "injection_events (run_feedback \<epsilon> (cs @ [c]) s) = injection_events (snd (feedback \<epsilon> c (run_feedback \<epsilon> cs s)))"
      by (simp add: run_feedback_def)
    with list_all2_trans [OF feedback_row_trans snoc feedback_rows] show ?case by simp
  qed
  then show ?thesis
    by (rule list_all2_mono) (auto simp: feedback_row_def dest: feedback_final)
qed

section \<open>What a restored thread says\<close>

definition thread_events :: "db \<Rightarrow> uuid \<Rightarrow> string \<Rightarrow> injection_event list" where
  "thread_events s thread prin = sort_key (\<lambda>e. (ev_ts e, ev_id e))
     (filter (\<lambda>e. ev_thread_id e = thread \<and> ev_principal_id e = prin) (injection_events s))"

text \<open>An event that confirms or excludes its memory, and the last such event of a memory.\<close>

definition decisive :: "injection_event \<Rightarrow> bool" where
  "decisive e \<longleftrightarrow> is_removal (ev_outcome e) \<or> ev_outcome e = Some Mid_thread_added \<or>
     (ev_actor_class e = Human \<and> restore_positive (ev_outcome e))"

definition last_decisive :: "injection_event list \<Rightarrow> uuid \<Rightarrow> injection_event option" where
  "last_decisive events i = find (\<lambda>e. ev_memory_id e = i \<and> decisive e) (rev events)"

definition last_event :: "injection_event list \<Rightarrow> uuid \<Rightarrow> injection_event option" where
  "last_event events i = find (\<lambda>e. ev_memory_id e = i) (rev events)"

lemma restore_fold_snoc: "restore_fold (es @ [e]) = restore_step e (restore_fold es)"
  by (simp add: restore_fold_def)

lemma restore_sets:
  "i \<in> set (rs_excluded (restore_fold es)) \<longleftrightarrow> (\<exists>e. last_decisive es i = Some e \<and> is_removal (ev_outcome e))"
  "i \<in> set (rs_confirmed (restore_fold es)) \<longleftrightarrow> (\<exists>e. last_decisive es i = Some e \<and> \<not> is_removal (ev_outcome e))"
proof (induction es rule: rev_induct)
  case Nil
  case 1 show ?case by (simp add: restore_fold_def last_decisive_def)
  case 2 show ?case by (simp add: restore_fold_def last_decisive_def)
next
  case (snoc e es)
  case 1 show ?case using snoc
    by (auto simp: restore_fold_snoc restore_step_def last_decisive_def decisive_def Let_def)
  case 2 show ?case using snoc
    by (auto simp: restore_fold_snoc restore_step_def last_decisive_def decisive_def Let_def)
qed

lemma restore_latest: "map_of (rs_latest (restore_fold es)) i = last_event es i"
  by (induction es rule: rev_induct)
    (auto simp: restore_fold_def restore_fold_snoc restore_step_def last_event_def Let_def update_conv')

lemma restore_latest_distinct: "distinct (map fst (rs_latest (restore_fold es)))"
  by (induction es rule: rev_induct)
    (auto simp: restore_fold_def restore_step_def Let_def distinct_update)

lemma restore_latest_set: "e \<in> snd ` set (rs_latest (restore_fold es)) \<longleftrightarrow> last_event es (ev_memory_id e) = Some e"
proof
  assume "e \<in> snd ` set (rs_latest (restore_fold es))"
  then obtain i where "(i, e) \<in> set (rs_latest (restore_fold es))" by force
  then have "last_event es i = Some e"
    using restore_latest [of es i] restore_latest_distinct [of es] by simp
  moreover from this have "ev_memory_id e = i" by (auto simp: last_event_def dest: find_Some_set)
  ultimately show "last_event es (ev_memory_id e) = Some e" by simp
next
  assume "last_event es (ev_memory_id e) = Some e"
  then have "(ev_memory_id e, e) \<in> set (rs_latest (restore_fold es))"
    using restore_latest [of es "ev_memory_id e"] by (simp add: map_of_SomeD)
  then show "e \<in> snd ` set (rs_latest (restore_fold es))" by force
qed

text \<open>C16: A restored thread reports what was last decided: a memory is excluded when its last deciding event is a
  removal and confirmed when it is a positive one, never both; no card of an excluded memory is
  restored; each restored card is the newest event of its memory, with a positive outcome or still
  open while a gate is pending; and there is a final block exactly when no gate is pending.\<close>

theorem restore_decisions:
  assumes "restore \<epsilon> V thread prin s = (Inr (Some r), t)"
  shows "t = s \<and>
    (\<forall>i. i \<in> set (ri_excluded r) \<longleftrightarrow>
       (\<exists>e. last_decisive (thread_events s thread prin) i = Some e \<and> is_removal (ev_outcome e))) \<and>
    (\<forall>i. i \<in> set (ri_confirmed r) \<longleftrightarrow>
       (\<exists>e. last_decisive (thread_events s thread prin) i = Some e \<and> \<not> is_removal (ev_outcome e))) \<and>
    set (ri_confirmed r) \<inter> set (ri_excluded r) = {} \<and>
    (\<forall>k \<in> set (ri_injected r). ev_memory_id (rc_event k) \<notin> set (ri_excluded r) \<and>
       last_event (thread_events s thread prin) (ev_memory_id (rc_event k)) = Some (rc_event k) \<and>
       (restore_positive (ev_outcome (rc_event k)) \<or> ri_pending r \<and> undecided (rc_event k))) \<and>
    (ri_final_block r = None \<longleftrightarrow> ri_pending r)"
proof -
  let ?es = "thread_events s thread prin"
  let ?st = "restore_fold ?es"
  from assms have t: "t = s" using restore_pure [of \<epsilon> V thread prin s] by simp
  have ex: "set (ri_excluded r) = set (rs_excluded ?st)" and co: "set (ri_confirmed r) = set (rs_confirmed ?st)"
    and pend: "ri_pending r = restore_pending ?st"
    and inj: "smap (restore_card V) (restore_selected ?st) = Inr (ri_injected r)"
    and block: "(ri_final_block r = None) = restore_pending ?st"
    using assms unfolding restore_def thread_events_def [symmetric]
    by (cases "restore_pending ?st"; auto simp: act_iff Let_def dest!: sym [of "Inr _"])+
  have "rc_event k \<in> set (restore_selected ?st)" if "k \<in> set (ri_injected r)" for k
  proof -
    from inj that obtain e where "e \<in> set (restore_selected ?st)" "restore_card V e = Inr k"
      by (blast dest: smap_member)
    then show ?thesis by (auto simp: restore_card_def split: option.splits)
  qed
  then have sel: "ev_memory_id (rc_event k) \<notin> set (rs_excluded ?st) \<and>
       last_event ?es (ev_memory_id (rc_event k)) = Some (rc_event k) \<and>
       (restore_positive (ev_outcome (rc_event k)) \<or> restore_pending ?st \<and> undecided (rc_event k))"
    if "k \<in> set (ri_injected r)" for k
    using that by (force simp: restore_selected_def simp flip: restore_latest_set)
  show ?thesis
    using sel unfolding ex co pend by (auto simp: t restore_sets block)
qed

section \<open>The theorems at a concrete gate\<close>

text \<open>One memory, shown in one injection, with the scorer version that ranked it.\<close>

definition sample_event :: "outcome option \<Rightarrow> injection_event" where
  "sample_event x = \<lparr>ev_id = 1, ev_event_uid = ''e1'', ev_injection_id = 7, ev_thread_id = 9, ev_agent_id = ''a'',
     ev_machine_id = ''m'', ev_principal_id = ''p'', ev_project_key = None, ev_agent_kind = ''general'',
     ev_prompt_text = [], ev_scorer_version = ''v'', ev_memory_id = 1, ev_memory_kind = Fact,
     ev_features = [(''_memory'', JObj [(''label'', JStr ''L''), (''body'', JStr ''B''), (''updated_at'', JStr ''now''),
       (''pin'', JBool False)]), (''_prepare'', JObj [])],
     ev_score = 1, ev_rank = 1, ev_shown_as = Injected, ev_actor_class = Human, ev_outcome = x, ev_ts = 0\<rparr>"

definition sample_gate :: "outcome option \<Rightarrow> db" where
  "sample_gate x = empty_db\<lparr>memory_units := [sample_unit Active 1],
     memory_revisions := [root_revision sample_command ''r1'' (sample_unit Active 1) 0],
     threads := [\<lparr>th_id = 9, th_principal_id = ''p'', th_agent_id = ''a'', th_machine_id = ''m'', th_project_key = None,
       th_snapshot_ts = Some 0, th_created_at = 0\<rparr>],
     injection_events := [sample_event x],
     scorer_configs := [\<lparr>sc_version = ''v'', sc_weights = [], sc_params = [(''never_bias_step'', JInt (-1)),
       (''quarantine_kills'', JInt 1)], sc_created_at = 0, sc_active = True\<rparr>]\<rparr>"

definition sample_commit :: commit_command where
  "sample_commit = \<lparr>cc_injection_id = 7, cc_removed = [\<lparr>rd_memory_id = 1, rd_reason = Never\<rparr>], cc_added_back = []\<rparr>"

lemma sample_gate_ok: "lineage_ok (sample_gate x)" "events_ok (sample_gate x)"
proof -
  have "n = 1 \<or> n < 1 \<or> 1 < (n :: int)" for n by linarith
  then show "lineage_ok (sample_gate x)"
    by (auto simp: sample_gate_def lineage_ok_def head_lineage_def revisions_at_def empty_db_def sample_unit_def
        root_row_def root_revision_def)
  show "events_ok (sample_gate x)" by (simp add: events_ok_def sample_gate_def empty_db_def)
qed

lemmas decision_run = store_run cas_update_memory_unit_def cas_update_inner_def update_unit_def bumped_head_def apply_changes_def
  replace_unit_def removals_of_def revisions_at_def cas_revision_def no_changes_def write_outcome_def
  increment_stat_def int_stat_def dget_def dset_def

lemma sample_commit_run: "\<exists>r t. commit sample_env sample_commit (sample_gate None) = (Inr r, t)"
  by (simp add: commit_def sample_commit_def sample_gate_def sample_event_def load_batch_def plan_commit_def in_gate_def
      removable_def gate_member_def plan_event_def desired_outcome_def removal_of_def commit_planned_def has_effect_def
      wrong_ids_def load_never_rules_def never_rule_of_def never_step_def never_kills_def commit_effect_def commit_head_changes_def
      sample_unit_def sample_command_def root_row_def root_revision_def default_stats_def sbind_def check_def
      effective_event_def is_positive_def positive_outcomes_def render_final_block_def decision_run)

theorem commit_outcomes_witness:
  "\<exists>r t. commit sample_env sample_commit (sample_gate None) = (Inr r, t) \<and>
     injection_events t = [sample_event (Some (Removed Never))]"
proof -
  from sample_commit_run obtain r t where run: "commit sample_env sample_commit (sample_gate None) = (Inr r, t)" by blast
  from commit_outcomes [OF run sample_gate_ok] run show ?thesis
    by (auto simp: sample_gate_def sample_event_def sample_commit_def removal_of_def)
qed

theorem commit_replay_witness:
  "\<exists>r t u. commit sample_env sample_commit (sample_gate None) = (Inr r, t) \<and>
     commit sample_env sample_commit t = (Inr r, u) \<and> same_tables t u"
proof -
  from sample_commit_run obtain r t where run: "commit sample_env sample_commit (sample_gate None) = (Inr r, t)" by blast
  from commit_replay [OF run sample_gate_ok] run show ?thesis by blast
qed

theorem commit_never_witness:
  "\<exists>r t v. commit sample_env sample_commit (sample_gate None) = (Inr r, t) \<and> unit_by_id t 1 = Some v \<and>
     mu_status v = Quarantined \<and> mu_bias v = -1"
proof -
  from sample_commit_run obtain r t where run: "commit sample_env sample_commit (sample_gate None) = (Inr r, t)" by blast
  have "sample_event None \<in> set (injection_events (sample_gate None))" by (simp add: sample_gate_def)
  moreover have "ev_injection_id (sample_event None) = cc_injection_id sample_commit"
    "ev_shown_as (sample_event None) \<noteq> Budget_cut" "ev_outcome (sample_event None) = None"
    "removal_of sample_commit (ev_memory_id (sample_event None)) = Some Never"
    by (simp_all add: sample_event_def sample_commit_def removal_of_def)
  ultimately obtain u v rule where "unit_by_id (sample_gate None) 1 = Some u" "unit_by_id t 1 = Some v"
    "never_rule_of sample_env (sample_gate None) ''v'' = Inr (''v'', rule)" "mu_bias v = mu_bias u + nr_bias_step rule"
    "mu_status v = (if mu_status u = Active \<and> int_stat (mu_stats u) ''never_kills'' + 1 \<ge> nr_quarantine_kills rule
                    then Quarantined else mu_status u)"
    using commit_never [OF run sample_gate_ok, of "sample_event None"]
    by (auto simp: sample_event_def)
  then show ?thesis
    using run by (auto simp: sample_gate_def unit_by_id_def never_rule_of_def never_step_def never_kills_def dget_def
        sample_unit_def root_row_def int_stat_def default_stats_def sbind_def)
qed

definition sample_feedback :: "feedback_signal \<Rightarrow> feedback_command" where
  "sample_feedback sig = \<lparr>fc_injection_id = 7, fc_memory_id = 1, fc_signal = sig\<rparr>"

lemma sample_feedback_run: "\<exists>t. feedback sample_env (sample_feedback Signal_cited) (sample_gate (Some Kept)) = (Inr (), t)"
  by (simp add: feedback_def sample_feedback_def sample_gate_def sample_event_def feedback_event_def feedback_allowed_def
      feedback_stat_def feedback_head_def unit_by_id_def sample_unit_def sample_command_def root_row_def root_revision_def
      default_stats_def decision_run)

theorem feedback_effect_witness:
  "\<exists>t. feedback sample_env (sample_feedback Signal_cited) (sample_gate (Some Kept)) = (Inr (), t) \<and>
     injection_events t = [sample_event (Some Cited)]"
proof -
  from sample_feedback_run obtain t where
    run: "feedback sample_env (sample_feedback Signal_cited) (sample_gate (Some Kept)) = (Inr (), t)" by blast
  from feedback_effect [OF run sample_gate_ok] run show ?thesis
    by (auto simp: sample_gate_def sample_event_def sample_feedback_def)
qed

theorem feedback_machine_witness:
  "injection_events (run_feedback sample_env [sample_feedback Signal_removed, sample_feedback Signal_added]
     (sample_gate (Some Cited))) = [sample_event (Some Cited)]"
  using feedback_machine [of "sample_gate (Some Cited)" sample_env "[sample_feedback Signal_removed, sample_feedback Signal_added]"]
  by (auto simp: sample_gate_def sample_event_def list_all2_Cons1)

definition sample_validators :: "unit card_validators" where
  "sample_validators = \<lparr>validate_card = \<lambda>_. Some ([], [], False, ()),
     validate_allocation = \<lambda>_. Some \<lparr>ma_memory_context_share = 1/10, ma_share_tokens = 0, ma_regular_tokens = 0,
       ma_pinned_tokens = 0, ma_total_tokens = 0, ma_pinned_overflow_tokens = 0\<rparr>\<rparr>"

theorem restore_decisions_witness:
  "\<exists>r t. restore sample_env sample_validators 9 ''p'' (sample_gate (Some (Removed Wrong))) = (Inr (Some r), t) \<and>
     1 \<in> set (ri_excluded r) \<and> \<not> ri_pending r"
proof -
  have "\<exists>r t. restore sample_env sample_validators 9 ''p'' (sample_gate (Some (Removed Wrong))) = (Inr (Some r), t) \<and> \<not> ri_pending r"
    by (simp add: restore_def sample_gate_def sample_event_def empty_db_def act_defs restore_fold_def restore_step_def
        is_removal_def restore_pending_def undecided_def restore_selected_def restore_positive_def restore_near_def
        restore_allocation_def key_of_def dget_def sbind_def sample_validators_def render_final_block_def Let_def image_iff)
  then obtain r t where
    run: "restore sample_env sample_validators 9 ''p'' (sample_gate (Some (Removed Wrong))) = (Inr (Some r), t)"
    and "\<not> ri_pending r" by blast
  moreover have "last_decisive (thread_events (sample_gate (Some (Removed Wrong))) 9 ''p'') 1 = Some (sample_event (Some (Removed Wrong)))"
    "is_removal (ev_outcome (sample_event (Some (Removed Wrong))))"
    by (simp_all add: thread_events_def last_decisive_def decisive_def sample_gate_def sample_event_def is_removal_def)
  ultimately show ?thesis using restore_decisions [OF run] by blast
qed

end
