(* ===== verification/Prepare.thy ===== *)
theory Prepare
  imports Scorer Decisions
begin

text \<open>
  Preparing an injection (\<open>src/spine/inject/service.py\<close>): the thread is stamped, the active scorer
  is read, eligible memories are loaded (pinned ones, the nearest vectors, full-text matches and the
  thread's current memories), scored and selected, the injected heads count one injection each, and one
  event per shown or cut card is appended. All of it is one transaction, tried up to three times.
  The retry reacts to concurrent transactions; run alone, the first attempt decides.
\<close>

section \<open>Requests and responses\<close>

datatype prepare_mode = Gate | Autonomous

record prepare_command =
  pc_thread_id :: uuid
  pc_agent_id :: string
  pc_machine_id :: string
  pc_principal_id :: string
  pc_project_key :: "string option"
  pc_location_path :: "string option"
  pc_current_location :: "string option"
  pc_agent_kind :: string
  pc_prompt :: string
  pc_model_context_tokens :: int
  pc_mode :: prepare_mode
  pc_current_memory_ids :: "uuid list"
  pc_confirmed_memory_ids :: "uuid list"
  pc_excluded_memory_ids :: "uuid list"

record prepare_response =
  pr_injection_id :: uuid
  pr_snapshot_ts :: timestamp
  pr_scorer_version :: string
  pr_injected :: "scored_candidate list"
  pr_near_misses :: "scored_candidate list"
  pr_final_block :: "string option"
  pr_memory_allocation :: memory_allocation

definition validate_command :: "prepare_command \<Rightarrow> unit op" where
  "validate_command c =
     sqn (raise_if (\<not> distinct (pc_current_memory_ids c)) (InvalidRescoreState ''current_memory_ids contains duplicates''))
    (sqn (raise_if (\<not> distinct (pc_confirmed_memory_ids c)) (InvalidRescoreState ''confirmed_memory_ids contains duplicates''))
    (sqn (raise_if (\<not> distinct (pc_excluded_memory_ids c)) (InvalidRescoreState ''excluded_memory_ids contains duplicates''))
    (if pc_mode c = Gate then
       raise_if (pc_current_memory_ids c \<noteq> [] \<or> pc_confirmed_memory_ids c \<noteq> [] \<or> pc_excluded_memory_ids c \<noteq> [])
         (InvalidRescoreState ''gate mode does not accept thread disposition sets'')
     else
       sqn (raise_if (\<not> set (pc_confirmed_memory_ids c) \<subseteq> set (pc_current_memory_ids c))
              (InvalidRescoreState ''confirmed_memory_ids must be a subset of current_memory_ids''))
           (raise_if (set (pc_excluded_memory_ids c) \<inter> (set (pc_current_memory_ids c) \<union> set (pc_confirmed_memory_ids c)) \<noteq> {})
              (InvalidRescoreState ''excluded_memory_ids must be disjoint from current state'')))))"

section \<open>The thread and the scorer\<close>

text \<open>\<open>INSERT ... ON CONFLICT DO NOTHING\<close>, then the checks on the row that is already there. That the row is
  neither inserted nor visible needs a concurrent transaction and is the case the retry is for.\<close>

definition stamp_thread :: "prepare_command \<Rightarrow> timestamp \<Rightarrow> unit op" where
  "stamp_thread c ts =
     bnd (gets (\<lambda>s. find (\<lambda>h. th_id h = pc_thread_id c) (threads s))) (\<lambda>existing.
     case existing of
       None \<Rightarrow>
         sqn (modify (\<lambda>s. s\<lparr>threads := threads s @ [\<lparr>th_id = pc_thread_id c, th_principal_id = pc_principal_id c,
                th_agent_id = pc_agent_id c, th_machine_id = pc_machine_id c, th_project_key = pc_project_key c,
                th_snapshot_ts = Some ts, th_created_at = txn_now s\<rparr>]\<rparr>))
             (raise_if (pc_mode c = Autonomous)
                (InvalidRescoreState ''autonomous mode requires an already prepared thread''))
     | Some h \<Rightarrow>
         sqn (raise_if (th_principal_id h \<noteq> pc_principal_id c \<or> th_agent_id h \<noteq> pc_agent_id c \<or>
                        th_machine_id h \<noteq> pc_machine_id c \<or> th_project_key h \<noteq> pc_project_key c)
                (ThreadIdentityConflict (pc_thread_id c)))
        (sqn (raise_if (pc_mode c = Gate \<and> th_snapshot_ts h \<noteq> None) (ThreadAlreadyPrepared (pc_thread_id c)))
        (sqn (raise_if (pc_mode c = Autonomous \<and> th_snapshot_ts h = None)
                (InvalidRescoreState ''autonomous mode requires a completed gate prepare''))
             (modify (\<lambda>s. s\<lparr>threads := map (\<lambda>g. if th_id g = pc_thread_id c then g\<lparr>th_snapshot_ts := Some ts\<rparr> else g)
                (threads s)\<rparr>)))))"

definition config_error :: "err \<Rightarrow> err" where
  "config_error e = (case e of
       KeyError _ \<Rightarrow> ScorerConfiguration ''active scorer_config is invalid''
     | TypeError _ \<Rightarrow> ScorerConfiguration ''active scorer_config is invalid''
     | ValueError _ \<Rightarrow> ScorerConfiguration ''active scorer_config is invalid''
     | _ \<Rightarrow> e)"

definition active_scorer_config :: "env \<Rightarrow> scorer_config op" where
  "active_scorer_config \<epsilon> =
     bnd (gets (\<lambda>s. sort_key sc_version (filter sc_active (scorer_configs s)))) (\<lambda>rows.
     case rows of
       [row] \<Rightarrow> (case from_mappings \<epsilon> (sc_version row) (sc_weights row) (sc_params row) of
           Inl e \<Rightarrow> raise (config_error e)
         | Inr config \<Rightarrow> ret config)
     | _ \<Rightarrow> raise (ScorerConfiguration ''expected exactly one active scorer_config row''))"

section \<open>Candidates\<close>

definition last_human_edit :: "db \<Rightarrow> uuid \<Rightarrow> timestamp option" where
  "last_human_edit s i =
     (let ts = map rev_ts (filter (\<lambda>r. rev_memory_id r = i \<and> rev_editor r = ''user'') (memory_revisions s))
      in if ts = [] then None else Some (Max (set ts)))"

definition candidate_from_row :: "db \<Rightarrow> string list \<Rightarrow> memory_unit \<Rightarrow> scoring_candidate" where
  "candidate_from_row s sources u =
     \<lparr>sk_memory_id = mu_id u, sk_label = mu_label u, sk_body = mu_body u, sk_kind = mu_kind u,
      sk_keywords = mu_keywords u, sk_embedding = mu_embedding u, sk_project_key = mu_project_key u,
      sk_origin_thread_id = mu_origin_thread_id u, sk_origin_path = mu_origin_path u,
      sk_origin_location = mu_origin_location u, sk_pin = mu_pin u, sk_updated_at = mu_updated_at u,
      sk_last_human_edit_at = last_human_edit s (mu_id u), sk_stats = mu_stats u, sk_bias = mu_bias u,
      sk_revision = mu_revision u, sk_pool_sources = sources\<rparr>"

definition never_in_thread :: "db \<Rightarrow> prepare_command \<Rightarrow> uuid \<Rightarrow> bool" where
  "never_in_thread s c i \<longleftrightarrow> (\<exists>e \<in> set (injection_events s). ev_memory_id e = i \<and>
     ev_principal_id e = pc_principal_id c \<and> ev_thread_id e = pc_thread_id c \<and> ev_outcome e = Some (Removed Never))"

text \<open>\<open>base_filters\<close>\<close>

definition eligible :: "db \<Rightarrow> prepare_command \<Rightarrow> memory_unit \<Rightarrow> bool" where
  "eligible s c u \<longleftrightarrow> mu_principal_id u = pc_principal_id c \<and> mu_status u = Active \<and>
     \<not> never_in_thread s c (mu_id u) \<and> (mu_project_key u = None \<or> mu_project_key u = pc_project_key c) \<and>
     mu_id u \<notin> set (pc_excluded_memory_ids c)"

definition fts_candidate_pool :: nat where
  "fts_candidate_pool = 50"

definition vector_rows :: "env \<Rightarrow> db \<Rightarrow> prepare_command \<Rightarrow> rat list \<Rightarrow> int \<Rightarrow> memory_unit list" where
  "vector_rows \<epsilon> s c query pool = take (nat pool) (sort_key (\<lambda>u. (cosine_distance \<epsilon> (mu_embedding u) query, mu_id u))
     (filter (\<lambda>u. eligible s c u \<and> \<not> mu_pin u) (memory_units s)))"

definition fts_rows :: "env \<Rightarrow> db \<Rightarrow> prepare_command \<Rightarrow> memory_unit list" where
  "fts_rows \<epsilon> s c = (let terms = sort (prompt_keywords (pc_prompt c)) in
     if terms = [] then [] else
     take fts_candidate_pool (sort_key (\<lambda>u. (- fts_rank \<epsilon> terms u, mu_id u))
       (filter (\<lambda>u. eligible s c u \<and> \<not> mu_pin u \<and> fts_match \<epsilon> terms u) (memory_units s))))"

text \<open>\<open>merged\<close>: the row of a memory with the sources that found it, in the order they did.\<close>

definition merge_row :: "bool \<Rightarrow> string \<Rightarrow> memory_unit \<Rightarrow> (uuid \<times> memory_unit \<times> string list) list \<Rightarrow>
    (uuid \<times> memory_unit \<times> string list) list" where
  "merge_row once source u merged = (case map_of merged (mu_id u) of
       None \<Rightarrow> merged @ [(mu_id u, u, [source])]
     | Some (v, sources) \<Rightarrow> if once \<and> source \<in> set sources then merged
         else AList.update (mu_id u) (v, sources @ [source]) merged)"

definition load_candidates :: "env \<Rightarrow> prepare_command \<Rightarrow> rat list \<Rightarrow> int \<Rightarrow>
    (scoring_candidate list \<times> scoring_candidate list) op" where
  "load_candidates \<epsilon> c query pool =
     bnd (gets id) (\<lambda>s.
     let pinned = sort_key mu_id (filter (\<lambda>u. eligible s c u \<and> mu_pin u) (memory_units s));
         merged = fold (merge_row False ''fts'') (fts_rows \<epsilon> s c) (fold (merge_row False ''vector'') (vector_rows \<epsilon> s c query pool) []);
         explicit = sort_key mu_id (filter (\<lambda>u. eligible s c u \<and> \<not> mu_pin u \<and> mu_id u \<in> set (pc_current_memory_ids c))
           (memory_units s));
         all = (if pc_current_memory_ids c = [] then merged else fold (merge_row True ''current'') explicit merged)
     in sqn (raise_if (\<not> set (pc_current_memory_ids c) \<subseteq> mu_id ` set pinned \<union> mu_id ` set explicit)
               (InvalidRescoreState ''current memory is not active and eligible for this thread''))
            (ret (map (candidate_from_row s [''pinned'']) pinned,
                  map (\<lambda>(i, u, sources). candidate_from_row s sources u) (sort_key fst all))))"

section \<open>Counting and recording\<close>

definition injection_stats :: "env \<Rightarrow> timestamp \<Rightarrow> dict \<Rightarrow> err + dict" where
  "injection_stats \<epsilon> ts stats =
     sbind (case dget stats ''injections'' of
         None \<Rightarrow> Inr 0
       | Some (JInt n) \<Rightarrow> Inr n
       | Some _ \<Rightarrow> Inl (ScorerConfiguration ''memory stats.injections must be an integer'')) (\<lambda>n.
     Inr (dset ''last_injected_at'' (JStr (isoformat \<epsilon> ts)) (dset ''injections'' (JInt (n + 1)) stats)))"

definition increment_injection :: "env \<Rightarrow> prepare_command \<Rightarrow> timestamp \<Rightarrow> scored_candidate \<Rightarrow> unit op" where
  "increment_injection \<epsilon> c ts item = (let k = sc_candidate item in
     bnd (lift (injection_stats \<epsilon> ts (sk_stats k))) (\<lambda>stats.
     bnd (mint \<epsilon>) (\<lambda>uid.
     sqn (cas_update_memory_unit \<epsilon>
            \<lparr>cu_memory_id = sk_memory_id k, cu_expected_revision = sk_revision k, cu_rev_uid = uid,
             cu_editor = ''system:inject'', cu_origin_machine_id = pc_machine_id c, cu_reason = ''inject/prepare'',
             cu_changes = no_changes\<lparr>ch_stats := Some stats\<rparr>\<rparr>)
         (ret ()))))"

definition increment_injection_stats :: "env \<Rightarrow> prepare_command \<Rightarrow> timestamp \<Rightarrow> scored_candidate list \<Rightarrow> unit op" where
  "increment_injection_stats \<epsilon> c ts injected =
     iterM (increment_injection \<epsilon> c ts) (sort_key (\<lambda>i. sk_memory_id (sc_candidate i)) injected)"

definition opt_float :: "rat option \<Rightarrow> json" where
  "opt_float x = (case x of None \<Rightarrow> JNull | Some v \<Rightarrow> JFloat v)"

definition opt_str :: "string option \<Rightarrow> json" where
  "opt_str x = (case x of None \<Rightarrow> JNull | Some v \<Rightarrow> JStr v)"

definition allocation_dump :: "memory_allocation \<Rightarrow> dict" where
  "allocation_dump a = [(''memory_context_share'', JFloat (ma_memory_context_share a)),
     (''share_tokens'', JInt (ma_share_tokens a)), (''regular_tokens'', JInt (ma_regular_tokens a)),
     (''pinned_tokens'', JInt (ma_pinned_tokens a)), (''total_tokens'', JInt (ma_total_tokens a)),
     (''pinned_overflow_tokens'', JInt (ma_pinned_overflow_tokens a))]"

definition event_features :: "env \<Rightarrow> prepare_command \<Rightarrow> memory_allocation \<Rightarrow> scored_candidate \<Rightarrow> dict" where
  "event_features \<epsilon> c a item = (let k = sc_candidate item; f = sc_features item in
     [(''sem'', JFloat (f_sem f)), (''kw'', JFloat (f_kw f)), (''time'', JFloat (f_time f)),
      (''proj'', JFloat (f_proj f)), (''freq'', JFloat (f_freq f)), (''hist'', JFloat (f_hist f)),
      (''loc'', opt_float (f_loc f)), (''thread'', opt_float (f_thread f)), (''where'', opt_float (f_where f))] @
     (if f_axes f = [] then [] else [(''axes'', JObj (map (\<lambda>(n, x). (n, JFloat x)) (f_axes f)))]) @
     [(''_memory'', JObj [(''label'', JStr (sk_label k)), (''body'', JStr (sk_body k)), (''pin'', JBool (sk_pin k)),
        (''updated_at'', JStr (isoformat \<epsilon> (sk_updated_at k)))]),
      (''_prepare'', JObj ((''model_context_tokens'', JInt (pc_model_context_tokens c)) # allocation_dump a)),
      (''_location'', JObj [(''cwd'', opt_str (pc_location_path c)), (''where'', opt_str (pc_current_location c))]),
      (''_retrieval'', JObj [(''sources'', JList (map JStr (sk_pool_sources k)))])])"

text \<open>One event to record; its identifiers are assigned when it is written.\<close>

record event_draft =
  dr_item :: scored_candidate
  dr_shown_as :: shown_as
  dr_actor :: actor_class
  dr_outcome :: "outcome option"

definition event_drafts :: "prepare_command \<Rightarrow> scoring_selection \<Rightarrow> event_draft list" where
  "event_drafts c sel =
     (let auto = (pc_mode c = Autonomous);
          actor = (if auto then Passive else Human);
          current = set (pc_current_memory_ids c);
          item_id = (\<lambda>i. sk_memory_id (sc_candidate i));
          recorded = item_id ` set (sel_injected sel) \<union> item_id ` set (sel_near_misses sel)
      in map (\<lambda>i. \<lparr>dr_item = i, dr_shown_as = (if sk_pin (sc_candidate i) then Pinned else Injected), dr_actor = actor,
                   dr_outcome = (if auto then Some (if item_id i \<in> current then Kept else Auto_entered) else None)\<rparr>)
           (sel_injected sel) @
         map (\<lambda>i. \<lparr>dr_item = i, dr_shown_as = Near_miss, dr_actor = actor,
                   dr_outcome = (if auto \<and> item_id i \<in> current then Some Auto_exited else None)\<rparr>)
           (sel_near_misses sel) @
         map (\<lambda>i. \<lparr>dr_item = i, dr_shown_as = Budget_cut, dr_actor = actor, dr_outcome = Some Outcome_budget_cut\<rparr>)
           (sel_budget_cuts sel) @
         (if auto then
            map (\<lambda>i. \<lparr>dr_item = i, dr_shown_as = Near_miss, dr_actor = Passive, dr_outcome = Some Auto_exited\<rparr>)
              (filter (\<lambda>i. item_id i \<in> current - recorded) (sel_unselected sel))
          else []))"

text \<open>The row of a draft, with the identifiers it gets.\<close>

definition draft_row :: "env \<Rightarrow> prepare_command \<Rightarrow> timestamp \<Rightarrow> uuid \<Rightarrow> string \<Rightarrow> memory_allocation \<Rightarrow> event_draft \<Rightarrow>
    nat \<Rightarrow> string \<Rightarrow> injection_event" where
  "draft_row \<epsilon> c ts injection version a d n uid = (let i = dr_item d; k = sc_candidate i in
     \<lparr>ev_id = n, ev_event_uid = uid, ev_injection_id = injection, ev_thread_id = pc_thread_id c,
      ev_agent_id = pc_agent_id c, ev_machine_id = pc_machine_id c, ev_principal_id = pc_principal_id c,
      ev_project_key = pc_project_key c, ev_agent_kind = pc_agent_kind c, ev_prompt_text = pc_prompt c,
      ev_scorer_version = version, ev_memory_id = sk_memory_id k, ev_memory_kind = sk_kind k,
      ev_features = event_features \<epsilon> c a i, ev_score = fl32 \<epsilon> (sc_score i), ev_rank = sc_rank i,
      ev_shown_as = dr_shown_as d, ev_actor_class = dr_actor d, ev_outcome = dr_outcome d, ev_ts = ts\<rparr>)"

definition event_values :: "env \<Rightarrow> prepare_command \<Rightarrow> timestamp \<Rightarrow> uuid \<Rightarrow> string \<Rightarrow> memory_allocation \<Rightarrow>
    event_draft \<Rightarrow> injection_event op" where
  "event_values \<epsilon> c ts injection version a d =
     bnd (mint \<epsilon>) (\<lambda>uid. ret (draft_row \<epsilon> c ts injection version a d 0 uid))"

text \<open>The bulk insert: consecutive identifiers from the table's sequence, and the unique event identifier.\<close>

definition next_event_id :: "db \<Rightarrow> nat" where
  "next_event_id s = Suc (fold max (map ev_id (injection_events s)) 0)"

definition number_events :: "nat \<Rightarrow> injection_event list \<Rightarrow> injection_event list" where
  "number_events n es = map2 (\<lambda>i e. e\<lparr>ev_id := i\<rparr>) [n..<n + length es] es"

definition insert_event_rows :: "injection_event list \<Rightarrow> unit op" where
  "insert_event_rows es =
     bnd (gets id) (\<lambda>s.
     sqn (raise_if (\<not> distinct (map ev_event_uid es) \<or>
                    set (map ev_event_uid es) \<inter> set (map ev_event_uid (injection_events s)) \<noteq> {})
            (IntegrityError ''injection_event_event_uid_key''))
         (modify (\<lambda>s. s\<lparr>injection_events := injection_events s @ number_events (next_event_id s) es\<rparr>)))"

definition insert_events :: "env \<Rightarrow> prepare_command \<Rightarrow> timestamp \<Rightarrow> uuid \<Rightarrow> string \<Rightarrow> scoring_selection \<Rightarrow>
    memory_allocation \<Rightarrow> injection_event list op" where
  "insert_events \<epsilon> c ts injection version sel a =
     bnd (mapM (event_values \<epsilon> c ts injection version a) (event_drafts c sel)) (\<lambda>values.
     sqn (if values = [] then ret () else insert_event_rows values) (ret values))"

section \<open>Prepare and preview\<close>

definition allocation_of :: "scorer_config \<Rightarrow> scoring_selection \<Rightarrow> memory_allocation" where
  "allocation_of config sel =
     \<lparr>ma_memory_context_share = sp_memory_context_share (cfg_params config), ma_share_tokens = sel_regular_budget sel,
      ma_regular_tokens = sel_regular_token_cost sel, ma_pinned_tokens = sel_pin_token_cost sel,
      ma_total_tokens = sel_total_token_cost sel, ma_pinned_overflow_tokens = sel_pinned_overflow_tokens sel\<rparr>"

text \<open>The field limits of \<open>MemoryAllocation\<close>.\<close>

definition allocation_limits :: "env \<Rightarrow> memory_allocation \<Rightarrow> bool" where
  "allocation_limits \<epsilon> a \<longleftrightarrow> fl64 \<epsilon> (1/100) \<le> ma_memory_context_share a \<and> ma_memory_context_share a \<le> 1/2 \<and>
     0 \<le> ma_share_tokens a \<and> 0 \<le> ma_regular_tokens a \<and> 0 \<le> ma_pinned_tokens a \<and> 0 \<le> ma_total_tokens a \<and>
     0 \<le> ma_pinned_overflow_tokens a"

definition shown_outcome :: "injection_event \<Rightarrow> bool" where
  "shown_outcome e \<longleftrightarrow> ev_outcome e = Some Kept \<or> ev_outcome e = Some Auto_entered"

definition prepare_once :: "env \<Rightarrow> prepare_command \<Rightarrow> rat list \<Rightarrow> prepare_response op" where
  "prepare_once \<epsilon> c query = transaction \<epsilon>
     (bnd (clock_timestamp \<epsilon>) (\<lambda>ts.
      sqn (stamp_thread c ts)
     (bnd (active_scorer_config \<epsilon>) (\<lambda>config.
      bnd (load_candidates \<epsilon> c query (sp_candidate_pool (cfg_params config))) (\<lambda>(pinned, regular).
      bnd (lift (score_and_select \<epsilon> config (pc_prompt c) query ts (pc_project_key c) (Some (pc_thread_id c))
             (pc_location_path c) (pc_current_location c) pinned regular (pc_confirmed_memory_ids c)
             (pc_model_context_tokens c))) (\<lambda>sel.
      let a = allocation_of config sel in
      sqn (raise_if (\<not> allocation_limits \<epsilon> a) (ValueError ''memory_allocation''))
     (bnd draw (\<lambda>n.
      let injection = gen_random_uuid \<epsilon> n in
      sqn (increment_injection_stats \<epsilon> c ts (sel_injected sel))
     (bnd (insert_events \<epsilon> c ts injection (cfg_version config) sel a) (\<lambda>events.
      bnd (if pc_mode c = Autonomous
           then lift (sbind (render_final_block (map render_row (filter shown_outcome events))) (\<lambda>b. Inr (Some b)))
           else ret None) (\<lambda>block.
      ret \<lparr>pr_injection_id = injection, pr_snapshot_ts = ts, pr_scorer_version = cfg_version config,
           pr_injected = sel_injected sel, pr_near_misses = sel_near_misses sel, pr_final_block = block,
           pr_memory_allocation = a\<rparr>)))))))))))"

fun prepare_attempts :: "nat \<Rightarrow> env \<Rightarrow> prepare_command \<Rightarrow> rat list \<Rightarrow> prepare_response op" where
  "prepare_attempts 0 \<epsilon> c query = raise PrepareConflict"
| "prepare_attempts (Suc n) \<epsilon> c query = catch (prepare_once \<epsilon> c query) (\<lambda>e. case e of
       RetryTransaction \<Rightarrow> prepare_attempts n \<epsilon> c query
     | MemoryCasConflict u \<Rightarrow> prepare_attempts n \<epsilon> c query
     | _ \<Rightarrow> raise e)"

definition max_transaction_attempts :: nat where
  "max_transaction_attempts = 3"

definition prepare :: "env \<Rightarrow> prepare_command \<Rightarrow> prepare_response op" where
  "prepare \<epsilon> c =
     sqn (validate_command c)
    (bnd (embed_one \<epsilon> (pc_prompt c)) (\<lambda>query.
     prepare_attempts max_transaction_attempts \<epsilon> c query))"

definition preview_scores :: "env \<Rightarrow> prepare_command \<Rightarrow> uuid list \<Rightarrow> (string \<times> rat) list op" where
  "preview_scores \<epsilon> c ids =
     bnd (embed_one \<epsilon> (pc_prompt c)) (\<lambda>query.
     transaction \<epsilon>
      (bnd (clock_timestamp \<epsilon>) (\<lambda>now.
       bnd (active_scorer_config \<epsilon>) (\<lambda>config.
       bnd (gets (\<lambda>s. map (candidate_from_row s [''panel'']) (filter (\<lambda>u. mu_principal_id u = pc_principal_id c \<and>
              mu_id u \<in> set ids \<and> mu_status u = Active) (memory_units s)))) (\<lambda>candidates.
       bnd (lift (score_and_select \<epsilon> config (pc_prompt c) query now (pc_project_key c) (Some (pc_thread_id c))
              (pc_location_path c) (pc_current_location c) (filter sk_pin candidates)
              (filter (\<lambda>k. \<not> sk_pin k) candidates) [] (pc_model_context_tokens c))) (\<lambda>sel.
       ret (map (\<lambda>i. (uuid_str (sk_memory_id (sc_candidate i)), sc_score i))
              (sel_injected sel @ sel_unselected sel))))))))"

section \<open>Preparing is a safe step\<close>

lemma length_number_events [simp]: "length (number_events n es) = length es"
  by (simp add: number_events_def)

lemma nth_number_events [simp]: "i < length es \<Longrightarrow> number_events n es ! i = (es ! i)\<lparr>ev_id := n + i\<rparr>"
  by (simp add: number_events_def)

lemma map_number_events: "map ev_id (number_events n es) = [n..<n + length es]"
  by (rule nth_equalityI) simp_all

lemma safe_stamp_thread: "safe.steps (stamp_thread c ts)"
proof -
  have "safe.steps (modify (\<lambda>s. s\<lparr>threads := threads s @ f s\<rparr>))" for f :: "db \<Rightarrow> thread_row list"
    by (rule safe.stepsI, rule safe_same) (auto simp: act_iff append_only_def)
  moreover have "safe.steps (modify (\<lambda>s. s\<lparr>threads := map (\<lambda>h. if P h then h\<lparr>th_snapshot_ts := Some ts\<rparr> else h) (threads s)\<rparr>))" for P
    by (rule safe.stepsI, rule safe_same) (auto simp: act_iff append_only_def thread_kept_def intro!: grown_map)
  ultimately show ?thesis unfolding stamp_thread_def by (intro safe.steps_rules)
qed

lemma safe_insert_event_rows: "safe.steps (insert_event_rows es)"
proof -
  have "safe.steps (modify (\<lambda>s. s\<lparr>injection_events := injection_events s @ f s\<rparr>))" for f :: "db \<Rightarrow> injection_event list"
    by (rule safe.stepsI, rule safe_same) (auto simp: act_iff append_only_def)
  then show ?thesis unfolding insert_event_rows_def by (intro safe.steps_rules)
qed

lemma safe_insert_events: "safe.steps (insert_events \<epsilon> c ts i v sel a)"
  unfolding insert_events_def event_values_def Let_def by (intro safe.steps_rules safe_mint safe_insert_event_rows)

lemma safe_active_scorer_config: "safe.steps (active_scorer_config \<epsilon>)"
proof -
  have "safe.steps (case from_mappings \<epsilon> v w p of Inl e \<Rightarrow> raise (config_error e) | Inr x \<Rightarrow> ret x)" for v w p
    by (cases "from_mappings \<epsilon> v w p") (simp_all add: safe.steps_rules)
  then show ?thesis unfolding active_scorer_config_def by (intro safe.steps_rules)
qed

lemma safe_prepare_once: "safe.steps (prepare_once \<epsilon> c query)"
  unfolding prepare_once_def load_candidates_def increment_injection_stats_def increment_injection_def Let_def
  by (intro safe_transaction safe.steps_oks safe.steps_rules safe_clock safe_stamp_thread safe_active_scorer_config
      safe_draw safe_mint safe_cas safe_insert_events)

lemma safe_prepare: "safe.steps (prepare \<epsilon> c)"
proof -
  have "safe.steps (prepare_attempts n \<epsilon> c query)" for n query
  proof (induction n)
    case (Suc n)
    then show ?case
      by (auto intro!: safe.steps_catch safe_prepare_once safe.steps_raise split: err.splits)
  qed (simp add: safe.steps_raise)
  then show ?thesis
    unfolding prepare_def validate_command_def by (intro safe.steps_rules safe_embed_one)
qed

lemma safe_preview_scores: "safe.steps (preview_scores \<epsilon> c ids)"
  unfolding preview_scores_def
  by (intro safe.steps_rules safe_embed_one safe_transaction safe.steps_oks safe_clock safe_active_scorer_config)

section \<open>What a successful prepare does\<close>

lemma stamp_thread_Inr:
  assumes "stamp_thread c ts s = (Inr x, t)"
  obtains ths where "t = s\<lparr>threads := ths\<rparr>"
    "\<exists>h. find (\<lambda>h. th_id h = pc_thread_id c) ths = Some h \<and> th_snapshot_ts h = Some ts \<and>
       th_principal_id h = pc_principal_id c \<and> th_agent_id h = pc_agent_id c \<and> th_machine_id h = pc_machine_id c \<and>
       th_project_key h = pc_project_key c"
    "pc_mode c = Gate \<Longrightarrow> \<forall>h. find (\<lambda>h. th_id h = pc_thread_id c) (threads s) = Some h \<longrightarrow> th_snapshot_ts h = None"
proof (cases "find (\<lambda>h. th_id h = pc_thread_id c) (threads s)")
  case None
  with assms show ?thesis
    by (intro that) (auto simp: stamp_thread_def act_iff find_append)
next
  case (Some h)
  have "find (\<lambda>h. th_id h = i) (map (\<lambda>g. if th_id g = i then g\<lparr>th_snapshot_ts := x\<rparr> else g) gs) =
      map_option (\<lambda>g. g\<lparr>th_snapshot_ts := x\<rparr>) (find (\<lambda>h. th_id h = i) gs)" for gs :: "thread_row list" and i x
    by (induction gs) auto
  with Some assms show ?thesis
    by (intro that) (auto simp: stamp_thread_def act_iff)
qed

text \<open>One injected head: one more injection, stamped with the snapshot.\<close>

definition injection_counted :: "env \<Rightarrow> timestamp \<Rightarrow> scored_candidate \<Rightarrow> timestamp \<Rightarrow> memory_unit \<Rightarrow> memory_unit \<Rightarrow> bool" where
  "injection_counted \<epsilon> ts item now u v \<longleftrightarrow> mu_revision u = sk_revision (sc_candidate item) \<and>
     (\<exists>stats. injection_stats \<epsilon> ts (sk_stats (sc_candidate item)) = Inr stats \<and>
        v = bumped_head \<epsilon> (no_changes\<lparr>ch_stats := Some stats\<rparr>) now u)"

interpretation inc: head_sweep "increment_injection \<epsilon> c ts" "\<lambda>i. sk_memory_id (sc_candidate i)" "injection_counted \<epsilon> ts"
  for \<epsilon> c ts
proof
  fix item s y t
  assume run: "increment_injection \<epsilon> c ts item s = (Inr y, t)" and ok: "lineage_ok s"
  let ?k = "sc_candidate item"
  define w where w: "w = s\<lparr>readings := Suc (readings s)\<rparr>"
  from run obtain stats cu v where stats: "injection_stats \<epsilon> ts (sk_stats ?k) = Inr stats"
    and cas: "cas_update_memory_unit \<epsilon> cu w = (Inr v, t)"
    and cu: "cu_memory_id cu = sk_memory_id ?k" "cu_expected_revision cu = sk_revision ?k"
      "cu_changes cu = no_changes\<lparr>ch_stats := Some stats\<rparr>"
    by (simp add: increment_injection_def Let_def act_iff mint_Inr w [symmetric]) (metis cas_update.select_convs(1,2,7))
  have okw: "lineage_ok w" using ok by (simp add: w lineage_ok_def head_lineage_def revisions_at_def)
  from cas obtain u where f: "find (\<lambda>u. mu_id u = cu_memory_id cu \<and> mu_revision u = cu_expected_revision cu) (memory_units w) = Some u"
    by (rule cas_success)
  then have u: "unit_by_id w (sk_memory_id ?k) = Some u" "mu_revision u = sk_revision ?k"
    using okw cu by (auto simp: lineage_ok_def unit_by_id_iff dest: find_Some_set)
  note eff = cas_effect [OF cas okw, unfolded cu, OF u(1)]
  have "unit_by_id w = unit_by_id s" by (simp add: fun_eq_iff unit_by_id_def w)
  with u eff stats cas_frame [OF cas] show "\<exists>u v. unit_by_id s (sk_memory_id ?k) = Some u \<and>
      injection_counted \<epsilon> ts item (txn_now s) u v \<and>
      (\<forall>j. unit_by_id t j = (if j = sk_memory_id ?k then Some v else unit_by_id s j)) \<and> lineage_ok t \<and> same_context s t"
    by (auto simp: injection_counted_def same_context_def w)
qed

lemma draft_row_sel [simp]:
  "ev_id (draft_row \<epsilon> c ts i v a d n uid) = n" "ev_event_uid (draft_row \<epsilon> c ts i v a d n uid) = uid"
  "(draft_row \<epsilon> c ts i v a d n uid)\<lparr>ev_id := m\<rparr> = draft_row \<epsilon> c ts i v a d m uid"
  by (simp_all add: draft_row_def Let_def)

lemma render_number_events:
  "map render_row (filter shown_outcome (number_events n es)) = map render_row (filter shown_outcome es)"
proof -
  have "map render_row (filter shown_outcome (map2 (\<lambda>i e. e\<lparr>ev_id := i\<rparr>) is es)) = map render_row (filter shown_outcome es)"
    if "length is = length es" for "is" :: "nat list"
    using that by (induction "is" es rule: list_induct2) (auto simp: render_row_def shown_outcome_def)
  then show ?thesis by (simp add: number_events_def)
qed

lemma mapM_event_values:
  "mapM (event_values \<epsilon> c ts i v a) ds s = (Inr es, t) \<Longrightarrow>
     list_all2 (\<lambda>d e. e = draft_row \<epsilon> c ts i v a d 0 (ev_event_uid e)) ds es \<and>
     t = s\<lparr>readings := readings s + length ds\<rparr>"
proof (induction ds arbitrary: s es)
  case Nil
  then show ?case by (simp add: act_iff)
next
  case (Cons d ds)
  from Cons.prems obtain e es' where es: "es = e # es'"
    and e: "e = draft_row \<epsilon> c ts i v a d 0 (ev_event_uid e)"
    and rest: "mapM (event_values \<epsilon> c ts i v a) ds (s\<lparr>readings := Suc (readings s)\<rparr>) = (Inr es', t)"
    by (auto simp: act_iff event_values_def [of _ _ _ _ _ _ d] mint_Inr)
  from Cons.IH [OF rest] e show ?case by (simp add: es)
qed

lemma insert_events_Inr:
  assumes "insert_events \<epsilon> c ts i v sel a s = (Inr es, t)"
  obtains rows where "injection_events t = injection_events s @ rows"
    "list_all2 (\<lambda>d e. e = draft_row \<epsilon> c ts i v a d (ev_id e) (ev_event_uid e)) (event_drafts c sel) rows"
    "map ev_id rows = [next_event_id s..<next_event_id s + length rows]"
    "list_all2 (\<lambda>d e. e = draft_row \<epsilon> c ts i v a d 0 (ev_event_uid e)) (event_drafts c sel) es"
    "\<exists>n. t = s\<lparr>injection_events := injection_events s @ rows, readings := n\<rparr>"
    "rows = number_events (next_event_id s) es"
proof -
  let ?rows = "number_events (next_event_id s) es"
  from assms obtain w where m: "mapM (event_values \<epsilon> c ts i v a) (event_drafts c sel) s = (Inr es, w)"
    and t: "t = w\<lparr>injection_events := injection_events w @ number_events (next_event_id w) es\<rparr>"
    by (cases "event_drafts c sel") (auto simp: insert_events_def insert_event_rows_def act_iff number_events_def split: if_splits)
  from mapM_event_values [OF m] have es: "list_all2 (\<lambda>d e. e = draft_row \<epsilon> c ts i v a d 0 (ev_event_uid e)) (event_drafts c sel) es"
    and w: "w = s\<lparr>readings := readings s + length (event_drafts c sel)\<rparr>" by auto
  have t': "\<exists>n. t = s\<lparr>injection_events := injection_events s @ ?rows, readings := n\<rparr>"
    by (rule exI [of _ "readings w"]) (simp add: t w next_event_id_def)
  have "list_all2 (\<lambda>d e. e = draft_row \<epsilon> c ts i v a d (ev_id e) (ev_event_uid e)) (event_drafts c sel) ?rows"
  proof (rule list_all2_all_nthI)
    fix n
    assume n: "n < length (event_drafts c sel)"
    with es have len: "n < length es" by (simp add: list_all2_lengthD)
    from es n have "es ! n = draft_row \<epsilon> c ts i v a (event_drafts c sel ! n) 0 (ev_event_uid (es ! n))"
      by (simp add: list_all2_conv_all_nth)
    then show "?rows ! n = draft_row \<epsilon> c ts i v a (event_drafts c sel ! n) (ev_id (?rows ! n)) (ev_event_uid (?rows ! n))"
      using len by simp (metis draft_row_sel(2,3))
  qed (use es in \<open>simp add: list_all2_lengthD\<close>)
  with es t' show ?thesis
    by (intro that [of ?rows]) (auto simp: map_number_events)
qed

text \<open>The merged rows: each entry is one of the rows found, under its identifier, and every row found is there.\<close>

lemma merge_row_keys: "fst ` set (merge_row once src u m) = insert (mu_id u) (fst ` set m)"
proof (cases "map_of m (mu_id u)")
  case (Some p)
  then have "mu_id u \<in> fst ` set m" by (force dest: map_of_SomeD)
  with Some show ?thesis by (cases p) (auto simp: merge_row_def dom_update)
qed (auto simp: merge_row_def)

lemma merge_rows_keys: "fst ` set (fold (merge_row once src) us m) = mu_id ` set us \<union> fst ` set m"
  by (induction us arbitrary: m) (auto simp: merge_row_keys)

lemma set_update_sub: "set (AList.update k v m) \<subseteq> insert (k, v) (set m)"
  by (induction m) auto

lemma merge_row_values:
  assumes "(i, v, ss) \<in> set (merge_row once src u m)"
  shows "(i = mu_id u \<and> v = u) \<or> (\<exists>ss'. (i, v, ss') \<in> set m)"
proof (cases "map_of m (mu_id u)")
  case (Some p)
  then have "(mu_id u, p) \<in> set m" by (rule map_of_SomeD)
  with Some assms set_update_sub [of "mu_id u" "(fst p, snd p @ [src])" m] show ?thesis
    by (cases p) (auto simp: merge_row_def split: if_splits)
qed (use assms in \<open>auto simp: merge_row_def\<close>)

lemma merge_rows_values:
  "(i, v, ss) \<in> set (fold (merge_row once src) us m) \<Longrightarrow> (i = mu_id v \<and> v \<in> set us) \<or> (\<exists>ss'. (i, v, ss') \<in> set m)"
proof (induction us arbitrary: m)
  case (Cons u us)
  then have "(i = mu_id v \<and> v \<in> set us) \<or> (\<exists>ss'. (i, v, ss') \<in> set (merge_row once src u m))" by auto
  then show ?case by (auto dest: merge_row_values)
qed auto

lemma candidate_sel [simp]:
  "sk_memory_id (candidate_from_row s ss u) = mu_id u" "sk_pin (candidate_from_row s ss u) = mu_pin u"
  "sk_revision (candidate_from_row s ss u) = mu_revision u" "sk_stats (candidate_from_row s ss u) = mu_stats u"
  "sk_body (candidate_from_row s ss u) = mu_body u" "sk_label (candidate_from_row s ss u) = mu_label u"
  by (simp_all add: candidate_from_row_def)

text \<open>What loading finds: candidates are rows of eligible memories, all eligible pinned memories are among them,
  and so is every current memory of the thread.\<close>

definition candidate_of :: "db \<Rightarrow> prepare_command \<Rightarrow> scoring_candidate \<Rightarrow> bool" where
  "candidate_of s c k \<longleftrightarrow> (\<exists>u ss. u \<in> set (memory_units s) \<and> eligible s c u \<and> k = candidate_from_row s ss u)"

lemma load_candidates_Inr:
  assumes "load_candidates \<epsilon> c q pool s = (Inr (pinned, regular), t)"
  shows "t = s" "\<forall>k \<in> set pinned \<union> set regular. candidate_of s c k"
    "sk_memory_id ` set pinned = mu_id ` {u \<in> set (memory_units s). eligible s c u \<and> mu_pin u}"
    "set (pc_current_memory_ids c) \<subseteq> sk_memory_id ` (set pinned \<union> set regular)"
proof -
  let ?pin = "sort_key mu_id (filter (\<lambda>u. eligible s c u \<and> mu_pin u) (memory_units s))"
  let ?m = "fold (merge_row False ''fts'') (fts_rows \<epsilon> s c) (fold (merge_row False ''vector'') (vector_rows \<epsilon> s c q pool) [])"
  let ?ex = "sort_key mu_id (filter (\<lambda>u. eligible s c u \<and> \<not> mu_pin u \<and> mu_id u \<in> set (pc_current_memory_ids c)) (memory_units s))"
  define all where all: "all = (if pc_current_memory_ids c = [] then ?m else fold (merge_row True ''current'') ?ex ?m)"
  from assms have t: "t = s" and pin: "pinned = map (candidate_from_row s [''pinned'']) ?pin"
    and reg: "regular = map (\<lambda>(i, u, ss). candidate_from_row s ss u) (sort_key fst all)"
    and cur: "set (pc_current_memory_ids c) \<subseteq> mu_id ` set ?pin \<union> mu_id ` set ?ex"
    by (simp_all add: load_candidates_def Let_def act_iff all)
  show "t = s" by (fact t)
  have rows: "set (vector_rows \<epsilon> s c q pool) \<union> set (fts_rows \<epsilon> s c) \<union> set ?ex \<subseteq> {u \<in> set (memory_units s). eligible s c u}"
    by (auto simp: vector_rows_def fts_rows_def Let_def dest!: in_set_takeD split: if_splits)
  have entries: "\<And>i v ss. (i, v, ss) \<in> set all \<Longrightarrow> i = mu_id v \<and> v \<in> set (memory_units s) \<and> eligible s c v"
    using rows unfolding all by (auto split: if_splits dest!: merge_rows_values)
  have "candidate_of s c k" if "k \<in> set regular" for k
  proof -
    from that obtain i v ss where "(i, v, ss) \<in> set all" "k = candidate_from_row s ss v" by (auto simp: reg)
    with entries show ?thesis by (auto simp: candidate_of_def)
  qed
  then show "\<forall>k \<in> set pinned \<union> set regular. candidate_of s c k"
    by (auto simp: pin candidate_of_def)
  show "sk_memory_id ` set pinned = mu_id ` {u \<in> set (memory_units s). eligible s c u \<and> mu_pin u}"
    by (simp add: pin image_image)
  have "mu_id ` set ?ex \<subseteq> fst ` set all" if "pc_current_memory_ids c \<noteq> []" using that by (auto simp: merge_rows_keys all)
  moreover have "fst ` set all \<subseteq> sk_memory_id ` set regular"
  proof
    fix i assume "i \<in> fst ` set all"
    then obtain v ss where e: "(i, v, ss) \<in> set all" by auto
    then have "candidate_from_row s ss v \<in> set regular" by (force simp: reg)
    with entries [OF e] show "i \<in> sk_memory_id ` set regular" by (metis candidate_sel(1) imageI)
  qed
  ultimately have ex: "mu_id ` set ?ex \<subseteq> sk_memory_id ` set regular" if "pc_current_memory_ids c \<noteq> []"
    using that by (rule_tac order_trans)
  have pins: "mu_id ` set ?pin = sk_memory_id ` set pinned" by (simp add: pin image_image)
  show "set (pc_current_memory_ids c) \<subseteq> sk_memory_id ` (set pinned \<union> set regular)"
  proof (cases "pc_current_memory_ids c = []")
    case False
    note cur [unfolded pins]
    also have "sk_memory_id ` set pinned \<union> mu_id ` set ?ex \<subseteq> sk_memory_id ` set pinned \<union> sk_memory_id ` set regular"
      using ex [OF False] by (rule Un_mono [OF order_refl])
    finally show ?thesis by (simp only: image_Un)
  qed simp
qed


definition same_thread :: "prepare_command \<Rightarrow> thread_row \<Rightarrow> bool" where
  "same_thread c h \<longleftrightarrow> th_principal_id h = pc_principal_id c \<and> th_agent_id h = pc_agent_id c \<and>
     th_machine_id h = pc_machine_id c \<and> th_project_key h = pc_project_key c"

text \<open>The facts of one successful prepare.\<close>

definition prepared :: "env \<Rightarrow> prepare_command \<Rightarrow> db \<Rightarrow> prepare_response \<Rightarrow> scoring_selection \<Rightarrow> injection_event list \<Rightarrow> db \<Rightarrow> bool" where
  "prepared \<epsilon> c s r sel rows t \<longleftrightarrow>
     pr_injected r = sel_injected sel \<and> pr_near_misses r = sel_near_misses sel \<and>
     injection_events t = injection_events s @ rows \<and>
     list_all2 (\<lambda>d e. e = draft_row \<epsilon> c (pr_snapshot_ts r) (pr_injection_id r) (pr_scorer_version r) (pr_memory_allocation r)
       d (ev_id e) (ev_event_uid e)) (event_drafts c sel) rows \<and>
     map ev_id rows = [next_event_id s..<next_event_id s + length rows] \<and>
     (pc_mode c = Autonomous \<longrightarrow> (\<exists>b. pr_final_block r = Some b \<and>
        render_final_block (map render_row (filter shown_outcome rows)) = Inr b)) \<and>
     lineage_ok t \<and>
     (\<forall>j. j \<notin> sc_id ` set (sel_injected sel) \<longrightarrow> unit_by_id t j = unit_by_id s j) \<and>
     (\<forall>i \<in> set (sel_injected sel). \<exists>u v. unit_by_id s (sc_id i) = Some u \<and>
        injection_counted \<epsilon> (pr_snapshot_ts r) i (clock \<epsilon> (readings s)) u v \<and> unit_by_id t (sc_id i) = Some v)"

text \<open>The configuration and the candidates are read from the tables.\<close>

lemma candidates_cong:
  assumes "memory_units t = memory_units s" "injection_events t = injection_events s" "memory_revisions t = memory_revisions s"
  shows "fst (load_candidates \<epsilon> c q n t) = fst (load_candidates \<epsilon> c q n s)"
proof -
  have look: "eligible t c = eligible s c" "candidate_from_row t = candidate_from_row s"
    using assms by (simp_all add: fun_eq_iff eligible_def never_in_thread_def candidate_from_row_def last_human_edit_def)
  then have "fts_rows \<epsilon> t c = fts_rows \<epsilon> s c" "vector_rows \<epsilon> t c q n = vector_rows \<epsilon> s c q n"
    by (simp_all add: fts_rows_def vector_rows_def Let_def assms)
  with look show ?thesis by (simp add: load_candidates_def Let_def act_defs assms)
qed

lemma config_cong: "scorer_configs t = scorer_configs s \<Longrightarrow> fst (active_scorer_config \<epsilon> t) = fst (active_scorer_config \<epsilon> s)"
  by (auto simp: active_scorer_config_def act_defs split: list.split sum.split)

lemma prepare_once_success:
  assumes run: "prepare_once \<epsilon> c q s = (Inr r, t)" and ok: "lineage_ok s"
  obtains config sel rows pinned regular where "prepared \<epsilon> c s r sel rows t"
    "score_and_select \<epsilon> config (pc_prompt c) q (pr_snapshot_ts r) (pc_project_key c) (Some (pc_thread_id c))
       (pc_location_path c) (pc_current_location c) pinned regular (pc_confirmed_memory_ids c)
       (pc_model_context_tokens c) = Inr sel"
    "\<forall>k \<in> set pinned \<union> set regular. candidate_of s c k"
    "sk_memory_id ` set pinned = mu_id ` {u \<in> set (memory_units s). eligible s c u \<and> mu_pin u}"
    "set (pc_current_memory_ids c) \<subseteq> sk_memory_id ` (set pinned \<union> set regular)"
    "\<exists>h. find (\<lambda>h. th_id h = pc_thread_id c) (threads t) = Some h \<and> th_snapshot_ts h = Some (pr_snapshot_ts r) \<and>
       same_thread c h"
    "pc_mode c = Gate \<Longrightarrow> \<forall>h. find (\<lambda>h. th_id h = pc_thread_id c) (threads s) = Some h \<longrightarrow> th_snapshot_ts h = None"
    "pr_scorer_version r = cfg_version config" "pr_memory_allocation r = allocation_of config sel"
    "fst (active_scorer_config \<epsilon> s) = Inr config"
    "fst (load_candidates \<epsilon> c q (sp_candidate_pool (cfg_params config)) s) = Inr (pinned, regular)"
proof -
  define w where w: "w = s\<lparr>txn_now := clock \<epsilon> (readings s), readings := Suc (Suc (readings s))\<rparr>"
  define ts where ts: "ts = clock \<epsilon> (Suc (readings s))"
  from run obtain w1 w2 w3 w4 w5 config pinned regular sel es where
    stamp: "stamp_thread c ts w = (Inr (), w1)"
    and conf: "active_scorer_config \<epsilon> w1 = (Inr config, w2)"
    and load: "load_candidates \<epsilon> c q (sp_candidate_pool (cfg_params config)) w2 = (Inr (pinned, regular), w3)"
    and sel: "score_and_select \<epsilon> config (pc_prompt c) q ts (pc_project_key c) (Some (pc_thread_id c))
       (pc_location_path c) (pc_current_location c) pinned regular (pc_confirmed_memory_ids c)
       (pc_model_context_tokens c) = Inr sel"
    and inc: "increment_injection_stats \<epsilon> c ts (sel_injected sel) w4 = (Inr (), w5)"
    and w4: "w4 = w3\<lparr>readings := Suc (readings w3)\<rparr>"
    and ins: "insert_events \<epsilon> c ts (pr_injection_id r) (cfg_version config) sel (allocation_of config sel) w5 = (Inr es, t)"
    and r: "pr_snapshot_ts r = ts" "pr_injected r = sel_injected sel" "pr_near_misses r = sel_near_misses sel"
      "pr_scorer_version r = cfg_version config" "pr_memory_allocation r = allocation_of config sel"
    and block: "pc_mode c = Autonomous \<Longrightarrow> \<exists>b. pr_final_block r = Some b \<and>
       render_final_block (map render_row (filter shown_outcome es)) = Inr b"
    unfolding prepare_once_def transaction_Inr
    by (clarsimp simp add: act_iff clock_Inr Let_def w ts draw_def dest!: sym [of "Inr _"])
      (cases "pc_mode c = Autonomous"; clarsimp simp: act_iff dest!: sym [of "Inr _"]; rule that; simp add: w ts)
  from stamp_thread_Inr [OF stamp, folded same_thread_def] obtain ths where w1: "w1 = w\<lparr>threads := ths\<rparr>"
    and thread: "\<exists>h. find (\<lambda>h. th_id h = pc_thread_id c) ths = Some h \<and> th_snapshot_ts h = Some ts \<and>
       same_thread c h"
    and fresh: "pc_mode c = Gate \<Longrightarrow> \<forall>h. find (\<lambda>h. th_id h = pc_thread_id c) (threads w) = Some h \<longrightarrow> th_snapshot_ts h = None"
    by metis
  have w2: "w2 = w1" using conf
    by (auto simp: active_scorer_config_def act_iff split: list.splits sum.splits)
  note L = load_candidates_Inr [OF load]
  have same: "memory_units w2 = memory_units s" "injection_events w2 = injection_events s"
      "memory_revisions w2 = memory_revisions s"
    by (simp_all add: w2 w1 w)
  have elig: "eligible w2 c = eligible s c"
    by (simp add: fun_eq_iff eligible_def never_in_thread_def same)
  have cand: "candidate_of w2 c = candidate_of s c"
    by (simp add: fun_eq_iff candidate_of_def elig candidate_from_row_def last_human_edit_def same)
  have ok4: "lineage_ok w4" using ok by (simp add: w4 L(1) w2 w1 w lineage_ok_def head_lineage_def revisions_at_def)
  have "distinct (map sk_memory_id (pinned @ regular))" using sel by (rule score_and_select_run)
  then have "distinct (map sc_id (sel_injected sel))"
    using mset_eq_imp_distinct_iff [of "map sc_id (sel_injected sel @ sel_unselected sel)" "map sk_memory_id (pinned @ regular)"]
      arg_cong [OF selection_all [OF sel], of "image_mset sk_memory_id"]
    by (simp add: multiset.map_comp comp_def)
  then have dist: "distinct (map sc_id (sort_key sc_id (sel_injected sel)))" by (simp add: distinct_map)
  note sweep = inc.sweep [OF inc [unfolded increment_injection_stats_def] dist ok4]
  from ins obtain rows where
    rows: "injection_events t = injection_events w5 @ rows"
      "list_all2 (\<lambda>d e. e = draft_row \<epsilon> c ts (pr_injection_id r) (cfg_version config) (allocation_of config sel) d
         (ev_id e) (ev_event_uid e)) (event_drafts c sel) rows"
      "map ev_id rows = [next_event_id w5..<next_event_id w5 + length rows]"
    and t': "\<exists>n. t = w5\<lparr>injection_events := injection_events w5 @ rows, readings := n\<rparr>"
    and num: "rows = number_events (next_event_id w5) es"
    by (rule insert_events_Inr)
  note block = block [folded render_number_events [of "next_event_id w5" es], folded num]
  from t' obtain n where t: "t = w5\<lparr>injection_events := injection_events w5 @ rows, readings := n\<rparr>" ..
  have ev: "injection_events w5 = injection_events s" "threads w5 = ths" "txn_now w4 = clock \<epsilon> (readings s)"
    using sweep by (simp_all add: same_context_def w4 L(1) w2 w1 w)
  have look: "unit_by_id w4 = unit_by_id s" "unit_by_id t = unit_by_id w5"
    by (simp_all add: fun_eq_iff unit_by_id_def w4 L(1) same t)
  have "prepared \<epsilon> c s r sel rows t"
    using rows sweep block unfolding prepared_def r ev(1,3) look next_event_id_def
    by (simp add: t lineage_ok_def head_lineage_def revisions_at_def)
  moreover have "fst (load_candidates \<epsilon> c q (sp_candidate_pool (cfg_params config)) s) = Inr (pinned, regular)"
    by (subst candidates_cong [OF same, symmetric]) (simp add: load)
  moreover have "fst (active_scorer_config \<epsilon> s) = Inr config"
    by (subst config_cong [of w1 s, symmetric]) (simp_all add: conf, simp add: w1 w)
  ultimately show ?thesis
    by (rule_tac that [OF _ sel [folded r(1)]])
      (use L(2-4) thread fresh r in \<open>simp_all add: cand elig same(1) t ev(2) w\<close>)
qed

lemma same_tables_trans [trans]: "same_tables s t \<Longrightarrow> same_tables t u \<Longrightarrow> same_tables s u"
  by (simp add: same_tables_def)

lemma validate_command_Inr:
  assumes "validate_command c s = (Inr x, t)"
  shows "t = s" "set (pc_confirmed_memory_ids c) \<subseteq> set (pc_current_memory_ids c)"
    "pc_mode c = Gate \<Longrightarrow> pc_current_memory_ids c = [] \<and> pc_confirmed_memory_ids c = [] \<and> pc_excluded_memory_ids c = []"
  using assms by (auto simp: validate_command_def act_iff split: if_splits)

lemma validate_command_state: "validate_command c s = (Inr x, u) \<Longrightarrow> validate_command c t = (Inr (), t)"
  by (auto simp: validate_command_def act_defs split: if_splits)

lemma prepare_success:
  assumes "prepare \<epsilon> c s = (Inr r, t)"
  obtains q s' where "embedding \<epsilon> (pc_prompt c) = Some q" "same_tables s s'" "prepare_once \<epsilon> c q s' = (Inr r, t)"
    "validate_command c s = (Inr (), s)"
proof -
  have "\<exists>s'. same_tables s s' \<and> prepare_once \<epsilon> c q s' = (Inr r, t)" if "prepare_attempts n \<epsilon> c q s = (Inr r, t)" for n q
    using that
  proof (induction n arbitrary: s)
    case (Suc n)
    show ?case
    proof (cases "prepare_once \<epsilon> c q s")
      case (Pair res u)
      show ?thesis
      proof (cases res)
        case (Inl e)
        with Pair have "same_tables s u" unfolding prepare_once_def by (auto dest: transaction_Inl)
        moreover from Suc.prems Pair Inl have "prepare_attempts n \<epsilon> c q u = (Inr r, t)"
          by (auto simp: catch_def raise_def split: err.splits)
        ultimately show ?thesis using Suc.IH [of u] by (blast intro: same_tables_trans)
      next
        case (Inr r')
        with Suc.prems Pair have "prepare_once \<epsilon> c q s = (Inr r, t)" by (simp add: catch_def)
        then show ?thesis by (intro exI [of _ s]) (simp add: same_tables_def)
      qed
    qed
  qed (simp add: act_iff)
  moreover from assms obtain q where "validate_command c s = (Inr (), s)" "embedding \<epsilon> (pc_prompt c) = Some q"
    "prepare_attempts max_transaction_attempts \<epsilon> c q s = (Inr r, t)"
    by (auto simp: prepare_def act_iff dest: validate_command_Inr(1))
  ultimately show ?thesis using that by blast
qed

lemma same_tables_lineage: "same_tables s t \<Longrightarrow> lineage_ok t = lineage_ok s"
  by (simp add: same_tables_def lineage_ok_def head_lineage_def revisions_at_def)

lemma event_drafts_sel:
  "pc_mode c = Gate \<Longrightarrow> map dr_item (event_drafts c sel) = sel_injected sel @ sel_near_misses sel @ sel_budget_cuts sel"
  by (simp add: event_drafts_def Let_def comp_def)

text \<open>What one row of the event table says about a card.\<close>

definition event_entry :: "injection_event \<Rightarrow> uuid \<times> shown_as \<times> actor_class \<times> outcome option" where
  "event_entry e = (ev_memory_id e, ev_shown_as e, ev_actor_class e, ev_outcome e)"

lemma prepared_rows:
  assumes "prepared \<epsilon> c s r sel rows t"
  shows "map event_entry rows = map (\<lambda>d. (sc_id (dr_item d), dr_shown_as d, dr_actor d, dr_outcome d)) (event_drafts c sel)"
    "\<forall>e \<in> set rows. ev_injection_id e = pr_injection_id r \<and> ev_thread_id e = pc_thread_id c \<and>
       ev_principal_id e = pc_principal_id c \<and> ev_ts e = pr_snapshot_ts r \<and> ev_scorer_version e = pr_scorer_version r"
proof -
  from assms have all: "list_all2 (\<lambda>d e. e = draft_row \<epsilon> c (pr_snapshot_ts r) (pr_injection_id r) (pr_scorer_version r)
      (pr_memory_allocation r) d (ev_id e) (ev_event_uid e)) (event_drafts c sel) rows" by (simp add: prepared_def)
  have row: "event_entry e = (sc_id (dr_item d), dr_shown_as d, dr_actor d, dr_outcome d) \<and>
      ev_injection_id e = i \<and> ev_thread_id e = pc_thread_id c \<and> ev_principal_id e = pc_principal_id c \<and> ev_ts e = ts \<and>
      ev_scorer_version e = v" if "e = draft_row \<epsilon> c ts i v a d (ev_id e) (ev_event_uid e)" for e ts i v a d
  proof -
    have "event_entry f = (sc_id (dr_item d), dr_shown_as d, dr_actor d, dr_outcome d) \<and>
        ev_injection_id f = i \<and> ev_thread_id f = pc_thread_id c \<and> ev_principal_id f = pc_principal_id c \<and> ev_ts f = ts \<and>
        ev_scorer_version f = v" if "f = draft_row \<epsilon> c ts i v a d n uid" for f n uid
      by (simp add: that draft_row_def Let_def event_entry_def)
    from this [OF that] show ?thesis .
  qed
  from all show "map event_entry rows = map (\<lambda>d. (sc_id (dr_item d), dr_shown_as d, dr_actor d, dr_outcome d)) (event_drafts c sel)"
    by (induction rule: list_all2_induct) (auto dest: row)
  show "\<forall>e \<in> set rows. ev_injection_id e = pr_injection_id r \<and> ev_thread_id e = pc_thread_id c \<and>
       ev_principal_id e = pc_principal_id c \<and> ev_ts e = pr_snapshot_ts r \<and> ev_scorer_version e = pr_scorer_version r"
  proof
    fix e assume "e \<in> set rows"
    with all obtain d where "e = draft_row \<epsilon> c (pr_snapshot_ts r) (pr_injection_id r) (pr_scorer_version r)
      (pr_memory_allocation r) d (ev_id e) (ev_event_uid e)" by (auto simp: list_all2_conv_all_nth in_set_conv_nth)
    from row [OF this] show "ev_injection_id e = pr_injection_id r \<and> ev_thread_id e = pc_thread_id c \<and>
       ev_principal_id e = pc_principal_id c \<and> ev_ts e = pr_snapshot_ts r \<and> ev_scorer_version e = pr_scorer_version r" by simp
  qed
qed

lemma next_event_id_fresh: "e \<in> set (injection_events s) \<Longrightarrow> ev_id e < next_event_id s"
proof -
  have "x \<in> set xs \<Longrightarrow> x \<le> fold max xs n" for x n :: nat and xs
  proof (induction xs arbitrary: n)
    case (Cons y ys)
    have "m \<le> fold max ys m" for m :: nat 
      by (induction ys arbitrary: m) (auto intro: order_trans [OF max.cobounded2])
    from this [of "max y n"] Cons show ?case by auto
  qed simp
  then show "e \<in> set (injection_events s) \<Longrightarrow> ?thesis" by (simp add: next_event_id_def less_Suc_eq_le)
qed

lemma prepared_events_ok: "prepared \<epsilon> c s r sel rows t \<Longrightarrow> events_ok s \<Longrightarrow> events_ok t"
  using next_event_id_fresh [of _ s] by (fastforce simp: prepared_def events_ok_def)

section \<open>Properties\<close>

lemma prepare_prepared:
  assumes run: "prepare \<epsilon> c s = (Inr r, t)" and ok: "lineage_ok s"
  obtains s' config sel rows pinned regular q where "same_tables s s'" "prepared \<epsilon> c s' r sel rows t"
    "score_and_select \<epsilon> config (pc_prompt c) q (pr_snapshot_ts r) (pc_project_key c) (Some (pc_thread_id c))
       (pc_location_path c) (pc_current_location c) pinned regular (pc_confirmed_memory_ids c)
       (pc_model_context_tokens c) = Inr sel"
    "\<forall>k \<in> set pinned \<union> set regular. candidate_of s c k"
    "sk_memory_id ` set pinned = mu_id ` {u \<in> set (memory_units s). eligible s c u \<and> mu_pin u}"
    "set (pc_current_memory_ids c) \<subseteq> sk_memory_id ` (set pinned \<union> set regular)"
    "\<exists>h. find (\<lambda>h. th_id h = pc_thread_id c) (threads t) = Some h \<and> th_snapshot_ts h = Some (pr_snapshot_ts r) \<and>
       same_thread c h"
    "validate_command c s = (Inr (), s)" "pr_scorer_version r = cfg_version config"
    "embedding \<epsilon> (pc_prompt c) = Some q" "fst (active_scorer_config \<epsilon> s) = Inr config"
    "fst (load_candidates \<epsilon> c q (sp_candidate_pool (cfg_params config)) s) = Inr (pinned, regular)"
proof -
  from run obtain q s' where s': "same_tables s s'" and once: "prepare_once \<epsilon> c q s' = (Inr r, t)"
    and v: "validate_command c s = (Inr (), s)" and q: "embedding \<epsilon> (pc_prompt c) = Some q" by (rule prepare_success)
  have config: "fst (active_scorer_config \<epsilon> s') = fst (active_scorer_config \<epsilon> s)"
    using s' by (intro config_cong) (simp add: same_tables_def)
  from s' ok have ok': "lineage_ok s'" by (simp add: same_tables_lineage)
  from s' have same: "memory_units s' = memory_units s" "injection_events s' = injection_events s"
      "memory_revisions s' = memory_revisions s" by (simp_all add: same_tables_def)
  have elig: "eligible s' c = eligible s c"
    by (simp add: fun_eq_iff eligible_def never_in_thread_def same)
  have cand: "candidate_of s' c = candidate_of s c"
    by (simp add: fun_eq_iff candidate_of_def elig candidate_from_row_def last_human_edit_def same)
  show ?thesis
    by (rule prepare_once_success [OF once ok'], rule that [OF s'])
      (auto simp: cand elig same(1) v q config candidates_cong [OF same])
qed

text \<open>C17: A gate prepare scores the thread's candidates under the active configuration and appends one event
  per card it decided on, under a fresh sequence number and the response's injection: the injected cards undecided (as
  pinned or injected), the near misses undecided, and every card the budget cut with that outcome, where the cards cut
  are exactly the candidates that are not pinned, reach the threshold and cost more than what the budget leaves after the
  better-ranked injected cards. Nothing else is appended, no earlier event changes and event identifiers stay unique.\<close>

theorem prepare_gate_records:
  assumes run: "prepare \<epsilon> c s = (Inr r, t)" and gate: "pc_mode c = Gate" and ok: "lineage_ok s" "events_ok s"
  shows "\<exists>config q pinned regular sel rows.
     fst (active_scorer_config \<epsilon> s) = Inr config \<and> embedding \<epsilon> (pc_prompt c) = Some q \<and>
     fst (load_candidates \<epsilon> c q (sp_candidate_pool (cfg_params config)) s) = Inr (pinned, regular) \<and>
     score_and_select \<epsilon> config (pc_prompt c) q (pr_snapshot_ts r) (pc_project_key c) (Some (pc_thread_id c))
       (pc_location_path c) (pc_current_location c) pinned regular [] (pc_model_context_tokens c) = Inr sel \<and>
     pr_injected r = sel_injected sel \<and> pr_near_misses r = sel_near_misses sel \<and>
     mset (map sc_candidate (sel_injected sel @ sel_unselected sel)) = mset (pinned @ regular) \<and>
     (\<forall>x \<in> set (sel_injected sel @ sel_unselected sel). x \<in> set (sel_budget_cuts sel) \<longleftrightarrow>
        \<not> sk_pin (sc_candidate x) \<and> sp_tau (cfg_params config) \<le> sc_score x \<and>
        sc_token_cost x > max 0 (sel_regular_budget sel) -
          token_sum (filter (\<lambda>y. \<not> sk_pin (sc_candidate y) \<and> sc_rank y < sc_rank x) (sel_injected sel))) \<and>
     set (sel_budget_cuts sel) \<subseteq> set (sel_unselected sel) \<and> distinct (map sc_id (sel_budget_cuts sel)) \<and>
     injection_events t = injection_events s @ rows \<and> events_ok t \<and>
     map event_entry rows =
       map (\<lambda>i. (sc_id i, if sk_pin (sc_candidate i) then Pinned else Injected, Human, None)) (sel_injected sel) @
       map (\<lambda>i. (sc_id i, Near_miss, Human, None)) (sel_near_misses sel) @
       map (\<lambda>i. (sc_id i, Budget_cut, Human, Some Outcome_budget_cut)) (sel_budget_cuts sel) \<and>
     (\<forall>e \<in> set rows. ev_injection_id e = pr_injection_id r \<and> ev_thread_id e = pc_thread_id c \<and>
        ev_principal_id e = pc_principal_id c \<and> ev_ts e = pr_snapshot_ts r \<and> ev_scorer_version e = pr_scorer_version r)"
proof -
  from run ok(1) obtain s' config sel rows pinned regular q where s': "same_tables s s'" and P: "prepared \<epsilon> c s' r sel rows t"
    and S: "score_and_select \<epsilon> config (pc_prompt c) q (pr_snapshot_ts r) (pc_project_key c) (Some (pc_thread_id c))
       (pc_location_path c) (pc_current_location c) pinned regular (pc_confirmed_memory_ids c)
       (pc_model_context_tokens c) = Inr sel"
    and v: "validate_command c s = (Inr (), s)"
    and pool: "embedding \<epsilon> (pc_prompt c) = Some q" "fst (active_scorer_config \<epsilon> s) = Inr config"
      "fst (load_candidates \<epsilon> c q (sp_candidate_pool (cfg_params config)) s) = Inr (pinned, regular)" by (rule prepare_prepared)
  have none: "pc_confirmed_memory_ids c = []" using validate_command_Inr(3) [OF v gate] by simp
  note S = S [unfolded none]
  have "injection_events s' = injection_events s" "events_ok s'"
    using s' ok(2) by (simp_all add: same_tables_def events_ok_def)
  moreover have "injection_events t = injection_events s' @ rows" "pr_injected r = sel_injected sel"
      "pr_near_misses r = sel_near_misses sel" using P by (simp_all add: prepared_def)
  moreover have "map event_entry rows =
       map (\<lambda>i. (sc_id i, if sk_pin (sc_candidate i) then Pinned else Injected, Human, None)) (sel_injected sel) @
       map (\<lambda>i. (sc_id i, Near_miss, Human, None)) (sel_near_misses sel) @
       map (\<lambda>i. (sc_id i, Budget_cut, Human, Some Outcome_budget_cut)) (sel_budget_cuts sel)"
    unfolding prepared_rows(1) [OF P] using gate by (simp add: event_drafts_def Let_def comp_def)
  moreover have "distinct (map sc_id (sel_budget_cuts sel))"
    using selection_distinct [OF S] by (simp add: selection_parts(2) [OF S] distinct_map_filter)
  moreover have "set (sel_budget_cuts sel) \<subseteq> set (sel_unselected sel)"
    by (auto simp: selection_parts(2) [OF S])
  ultimately show ?thesis
    using prepared_rows(2) [OF P] prepared_events_ok [OF P] S pool selection_all [OF S] budget_cut_iff [OF S]
    by (intro exI [of _ config] exI [of _ q] exI [of _ pinned] exI [of _ regular] exI [of _ sel] exI [of _ rows] conjI) simp_all
qed

text \<open>Preparing counts: each injected memory exists at the revision that was scored, gains one
  injection and the snapshot as \<open>last_injected_at\<close> and one revision, and keeps its text, label, status,
  pin and bias; every other memory is left as it was.\<close>

theorem prepare_counts:
  assumes run: "prepare \<epsilon> c s = (Inr r, t)" and ok: "lineage_ok s"
  shows "(\<forall>j. j \<notin> sc_id ` set (pr_injected r) \<longrightarrow> unit_by_id t j = unit_by_id s j) \<and>
     (\<forall>i \<in> set (pr_injected r). \<exists>u v. unit_by_id s (sc_id i) = Some u \<and> unit_by_id t (sc_id i) = Some v \<and>
        mu_revision u = sk_revision (sc_candidate i) \<and> mu_revision v = mu_revision u + 1 \<and>
        int_stat (mu_stats v) ''injections'' = int_stat (mu_stats u) ''injections'' + 1 \<and>
        dget (mu_stats v) ''last_injected_at'' = Some (JStr (isoformat \<epsilon> (pr_snapshot_ts r))) \<and>
        mu_body v = mu_body u \<and> mu_label v = mu_label u \<and> mu_status v = mu_status u \<and> mu_pin v = mu_pin u \<and>
        mu_bias v = mu_bias u) \<and> lineage_ok t"
proof -
  from run ok obtain s' config sel rows pinned regular q where s': "same_tables s s'" and P: "prepared \<epsilon> c s' r sel rows t"
    and S: "score_and_select \<epsilon> config (pc_prompt c) q (pr_snapshot_ts r) (pc_project_key c) (Some (pc_thread_id c))
       (pc_location_path c) (pc_current_location c) pinned regular (pc_confirmed_memory_ids c)
       (pc_model_context_tokens c) = Inr sel"
    and cand: "\<forall>k \<in> set pinned \<union> set regular. candidate_of s c k" by (rule prepare_prepared)
  have look: "unit_by_id s' = unit_by_id s" using s' by (simp add: fun_eq_iff unit_by_id_def same_tables_def)
  have "\<exists>u v. unit_by_id s (sc_id i) = Some u \<and> unit_by_id t (sc_id i) = Some v \<and>
        mu_revision u = sk_revision (sc_candidate i) \<and> mu_revision v = mu_revision u + 1 \<and>
        int_stat (mu_stats v) ''injections'' = int_stat (mu_stats u) ''injections'' + 1 \<and>
        dget (mu_stats v) ''last_injected_at'' = Some (JStr (isoformat \<epsilon> (pr_snapshot_ts r))) \<and>
        mu_body v = mu_body u \<and> mu_label v = mu_label u \<and> mu_status v = mu_status u \<and> mu_pin v = mu_pin u \<and>
        mu_bias v = mu_bias u" if i: "i \<in> set (sel_injected sel)" for i
  proof -
    from P i look obtain u v where u: "unit_by_id s (sc_id i) = Some u" "unit_by_id t (sc_id i) = Some v"
      and v: "injection_counted \<epsilon> (pr_snapshot_ts r) i (clock \<epsilon> (readings s')) u v"
      by (auto simp: prepared_def)
    have "sc_candidate i \<in> set pinned \<union> set regular" by (rule selection_candidates [OF S]) (simp add: i)
    with cand have "candidate_of s c (sc_candidate i)" ..
    then obtain w ss where w: "w \<in> set (memory_units s)" "sc_candidate i = candidate_from_row s ss w"
      unfolding candidate_of_def by blast
    with u(1) ok have "w = u" by (auto simp: lineage_ok_def unit_by_id_iff distinct_map dest: inj_onD)
    with w have st: "sk_stats (sc_candidate i) = mu_stats u" by simp
    from v obtain stats where stats: "injection_stats \<epsilon> (pr_snapshot_ts r) (mu_stats u) = Inr stats"
      and v': "v = bumped_head \<epsilon> (no_changes\<lparr>ch_stats := Some stats\<rparr>) (clock \<epsilon> (readings s')) u"
      and rev: "mu_revision u = sk_revision (sc_candidate i)"
      by (auto simp: injection_counted_def st)
    from stats have "int_stat stats ''injections'' = int_stat (mu_stats u) ''injections'' + 1"
      "dget stats ''last_injected_at'' = Some (JStr (isoformat \<epsilon> (pr_snapshot_ts r)))"
      by (auto simp: injection_stats_def int_stat_def split: option.splits json.splits)
    with u rev show ?thesis by (auto simp: v' bumped_head_def apply_changes_def no_changes_def)
  qed
  with P look show ?thesis by (simp add: prepared_def)
qed

text \<open>C18: Whom a prepare may touch: every event it appends is about an active memory of
  the caller's principal, global or of the thread's project, that the request does not exclude and that was never
  removed for good in this thread. Every eligible pinned memory and every memory the thread has confirmed is
  injected, whatever it costs.\<close>

theorem prepare_respects_exclusions:
  assumes run: "prepare \<epsilon> c s = (Inr r, t)" and ok: "lineage_ok s"
  shows "(\<forall>e \<in> set (injection_events t) - set (injection_events s). \<exists>u \<in> set (memory_units s). mu_id u = ev_memory_id e \<and>
       mu_principal_id u = pc_principal_id c \<and> mu_status u = Active \<and>
       (mu_project_key u = None \<or> mu_project_key u = pc_project_key c) \<and> mu_id u \<notin> set (pc_excluded_memory_ids c) \<and>
       \<not> (\<exists>d \<in> set (injection_events s). ev_memory_id d = mu_id u \<and> ev_principal_id d = pc_principal_id c \<and>
            ev_thread_id d = pc_thread_id c \<and> ev_outcome d = Some (Removed Never))) \<and>
     (\<forall>u \<in> set (memory_units s). eligible s c u \<and> mu_pin u \<longrightarrow> mu_id u \<in> sc_id ` set (pr_injected r)) \<and>
     set (pc_confirmed_memory_ids c) \<subseteq> sc_id ` set (pr_injected r)"
proof -
  from run ok obtain s' config sel rows pinned regular q where s': "same_tables s s'" and P: "prepared \<epsilon> c s' r sel rows t"
    and S: "score_and_select \<epsilon> config (pc_prompt c) q (pr_snapshot_ts r) (pc_project_key c) (Some (pc_thread_id c))
       (pc_location_path c) (pc_current_location c) pinned regular (pc_confirmed_memory_ids c)
       (pc_model_context_tokens c) = Inr sel"
    and cand: "\<forall>k \<in> set pinned \<union> set regular. candidate_of s c k"
    and pins: "sk_memory_id ` set pinned = mu_id ` {u \<in> set (memory_units s). eligible s c u \<and> mu_pin u}"
    and cur: "set (pc_current_memory_ids c) \<subseteq> sk_memory_id ` (set pinned \<union> set regular)"
    and v: "validate_command c s = (Inr (), s)" by (rule prepare_prepared)
  have inj: "pr_injected r = sel_injected sel" "injection_events t = injection_events s @ rows"
    using P s' by (simp_all add: prepared_def same_tables_def)
  note parts = selection_parts [OF S]
  have ids: "sk_memory_id ` set pinned \<subseteq> sc_id ` set (sel_injected sel)"
    using image_mono [OF parts(3), of sk_memory_id] by (simp add: image_image)
  have el: "\<exists>u \<in> set (memory_units s). mu_id u = ev_memory_id e \<and> eligible s c u" if e: "e \<in> set rows" for e
  proof -
    from e have "event_entry e \<in> set (map event_entry rows)" by simp
    then obtain d where d: "d \<in> set (event_drafts c sel)" "ev_memory_id e = sc_id (dr_item d)"
      unfolding prepared_rows(1) [OF P] by (auto simp: event_entry_def)
    from d(1) parts(1,2) have "dr_item d \<in> set (sel_injected sel @ sel_unselected sel)"
      by (auto simp: event_drafts_def Let_def dest: in_set_takeD split: if_splits)
    from selection_candidates [OF S this] have "candidate_of s c (sc_candidate (dr_item d))" by (rule bspec [OF cand])
    then show ?thesis unfolding candidate_of_def by (auto simp: d(2))
  qed
  have "mu_id u \<in> sc_id ` set (pr_injected r)" if "u \<in> set (memory_units s)" "eligible s c u" "mu_pin u" for u
    using that ids unfolding inj(1) pins by blast
  moreover have "set (pc_confirmed_memory_ids c) \<subseteq> sc_id ` set (pr_injected r)"
  proof
    fix i assume i: "i \<in> set (pc_confirmed_memory_ids c)"
    with validate_command_Inr(2) [OF v] cur obtain k where k: "k \<in> set pinned \<union> set regular" "i = sk_memory_id k" by blast
    from k(1) show "i \<in> sc_id ` set (pr_injected r)"
    proof
      assume "k \<in> set pinned"
      with ids k show ?thesis unfolding inj(1) by blast
    next
      assume "k \<in> set regular"
      with parts(4) i k have "k \<in> sc_candidate ` set (sel_injected sel)" by blast
      with k(2) show ?thesis unfolding inj(1) by auto
    qed
  qed
  moreover have "\<exists>u \<in> set (memory_units s). mu_id u = ev_memory_id e \<and>
       mu_principal_id u = pc_principal_id c \<and> mu_status u = Active \<and>
       (mu_project_key u = None \<or> mu_project_key u = pc_project_key c) \<and> mu_id u \<notin> set (pc_excluded_memory_ids c) \<and>
       \<not> (\<exists>d \<in> set (injection_events s). ev_memory_id d = mu_id u \<and> ev_principal_id d = pc_principal_id c \<and>
            ev_thread_id d = pc_thread_id c \<and> ev_outcome d = Some (Removed Never))"
    if "e \<in> set (injection_events t) - set (injection_events s)" for e
  proof -
    from that have "e \<in> set rows" by (auto simp: inj(2))
    from el [OF this] obtain u where "u \<in> set (memory_units s)" "mu_id u = ev_memory_id e" "eligible s c u" by blast
    then show ?thesis by (intro bexI [of _ u]) (simp_all add: eligible_def never_in_thread_def)
  qed
  ultimately show ?thesis by blast
qed

lemma gate_refused:
  assumes "find (\<lambda>h. th_id h = pc_thread_id d) (threads t) = Some h" "th_snapshot_ts h \<noteq> None" "pc_mode d = Gate"
  obtains u where "same_tables t u" "prepare_once \<epsilon> d q t =
    (Inl (if same_thread d h then ThreadAlreadyPrepared (pc_thread_id d) else ThreadIdentityConflict (pc_thread_id d)), u)"
proof -
  have "fst (prepare_once \<epsilon> d q t) =
    Inl (if same_thread d h then ThreadAlreadyPrepared (pc_thread_id d) else ThreadIdentityConflict (pc_thread_id d))"
    using assms by (auto simp: prepare_once_def transaction_def atomic_def act_defs clock_timestamp_def draw_def stamp_thread_def
        same_thread_def split: prod.splits)
  then obtain u where r: "prepare_once \<epsilon> d q t =
    (Inl (if same_thread d h then ThreadAlreadyPrepared (pc_thread_id d) else ThreadIdentityConflict (pc_thread_id d)), u)"
    by (metis prod.collapse)
  then have "same_tables t u" unfolding prepare_once_def by (rule transaction_Inl)
  with r show ?thesis by (rule_tac that)
qed

text \<open>A thread passes the gate once: after any successful prepare, a gate prepare of the same
  thread fails and leaves every table as it is, and repeating the very request is refused as already prepared.\<close>

theorem prepare_gate_once:
  assumes run: "prepare \<epsilon> c s = (Inr r, t)" and ok: "lineage_ok s"
    and again: "pc_mode d = Gate" "pc_thread_id d = pc_thread_id c"
  shows "\<exists>e u. prepare \<epsilon> d t = (Inl e, u) \<and> same_tables t u \<and> (d = c \<longrightarrow> e = ThreadAlreadyPrepared (pc_thread_id c))"
proof -
  from run ok obtain q where q: "\<exists>h. find (\<lambda>h. th_id h = pc_thread_id c) (threads t) = Some h \<and>
      th_snapshot_ts h = Some (pr_snapshot_ts r) \<and> same_thread c h"
    "validate_command c s = (Inr (), s)" "embedding \<epsilon> (pc_prompt c) = Some q" by (rule prepare_prepared)
  then obtain h where h: "find (\<lambda>h. th_id h = pc_thread_id d) (threads t) = Some h" "th_snapshot_ts h \<noteq> None"
    "same_thread c h" "validate_command c s = (Inr (), s)" "embedding \<epsilon> (pc_prompt c) = Some q"
    unfolding again(2) by auto
  show ?thesis
  proof (cases "validate_command d t")
    case (Pair v w)
    have w: "w = t" using Pair by (auto simp: validate_command_def act_defs split: if_splits prod.splits)
    show ?thesis
    proof (cases "v = Inr () \<and> embedding \<epsilon> (pc_prompt d) \<noteq> None")
      case True
      then obtain p where p: "embedding \<epsilon> (pc_prompt d) = Some p" by blast
      let ?e = "if same_thread d h then ThreadAlreadyPrepared (pc_thread_id d) else ThreadIdentityConflict (pc_thread_id d)"
      obtain u where u: "same_tables t u" "prepare_once \<epsilon> d p t = (Inl ?e, u)"
        by (rule gate_refused [OF h(1,2) again(1)])
      have "prepare \<epsilon> d t = (Inl ?e, u)"
        using True Pair w p u(2) by (simp add: prepare_def act_defs embed_one_def max_transaction_attempts_def eval_nat_numeral)
      with u(1) h(3) show ?thesis by auto
    next
      case False
      then have "\<exists>e. prepare \<epsilon> d t = (Inl e, t)"
        using Pair w by (cases v) (auto simp: prepare_def act_defs embed_one_def)
      moreover have "d \<noteq> c" using False Pair h(5) validate_command_state [OF h(4), of t] by auto
      ultimately show ?thesis by (auto simp: same_tables_def)
    qed
  qed
qed

text \<open>A row written by prepare always renders: the frozen card is in its features.\<close>

lemma draft_renders:
  "event_order (render_row (draft_row \<epsilon> c ts i v a d n uid)) = Inr (sc_rank (dr_item d), uuid_str (sc_id (dr_item d)))"
  "Renderer.event_card (render_row (draft_row \<epsilon> c ts i v a d n uid)) = Inr (sk_label (sc_candidate (dr_item d)),
     kind_name (sk_kind (sc_candidate (dr_item d))), isoformat \<epsilon> (sk_updated_at (sc_candidate (dr_item d))),
     sk_body (sc_candidate (dr_item d)))"
  by (simp_all add: event_order_def Renderer.event_card_def frozen_memory_def frozen_field_def render_row_def draft_row_def
      event_features_def dget_def Let_def)

lemma render_total:
  assumes "\<And>e. e \<in> set es \<Longrightarrow> \<exists>k c. event_order e = Inr k \<and> Renderer.event_card e = Inr c"
  shows "\<exists>b. render_final_block es = Inr b"
proof -
  obtain keys where keys: "smap event_order es = Inr keys" using smap_total [of es event_order] assms by blast
  have "set (map snd (sort_key fst (zip keys es))) \<subseteq> set es" by (auto dest: set_zip_rightD)
  then obtain cards where "smap Renderer.event_card (map snd (sort_key fst (zip keys es))) = Inr cards"
    using smap_total [of "map snd (sort_key fst (zip keys es))" Renderer.event_card] assms by blast
  with keys show ?thesis by (simp add: render_final_block_def sbind_def)
qed

lemma drafts_render:
  assumes "list_all2 (\<lambda>d e. \<exists>n uid. e = draft_row \<epsilon> c ts i v a d n uid) ds es"
  shows "\<exists>b. render_final_block (map render_row (filter P es)) = Inr b"
proof (rule render_total)
  fix r assume "r \<in> set (map render_row (filter P es))"
  then obtain e where e: "e \<in> set es" "r = render_row e" by auto
  with assms obtain d n uid where "e = draft_row \<epsilon> c ts i v a d n uid"
    by (auto simp: list_all2_conv_all_nth in_set_conv_nth)
  with draft_renders [of \<epsilon> c ts i v a d n uid] e(2)
  show "\<exists>k c. event_order r = Inr k \<and> Renderer.event_card r = Inr c" by blast
qed

section \<open>A small thread\<close>

text \<open>One pinned memory and one that the budget of a single token cuts.\<close>

definition sample_memory :: "uuid \<Rightarrow> bool \<Rightarrow> memory_unit" where
  "sample_memory i pin = (root_row sample_env (sample_command\<lparr>cm_label := if pin then ''Pin'' else ''Label''\<rparr>)
     (replicate 1536 1) Active i None None 0)\<lparr>mu_pin := pin\<rparr>"

definition sample_weights :: dict where
  "sample_weights = [(''sem'', JFloat (1/2)), (''kw'', JFloat (1/10)), (''time'', JFloat (1/10)), (''proj'', JFloat (1/10)),
     (''freq'', JFloat (1/10)), (''hist'', JFloat (1/10))]"

definition sample_scorer_params :: dict where
  "sample_scorer_params = [(''tau'', JInt 0), (''near_miss_k'', JInt 2), (''memory_context_share'', JFloat (1/10)),
     (''half_life_time_days'', JFloat 30), (''half_life_hist_days'', JFloat 30), (''candidate_pool'', JInt 50)]"

definition sample_thread_row :: "timestamp \<Rightarrow> thread_row" where
  "sample_thread_row ts = \<lparr>th_id = 9, th_principal_id = ''p'', th_agent_id = ''a'', th_machine_id = ''m'', th_project_key = None,
    th_snapshot_ts = Some ts, th_created_at = 0\<rparr>"

definition sample_thread_db :: "prepare_mode \<Rightarrow> db" where
  "sample_thread_db m = empty_db\<lparr>memory_units := [sample_memory 1 True, sample_memory 2 False],
     memory_revisions := [root_revision sample_command ''r1'' (sample_memory 1 True) 0,
       root_revision sample_command ''r2'' (sample_memory 2 False) 0],
     scorer_configs := [\<lparr>sc_version = ''v'', sc_weights = sample_weights, sc_params = sample_scorer_params,
       sc_created_at = 0, sc_active = True\<rparr>],
     threads := (if m = Gate then [] else [sample_thread_row 0])\<rparr>"

definition sample_prepare :: "prepare_mode \<Rightarrow> prepare_command" where
  "sample_prepare m = \<lparr>pc_thread_id = 9, pc_agent_id = ''a'', pc_machine_id = ''m'', pc_principal_id = ''p'',
     pc_project_key = None, pc_location_path = None, pc_current_location = None, pc_agent_kind = ''general'',
     pc_prompt = ''a'', pc_model_context_tokens = 10, pc_mode = m, pc_current_memory_ids = [],
     pc_confirmed_memory_ids = [], pc_excluded_memory_ids = []\<rparr>"

lemma sample_thread_ok: "lineage_ok (sample_thread_db m)" "events_ok (sample_thread_db m)"
proof -
  have "n = 1 \<or> n < 1 \<or> 1 < (n :: int)" for n by linarith
  then show "lineage_ok (sample_thread_db m)"
    by (auto simp: sample_thread_db_def lineage_ok_def head_lineage_def revisions_at_def empty_db_def sample_memory_def
        root_row_def root_revision_def)
  show "events_ok (sample_thread_db m)" by (simp add: events_ok_def sample_thread_db_def empty_db_def)
qed

definition sample_thread_scorer :: scorer_config where
  "sample_thread_scorer = sample_scorer\<lparr>cfg_version := ''v'', cfg_params := sample_params\<lparr>sp_tau := 0\<rparr>\<rparr>"

lemma sample_config_run: "from_mappings sample_env ''v'' sample_weights sample_scorer_params = Inr sample_thread_scorer"
  by (simp add: from_mappings_def learner_offsets_def weights_from_def params_from_def axes_from_def sbind_def check_def
      sample_weights_def sample_scorer_params_def dget_def weight_names_def number_def finite_number_def integer_def
      optional_number_def weights_of_def check_params_def check_config_def check_projects_def sample_scorer_def sample_params_def
      strip_def rstrip_def is_space_def Let_def sample_thread_scorer_def)

lemma sample_load_run:
  "load_candidates sample_env (sample_prepare m) (replicate 1536 1) 50 ((sample_thread_db m)\<lparr>threads := ths, txn_now := n, readings := k\<rparr>) =
     (Inr ([candidate_from_row (sample_thread_db m) [''pinned''] (sample_memory 1 True)],
           [candidate_from_row (sample_thread_db m) [''vector''] (sample_memory 2 False)]),
      (sample_thread_db m)\<lparr>threads := ths, txn_now := n, readings := k\<rparr>)"
  by (simp add: load_candidates_def act_defs sample_thread_db_def eligible_def never_in_thread_def sample_memory_def root_row_def
      sample_prepare_def sample_command_def vector_rows_def fts_rows_def merge_row_def candidate_from_row_def last_human_edit_def
      root_revision_def empty_db_def Let_def)

lemma sample_vector: "validated_vector sample_env (replicate 1536 1) = Inr (replicate 1536 1)"
    "cosine sample_env (replicate 1536 1) (replicate 1536 1) = Inr (1/1536)"
  by (simp_all add: validated_vector_def cosine_def sbind_def check_def fsum_def zip_replicate sum_list_replicate map_replicate_const)


lemma sample_prompt: "prompt_keywords ''a'' = []"
  by (simp add: prompt_keywords_def tokens_def py_lower_def lower_char_def is_alnum_def stopwords_def)

definition sample_request :: "timestamp \<Rightarrow> scoring_request" where
  "sample_request ts = \<lparr>rq_query = replicate 1536 1, rq_prompt_keywords = [], rq_snapshot_ts = ts,
     rq_thread_project_key = None, rq_thread_id = Some 9, rq_location_path = None, rq_current_location = None\<rparr>"

lemma sample_features:
  "\<exists>f. features_of sample_env (sample_request ts) (sample_params\<lparr>sp_tau := 0\<rparr>)
      (candidate_from_row (sample_thread_db m) src (sample_memory i b)) = Inr f \<and>
     f_sem f = 1/1536 \<and> f_kw f = 0 \<and> f_time f = 1 \<and> 0 \<le> f_proj f \<and> f_freq f = 0 \<and> 0 \<le> f_hist f \<and> f_loc f = None \<and>
     f_thread f = None \<and> f_where f = None"
  by (simp add: features_of_def sample_request_def sample_vector sbind_def semantic_similarity_def vector_similarity_def
      citations_def location_feature_def where_feature_def candidate_from_row_def sample_memory_def root_row_def
      sample_command_def default_stats_def dget_def finite_number_def check_def decay_def project_feature_def
      keyword_overlap_def thread_feature_def split: option.splits)

lemma sample_scored:
  "\<exists>u. score_candidate sample_env (sample_request ts) sample_thread_scorer
      (candidate_from_row (sample_thread_db m) src (sample_memory i b)) = Inr u \<and>
     un_candidate u = candidate_from_row (sample_thread_db m) src (sample_memory i b) \<and> 0 \<le> un_score u \<and> un_token_cost u = 4"
  using sample_features [of ts m src i b]
  by (auto simp: score_candidate_def sbind_def sample_thread_scorer_def weights_for_project_def sample_scorer_def
      score_of_features_def linear_score_def blend_optional_def apply_axes_def bias_offset_def candidate_from_row_def
      sample_memory_def root_row_def sample_command_def sample_request_def fsum_def weight_values_def sample_params_def Let_def)


lemma sample_score_run:
  "\<exists>sel x y. score_and_select sample_env sample_thread_scorer ''a'' (replicate 1536 1) ts None (Some 9) None None
     [candidate_from_row (sample_thread_db m) [''pinned''] (sample_memory 1 True)]
     [candidate_from_row (sample_thread_db m) [''vector''] (sample_memory 2 False)] [] 10 = Inr sel \<and>
     sel_injected sel = [x] \<and> sel_near_misses sel = [y] \<and> sel_budget_cuts sel = [y] \<and>
     sc_candidate x = candidate_from_row (sample_thread_db m) [''pinned''] (sample_memory 1 True) \<and>
     sc_candidate y = candidate_from_row (sample_thread_db m) [''vector''] (sample_memory 2 False) \<and>
     allocation_limits sample_env (allocation_of sample_thread_scorer sel)"
proof -
  obtain u v where
    u: "score_candidate sample_env (sample_request ts) sample_thread_scorer
      (candidate_from_row (sample_thread_db m) [''pinned''] (sample_memory 1 True)) = Inr u"
      "un_candidate u = candidate_from_row (sample_thread_db m) [''pinned''] (sample_memory 1 True)" "un_token_cost u = 4"
    and v: "score_candidate sample_env (sample_request ts) sample_thread_scorer
      (candidate_from_row (sample_thread_db m) [''vector''] (sample_memory 2 False)) = Inr v"
      "un_candidate v = candidate_from_row (sample_thread_db m) [''vector''] (sample_memory 2 False)"
      "0 \<le> un_score v" "un_token_cost v = 4"
    using sample_scored by meson
  have "mu_pin (sample_memory 1 True)" "\<not> mu_pin (sample_memory 2 False)" "mu_id (sample_memory i b) = i" for i b
    by (simp_all add: sample_memory_def root_row_def)
  with u v show ?thesis
    by (simp add: score_and_select_def sample_vector sample_prompt sbind_def check_def validate_partition_def Let_def
        sample_request_def un_id_def select_scored_def ranked_from_def with_rank_def token_sum_def by_score_def share_tokens_def
        slice_to_def allocation_of_def allocation_limits_def sample_thread_scorer_def sample_scorer_def sample_params_def)
qed

lemma list_all2_left: "list_all2 R xs ys \<Longrightarrow> x \<in> set xs \<Longrightarrow> \<exists>y \<in> set ys. R x y"
  by (induction rule: list_all2_induct) auto

lemma sample_prepare_run:
  "\<exists>r t x y. prepare sample_env (sample_prepare m) (sample_thread_db m) = (Inr r, t) \<and> pr_injected r = [x] \<and> pr_near_misses r = [y] \<and>
     sc_id x = 1 \<and> sc_id y = 2 \<and>
     (\<exists>e \<in> set (injection_events t). ev_injection_id e = pr_injection_id r \<and> ev_memory_id e = 2 \<and> ev_shown_as e = Budget_cut)"
proof -
  obtain sel x y where sel: "score_and_select sample_env sample_thread_scorer ''a'' (replicate 1536 1) 1 None (Some 9) None None
     [candidate_from_row (sample_thread_db m) [''pinned''] (sample_memory 1 True)]
     [candidate_from_row (sample_thread_db m) [''vector''] (sample_memory 2 False)] [] 10 = Inr sel"
    "sel_injected sel = [x]" "sel_near_misses sel = [y]" "sel_budget_cuts sel = [y]"
    "sc_candidate x = candidate_from_row (sample_thread_db m) [''pinned''] (sample_memory 1 True)"
    "sc_candidate y = candidate_from_row (sample_thread_db m) [''vector''] (sample_memory 2 False)"
    "allocation_limits sample_env (allocation_of sample_thread_scorer sel)"
    using sample_score_run by meson
  define w where w: "w = (sample_thread_db m)\<lparr>threads := [sample_thread_row 1], txn_now := 0, readings := Suc (Suc 0)\<rparr>"
  have stamp: "stamp_thread (sample_prepare m) 1 ((sample_thread_db m)\<lparr>txn_now := 0, readings := Suc (Suc 0)\<rparr>) = (Inr (), w)"
    by (simp add: stamp_thread_def act_defs sample_prepare_def sample_thread_db_def empty_db_def w sample_thread_row_def)
  have conf: "active_scorer_config sample_env w = (Inr sample_thread_scorer, w)"
    by (simp add: active_scorer_config_def act_defs w sample_thread_db_def sample_config_run)
  have pool: "sp_candidate_pool (cfg_params sample_thread_scorer) = 50"
    by (simp add: sample_thread_scorer_def sample_params_def)
  note load = sample_load_run [where m = m and ths = "[sample_thread_row 1]" and n = 0 and k = "Suc (Suc 0)", folded w]
  obtain w' where inc: "increment_injection_stats sample_env (sample_prepare m) 1 [x] (w\<lparr>readings := Suc (Suc (Suc 0))\<rparr>) = (Inr (), w')"
    "injection_events w' = []" "readings w' = 4"
    by (simp add: increment_injection_stats_def increment_injection_def sel(5) injection_stats_def sample_memory_def root_row_def
        sample_command_def default_stats_def w sample_thread_db_def sample_prepare_def root_revision_def sbind_def
        decision_run)
  obtain es t where ins: "insert_events sample_env (sample_prepare m) 1 1002 ''v'' sel (allocation_of sample_thread_scorer sel) w' = (Inr es, t)"
    using inc(2,3)
    by (cases m) (simp_all add: insert_events_def event_drafts_def sel(2-6) sample_prepare_def event_values_def insert_event_rows_def act_defs
        mint_def draw_def draft_row_def Let_def next_event_id_def mint_ulid_eq)
  from ins have "list_all2 (\<lambda>d e. e = draft_row sample_env (sample_prepare m) 1 1002 ''v'' (allocation_of sample_thread_scorer sel) d 0 (ev_event_uid e))
      (event_drafts (sample_prepare m) sel) es" by (rule insert_events_Inr)
  then have "\<exists>b. render_final_block (map render_row (filter shown_outcome es)) = Inr b"
    by (rule drafts_render [OF list_all2_mono]) blast
  then obtain b where block: "render_final_block (map render_row (filter shown_outcome es)) = Inr b" ..
  have rd: "readings (sample_thread_db m) = 0" by (simp add: sample_thread_db_def empty_db_def)
  have comm: "pc_prompt (sample_prepare m) = ''a''" "pc_project_key (sample_prepare m) = None" "pc_thread_id (sample_prepare m) = 9"
    "pc_location_path (sample_prepare m) = None" "pc_current_location (sample_prepare m) = None" "pc_confirmed_memory_ids (sample_prepare m) = []"
    "pc_model_context_tokens (sample_prepare m) = 10" "pc_mode (sample_prepare m) = m" "cfg_version sample_thread_scorer = ''v''"
    "readings w = Suc (Suc 0)"
    by (simp_all add: sample_prepare_def sample_thread_scorer_def w)
  have "\<exists>r. prepare_once sample_env (sample_prepare m) (replicate 1536 1) (sample_thread_db m) = (Inr r, t) \<and> pr_injected r = [x] \<and>
      pr_near_misses r = [y] \<and> pr_injection_id r = 1002"
    using stamp conf load inc(1) ins sel pool block
    by (simp add: if_distrib [of "\<lambda>f. f t"] cong: if_cong add: prepare_once_def transaction_def act_defs clock_timestamp_def draw_def rd w [symmetric] comm Let_def sbind_def)
  moreover have "\<exists>e \<in> set (injection_events t). ev_injection_id e = 1002 \<and> ev_memory_id e = 2 \<and> ev_shown_as e = Budget_cut"
  proof -
    from ins obtain rows where t: "injection_events t = injection_events w' @ rows"
      and rows: "list_all2 (\<lambda>d e. e = draft_row sample_env (sample_prepare m) 1 1002 ''v'' (allocation_of sample_thread_scorer sel) d
        (ev_id e) (ev_event_uid e)) (event_drafts (sample_prepare m) sel) rows" by (rule insert_events_Inr)
    have "\<exists>d \<in> set (event_drafts (sample_prepare m) sel). dr_item d = y \<and> dr_shown_as d = Budget_cut"
      by (auto simp: event_drafts_def Let_def sel(4))
    then obtain d where d: "d \<in> set (event_drafts (sample_prepare m) sel)" "dr_item d = y" "dr_shown_as d = Budget_cut" by blast
    from list_all2_left [OF rows d(1)] obtain e where e: "e \<in> set rows"
      "e = draft_row sample_env (sample_prepare m) 1 1002 ''v'' (allocation_of sample_thread_scorer sel) d (ev_id e) (ev_event_uid e)" by blast
    have "ev_injection_id e = 1002" "ev_memory_id e = 2" "ev_shown_as e = Budget_cut"
      by (subst e(2), simp add: draft_row_def Let_def d sel(6) sample_memory_def root_row_def)+
    with e(1) t show ?thesis by auto
  qed
  moreover have "validate_command (sample_prepare m) (sample_thread_db m) = (Inr (), (sample_thread_db m))"
    by (simp add: validate_command_def sample_prepare_def act_defs)
  ultimately show ?thesis
    using sel(5,6) by (auto simp: prepare_def act_defs max_transaction_attempts_def eval_nat_numeral embed_one_def sample_memory_def root_row_def)
qed

section \<open>Rescoring, deciding and the double row\<close>

lemma prepared_entry:
  assumes P: "prepared \<epsilon> c s r sel rows t" and d: "d \<in> set (event_drafts c sel)"
  shows "(sc_id (dr_item d), dr_shown_as d, dr_actor d, dr_outcome d) \<in> event_entry ` set rows"
proof -
  from d have "(sc_id (dr_item d), dr_shown_as d, dr_actor d, dr_outcome d) \<in>
      set (map (\<lambda>d. (sc_id (dr_item d), dr_shown_as d, dr_actor d, dr_outcome d)) (event_drafts c sel))" by auto
  then show ?thesis unfolding prepared_rows(1) [OF P, symmetric] by simp
qed

text \<open>C19: An autonomous rescore decides by itself: every injected card is recorded as kept when the thread
  had it and as entered otherwise, every card the thread had that is not injected is recorded as having left,
  and the final block of the response renders exactly the kept and entered cards.\<close>

theorem prepare_rescore:
  assumes run: "prepare \<epsilon> c s = (Inr r, t)" and auto: "pc_mode c = Autonomous" and ok: "lineage_ok s"
  shows "\<exists>rows b. injection_events t = injection_events s @ rows \<and> pr_final_block r = Some b \<and>
     render_final_block (map render_row (filter shown_outcome rows)) = Inr b \<and>
     {ev_memory_id e |e. e \<in> set rows \<and> shown_outcome e} = sc_id ` set (pr_injected r) \<and>
     (\<forall>e \<in> set rows. ev_actor_class e = Passive) \<and>
     (\<forall>i \<in> set (pr_injected r). \<exists>e \<in> set rows. ev_memory_id e = sc_id i \<and>
        ev_outcome e = Some (if sc_id i \<in> set (pc_current_memory_ids c) then Kept else Auto_entered)) \<and>
     (\<forall>j \<in> set (pc_current_memory_ids c) - sc_id ` set (pr_injected r).
        \<exists>e \<in> set rows. ev_memory_id e = j \<and> ev_shown_as e = Near_miss \<and> ev_outcome e = Some Auto_exited)"
proof -
  from run ok obtain s' config sel rows pinned regular q where s': "same_tables s s'" and P: "prepared \<epsilon> c s' r sel rows t"
    and S: "score_and_select \<epsilon> config (pc_prompt c) q (pr_snapshot_ts r) (pc_project_key c) (Some (pc_thread_id c))
       (pc_location_path c) (pc_current_location c) pinned regular (pc_confirmed_memory_ids c)
       (pc_model_context_tokens c) = Inr sel"
    and cur: "set (pc_current_memory_ids c) \<subseteq> sk_memory_id ` (set pinned \<union> set regular)" by (rule prepare_prepared)
  from P s' auto obtain b where b: "injection_events t = injection_events s @ rows" "pr_final_block r = Some b"
    "render_final_block (map render_row (filter shown_outcome rows)) = Inr b" and inj: "pr_injected r = sel_injected sel"
    by (auto simp: prepared_def same_tables_def)
  note entry = prepared_entry [OF P] and rows = prepared_rows(1) [OF P]
  let ?cur = "set (pc_current_memory_ids c)"
  have drafts: "\<exists>d \<in> set (event_drafts c sel). event_entry e = (sc_id (dr_item d), dr_shown_as d, dr_actor d, dr_outcome d)"
    if "e \<in> set rows" for e
  proof -
    from that have "event_entry e \<in> set (map event_entry rows)" by simp
    then show ?thesis unfolding rows by auto
  qed
  have 1: "ev_actor_class e = Passive \<and> (shown_outcome e \<longrightarrow> ev_memory_id e \<in> sc_id ` set (sel_injected sel))"
    if e: "e \<in> set rows" for e
    using drafts [OF e] auto
    by (auto simp: event_drafts_def Let_def event_entry_def shown_outcome_def split: if_splits)
  have 2: "\<exists>e \<in> set rows. ev_memory_id e = sc_id i \<and> ev_outcome e = Some (if sc_id i \<in> ?cur then Kept else Auto_entered)"
    if i: "i \<in> set (sel_injected sel)" for i
  proof -
    let ?d = "\<lparr>dr_item = i, dr_shown_as = (if sk_pin (sc_candidate i) then Pinned else Injected), dr_actor = Passive,
      dr_outcome = Some (if sc_id i \<in> ?cur then Kept else Auto_entered)\<rparr>"
    have "?d \<in> set (event_drafts c sel)" using auto i by (auto simp: event_drafts_def Let_def)
    from entry [OF this] show ?thesis by (force simp: event_entry_def)
  qed
  have 3: "\<exists>e \<in> set rows. ev_memory_id e = j \<and> ev_shown_as e = Near_miss \<and> ev_outcome e = Some Auto_exited"
    if j: "j \<in> ?cur" "j \<notin> sc_id ` set (sel_injected sel)" for j
  proof -
    from j(1) cur have "j \<in> sk_memory_id ` (set pinned \<union> set regular)" by blast
    also have "set pinned \<union> set regular = sc_candidate ` set (sel_injected sel @ sel_unselected sel)"
      using arg_cong [OF selection_all [OF S], of set_mset] by auto
    finally obtain i where i: "i \<in> set (sel_unselected sel)" "sc_id i = j" using j(2) by auto
    let ?d = "\<lparr>dr_item = i, dr_shown_as = Near_miss, dr_actor = Passive, dr_outcome = Some Auto_exited\<rparr>"
    have "?d \<in> set (event_drafts c sel)"
    proof (cases "j \<in> sc_id ` set (sel_near_misses sel)")
      case True
      then obtain k where "k \<in> set (sel_near_misses sel)" "sc_id k = j" by auto
      moreover have "k = i" using calculation i selection_distinct [OF S] selection_parts(1) [OF S]
        by (auto simp: distinct_map dest!: in_set_takeD dest: inj_onD)
      ultimately show ?thesis using auto j i by (auto simp: event_drafts_def Let_def)
    next
      case False
      with auto i j show ?thesis by (auto simp: event_drafts_def Let_def)
    qed
    from entry [OF this] i(2) show ?thesis by (force simp: event_entry_def)
  qed
  have "{ev_memory_id e |e. e \<in> set rows \<and> shown_outcome e} = sc_id ` set (sel_injected sel)"
  proof (intro set_eqI iffI)
    fix x assume "x \<in> sc_id ` set (sel_injected sel)"
    then obtain i where i: "i \<in> set (sel_injected sel)" "x = sc_id i" by blast
    from 2 [OF i(1)] obtain e where "e \<in> set rows" "ev_memory_id e = x" "shown_outcome e"
      by (auto simp: shown_outcome_def i(2) split: if_splits)
    then show "x \<in> {ev_memory_id e |e. e \<in> set rows \<and> shown_outcome e}" by blast
  qed (use 1 in blast)
  with 1 2 3 b show ?thesis unfolding inj by (intro exI [of _ rows] exI [of _ b]) blast
qed

text \<open>C20: Whatever the gate shows can be decided: after a gate prepare under a new injection identifier,
  a commit that removes injected cards or buries near misses for good, and adds near misses back, without
  naming a memory twice, is planned without a conflict, and every planned outcome is a new one.\<close>

theorem prepare_plannable:
  assumes run: "prepare \<epsilon> c s = (Inr r, t)" and gate: "pc_mode c = Gate" and ok: "lineage_ok s"
    and fresh: "pr_injection_id r \<notin> ev_injection_id ` set (injection_events s)"
    and choice: "distinct (map rd_memory_id (cc_removed d) @ cc_added_back d)"
      "\<forall>x \<in> set (cc_removed d). rd_memory_id x \<in> sc_id ` set (pr_injected r) \<or>
         rd_reason x = Never \<and> rd_memory_id x \<in> sc_id ` set (pr_near_misses r)"
      "set (cc_added_back d) \<subseteq> sc_id ` set (pr_near_misses r)"
  shows "\<exists>planned. plan_commit (load_batch t (pr_injection_id r)) d = Inr planned \<and>
     ev_memory_id ` pl_event ` set planned = sc_id ` (set (pr_injected r) \<union> set (pr_near_misses r)) \<and>
     (\<forall>p \<in> set planned. pl_is_new p \<longleftrightarrow> pl_desired p \<noteq> None)"
proof -
  from run ok obtain s' config sel rows pinned regular q where s': "same_tables s s'" and P: "prepared \<epsilon> c s' r sel rows t"
    and S: "score_and_select \<epsilon> config (pc_prompt c) q (pr_snapshot_ts r) (pc_project_key c) (Some (pc_thread_id c))
       (pc_location_path c) (pc_current_location c) pinned regular (pc_confirmed_memory_ids c)
       (pc_model_context_tokens c) = Inr sel" by (rule prepare_prepared)
  from P s' have inj: "injection_events t = injection_events s @ rows" "pr_injected r = sel_injected sel"
      "pr_near_misses r = sel_near_misses sel" by (simp_all add: prepared_def same_tables_def)
  define gt where gt: "gt = filter in_gate (load_batch t (pr_injection_id r))"
  let ?inj = "map (\<lambda>i. (sc_id i, if sk_pin (sc_candidate i) then Pinned else Injected, Human, None)) (sel_injected sel)"
  let ?near = "map (\<lambda>i. (sc_id i, Near_miss, Human, None)) (sel_near_misses sel)"
  have "filter (\<lambda>e. ev_injection_id e = pr_injection_id r) (injection_events t) = rows"
    using prepared_rows(2) [OF P] fresh unfolding inj(1) filter_append 
    by (auto simp: filter_empty_conv filter_id_conv intro: rev_image_eqI)
  then have mset: "mset gt = mset (filter in_gate rows)" by (simp add: gt load_batch_def)
  have "map event_entry (filter in_gate rows) = filter (\<lambda>(i, sh, a, x). sh \<noteq> Budget_cut) (map event_entry rows)"
    by (simp add: filter_map comp_def event_entry_def in_gate_def [abs_def])
  also have "\<dots> = ?inj @ ?near"
    unfolding prepared_rows(1) [OF P] using gate by (simp add: event_drafts_def Let_def comp_def filter_map)
  finally have entries: "map event_entry (filter in_gate rows) = ?inj @ ?near" .
  have ids: "map ev_memory_id (filter in_gate rows) = map sc_id (sel_injected sel @ sel_near_misses sel)"
    using arg_cong [OF entries, of "map fst"] by (simp add: event_entry_def comp_def)
  obtain n where near: "sel_near_misses sel = take n (sel_unselected sel)" using selection_parts(1) [OF S] ..
  have dist: "distinct (map sc_id (sel_injected sel @ sel_near_misses sel))"
    using distinct_take [OF selection_distinct [OF S], of "length (sel_injected sel) + n"] by (simp add: near take_map)
  have setg: "set gt = set (filter in_gate rows)" using arg_cong [OF mset, of set_mset] by simp
  have dgt: "distinct (map ev_memory_id gt)"
    using dist ids mset by (metis mset_eq_imp_distinct_iff mset_map)
  have entry: "event_entry e \<in> set ?inj \<union> set ?near" if "e \<in> set gt" for e
  proof -
    from that have "event_entry e \<in> set (map event_entry (filter in_gate rows))" by (simp add: setg)
    then show ?thesis unfolding entries by simp
  qed
  have member: "\<exists>e. gate_member gt i = Some e \<and> event_entry e \<in> set ?inj \<union> set ?near \<and> ev_memory_id e = i"
    if "i \<in> sc_id ` (set (sel_injected sel) \<union> set (sel_near_misses sel))" for i
  proof -
    from that have "i \<in> set (map ev_memory_id (filter in_gate rows))" unfolding ids by auto
    then have "\<exists>e \<in> set gt. ev_memory_id e = i" by (auto simp: setg)
    then obtain e where "gate_member gt i = Some e" 
      by (cases "gate_member gt i") (auto simp: gate_member_def find_None_iff)
    moreover from this have e: "e \<in> set gt" "ev_memory_id e = i" by (auto simp: gate_member_def dest: find_Some_set)
    ultimately show ?thesis using entry [OF e(1)] e(2) by (intro exI [of _ e] conjI)
  qed
  have disj: "sc_id ` set (sel_injected sel) \<inter> sc_id ` set (sel_near_misses sel) = {}" using dist by auto
  have "list_all (removable gt) (cc_removed d)"
  proof (unfold list_all_iff, rule ballI)
    fix x assume x: "x \<in> set (cc_removed d)"
    note c = bspec [OF choice(2) x, unfolded inj(2,3)]
    then have "rd_memory_id x \<in> sc_id ` (set (sel_injected sel) \<union> set (sel_near_misses sel))" by blast
    from member [OF this] obtain e where g: "gate_member gt (rd_memory_id x) = Some e"
      and e: "event_entry e \<in> set ?inj \<union> set ?near" "ev_memory_id e = rd_memory_id x" by blast
    show "removable gt x" unfolding removable_def g using e c disj by (auto simp: event_entry_def split: if_splits)
  qed
  moreover have "list_all (addable gt) (cc_added_back d)"
  proof (unfold list_all_iff, rule ballI)
    fix i assume i: "i \<in> set (cc_added_back d)"
    with choice(3) have n: "i \<in> sc_id ` set (sel_near_misses sel)" unfolding inj(3) by (rule subsetD)
    then have "i \<in> sc_id ` (set (sel_injected sel) \<union> set (sel_near_misses sel))" by blast
    from member [OF this] obtain e where g: "gate_member gt i = Some e"
      and e: "event_entry e \<in> set ?inj \<union> set ?near" "ev_memory_id e = i" by blast
    show "addable gt i" unfolding addable_def g using e n disj by (auto simp: event_entry_def split: if_splits)
  qed
  moreover have new: "ev_outcome e = None" if "e \<in> set gt" for e
    using entry [OF that] by (auto simp: event_entry_def)
  ultimately have "plan_commit (load_batch t (pr_injection_id r)) d = Inr (map (planned_of d) gt)"
    using dgt choice(1) by (auto simp: plan_commit_Inr choices_ok_def plan_fits_def gt split: option.splits)
  moreover have "ev_memory_id ` set gt = sc_id ` (set (sel_injected sel) \<union> set (sel_near_misses sel))"
    using arg_cong [OF ids, of set] by (auto simp: setg)
  ultimately show ?thesis using new unfolding inj(2,3)
    by (intro exI [of _ "map (planned_of d) gt"]) (auto simp: planned_of_def image_image)
qed

text \<open>A card that is both a near miss and cut by the budget gets two rows in the same injection, and from
  then on every feedback about it is refused as ambiguous, whatever the signal.\<close>

theorem cut_near_miss_stuck:
  assumes run: "prepare \<epsilon> c s = (Inr r, t)" and ok: "lineage_ok s"
    and y: "y \<in> set (pr_near_misses r)"
    and cut: "e \<in> set (injection_events t)" "ev_injection_id e = pr_injection_id r" "ev_memory_id e = sc_id y"
      "ev_shown_as e = Budget_cut"
  shows "\<exists>u. feedback \<epsilon> \<lparr>fc_injection_id = pr_injection_id r, fc_memory_id = sc_id y, fc_signal = sig\<rparr> t =
     (Inl (DecisionState ''feedback membership is not unique''), u) \<and> same_tables t u"
proof -
  from run ok obtain s' sel rows where s': "same_tables s s'" and P: "prepared \<epsilon> c s' r sel rows t"
    by (rule prepare_prepared)
  from P s' have inj: "injection_events t = injection_events s @ rows" "pr_near_misses r = sel_near_misses sel"
    by (simp_all add: prepared_def same_tables_def)
  have "\<exists>d \<in> set (event_drafts c sel). dr_item d = y \<and> dr_shown_as d = Near_miss"
    using y by (auto simp: event_drafts_def Let_def inj(2) intro!: bexI)
  then obtain d where d: "d \<in> set (event_drafts c sel)" "dr_item d = y" "dr_shown_as d = Near_miss" by blast
  from prepared_entry [OF P d(1)] d(2,3) obtain f where f: "f \<in> set rows" "ev_memory_id f = sc_id y" "ev_shown_as f = Near_miss"
    by (auto simp: event_entry_def)
  let ?rows = "filter (\<lambda>e. ev_injection_id e = pr_injection_id r \<and> ev_memory_id e = sc_id y) (injection_events t)"
  have "e \<in> set ?rows" "f \<in> set ?rows" "e \<noteq> f"
    using cut f prepared_rows(2) [OF P] by (auto simp: inj(1))
  then obtain g h gs where "?rows = g # h # gs" by (cases ?rows; cases "tl ?rows") auto
  then have "fst (feedback \<epsilon> \<lparr>fc_injection_id = pr_injection_id r, fc_memory_id = sc_id y, fc_signal = sig\<rparr> t) =
     Inl (DecisionState ''feedback membership is not unique'')"
    by (simp add: feedback_def feedback_event_def transaction_def act_defs clock_timestamp_def draw_def)
  then obtain u where u: "feedback \<epsilon> \<lparr>fc_injection_id = pr_injection_id r, fc_memory_id = sc_id y, fc_signal = sig\<rparr> t =
     (Inl (DecisionState ''feedback membership is not unique''), u)" by (metis prod.collapse)
  then show ?thesis unfolding feedback_def by (auto dest: transaction_Inl)
qed


theorem prepare_gate_records_witness:
  "\<exists>r t rows. prepare sample_env (sample_prepare Gate) (sample_thread_db Gate) = (Inr r, t) \<and> injection_events t = rows \<and>
     rows \<noteq> [] \<and> (\<forall>e \<in> set rows. ev_thread_id e = 9)"
proof -
  obtain r t x where run: "prepare sample_env (sample_prepare Gate) (sample_thread_db Gate) = (Inr r, t)" and x: "pr_injected r = [x]"
    using sample_prepare_run [of Gate] by blast
  from prepare_gate_records [OF run _ sample_thread_ok] x run show ?thesis
    by (auto simp: sample_prepare_def sample_thread_db_def empty_db_def)
qed

theorem prepare_counts_witness:
  "\<exists>r t v. prepare sample_env (sample_prepare Gate) (sample_thread_db Gate) = (Inr r, t) \<and> unit_by_id t 1 = Some v \<and>
     int_stat (mu_stats v) ''injections'' = 1 \<and> mu_revision v = 2 \<and> unit_by_id t 2 = Some (sample_memory 2 False)"
proof -
  obtain r t x where run: "prepare sample_env (sample_prepare Gate) (sample_thread_db Gate) = (Inr r, t)"
    and x: "pr_injected r = [x]" "sc_id x = 1" using sample_prepare_run [of Gate] by blast
  have s: "unit_by_id (sample_thread_db Gate) 1 = Some (sample_memory 1 True)"
    "unit_by_id (sample_thread_db Gate) 2 = Some (sample_memory 2 False)"
    "int_stat (mu_stats (sample_memory 1 True)) ''injections'' = 0" "mu_revision (sample_memory 1 True) = 1"
    by (simp_all add: unit_by_id_def sample_thread_db_def empty_db_def sample_memory_def root_row_def int_stat_def default_stats_def dget_def)
  from prepare_counts [OF run sample_thread_ok(1)] run x s show ?thesis by auto
qed

theorem prepare_respects_exclusions_witness:
  "\<exists>r t. prepare sample_env (sample_prepare Gate) (sample_thread_db Gate) = (Inr r, t) \<and> 1 \<in> sc_id ` set (pr_injected r)"
proof -
  obtain r t where run: "prepare sample_env (sample_prepare Gate) (sample_thread_db Gate) = (Inr r, t)"
    using sample_prepare_run [of Gate] by blast
  have "sample_memory 1 True \<in> set (memory_units (sample_thread_db Gate))"
    "eligible (sample_thread_db Gate) (sample_prepare Gate) (sample_memory 1 True)" "mu_pin (sample_memory 1 True)"
    "mu_id (sample_memory 1 True) = 1"
    by (simp_all add: sample_thread_db_def empty_db_def eligible_def never_in_thread_def sample_memory_def root_row_def
        sample_command_def sample_prepare_def)
  with prepare_respects_exclusions [OF run sample_thread_ok(1)] run show ?thesis by metis
qed

theorem prepare_gate_once_witness:
  "\<exists>r t u. prepare sample_env (sample_prepare Gate) (sample_thread_db Gate) = (Inr r, t) \<and>
     prepare sample_env (sample_prepare Gate) t = (Inl (ThreadAlreadyPrepared 9), u) \<and> same_tables t u"
proof -
  obtain r t where run: "prepare sample_env (sample_prepare Gate) (sample_thread_db Gate) = (Inr r, t)"
    using sample_prepare_run [of Gate] by blast
  have "pc_mode (sample_prepare Gate) = Gate" "pc_thread_id (sample_prepare Gate) = 9" by (simp_all add: sample_prepare_def)
  with prepare_gate_once [OF run sample_thread_ok(1), of "sample_prepare Gate"] run show ?thesis by auto
qed

theorem prepare_rescore_witness:
  "\<exists>r t b. prepare sample_env (sample_prepare Autonomous) (sample_thread_db Autonomous) = (Inr r, t) \<and> pr_final_block r = Some b"
proof -
  obtain r t where run: "prepare sample_env (sample_prepare Autonomous) (sample_thread_db Autonomous) = (Inr r, t)"
    using sample_prepare_run [of Autonomous] by blast
  have "pc_mode (sample_prepare Autonomous) = Autonomous" by (simp add: sample_prepare_def)
  from prepare_rescore [OF run this sample_thread_ok(1)] run show ?thesis by blast
qed

theorem prepare_plannable_witness:
  "\<exists>r t planned. prepare sample_env (sample_prepare Gate) (sample_thread_db Gate) = (Inr r, t) \<and>
     plan_commit (load_batch t (pr_injection_id r)) \<lparr>cc_injection_id = pr_injection_id r,
       cc_removed = [\<lparr>rd_memory_id = 1, rd_reason = Never\<rparr>], cc_added_back = [2]\<rparr> = Inr planned"
proof -
  obtain r t x y where run: "prepare sample_env (sample_prepare Gate) (sample_thread_db Gate) = (Inr r, t)"
    and x: "pr_injected r = [x]" "pr_near_misses r = [y]" "sc_id x = 1" "sc_id y = 2" using sample_prepare_run [of Gate] by blast
  have "pc_mode (sample_prepare Gate) = Gate" "injection_events (sample_thread_db Gate) = []"
    by (simp_all add: sample_prepare_def sample_thread_db_def empty_db_def)
  with prepare_plannable [OF run _ sample_thread_ok(1), of "\<lparr>cc_injection_id = pr_injection_id r,
       cc_removed = [\<lparr>rd_memory_id = 1, rd_reason = Never\<rparr>], cc_added_back = [2]\<rparr>"] run x show ?thesis by auto
qed

theorem cut_near_miss_stuck_witness:
  "\<exists>r t u. prepare sample_env (sample_prepare Gate) (sample_thread_db Gate) = (Inr r, t) \<and>
     feedback sample_env \<lparr>fc_injection_id = pr_injection_id r, fc_memory_id = 2, fc_signal = Signal_added\<rparr> t =
       (Inl (DecisionState ''feedback membership is not unique''), u)"
proof -
  obtain r t y e where run: "prepare sample_env (sample_prepare Gate) (sample_thread_db Gate) = (Inr r, t)"
    and y: "pr_near_misses r = [y]" "sc_id y = 2"
    and e: "e \<in> set (injection_events t)" "ev_injection_id e = pr_injection_id r" "ev_memory_id e = 2" "ev_shown_as e = Budget_cut"
    using sample_prepare_run [of Gate] by blast
  from cut_near_miss_stuck [OF run sample_thread_ok(1) _ e(1,2) _ e(4), of y Signal_added] y e(3) run show ?thesis by auto
qed

end
