(* ===== verification/Symphony.thy ===== *)
theory Symphony
  imports Queue "HOL-Library.Sublist"
begin

text \<open>
  The memory bridge of a Symphony run (\<open>src/spine/symphony/service.py\<close> and \<open>contracts.py\<close>): attempts stage
  memories under materialised paths, an attempt sees the active memories and its own staged ones, and the
  resolution of a run queues what the winning subtree staged for consent and tombstones the rest, once.
  The advisory lock on the principal only serialises requests.
\<close>

section \<open>Contracts\<close>

text \<open>\<open>_ORIGIN_AGENT\<close>: \<open><run>/root\<close> followed by dotted positive integers.\<close>

definition positive_numeral :: "string \<Rightarrow> bool" where
  "positive_numeral s \<longleftrightarrow> s \<noteq> [] \<and> hd s \<noteq> CHR ''0'' \<and> list_all (\<lambda>c. c \<in> set ''0123456789'') s"

definition run_attempt_ok :: "string \<Rightarrow> string \<Rightarrow> bool" where
  "run_attempt_ok run agent \<longleftrightarrow> ulid_pattern run \<and> startswith agent (run @ ''/root'') \<and>
     (case split_on (CHR ''.'') (drop (length run + 5) agent) of
        [] \<Rightarrow> False | p # ps \<Rightarrow> p = [] \<and> list_all positive_numeral ps)"

record stage_request =
  st_memory_id :: uuid
  st_principal_id :: string
  st_label :: string
  st_body :: string
  st_kind :: memory_kind
  st_keywords :: "string list"
  st_project_key :: "string option"
  st_origin_thread_id :: uuid
  st_origin_path :: "string option"
  st_origin_location :: "string option"
  st_machine_id :: string
  st_run_id :: string
  st_origin_agent :: string

record judged_context =
  jc_summary :: string
  jc_judge_ids :: "string list"
  jc_evidence_refs :: "string list"

record resolve_run_request =
  rr_principal_id :: string
  rr_batch_uid :: uuid
  rr_winner_origin_agent :: string
  rr_machine_id :: string
  rr_judged_context :: judged_context

text \<open>\<open>JudgedContext\<close>: three independent judges and some evidence, all nonblank.\<close>

definition judged_context_ok :: "judged_context \<Rightarrow> bool" where
  "judged_context_ok j \<longleftrightarrow>
     (let nonblank = (\<lambda>s. s \<noteq> [] \<and> strip s = s) in
      nonblank (jc_summary j) \<and> list_all nonblank (jc_judge_ids j) \<and> list_all nonblank (jc_evidence_refs j) \<and>
      3 \<le> length (jc_judge_ids j) \<and> 1 \<le> length (jc_evidence_refs j) \<and> distinct (jc_judge_ids j))"

text \<open>\<open>model_dump(mode="json")\<close>\<close>

definition context_dump :: "judged_context \<Rightarrow> dict" where
  "context_dump j = [(''verdict'', JStr ''unanimous_pass''), (''summary'', JStr (jc_summary j)),
     (''judge_ids'', JList (map JStr (jc_judge_ids j))), (''evidence_refs'', JList (map JStr (jc_evidence_refs j)))]"

record symphony_memory_record =
  sm_memory_id :: uuid
  sm_principal_id :: string
  sm_label :: string
  sm_body :: string
  sm_kind :: memory_kind
  sm_keywords :: "string list"
  sm_project_key :: "string option"
  sm_origin_thread_id :: "uuid option"
  sm_origin_path :: "string option"
  sm_origin_location :: "string option"
  sm_pin :: bool
  sm_status :: memory_status
  sm_revision :: int
  sm_run_id :: "string option"
  sm_origin_agent :: "string option"
  sm_staged :: bool
  sm_created_at :: timestamp
  sm_updated_at :: timestamp

definition record_from_row :: "memory_unit \<Rightarrow> symphony_memory_record" where
  "record_from_row u = \<lparr>sm_memory_id = mu_id u, sm_principal_id = mu_principal_id u, sm_label = mu_label u,
     sm_body = mu_body u, sm_kind = mu_kind u, sm_keywords = mu_keywords u, sm_project_key = mu_project_key u,
     sm_origin_thread_id = mu_origin_thread_id u, sm_origin_path = mu_origin_path u,
     sm_origin_location = mu_origin_location u, sm_pin = mu_pin u, sm_status = mu_status u,
     sm_revision = mu_revision u, sm_run_id = mu_run_id u, sm_origin_agent = mu_origin_agent u,
     sm_staged = (mu_status u = Staged), sm_created_at = mu_created_at u, sm_updated_at = mu_updated_at u\<rparr>"

section \<open>Staging and visibility\<close>

definition stage_command :: "stage_request \<Rightarrow> create_command" where
  "stage_command r = \<lparr>cm_principal_id = st_principal_id r, cm_label = st_label r, cm_body = st_body r,
     cm_kind = st_kind r, cm_editor = ''agent:'' @ st_origin_agent r, cm_machine_id = st_machine_id r,
     cm_keywords = st_keywords r, cm_project_key = st_project_key r, cm_thread_origin = None,
     cm_origin_thread_id = Some (st_origin_thread_id r), cm_origin_path = st_origin_path r,
     cm_origin_location = st_origin_location r, cm_origin_locations = [], cm_force = False,
     cm_parent_uid = None, cm_revision_reason = ''symphony/staged''\<rparr>"

definition stage :: "env \<Rightarrow> memory_config \<Rightarrow> stage_request \<Rightarrow> symphony_memory_record op" where
  "stage \<epsilon> c r =
     bnd (stage_symphony \<epsilon> c (stage_command r) (st_memory_id r) (st_run_id r) (st_origin_agent r))
       (\<lambda>u. ret (record_from_row u))"

definition by_creation :: "memory_unit list \<Rightarrow> memory_unit list" where
  "by_creation us = sort_key (\<lambda>u. (mu_created_at u, mu_id u)) us"

definition visible :: "string \<Rightarrow> string \<Rightarrow> string \<Rightarrow> symphony_memory_record list op" where
  "visible prin run agent = gets (\<lambda>s. map record_from_row (by_creation (filter (\<lambda>u. mu_principal_id u = prin \<and>
     (mu_status u = Active \<or>
      mu_status u = Staged \<and> mu_run_id u = Some run \<and> mu_origin_agent u = Some agent)) (memory_units s))))"

section \<open>Resolving a run\<close>

definition origin_is_in_run :: "string \<Rightarrow> string \<Rightarrow> bool" where
  "origin_is_in_run run agent \<longleftrightarrow> agent = run @ ''/root'' \<or> startswith agent (run @ ''/root.'')"

definition is_origin_prefix :: "string \<Rightarrow> string option \<Rightarrow> bool" where
  "is_origin_prefix p cand \<longleftrightarrow> (case cand of None \<Rightarrow> False
     | Some a \<Rightarrow> a = p \<or> (a \<noteq> [] \<and> startswith a (p @ ''.'')))"

definition require_resolution_replay :: "symphony_run_resolution \<Rightarrow> resolve_run_request \<Rightarrow> dict \<Rightarrow> unit op" where
  "require_resolution_replay r req ctx =
     raise_if ((sr_principal_id r, sr_batch_uid r, sr_winner_origin_agent r, sr_machine_id r, sr_judged_context r) \<noteq>
               (rr_principal_id req, rr_batch_uid req, rr_winner_origin_agent req, rr_machine_id req, ctx))
       (SymphonyConflict ''the run already has a different resolution'')"

definition locked_run_rows :: "string \<Rightarrow> memory_unit list op" where
  "locked_run_rows run = gets (\<lambda>s. by_creation
     (filter (\<lambda>u. mu_run_id u = Some run \<and> mu_status u = Staged) (memory_units s)))"

definition insert_resolution :: "symphony_run_resolution \<Rightarrow> unit op" where
  "insert_resolution r =
     bnd (gets run_resolutions) (\<lambda>rs.
     sqn (raise_if (sr_run_id r \<in> sr_run_id ` set rs) (IntegrityError ''symphony_run_resolution_pkey''))
    (sqn (raise_if (sr_batch_uid r \<in> sr_batch_uid ` set rs) (IntegrityError ''symphony_run_resolution_batch_uid_key''))
         (modify (\<lambda>s. s\<lparr>run_resolutions := run_resolutions s @ [r]\<rparr>))))"

definition resolution_row :: "string \<Rightarrow> resolve_run_request \<Rightarrow> timestamp \<Rightarrow> symphony_run_resolution" where
  "resolution_row run req now = \<lparr>sr_run_id = run, sr_principal_id = rr_principal_id req,
     sr_batch_uid = rr_batch_uid req, sr_winner_origin_agent = rr_winner_origin_agent req,
     sr_machine_id = rr_machine_id req, sr_judged_context = context_dump (rr_judged_context req), sr_created_at = now\<rparr>"

definition winner_item :: "string \<Rightarrow> resolve_run_request \<Rightarrow> string \<Rightarrow> memory_unit \<Rightarrow> timestamp \<Rightarrow> approval_queue_item" where
  "winner_item run req uid row now =
     (pending_item uid (mu_id row) (rr_principal_id req) B_symphony V_new [] [] now)
       \<lparr>qi_batch_uid := Some (rr_batch_uid req), qi_birthplace_run_id := Some run,
        qi_birthplace_origin_agent := mu_origin_agent row,
        qi_judged_context := Some (context_dump (rr_judged_context req))\<rparr>"

text \<open>One staged row: the loop body of \<open>resolve\<close>.\<close>

definition resolve_row :: "env \<Rightarrow> string \<Rightarrow> resolve_run_request \<Rightarrow> uuid set \<Rightarrow> memory_unit \<Rightarrow> unit op" where
  "resolve_row \<epsilon> run req winner_ids row =
     (let winner = mu_id row \<in> winner_ids in
      bnd (mint \<epsilon>) (\<lambda>rev.
      sqn (cas_update_memory_unit \<epsilon> \<lparr>cu_memory_id = mu_id row, cu_expected_revision = mu_revision row,
             cu_rev_uid = rev, cu_editor = ''judge'', cu_origin_machine_id = rr_machine_id req,
             cu_reason = (if winner then ''symphony/winner-queued'' else ''symphony/loser-tombstone''),
             cu_changes = status_change (if winner then Candidate else Tombstoned)\<rparr>)
          (if winner then
             bnd (mint \<epsilon>) (\<lambda>uid. bnd (gets txn_now) (\<lambda>now. insert_item (winner_item run req uid row now)))
           else ret ())))"

definition resolve_rows :: "env \<Rightarrow> string \<Rightarrow> resolve_run_request \<Rightarrow> unit op" where
  "resolve_rows \<epsilon> run req =
     bnd (locked_run_rows run) (\<lambda>rows.
     sqn (raise_if (rows = []) (SymphonyNotFound ''the run has no staged memories''))
    (sqn (raise_if (\<exists>row \<in> set rows. mu_principal_id row \<noteq> rr_principal_id req)
            (SymphonyConflict ''run_id spans a different principal''))
    (let winners = filter (\<lambda>row. is_origin_prefix (rr_winner_origin_agent req) (mu_origin_agent row)) rows in
     sqn (raise_if (winners = []) (SymphonyNotFound ''the winning attempt has no staged memories''))
    (bnd (gets txn_now) (\<lambda>now.
     sqn (insert_resolution (resolution_row run req now))
         (iterM (resolve_row \<epsilon> run req (mu_id ` set winners)) rows))))))"

definition resolution_response ::
  "env \<Rightarrow> string \<Rightarrow> resolve_run_request \<Rightarrow> (queue_card list \<times> symphony_memory_record list) op" where
  "resolution_response \<epsilon> run req =
     bnd (list_batch \<epsilon> (rr_batch_uid req) B_symphony) (\<lambda>cards.
     bnd (gets (\<lambda>s. by_creation (filter (\<lambda>u. mu_run_id u = Some run \<and> mu_principal_id u = rr_principal_id req \<and>
            mu_status u = Tombstoned) (memory_units s)))) (\<lambda>losers.
     ret (cards, map record_from_row losers)))"

definition record_resolution :: "env \<Rightarrow> string \<Rightarrow> resolve_run_request \<Rightarrow> unit op" where
  "record_resolution \<epsilon> run req = transaction \<epsilon>
     (bnd (gets (\<lambda>s. find (\<lambda>r. sr_run_id r = run) (run_resolutions s))) (\<lambda>existing.
      case existing of
        Some r \<Rightarrow> require_resolution_replay r req (context_dump (rr_judged_context req))
      | None \<Rightarrow> resolve_rows \<epsilon> run req))"

definition resolve_run ::
  "env \<Rightarrow> string \<Rightarrow> resolve_run_request \<Rightarrow> (queue_card list \<times> symphony_memory_record list) op" where
  "resolve_run \<epsilon> run req =
     sqn (raise_if (\<not> origin_is_in_run run (rr_winner_origin_agent req))
            (SymphonyConflict ''winner_origin_agent does not belong to the run''))
    (sqn (record_resolution \<epsilon> run req)
         (resolution_response \<epsilon> run req))"

section \<open>Paths are a tree\<close>

text \<open>The path of the attempt reached by the given children from the root of a run.\<close>

definition path_tail :: "nat list \<Rightarrow> string" where
  "path_tail ps = concat (map (\<lambda>n. ''.'' @ show_nat n) ps)"

definition attempt_path :: "string \<Rightarrow> nat list \<Rightarrow> string" where
  "attempt_path run ps = run @ ''/root'' @ path_tail ps"

lemma dot_not_digit: "CHR ''.'' \<notin> set (show_nat n)"
  using show_nat_digits [of "CHR ''.''" n] by auto

lemma path_tail_simps [simp]: "path_tail [] = []" "path_tail (n # ps) = CHR ''.'' # show_nat n @ path_tail ps"
  by (simp_all add: path_tail_def)

lemma path_tail_starts: "path_tail ps = [] \<or> (\<exists>t. path_tail ps = CHR ''.'' # t)"
  by (cases ps) simp_all

text \<open>Numerals that end at a dot or at the end of the string are equal if what they start is.\<close>

lemma numeral_split:
  assumes "show_nat m @ u = show_nat n @ v" "u = [] \<or> (\<exists>t. u = CHR ''.'' # t)" "v = [] \<or> (\<exists>t. v = CHR ''.'' # t)"
  shows "m = n \<and> u = v"
proof -
  have tw: "takeWhile (\<lambda>c. c \<noteq> CHR ''.'') (show_nat k @ w) = show_nat k" if "w = [] \<or> (\<exists>t. w = CHR ''.'' # t)" for k w
  proof -
    have "takeWhile (\<lambda>c. c \<noteq> CHR ''.'') (show_nat k @ w) = show_nat k @ takeWhile (\<lambda>c. c \<noteq> CHR ''.'') w"
      using dot_not_digit [of k] by (intro takeWhile_append2) auto
    with that show ?thesis by auto
  qed
  from assms(1) have "show_nat m = show_nat n" using tw [OF assms(2), of m] tw [OF assms(3), of n] by metis
  with assms(1) show ?thesis by (simp add: show_nat_inj)
qed

lemma path_tail_prefix:
  "(path_tail qs = path_tail ps \<or> startswith (path_tail qs) (path_tail ps @ ''.'')) \<longleftrightarrow> prefix ps qs"
proof (induction ps arbitrary: qs)
  case Nil
  then show ?case by (cases qs) (simp_all add: startswith_def)
next
  case (Cons n ps)
  show ?case
  proof (cases qs)
    case Nil
    then show ?thesis by (simp add: startswith_def)
  next
    case (Cons m qs')
    have ends: "path_tail ps = [] \<or> (\<exists>t. path_tail ps = CHR ''.'' # t)" "path_tail qs' = [] \<or> (\<exists>t. path_tail qs' = CHR ''.'' # t)"
      by (rule path_tail_starts)+
    have dotted: "path_tail ps @ ''.'' @ t = [] \<or> (\<exists>u. path_tail ps @ ''.'' @ t = CHR ''.'' # u)" for t
      using ends(1) by auto
    have "(path_tail qs = path_tail (n # ps)) \<longleftrightarrow> m = n \<and> path_tail qs' = path_tail ps"
      using numeral_split [OF _ ends(2,1), of m n] by (auto simp: Cons)
    moreover have "startswith (path_tail qs) (path_tail (n # ps) @ ''.'') \<longleftrightarrow>
        m = n \<and> startswith (path_tail qs') (path_tail ps @ ''.'')"
      using numeral_split [OF _ ends(2) dotted, of m n] by (auto simp: Cons startswith_iff)
    ultimately show ?thesis using Cons.IH by (auto simp: Cons \<open>qs = m # qs'\<close>)
  qed
qed

section \<open>What a resolution does\<close>

lemma resolve_row_success:
  assumes run: "resolve_row \<epsilon> run req ids row s = (Inr y, t)" and ok: "lineage_ok s"
  obtains u uid where "unit_by_id s (mu_id row) = Some u"
    "\<forall>j. unit_by_id t j = (if j = mu_id row
       then Some (bumped_head \<epsilon> (status_change (if mu_id row \<in> ids then Candidate else Tombstoned)) (txn_now s) u)
       else unit_by_id s j)"
    "lineage_ok t" "same_context s t" "approval_decisions t = approval_decisions s" "run_resolutions t = run_resolutions s"
    "memory_edges t = memory_edges s"
    "queue_items t = queue_items s @ (if mu_id row \<in> ids then [winner_item run req uid row (txn_now s)] else [])"
proof -
  let ?w = "s\<lparr>readings := Suc (readings s)\<rparr>"
  let ?st = "status_change (if mu_id row \<in> ids then Candidate else Tombstoned)"
  from run obtain rev reason u' w2 where
    cas: "cas_update_memory_unit \<epsilon> \<lparr>cu_memory_id = mu_id row, cu_expected_revision = mu_revision row,
             cu_rev_uid = rev, cu_editor = ''judge'', cu_origin_machine_id = rr_machine_id req,
             cu_reason = reason, cu_changes = ?st\<rparr> ?w = (Inr u', w2)" (is "cas_update_memory_unit \<epsilon> ?c ?w = _")
    and rest: "(if mu_id row \<in> ids then
             bnd (mint \<epsilon>) (\<lambda>uid. bnd (gets txn_now) (\<lambda>now. insert_item (winner_item run req uid row now)))
           else ret ()) w2 = (Inr y, t)"
    by (auto simp: resolve_row_def Let_def act_iff mint_Inr)
  have okw: "lineage_ok ?w" using ok by (simp add: lineage_ok_def head_lineage_def revisions_at_def)
  obtain v p ct where f: "find (\<lambda>u. mu_id u = mu_id row \<and> mu_revision u = mu_revision row) (memory_units ?w) = Some v"
    and w2: "w2 = ?w\<lparr>memory_units := replace_unit u' (memory_units ?w),
           memory_revisions := memory_revisions ?w @ [cas_revision ?c p (txn_now ?w) u'], curator_triggers := ct\<rparr>"
    using cas by (rule cas_success) simp
  from f okw have v: "unit_by_id ?w (cu_memory_id ?c) = Some v"
    by (subst unit_by_id_iff) (auto dest: find_Some_set simp: lineage_ok_def)
  note eff = cas_effect [OF cas okw v]
  have vs: "unit_by_id s (mu_id row) = Some v" using v by (simp add: unit_by_id_def)
  obtain uid rd where t: "t = w2\<lparr>readings := rd,
      queue_items := queue_items w2 @ (if mu_id row \<in> ids then [winner_item run req uid row (txn_now w2)] else [])\<rparr>"
  proof (cases "mu_id row \<in> ids")
    case True
    let ?uid = "mint_ulid (time_ms \<epsilon> (readings w2)) (randbits80 \<epsilon> (readings w2))"
    from rest True have "t = w2\<lparr>readings := Suc (readings w2),
        queue_items := queue_items w2 @ [winner_item run req ?uid row (txn_now w2)]\<rparr>"
      by (auto simp: act_iff mint_Inr insert_item_Inr)
    with True show thesis by (intro that [of ?uid "Suc (readings w2)"]) simp
  next
    case False
    with rest show thesis by (intro that [of "[]" "readings w2"]) (simp add: act_iff)
  qed
  show thesis
  proof (rule that [of v uid, OF vs])
    show "\<forall>j. unit_by_id t j = (if j = mu_id row then Some (bumped_head \<epsilon> ?st (txn_now s) v) else unit_by_id s j)"
      using eff(1,2) by (simp add: t unit_by_id_def)
    show "lineage_ok t" using eff(6) by (simp add: t lineage_ok_def head_lineage_def revisions_at_def)
  qed (simp_all add: t w2 same_context_def)
qed

interpretation run_sweep: head_sweep "resolve_row \<epsilon> run req ids" mu_id
  "\<lambda>row now u v. v = bumped_head \<epsilon> (status_change (if mu_id row \<in> ids then Candidate else Tombstoned)) now u"
proof
  fix x s y t
  assume "resolve_row \<epsilon> run req ids x s = (Inr y, t)" "lineage_ok s"
  then obtain u where "unit_by_id s (mu_id x) = Some u"
    "\<forall>j. unit_by_id t j = (if j = mu_id x
       then Some (bumped_head \<epsilon> (status_change (if mu_id x \<in> ids then Candidate else Tombstoned)) (txn_now s) u)
       else unit_by_id s j)" "lineage_ok t" "same_context s t"
    by (rule resolve_row_success)
  then show "\<exists>u v. unit_by_id s (mu_id x) = Some u \<and>
        v = bumped_head \<epsilon> (status_change (if mu_id x \<in> ids then Candidate else Tombstoned)) (txn_now s) u \<and>
        (\<forall>j. unit_by_id t j = (if j = mu_id x then Some v else unit_by_id s j)) \<and> lineage_ok t \<and> same_context s t"
    by blast
qed

lemma resolve_rows_queue:
  assumes "iterM (resolve_row \<epsilon> run req ids) rows s = (Inr y, t)" "lineage_ok s"
  shows "approval_decisions t = approval_decisions s \<and> run_resolutions t = run_resolutions s \<and> memory_edges t = memory_edges s \<and>
     (\<exists>items. queue_items t = queue_items s @ items \<and>
        list_all2 (\<lambda>q row. \<exists>uid. q = winner_item run req uid row (txn_now s)) items (filter (\<lambda>row. mu_id row \<in> ids) rows))"
  using assms
proof (induction rows arbitrary: s)
  case Nil
  then show ?case by (simp add: act_iff)
next
  case (Cons row rows)
  from Cons.prems(1) obtain z w where step: "resolve_row \<epsilon> run req ids row s = (Inr z, w)"
    and rest: "iterM (resolve_row \<epsilon> run req ids) rows w = (Inr y, t)"
    by (auto simp: act_iff)
  obtain uid where w: "lineage_ok w" "same_context s w" "approval_decisions w = approval_decisions s"
    "run_resolutions w = run_resolutions s" "memory_edges w = memory_edges s"
    "queue_items w = queue_items s @ (if mu_id row \<in> ids then [winner_item run req uid row (txn_now s)] else [])"
    using resolve_row_success [OF step Cons.prems(2)] by metis
  from Cons.IH [OF rest w(1)] obtain items where it: "queue_items t = queue_items w @ items"
    "list_all2 (\<lambda>q row. \<exists>uid. q = winner_item run req uid row (txn_now w)) items (filter (\<lambda>row. mu_id row \<in> ids) rows)"
    "approval_decisions t = approval_decisions w" "run_resolutions t = run_resolutions w" "memory_edges t = memory_edges w"
    by blast
  have now: "txn_now w = txn_now s" using w(2) by (simp add: same_context_def)
  show ?case
    using it w now
    by (intro conjI exI [of _ "(if mu_id row \<in> ids then [winner_item run req uid row (txn_now s)] else []) @ items"]) auto
qed

lemma resolution_response_keeps: "keep.steps (resolution_response \<epsilon> run req)"
  unfolding resolution_response_def list_batch_def by (intro keep.steps_rules keep_card)

text \<open>The members of a run that the winning subtree staged.\<close>

definition staged_in :: "string \<Rightarrow> memory_unit \<Rightarrow> bool" where
  "staged_in run u \<longleftrightarrow> mu_run_id u = Some run \<and> mu_status u = Staged"

definition wins :: "resolve_run_request \<Rightarrow> memory_unit \<Rightarrow> bool" where
  "wins req u \<longleftrightarrow> is_origin_prefix (rr_winner_origin_agent req) (mu_origin_agent u)"

lemma set_by_creation [simp]: "set (by_creation us) = set us"
  by (simp add: by_creation_def)

lemma resolve_rows_effect:
  assumes run: "resolve_rows \<epsilon> run req s = (Inr y, t)" and ok: "lineage_ok s"
  defines "rows \<equiv> by_creation (filter (staged_in run) (memory_units s))"
  shows "run_resolutions t = run_resolutions s @ [resolution_row run req (txn_now s)]"
    "\<forall>j. unit_by_id t j = (case unit_by_id s j of None \<Rightarrow> None
       | Some u \<Rightarrow> Some (if staged_in run u
           then bumped_head \<epsilon> (status_change (if wins req u then Candidate else Tombstoned)) (txn_now s) u else u))"
    "\<exists>items. queue_items t = queue_items s @ items \<and>
        list_all2 (\<lambda>q row. \<exists>uid. q = winner_item run req uid row (txn_now s)) items (filter (wins req) rows)"
    "approval_decisions t = approval_decisions s" "memory_edges t = memory_edges s"
    "\<forall>u \<in> set rows. mu_principal_id u = rr_principal_id req" "filter (wins req) rows \<noteq> []"
proof -
  have rows: "locked_run_rows run s = (Inr rows, s)"
    by (simp add: locked_run_rows_def gets_def rows_def staged_in_def [abs_def])
  define ids where "ids = mu_id ` set (filter (wins req) rows)"
  define r where "r = resolution_row run req (txn_now s)"
  obtain w where w: "w = s\<lparr>run_resolutions := run_resolutions s @ [r]\<rparr>"
    and it: "iterM (resolve_row \<epsilon> run req ids) rows w = (Inr y, t)"
    and facts: "\<forall>u \<in> set rows. mu_principal_id u = rr_principal_id req" "filter (wins req) rows \<noteq> []"
    using run unfolding resolve_rows_def ids_def r_def
    by (auto simp: act_iff rows Let_def insert_resolution_def wins_def [abs_def])
  have okw: "lineage_ok w" using ok by (simp add: w lineage_ok_def head_lineage_def revisions_at_def)
  have in_s: "u \<in> set (memory_units s) \<and> staged_in run u" if "u \<in> set rows" for u
    using that by (simp add: rows_def)
  have dist: "distinct (map mu_id (memory_units s))" using ok by (simp add: lineage_ok_def)
  have inj: "u = v" if "u \<in> set (memory_units s)" "v \<in> set (memory_units s)" "mu_id u = mu_id v" for u v
    using that dist by (auto simp: distinct_map dest: inj_onD)
  have ids: "mu_id u \<in> ids \<longleftrightarrow> wins req u" if "u \<in> set rows" for u
    using that in_s inj unfolding ids_def by auto
  have drows: "distinct (map mu_id rows)"
    using dist by (auto simp: rows_def by_creation_def distinct_map distinct_filter inj_on_def)
  note sweep = run_sweep.sweep [OF it drows okw]
  note queue = resolve_rows_queue [OF it okw]
  show "run_resolutions t = run_resolutions s @ [resolution_row run req (txn_now s)]" using queue by (simp add: w r_def)
  have fi: "filter (\<lambda>row. mu_id row \<in> ids) rows = filter (wins req) rows"
    using ids by (auto intro: filter_cong)
  show "\<exists>items. queue_items t = queue_items s @ items \<and>
        list_all2 (\<lambda>q row. \<exists>uid. q = winner_item run req uid row (txn_now s)) items (filter (wins req) rows)"
    using queue unfolding fi by (simp add: w)
  show "approval_decisions t = approval_decisions s" "memory_edges t = memory_edges s" using queue by (simp_all add: w)
  show "\<forall>u \<in> set rows. mu_principal_id u = rr_principal_id req" "filter (wins req) rows \<noteq> []" by (fact facts)+
  show "\<forall>j. unit_by_id t j = (case unit_by_id s j of None \<Rightarrow> None
       | Some u \<Rightarrow> Some (if staged_in run u
           then bumped_head \<epsilon> (status_change (if wins req u then Candidate else Tombstoned)) (txn_now s) u else u))"
  proof
    fix j
    have ws: "unit_by_id w i = unit_by_id s i" for i by (simp add: w unit_by_id_def)
    show "unit_by_id t j = (case unit_by_id s j of None \<Rightarrow> None
       | Some u \<Rightarrow> Some (if staged_in run u
           then bumped_head \<epsilon> (status_change (if wins req u then Candidate else Tombstoned)) (txn_now s) u else u))"
    proof (cases "j \<in> mu_id ` set rows")
      case True
      then obtain u where u: "u \<in> set rows" "mu_id u = j" by auto
      then have "unit_by_id s j = Some u" using in_s dist by (subst unit_by_id_iff) auto
      with sweep u ids [OF u(1)] in_s [OF u(1)] ws show ?thesis by (auto simp: w)
    next
      case False
      then have same: "unit_by_id t j = unit_by_id s j" using sweep ws by simp
      show ?thesis
      proof (cases "unit_by_id s j")
        case (Some u)
        then have "u \<in> set (memory_units s)" "mu_id u = j" by (auto dest: unit_by_id_id)
        with False have "\<not> staged_in run u" by (auto simp: rows_def)
        with same Some show ?thesis by simp
      qed (simp add: same)
    qed
  qed
qed

lemma resolve_run_first:
  assumes run: "resolve_run \<epsilon> run req s = (Inr x, t)" and fresh: "run \<notin> sr_run_id ` set (run_resolutions s)"
  obtains s0 where "s0 = s\<lparr>readings := Suc (readings s), txn_now := clock \<epsilon> (readings s)\<rparr>" "resolve_rows \<epsilon> run req s0 = (Inr (), t)"
proof -
  have none: "find (\<lambda>r. sr_run_id r = run) (run_resolutions s) = None"
    using fresh by (auto simp: find_None_iff)
  from run obtain w where w: "record_resolution \<epsilon> run req s = (Inr (), w)" "resolution_response \<epsilon> run req w = (Inr x, t)"
    by (auto simp: resolve_run_def act_iff)
  have "w = t" using keep.stepsD [OF resolution_response_keeps w(2)] .
  with w(1) none show thesis by (intro that) (simp_all add: record_resolution_def transaction_Inr act_iff)
qed

text \<open>C27: The first successful resolution of a run decides every memory the run had staged, and
  nothing else: what the winning attempt or an attempt below it staged becomes a candidate, every other staged memory of the run is
  tombstoned, each with one more revision; exactly one pending consent card per winner is appended, in order of creation, with the
  run, the attempt and the judges' context; the resolution is recorded once; all of the run's memories belong to the request's
  principal and at least one of them won.\<close>

theorem resolve_run_effect:
  assumes "resolve_run \<epsilon> run req s = (Inr x, t)" "db_ok s" "run \<notin> sr_run_id ` set (run_resolutions s)"
  shows "let now = clock \<epsilon> (readings s); rows = by_creation (filter (staged_in run) (memory_units s)) in
    (\<forall>j. unit_by_id t j = (case unit_by_id s j of None \<Rightarrow> None
       | Some u \<Rightarrow> Some (if staged_in run u
           then bumped_head \<epsilon> (status_change (if wins req u then Candidate else Tombstoned)) now u else u))) \<and>
    (\<exists>items. queue_items t = queue_items s @ items \<and>
        list_all2 (\<lambda>q row. \<exists>uid. q = winner_item run req uid row now) items (filter (wins req) rows)) \<and>
    run_resolutions t = run_resolutions s @ [resolution_row run req now] \<and>
    approval_decisions t = approval_decisions s \<and> memory_edges t = memory_edges s \<and>
    (\<forall>u \<in> set rows. mu_principal_id u = rr_principal_id req) \<and> filter (wins req) rows \<noteq> []"
proof -
  obtain s0 where s0: "s0 = s\<lparr>readings := Suc (readings s), txn_now := clock \<epsilon> (readings s)\<rparr>" and
    rr: "resolve_rows \<epsilon> run req s0 = (Inr (), t)"
    using resolve_run_first [OF assms(1,3)] .
  have ok: "lineage_ok s0" using assms(2) by (simp add: s0 db_ok_def lineage_ok_def head_lineage_def revisions_at_def)
  note eff = resolve_rows_effect [OF rr ok]
  have look: "unit_by_id s0 = unit_by_id s" by (simp add: s0 unit_by_id_def fun_eq_iff)
  have now: "txn_now s0 = clock \<epsilon> (readings s)" "memory_units s0 = memory_units s" "queue_items s0 = queue_items s"
    "run_resolutions s0 = run_resolutions s" "approval_decisions s0 = approval_decisions s" "memory_edges s0 = memory_edges s"
    by (simp_all add: s0)
  show ?thesis unfolding Let_def using eff unfolding look now by blast
qed

lemma resolve_rows_resolution:
  assumes "resolve_rows \<epsilon> run req s = (Inr y, t)"
  shows "run_resolutions t = run_resolutions s @ [resolution_row run req (txn_now s)]"
proof -
  have keep: "run_resolutions t = run_resolutions s" if "iterM (resolve_row \<epsilon> run req ids) rows s = (Inr y, t)" for ids rows s y t
    using that
  proof (induction rows arbitrary: s)
    case (Cons row rows)
    from Cons.prems obtain z w where w: "resolve_row \<epsilon> run req ids row s = (Inr z, w)"
      "iterM (resolve_row \<epsilon> run req ids) rows w = (Inr y, t)" by (auto simp: act_iff)
    from w(1) have "run_resolutions w = run_resolutions s"
      by (auto simp: resolve_row_def Let_def act_iff mint_Inr insert_item_Inr elim!: cas_success split: if_splits)
    with Cons.IH [OF w(2)] show ?case by simp
  qed (simp add: act_iff)
  from assms show ?thesis
    by (auto simp: resolve_rows_def Let_def act_iff insert_resolution_def locked_run_rows_def dest!: keep)
qed

text \<open>The response only reads tables.\<close>

lemma card_at: "card \<epsilon> q ns s = (r, s') \<Longrightarrow> card \<epsilon> q ns (s\<lparr>readings := a, txn_now := b\<rparr>) = (r, s\<lparr>readings := a, txn_now := b\<rparr>)"
  by (auto simp: card_def act_defs unit_by_id_def neighbor_cards_def split: option.splits)

lemma cards_keep: obtains d where "mapM (\<lambda>q. card \<epsilon> q None) qs s = (d, s)"
proof (cases "mapM (\<lambda>q. card \<epsilon> q None) qs s")
  case (Pair d t)
  have "keep.steps (mapM (\<lambda>q. card \<epsilon> q None) qs)" by (intro keep.steps_mapM keep_card)
  from keep.stepsD [OF this Pair] Pair show ?thesis by (intro that) simp
qed

lemma cards_at:
  "mapM (\<lambda>q. card \<epsilon> q None) qs s = (r, s) \<Longrightarrow>
     mapM (\<lambda>q. card \<epsilon> q None) qs (s\<lparr>readings := a, txn_now := b\<rparr>) = (r, s\<lparr>readings := a, txn_now := b\<rparr>)"
proof (induction qs arbitrary: r)
  case (Cons q qs)
  obtain c where c: "card \<epsilon> q None s = (c, s)" by (cases "card \<epsilon> q None s") (auto dest: keep.stepsD [OF keep_card])
  obtain d where d: "mapM (\<lambda>q. card \<epsilon> q None) qs s = (d, s)" by (rule cards_keep)
  from Cons.prems c d card_at [OF c] Cons.IH [OF d] show ?case
    by (auto simp: bnd_def ret_def split: sum.splits)
qed (simp add: ret_def)

lemma resolution_response_at:
  assumes "resolution_response \<epsilon> run req s = (r, s)"
  shows "resolution_response \<epsilon> run req (s\<lparr>readings := a, txn_now := b\<rparr>) = (r, s\<lparr>readings := a, txn_now := b\<rparr>)"
proof -
  let ?qs = "sort_key (\<lambda>q. (qi_created_at q, qi_item_uid q))
       (filter (\<lambda>q. qi_batch_uid q = Some (rr_batch_uid req) \<and> qi_birthplace q = B_symphony) (queue_items s))"
  obtain d where d: "mapM (\<lambda>q. card \<epsilon> q None) ?qs s = (d, s)" by (rule cards_keep)
  from assms d cards_at [OF d] show ?thesis
    by (auto simp: resolution_response_def list_batch_def bnd_def gets_def ret_def split: sum.splits)
qed

lemma transaction_run:
  "transaction \<epsilon> m s = (case m (s\<lparr>readings := Suc (readings s), txn_now := clock \<epsilon> (readings s)\<rparr>) of
     (Inl e, u) \<Rightarrow> (Inl e, rollback s u) | (Inr x, u) \<Rightarrow> (Inr x, u))"
  by (simp add: transaction_def clock_timestamp_def draw_def act_defs)

lemma context_dump_inj: "context_dump j = context_dump k \<Longrightarrow> j = k"
proof -
  assume eq: "context_dump j = context_dump k"
  have "inj JStr" by (simp add: inj_def)
  with eq have "jc_summary j = jc_summary k" "jc_judge_ids j = jc_judge_ids k" "jc_evidence_refs j = jc_evidence_refs k"
    by (auto simp: context_dump_def inj_map_eq_map)
  then show ?thesis by simp
qed

text \<open>A run is resolved at most once: after a successful resolution the same request is answered with the
  same response and changes no table, and any other request for the run (another principal, batch, winner, machine or context)
  raises a conflict and changes no table.\<close>

theorem resolve_run_once:
  assumes "resolve_run \<epsilon> run req s = (Inr x, t)" "run \<notin> sr_run_id ` set (run_resolutions s)"
  shows "(\<exists>t1. resolve_run \<epsilon> run req t = (Inr x, t1) \<and> same_tables t t1) \<and>
    (req' \<noteq> req \<longrightarrow> (\<exists>m t2. resolve_run \<epsilon> run req' t = (Inl (SymphonyConflict m), t2) \<and> same_tables t t2))"
proof -
  obtain s0 where rr: "resolve_rows \<epsilon> run req s0 = (Inr (), t)" and s0: "run_resolutions s0 = run_resolutions s"
    by (rule resolve_run_first [OF assms]) simp
  obtain now where t: "run_resolutions t = run_resolutions s @ [resolution_row run req now]"
    using resolve_rows_resolution [OF rr] by (simp add: s0)
  define t0 where "t0 = t\<lparr>readings := Suc (readings t), txn_now := clock \<epsilon> (readings t)\<rparr>"
  have found: "find (\<lambda>r. sr_run_id r = run) (run_resolutions t) = Some (resolution_row run req now)"
    using assms(2) by (auto simp: t find_append find_None_iff resolution_row_def split: option.splits dest: find_Some_set)
  have in_run: "origin_is_in_run run (rr_winner_origin_agent req)"
    using assms(1) by (auto simp: resolve_run_def act_iff)
  obtain w where w: "resolution_response \<epsilon> run req w = (Inr x, t)"
    using assms(1) by (auto simp: resolve_run_def act_iff)
  then have "resolution_response \<epsilon> run req t = (Inr x, t)"
    using keep.stepsD [OF resolution_response_keeps w] by simp
  then have resp: "resolution_response \<epsilon> run req t0 = (Inr x, t0)"
    unfolding t0_def by (rule resolution_response_at)
  have "record_resolution \<epsilon> run req t = (Inr (), t0)"
    using found by (simp add: record_resolution_def transaction_run t0_def act_defs require_resolution_replay_def resolution_row_def)
  then have 1: "resolve_run \<epsilon> run req t = (Inr x, t0)"
    using in_run resp by (simp add: resolve_run_def act_defs)
  have same: "same_tables t t0" "same_tables t (t\<lparr>readings := k\<rparr>)" for k
    by (simp_all add: t0_def same_tables_def)
  have "\<exists>m t2. resolve_run \<epsilon> run req' t = (Inl (SymphonyConflict m), t2) \<and> same_tables t t2" if "req' \<noteq> req"
  proof (cases "origin_is_in_run run (rr_winner_origin_agent req')")
    case True
    have "(rr_principal_id req, rr_batch_uid req, rr_winner_origin_agent req, rr_machine_id req, context_dump (rr_judged_context req)) \<noteq>
        (rr_principal_id req', rr_batch_uid req', rr_winner_origin_agent req', rr_machine_id req', context_dump (rr_judged_context req'))"
      using that by (auto dest!: context_dump_inj)
    then have "record_resolution \<epsilon> run req' t = (Inl (SymphonyConflict ''the run already has a different resolution''), t\<lparr>readings := Suc (readings t)\<rparr>)"
      using found by (simp add: record_resolution_def transaction_run act_defs require_resolution_replay_def resolution_row_def rollback_def)
    with True same(2) show ?thesis by (simp add: resolve_run_def act_defs)
  next
    case False
    then show ?thesis by (simp add: resolve_run_def act_defs same_tables_def)
  qed
  with 1 same(1) show ?thesis by blast
qed

section \<open>A run with a winner and a loser\<close>

definition run_unit :: "uuid \<Rightarrow> string \<Rightarrow> memory_unit" where
  "run_unit i agent = (sample_unit Staged i)\<lparr>mu_run_id := Some ''R'', mu_origin_agent := Some agent\<rparr>"

definition sample_run_db :: db where
  "sample_run_db = empty_db\<lparr>memory_units := [run_unit 1 ''R/root.1'', run_unit 2 ''R/root.2''],
     memory_revisions := [root_revision sample_command ''A'' (run_unit 1 ''R/root.1'') 0,
                          root_revision sample_command ''B'' (run_unit 2 ''R/root.2'') 0]\<rparr>"

definition sample_resolve :: resolve_run_request where
  "sample_resolve = \<lparr>rr_principal_id = ''p'', rr_batch_uid = 7, rr_winner_origin_agent = ''R/root.1'', rr_machine_id = ''m'',
     rr_judged_context = \<lparr>jc_summary = ''ok'', jc_judge_ids = [''a'', ''b'', ''c''], jc_evidence_refs = [''e'']\<rparr>\<rparr>"

lemma sample_run_ok: "db_ok sample_run_db"
  by (auto simp: db_ok_def lineage_ok_def labels_ok_def label_taken_def queue_ok_def head_lineage_def revisions_at_def
      sample_run_db_def empty_db_def run_unit_def sample_unit_def root_row_def root_revision_def)

lemma sample_run:
  "\<exists>x t. resolve_run sample_env ''R'' sample_resolve sample_run_db = (Inr x, t)"
  by (simp add: resolve_run_def record_resolution_def resolve_rows_def locked_run_rows_def insert_resolution_def
      resolution_row_def resolve_row_def winner_item_def pending_item_def resolution_response_def list_batch_def
      by_creation_def origin_is_in_run_def is_origin_prefix_def startswith_def sample_resolve_def sample_run_db_def run_unit_def
      store_run unit_by_id_def
      sample_unit_def sample_command_def root_row_def cas_update_memory_unit_def cas_update_inner_def
      status_change_def no_changes_def update_unit_def bumped_head_def apply_changes_def replace_unit_def
      removals_of_def revisions_at_def root_revision_def cas_revision_def neighbor_cards_def card_def dget_def default_stats_def
      Let_def insert_item_def birthplace_shape_def)

theorem resolve_run_effect_witness:
  "\<exists>x t u v. resolve_run sample_env ''R'' sample_resolve sample_run_db = (Inr x, t) \<and>
     unit_by_id t 1 = Some u \<and> mu_status u = Candidate \<and> unit_by_id t 2 = Some v \<and> mu_status v = Tombstoned"
proof -
  obtain x t where run: "resolve_run sample_env ''R'' sample_resolve sample_run_db = (Inr x, t)" using sample_run by blast
  have "''R'' \<notin> sr_run_id ` set (run_resolutions sample_run_db)" by (simp add: sample_run_db_def empty_db_def)
  from resolve_run_effect [OF run sample_run_ok this] run show ?thesis
    by (simp add: Let_def sample_run_db_def unit_by_id_def run_unit_def sample_unit_def root_row_def staged_in_def wins_def
        is_origin_prefix_def sample_resolve_def startswith_def bumped_head_def apply_changes_def status_change_def no_changes_def)
qed

theorem resolve_run_once_witness:
  "\<exists>x t t1 m t2. resolve_run sample_env ''R'' sample_resolve sample_run_db = (Inr x, t) \<and>
     resolve_run sample_env ''R'' sample_resolve t = (Inr x, t1) \<and> same_tables t t1 \<and>
     resolve_run sample_env ''R'' (sample_resolve\<lparr>rr_winner_origin_agent := ''R/root.2''\<rparr>) t = (Inl (SymphonyConflict m), t2)"
proof -
  obtain x t where run: "resolve_run sample_env ''R'' sample_resolve sample_run_db = (Inr x, t)" using sample_run by blast
  have fresh: "''R'' \<notin> sr_run_id ` set (run_resolutions sample_run_db)" by (simp add: sample_run_db_def empty_db_def)
  have "sample_resolve\<lparr>rr_winner_origin_agent := ''R/root.2''\<rparr> \<noteq> sample_resolve" by (simp add: sample_resolve_def)
  with resolve_run_once [OF run fresh, of "sample_resolve\<lparr>rr_winner_origin_agent := ''R/root.2''\<rparr>"] run show ?thesis by blast
qed

section \<open>The winner is a subtree\<close>

text \<open>Between the paths of attempts, \<open>_is_origin_prefix\<close> is the ancestor relation: \<open>root.1\<close> is above \<open>root.1.3\<close> but
  not above \<open>root.10\<close>.\<close>

lemma origin_prefix_tree:
  "is_origin_prefix (attempt_path run ps) (Some (attempt_path run qs)) \<longleftrightarrow> prefix ps qs"
proof -
  have "startswith (run @ ''/root'' @ u) ((run @ ''/root'' @ v) @ ''.'') \<longleftrightarrow> startswith u (v @ ''.'')" for u v
    by (auto simp: startswith_iff)
  then show ?thesis
    unfolding is_origin_prefix_def attempt_path_def path_tail_prefix [symmetric] by simp
qed

section \<open>Resolutions are safe requests\<close>

lemma safe_insert_resolution: "safe.oks (insert_resolution r)"
  by (rule safe.oksI, rule safe_same) (auto simp: insert_resolution_def act_iff append_only_def)

lemma safe_resolve_row: "safe.oks (resolve_row \<epsilon> run req ids row)"
  unfolding resolve_row_def Let_def
  by (intro safe.oks_rules safe_ok_parts safe_insert_item) (simp_all add: winner_item_def pending_item_def)

lemma safe_resolve_run: "safe.steps (resolve_run \<epsilon> run req)"
  unfolding resolve_run_def record_resolution_def resolve_rows_def locked_run_rows_def require_resolution_replay_def Let_def
  by (intro safe.steps_rules safe_transaction safe.oks_rules safe_insert_resolution safe_resolve_row
      resolution_response_keeps [THEN keep_safe])

lemma safe_stage: "safe.steps (stage \<epsilon> c r)"
  unfolding stage_def by (intro safe.steps_rules safe_stage_symphony)

text \<open>Staging does not look for a resolution, and a resolved run is never routed again: a memory staged after the
  resolution of its run stays staged, whatever is asked of the run later.\<close>

lemma resolved_run_never_moves:
  assumes "run \<in> sr_run_id ` set (run_resolutions s)" "resolve_run \<epsilon> run req s = (r, t)"
  shows "same_tables s t"
proof -
  obtain row where row: "find (\<lambda>r. sr_run_id r = run) (run_resolutions s) = Some row"
    using assms(1) by (cases "find (\<lambda>r. sr_run_id r = run) (run_resolutions s)") (auto simp: find_None_iff)
  have rec: "record_resolution \<epsilon> run req s = (q, w) \<Longrightarrow> same_tables s w" for q w
    using row by (auto simp: record_resolution_def transaction_run act_defs require_resolution_replay_def rollback_def
        same_tables_def split: if_splits)
  show ?thesis
  proof (cases "origin_is_in_run run (rr_winner_origin_agent req)")
    case True
    obtain q w where w: "record_resolution \<epsilon> run req s = (q, w)" by force
    have "t = w"
      using assms(2) True w
      by (cases q) (auto simp: resolve_run_def act_defs dest: keep.stepsD [OF resolution_response_keeps])
    with rec [OF w] show ?thesis by simp
  next
    case False
    with assms(2) show ?thesis by (auto simp: resolve_run_def act_defs same_tables_def)
  qed
qed

end
