(* ===== verification/Annotations.thy ===== *)
theory Annotations
  imports Memory
begin

text \<open>
  Verification-only annotations of injection events (\<open>src/spine/inject/annotations.py\<close>): one atomic batch whose targets
  must exist with the expected identities; an annotation that is already stored with the same fields is a replay,
  with other fields a conflict. The learner's advisory lock only serialises requests.
\<close>

record annotation_input =
  ai_target_event_uid :: string
  ai_expected_principal_id :: string
  ai_expected_machine_id :: string
  ai_reason :: string
  ai_annotator_principal_id :: string
  ai_annotator_machine_id :: string
  ai_annotator_origin_agent :: string

text \<open>The row of \<open>_annotation_values\<close>, stored at a given time.\<close>

definition annotation_values :: "annotation_input \<Rightarrow> injection_event \<Rightarrow> timestamp \<Rightarrow> injection_event_annotation" where
  "annotation_values a e now = \<lparr>an_target_event_uid = ev_event_uid e, an_kind = ''verification_only'',
     an_target_principal_id = ev_principal_id e, an_target_machine_id = ev_machine_id e, an_reason = ai_reason a,
     an_annotator_principal_id = ai_annotator_principal_id a, an_annotator_machine_id = ai_annotator_machine_id a,
     an_annotator_origin_agent = ai_annotator_origin_agent a, an_ts = now\<rparr>"

text \<open>\<open>_row_values\<close> leaves out the time.\<close>

definition same_values :: "injection_event_annotation \<Rightarrow> injection_event_annotation \<Rightarrow> bool" where
  "same_values r v \<longleftrightarrow> r\<lparr>an_ts := 0\<rparr> = v\<lparr>an_ts := 0\<rparr>"

definition target_of :: "db \<Rightarrow> annotation_input \<Rightarrow> injection_event option" where
  "target_of s a = find (\<lambda>e. ev_event_uid e = ai_target_event_uid a) (injection_events s)"

definition annotation_of :: "db \<Rightarrow> annotation_input \<Rightarrow> injection_event_annotation option" where
  "annotation_of s a = find (\<lambda>r. an_target_event_uid r = ai_target_event_uid a) (event_annotations s)"

definition check_target :: "annotation_input \<Rightarrow> unit op" where
  "check_target a = bnd (gets (\<lambda>s. target_of s a)) (\<lambda>target. case target of
     None \<Rightarrow> raise (AnnotationTargetNotFound (ai_target_event_uid a))
   | Some e \<Rightarrow> raise_if (ev_principal_id e \<noteq> ai_expected_principal_id a \<or> ev_machine_id e \<noteq> ai_expected_machine_id a)
       (AnnotationFingerprintMismatch (ai_target_event_uid a)))"

text \<open>One round of the second loop: the row to add, if any. Its target was found by the first loop.\<close>

definition pending_annotation :: "annotation_input \<Rightarrow> injection_event_annotation list op" where
  "pending_annotation a =
     bnd (gets id) (\<lambda>s. case target_of s a of
       None \<Rightarrow> raise (KeyError (ai_target_event_uid a))
     | Some e \<Rightarrow>
         let v = annotation_values a e (txn_now s) in
         (case annotation_of s a of
            None \<Rightarrow> ret [v]
          | Some r \<Rightarrow> if same_values r v then ret [] else raise (AnnotationConflict (ai_target_event_uid a))))"

definition btrimmed :: "string \<Rightarrow> bool" where
  "btrimmed s \<longleftrightarrow> s = strip_chars '' '' s \<and> s \<noteq> []"

definition insert_annotation :: "injection_event_annotation \<Rightarrow> unit op" where
  "insert_annotation r =
     bnd (gets id) (\<lambda>s.
     sqn (raise_if (an_kind r \<noteq> ''verification_only'') (IntegrityError ''injection_event_annotation_kind_check''))
    (sqn (raise_if (\<not> btrimmed (an_reason r)) (IntegrityError ''injection_event_annotation_reason_check''))
    (sqn (raise_if (\<not> btrimmed (an_annotator_principal_id r)) (IntegrityError ''injection_event_annotation_annotator_principal_check''))
    (sqn (raise_if (\<not> btrimmed (an_annotator_machine_id r)) (IntegrityError ''injection_event_annotation_annotator_machine_check''))
    (sqn (raise_if (\<not> btrimmed (an_annotator_origin_agent r)) (IntegrityError ''injection_event_annotation_annotator_agent_check''))
    (sqn (raise_if (an_target_event_uid r \<in> an_target_event_uid ` set (event_annotations s))
            (IntegrityError ''injection_event_annotation_pkey''))
    (sqn (raise_if (an_target_event_uid r \<notin> ev_event_uid ` set (injection_events s))
            (IntegrityError ''injection_event_annotation_target_event_uid_fkey''))
         (modify (\<lambda>s. s\<lparr>event_annotations := event_annotations s @ [r]\<rparr>)))))))))"

definition append_annotations :: "env \<Rightarrow> annotation_input list \<Rightarrow> nat op" where
  "append_annotations \<epsilon> as =
     sqn (raise_if (as = []) (ValueError ''injection event annotation batch must not be empty''))
    (sqn (raise_if (\<not> distinct (map ai_target_event_uid as)) (ValueError ''injection event annotation targets must be unique''))
    (transaction \<epsilon>
      (sqn (iterM check_target as)
      (bnd (mapM pending_annotation as) (\<lambda>pending.
       sqn (iterM insert_annotation (concat pending))
           (ret (length as)))))))"

section \<open>What a batch does\<close>

lemma insert_annotation_Inr:
  "insert_annotation r s = (Inr x, t) \<longleftrightarrow> t = s\<lparr>event_annotations := event_annotations s @ [r]\<rparr> \<and>
     an_kind r = ''verification_only'' \<and> btrimmed (an_reason r) \<and> btrimmed (an_annotator_principal_id r) \<and>
     btrimmed (an_annotator_machine_id r) \<and> btrimmed (an_annotator_origin_agent r) \<and>
     an_target_event_uid r \<notin> an_target_event_uid ` set (event_annotations s) \<and>
     an_target_event_uid r \<in> ev_event_uid ` set (injection_events s)"
  by (auto simp: insert_annotation_def act_iff)

lemma insert_annotations_Inr:
  "iterM insert_annotation rs s = (Inr x, t) \<Longrightarrow> t = s\<lparr>event_annotations := event_annotations s @ rs\<rparr>"
proof (induction rs arbitrary: s)
  case (Cons r rs)
  then have "iterM insert_annotation rs (s\<lparr>event_annotations := event_annotations s @ [r]\<rparr>) = (Inr x, t)"
    by (auto simp: act_iff insert_annotation_Inr)
  from Cons.IH [OF this] show ?case by simp
qed (simp add: act_iff)

lemma check_targets_Inr:
  "iterM check_target as s = (Inr x, t) \<longleftrightarrow> t = s \<and> (\<forall>a \<in> set as. \<exists>e. target_of s a = Some e \<and>
     ev_principal_id e = ai_expected_principal_id a \<and> ev_machine_id e = ai_expected_machine_id a)"
  by (induction as arbitrary: s) (auto simp: act_iff check_target_def)

text \<open>The row a batch leaves for an annotation: the stored one, or a new one at the given time.\<close>

definition new_rows :: "db \<Rightarrow> timestamp \<Rightarrow> annotation_input \<Rightarrow> injection_event_annotation list" where
  "new_rows s now a = (case (target_of s a, annotation_of s a) of
     (Some e, None) \<Rightarrow> [annotation_values a e now] | _ \<Rightarrow> [])"

definition agrees :: "db \<Rightarrow> annotation_input \<Rightarrow> bool" where
  "agrees s a \<longleftrightarrow> (\<exists>e. target_of s a = Some e \<and> ev_principal_id e = ai_expected_principal_id a \<and>
     ev_machine_id e = ai_expected_machine_id a \<and>
     (case annotation_of s a of None \<Rightarrow> True | Some r \<Rightarrow> same_values r (annotation_values a e 0)))"

lemma same_values_time: "same_values r (annotation_values a e n) = same_values r (annotation_values a e 0)"
  by (simp add: same_values_def annotation_values_def)

lemma pending_Inr:
  "pending_annotation a s = (Inr rs, t) \<longleftrightarrow> t = s \<and> rs = new_rows s (txn_now s) a \<and> (\<exists>e. target_of s a = Some e \<and>
     (case annotation_of s a of None \<Rightarrow> True | Some r \<Rightarrow> same_values r (annotation_values a e 0)))"
  by (auto simp: pending_annotation_def act_iff Let_def new_rows_def same_values_time [of _ _ _ "txn_now s"] split: option.splits)

lemma mapM_pending_Inr:
  "mapM pending_annotation as s = (Inr rss, t) \<longleftrightarrow> t = s \<and> rss = map (new_rows s (txn_now s)) as \<and>
     (\<forall>a \<in> set as. \<exists>e. target_of s a = Some e \<and>
       (case annotation_of s a of None \<Rightarrow> True | Some r \<Rightarrow> same_values r (annotation_values a e 0)))"
  by (induction as arbitrary: rss) (auto simp: act_iff pending_Inr)

lemma append_Inr:
  assumes "append_annotations \<epsilon> as s = (Inr n, t)"
  shows "n = length as" "as \<noteq> []" "distinct (map ai_target_event_uid as)" "\<forall>a \<in> set as. agrees s a"
    "t = s\<lparr>readings := Suc (readings s), txn_now := clock \<epsilon> (readings s),
       event_annotations := event_annotations s @ concat (map (new_rows s (clock \<epsilon> (readings s))) as)\<rparr>"
proof -
  define s0 where "s0 = s\<lparr>readings := Suc (readings s), txn_now := clock \<epsilon> (readings s)\<rparr>"
  have look: "target_of s0 = target_of s" "annotation_of s0 = annotation_of s" "new_rows s0 = new_rows s" "txn_now s0 = clock \<epsilon> (readings s)"
    by (simp_all add: s0_def target_of_def annotation_of_def new_rows_def fun_eq_iff)
  from assms have 1: "n = length as" "as \<noteq> []" "distinct (map ai_target_event_uid as)"
    "\<forall>a \<in> set as. \<exists>e. target_of s a = Some e \<and>
     ev_principal_id e = ai_expected_principal_id a \<and> ev_machine_id e = ai_expected_machine_id a"
    "\<forall>a \<in> set as. \<exists>e. target_of s a = Some e \<and>
       (case annotation_of s a of None \<Rightarrow> True | Some r \<Rightarrow> same_values r (annotation_values a e 0))"
    and t: "iterM insert_annotation (concat (map (new_rows s (clock \<epsilon> (readings s))) as)) s0 = (Inr (), t)"
    unfolding append_annotations_def
    by (auto simp: act_iff transaction_Inr check_targets_Inr mapM_pending_Inr look s0_def [symmetric])
  then show "n = length as" "as \<noteq> []" "distinct (map ai_target_event_uid as)" by simp_all
  show "\<forall>a \<in> set as. agrees s a" using 1(4,5) by (fastforce simp: agrees_def)
  show "t = s\<lparr>readings := Suc (readings s), txn_now := clock \<epsilon> (readings s),
       event_annotations := event_annotations s @ concat (map (new_rows s (clock \<epsilon> (readings s))) as)\<rparr>"
    using insert_annotations_Inr [OF t] by (simp add: s0_def)
qed

lemma target_uid: "target_of s a = Some e \<Longrightarrow> ev_event_uid e = ai_target_event_uid a"
  by (auto simp: target_of_def dest: find_Some_set)

lemma annotation_uid: "annotation_of s a = Some r \<Longrightarrow> an_target_event_uid r = ai_target_event_uid a \<and> r \<in> set (event_annotations s)"
  by (auto simp: annotation_of_def dest: find_Some_set)

lemma new_rows_uid: "r \<in> set (new_rows s now a) \<Longrightarrow> an_target_event_uid r = ai_target_event_uid a"
  by (cases "target_of s a"; cases "annotation_of s a") (auto simp: new_rows_def annotation_values_def dest: target_uid)

lemma new_rows_distinct: "distinct (map an_target_event_uid (new_rows s now a))"
  by (simp add: new_rows_def split: option.splits)

lemma new_rows_none: "r \<in> set (new_rows s now a) \<Longrightarrow> annotation_of s a = None"
  by (cases "target_of s a"; cases "annotation_of s a") (auto simp: new_rows_def)

lemma disjoint_images:
  assumes "\<And>q. q \<in> B \<Longrightarrow> f q \<notin> f ` A"
  shows "f ` A \<inter> f ` B = {}"
proof (rule equals0I)
  fix y assume y: "y \<in> f ` A \<inter> f ` B"
  then obtain q where "q \<in> B" "y = f q" by (elim IntE imageE)
  with assms [of q] y show False by simp
qed

lemma find_new_rows:
  assumes "a \<in> set as" "distinct (map ai_target_event_uid as)"
  shows "find (\<lambda>r. an_target_event_uid r = ai_target_event_uid a) (concat (map (new_rows s now) as)) =
    find (\<lambda>r. an_target_event_uid r = ai_target_event_uid a) (new_rows s now a)"
  using assms
proof (induction as)
  case (Cons b as)
  show ?case
  proof (cases "a = b")
    case True
    have "find (\<lambda>r. an_target_event_uid r = ai_target_event_uid a) (concat (map (new_rows s now) as)) = None"
      unfolding find_None_iff
    proof
      assume "\<exists>r. r \<in> set (concat (map (new_rows s now) as)) \<and> an_target_event_uid r = ai_target_event_uid a"
      then obtain c r where "c \<in> set as" "r \<in> set (new_rows s now c)" "an_target_event_uid r = ai_target_event_uid a" by auto
      with new_rows_uid [of r s now c] Cons.prems(2) True show False by (auto simp: image_iff)
    qed
    with True show ?thesis by (simp add: find_append split: option.splits)
  next
    case False
    with Cons.prems have ab: "ai_target_event_uid b \<noteq> ai_target_event_uid a" by (auto simp: image_iff)
    have "find (\<lambda>r. an_target_event_uid r = ai_target_event_uid a) (new_rows s now b) = None"
      unfolding find_None_iff using new_rows_uid [of _ s now b] ab by auto
    with False Cons show ?thesis by (simp add: find_append)
  qed
qed simp

lemma annotated_after:
  assumes "append_annotations \<epsilon> as s = (Inr n, t)" "a \<in> set as"
  shows "\<exists>e r. target_of s a = Some e \<and> target_of t a = Some e \<and> ev_principal_id e = ai_expected_principal_id a \<and>
     ev_machine_id e = ai_expected_machine_id a \<and> annotation_of t a = Some r \<and> same_values r (annotation_values a e 0)"
proof -
  note t = append_Inr [OF assms(1)]
  obtain e where e: "target_of s a = Some e" "ev_principal_id e = ai_expected_principal_id a" "ev_machine_id e = ai_expected_machine_id a"
    "case annotation_of s a of None \<Rightarrow> True | Some r \<Rightarrow> same_values r (annotation_values a e 0)"
    using t(4) assms(2) by (auto simp: agrees_def)
  have te: "target_of t a = Some e" using e(1) by (simp add: t(5) target_of_def)
  have at: "annotation_of t a = (case annotation_of s a of
      None \<Rightarrow> find (\<lambda>r. an_target_event_uid r = ai_target_event_uid a) (new_rows s (clock \<epsilon> (readings s)) a) | Some r \<Rightarrow> Some r)"
    unfolding find_new_rows [OF assms(2) t(3), symmetric] by (simp add: t(5) annotation_of_def find_append split: option.splits)
  have "\<exists>r. annotation_of t a = Some r \<and> same_values r (annotation_values a e 0)"
  proof (cases "annotation_of s a")
    case None
    then have "annotation_of t a = Some (annotation_values a e (clock \<epsilon> (readings s)))"
      using at e(1) target_uid [OF e(1)] by (simp add: new_rows_def annotation_values_def)
    then show ?thesis by (simp add: same_values_def annotation_values_def)
  qed (use at e(4) in auto)
  with e te show ?thesis by blast
qed

text \<open>C28: A successful batch is answered with the number of its annotations; every one names an existing event
  with the expected principal and machine, which has one annotation afterwards, with exactly the fields given; only
  annotations of targets that had none are added, none is changed, and no other table is touched, the events
  included; no event is annotated twice. Sent again, the batch is answered with the same count and changes no table.\<close>

theorem annotate_batch:
  assumes "append_annotations \<epsilon> as s = (Inr n, t)" "distinct (map an_target_event_uid (event_annotations s))"
  shows "n = length as \<and>
    (\<forall>a \<in> set as. \<exists>e r. target_of s a = Some e \<and> ev_principal_id e = ai_expected_principal_id a \<and>
       ev_machine_id e = ai_expected_machine_id a \<and> annotation_of t a = Some r \<and> same_values r (annotation_values a e 0)) \<and>
    (\<exists>new now. t = s\<lparr>event_annotations := event_annotations s @ new, readings := Suc (readings s), txn_now := now\<rparr> \<and>
       (\<forall>r \<in> set new. \<exists>a \<in> set as. an_target_event_uid r = ai_target_event_uid a)) \<and>
    distinct (map an_target_event_uid (event_annotations t)) \<and>
    (\<exists>t1. append_annotations \<epsilon> as t = (Inr n, t1) \<and> same_tables t t1)"
proof -
  note r = append_Inr [OF assms(1)]
  let ?new = "concat (map (new_rows s (clock \<epsilon> (readings s))) as)"
  have ev: "event_annotations t = event_annotations s @ ?new" by (simp add: r(5))
  have "t = s\<lparr>event_annotations := event_annotations s @ ?new, readings := Suc (readings s), txn_now := clock \<epsilon> (readings s)\<rparr>"
    by (simp add: r(5))
  moreover have "\<forall>q \<in> set ?new. \<exists>a \<in> set as. an_target_event_uid q = ai_target_event_uid a" by (auto dest: new_rows_uid)
  moreover have "distinct (map an_target_event_uid (event_annotations s @ ?new))"
  proof -
    have "distinct (map an_target_event_uid (concat (map (new_rows s m) as)))" if "distinct (map ai_target_event_uid as)" for m as
      using that
    proof (induction as)
      case (Cons a as)
      have "an_target_event_uid ` set (new_rows s m a) \<inter> an_target_event_uid ` set (concat (map (new_rows s m) as)) = {}"
        using Cons.prems by (force dest: new_rows_uid)
      with Cons new_rows_distinct [of s m a] show ?case by simp
    qed simp
    moreover have fresh: "an_target_event_uid q \<notin> an_target_event_uid ` set (event_annotations s)" if "q \<in> set ?new" for q
    proof -
      from that obtain a where "a \<in> set as" "q \<in> set (new_rows s (clock \<epsilon> (readings s)) a)" by auto
      then have "annotation_of s a = None" "an_target_event_uid q = ai_target_event_uid a"
        by (blast dest: new_rows_none new_rows_uid)+
      then show ?thesis by (auto simp: annotation_of_def find_None_iff)
    qed
    moreover have "an_target_event_uid ` set (event_annotations s) \<inter> an_target_event_uid ` set ?new = {}"
      by (rule disjoint_images) (rule fresh)
    ultimately show ?thesis
      using assms(2) r(3) by (simp only: map_append distinct_append set_map simp_thms)
  qed
  moreover have "\<exists>t1. append_annotations \<epsilon> as t = (Inr n, t1) \<and> same_tables t t1"
  proof -
    define t1 where "t1 = t\<lparr>readings := Suc (readings t), txn_now := clock \<epsilon> (readings t)\<rparr>"
    have look: "target_of t1 = target_of t" "annotation_of t1 = annotation_of t" "new_rows t1 = new_rows t"
      by (simp_all add: t1_def target_of_def annotation_of_def new_rows_def fun_eq_iff)
    have none: "new_rows t m a = []" if "a \<in> set as" for m a
      using annotated_after [OF assms(1) that] by (auto simp: new_rows_def)
    then have empty: "concat (map (new_rows t m) as) = []" for m by simp
    have "iterM check_target as t1 = (Inr (), t1)"
      unfolding check_targets_Inr look using annotated_after [OF assms(1)] by blast
    moreover have "mapM pending_annotation as t1 = (Inr (map (new_rows t (txn_now t1)) as), t1)"
      unfolding mapM_pending_Inr look using annotated_after [OF assms(1)] by fastforce
    moreover have "iterM insert_annotation (concat (map (new_rows t (txn_now t1)) as)) t1 = (Inr (), t1)"
      unfolding empty by (simp add: ret_def)
    ultimately have "append_annotations \<epsilon> as t = (Inr n, t1)"
      using r(1-3)
      by (simp add: append_annotations_def raise_if_def sqn_def bnd_def ret_def transaction_Inr t1_def [symmetric])
    then show ?thesis by (intro exI [of _ t1]) (simp add: t1_def same_tables_def)
  qed
  ultimately show ?thesis using r(1) ev annotated_after [OF assms(1)] by metis
qed

definition sample_annotation :: annotation_input where
  "sample_annotation = \<lparr>ai_target_event_uid = ''E'', ai_expected_principal_id = ''p'', ai_expected_machine_id = ''m'',
     ai_reason = ''test'', ai_annotator_principal_id = ''p'', ai_annotator_machine_id = ''m'', ai_annotator_origin_agent = ''a''\<rparr>"

definition sample_annotated_event :: injection_event where
  "sample_annotated_event = \<lparr>ev_id = 1, ev_event_uid = ''E'', ev_injection_id = 1, ev_thread_id = 1, ev_agent_id = ''a'',
     ev_machine_id = ''m'', ev_principal_id = ''p'', ev_project_key = None, ev_agent_kind = ''k'', ev_prompt_text = ''x'',
     ev_scorer_version = ''v'', ev_memory_id = 1, ev_memory_kind = Fact, ev_features = [], ev_score = 0, ev_rank = 1,
     ev_shown_as = Injected, ev_actor_class = Human, ev_outcome = None, ev_ts = 0\<rparr>"

theorem annotate_batch_witness:
  "\<exists>t t1. append_annotations sample_env [sample_annotation] (empty_db\<lparr>injection_events := [sample_annotated_event]\<rparr>) = (Inr 1, t) \<and>
     append_annotations sample_env [sample_annotation] t = (Inr 1, t1) \<and> same_tables t t1"
proof -
  let ?s = "empty_db\<lparr>injection_events := [sample_annotated_event]\<rparr>"
  obtain t where run: "append_annotations sample_env [sample_annotation] ?s = (Inr 1, t)"
    by (simp add: append_annotations_def store_run check_target_def pending_annotation_def insert_annotation_def target_of_def
        annotation_of_def annotation_values_def btrimmed_def strip_chars_def sample_annotation_def sample_annotated_event_def)
  have "distinct (map an_target_event_uid (event_annotations ?s))" by (simp add: empty_db_def)
  from annotate_batch [OF run this] run show ?thesis by blast
qed

lemma safe_append_annotations: "safe.steps (append_annotations \<epsilon> as)"
proof -
  have "safe.oks (insert_annotation r)" for r
    by (rule safe.oksI, rule safe_same) (auto simp: insert_annotation_Inr append_only_def)
  then show ?thesis
    unfolding append_annotations_def check_target_def pending_annotation_def Let_def
    by (intro safe.steps_rules safe_transaction safe.oks_rules)
qed

end
