(* ===== verification/Services.thy ===== *)
theory Services
  imports Queue Prepare Symphony Annotations
begin

text \<open>
  All requests together. The routers (\<open>src/spine/*/router.py\<close>) hand each request to one method of a service; \<open>serve\<close>
  is that dispatch over the modelled services, and \<open>serve_all\<close> runs a sequence of requests. What one transaction
  rolls back when it fails is stated once, for every request that runs in a single transaction.
\<close>

section \<open>Requests that fail\<close>

text \<open>An action whose failures move along the order, whatever its successes do.\<close>

context step_order
begin

definition aborts :: "('s, 'e, 'a) act \<Rightarrow> bool" where
  "aborts m \<longleftrightarrow> (\<forall>s e t. m s = (Inl e, t) \<longrightarrow> R s t)"

lemma aborts_steps: "steps m \<Longrightarrow> aborts m"
  unfolding aborts_def by (blast dest: stepsD)

lemma aborts_bnd: "steps m \<Longrightarrow> (\<And>x. aborts (f x)) \<Longrightarrow> aborts (bnd m f)"
  unfolding aborts_def bnd_Inl_iff by (blast dest: stepsD intro: R_trans)

lemma aborts_sqn: "steps m \<Longrightarrow> aborts n \<Longrightarrow> aborts (sqn m n)"
  unfolding aborts_def sqn_Inl_iff by (blast dest: stepsD intro: R_trans)

lemma aborts_raise: "aborts (raise e)"
  by (rule aborts_steps [OF steps_raise])

lemma aborts_ret: "aborts (ret x)"
  by (rule aborts_steps [OF steps_ret])

lemma aborts_if: "aborts m \<Longrightarrow> aborts n \<Longrightarrow> aborts (if b then m else n)"
  by simp

lemma aborts_case_option: "aborts m \<Longrightarrow> (\<And>x. aborts (f x)) \<Longrightarrow> aborts (case v of None \<Rightarrow> m | Some x \<Rightarrow> f x)"
  by (cases v) simp_all

lemma aborts_Let: "(\<And>x. aborts (f x)) \<Longrightarrow> aborts (Let v f)"
  by simp

lemmas aborts_rules = aborts_raise aborts_ret aborts_bnd aborts_sqn aborts_if aborts_case_option aborts_Let

end

lemma same_tables_refl [simp]: "same_tables s s"
  by (simp add: same_tables_def)

interpretation tables: step_order same_tables
  by unfold_locales (auto intro: same_tables_trans)

lemma tables_draw: "tables.steps draw"
  by (auto simp: tables.steps_def draw_def same_tables_def)

lemma tables_embed_one: "tables.steps (embed_one \<epsilon> b)"
  unfolding embed_one_def by (intro tables.steps_rules)

lemma transaction_aborts: "tables.aborts (transaction \<epsilon> m)"
  unfolding tables.aborts_def by (blast dest: transaction_Inl)

lemma tables_validate:
  "tables.steps (validate_label c l)" "tables.steps (validate_body \<epsilon> c b)" "tables.steps (raise_label_conflict p l)"
  unfolding validate_label_def validate_body_def raise_label_conflict_def by (intro tables.steps_rules)+

lemma tables_keyword_list: "tables.steps (validate_keyword_list seen ks)"
  by (induction ks arbitrary: seen) (auto intro!: tables.steps_sqn tables.steps_raise_if simp: tables.steps_ret)

lemma tables_split_keywords: "tables.steps (validate_split_keywords ks)"
  unfolding validate_split_keywords_def by (intro tables.steps_rules tables_keyword_list)

lemma tables_validate_children: "tables.steps (validate_children \<epsilon> c ls bs chs)"
  by (induction chs arbitrary: ls bs)
    (auto intro!: tables.steps_sqn tables.steps_raise_if tables_validate tables_split_keywords simp: tables.steps_ret)

lemma tables_prepare_children: "tables.steps (prepare_children \<epsilon> c ls bs chs)"
  by (induction chs arbitrary: ls bs)
    (auto intro!: tables.steps_sqn tables.steps_bnd tables.steps_raise_if tables.steps_ret tables_validate
      tables_split_keywords tables_embed_one)

lemma keep_tables: "keep.steps m \<Longrightarrow> tables.steps m"
  by (rule tables.stepsI) (auto dest: keep.stepsD)

lemmas tables_parts = keep_proposal_children [THEN keep_tables] tables_validate tables_split_keywords tables_validate_children tables_prepare_children tables_embed_one

lemma create_aborts: "tables.aborts (create \<epsilon> c cmd)"
  unfolding create_def by (intro tables.aborts_rules tables_parts transaction_aborts)

lemma split_aborts: "tables.aborts (split \<epsilon> c cmd)"
  unfolding split_def validate_split_def
  by (intro tables.aborts_rules tables.steps_rules tables_parts transaction_aborts)

lemma patch_aborts: "tables.aborts (patch \<epsilon> c cmd)"
  unfolding patch_def by (intro tables.aborts_rules tables.steps_rules tables_parts transaction_aborts)

lemma stage_aborts: "tables.aborts (stage_symphony \<epsilon> c cmd i run agent)"
  unfolding stage_symphony_def staged_replay_row_def require_staged_identity_def
  by (intro tables.aborts_rules tables.steps_rules tables_parts transaction_aborts)

lemma stage_run_aborts: "tables.aborts (stage \<epsilon> c r)"
  using stage_aborts [of \<epsilon> c] unfolding stage_def tables.aborts_def bnd_Inl_iff ret_iff by blast

lemma annotate_aborts: "tables.aborts (append_annotations \<epsilon> as)"
  unfolding append_annotations_def by (intro tables.aborts_rules tables.steps_rules transaction_aborts)

lemma decide_aborts: "tables.aborts (decide \<epsilon> c i req)"
  unfolding decide_def prepare_amendment_def prepare_split_def prepare_curator_amendment_def prepare_curator_split_def
  by (intro tables.aborts_rules tables.steps_rules tables_parts transaction_aborts)

lemma decide_batch_aborts: "tables.aborts (decide_batch \<epsilon> c b req)"
  unfolding decide_batch_def by (intro tables.aborts_rules tables.steps_rules transaction_aborts)

lemma prepare_aborts: "tables.aborts (prepare \<epsilon> c)"
proof -
  have "tables.aborts (prepare_attempts n \<epsilon> c q)" for n q
    unfolding tables.aborts_def
  proof (intro allI impI)
    fix s e t
    assume "prepare_attempts n \<epsilon> c q s = (Inl e, t)"
    then show "same_tables s t"
    proof (induction n arbitrary: s)
      case (Suc n)
      show ?case
      proof (cases "prepare_once \<epsilon> c q s")
        case (Pair r u)
        with Suc.prems obtain e' where r: "r = Inl e'" by (cases r) (auto simp: catch_def)
        with Pair have "same_tables s u" unfolding prepare_once_def by (auto dest: transaction_Inl)
        moreover have "t = u \<or> prepare_attempts n \<epsilon> c q u = (Inl e, t)"
          using Suc.prems Pair r by (auto simp: catch_def raise_def split: err.splits)
        ultimately show ?thesis using Suc.IH by (blast intro: same_tables_trans)
      qed
    qed (simp add: raise_def)
  qed
  then show ?thesis unfolding prepare_def validate_command_def
    by (intro tables.aborts_rules tables.steps_rules tables_parts)
qed


section \<open>Every request\<close>

text \<open>The requests that the routers pass to the services, and the error or nothing that comes back.\<close>

datatype request =
    Create create_command
  | Split split_command
  | Patch patch_command
  | Search search_query
  | Stage stage_request
  | Resolve_run string resolve_run_request
  | Annotate "annotation_input list"
  | Backfill string "(uuid \<times> string) list"
  | Extract extraction_request
  | Seed seed_request
  | Enqueue_curator string string string string verdict "uuid list" dict
  | Decide string decision_request
  | Decide_batch uuid decision_request
  | Owner_feedback string string string
  | Prepare prepare_command
  | Preview prepare_command "uuid list"
  | Commit commit_command
  | Feedback feedback_command

definition answer :: "'a op \<Rightarrow> db \<Rightarrow> err option \<times> db" where
  "answer m s = (case m s of (Inl e, t) \<Rightarrow> (Some e, t) | (Inr _, t) \<Rightarrow> (None, t))"

fun serve :: "env \<Rightarrow> memory_config \<Rightarrow> request \<Rightarrow> db \<Rightarrow> err option \<times> db" where
  "serve \<epsilon> c (Create cmd) = answer (create \<epsilon> c cmd)"
| "serve \<epsilon> c (Split cmd) = answer (split \<epsilon> c cmd)"
| "serve \<epsilon> c (Patch cmd) = answer (patch \<epsilon> c cmd)"
| "serve \<epsilon> c (Search q) = answer (search \<epsilon> q)"
| "serve \<epsilon> c (Stage r) = answer (stage \<epsilon> c r)"
| "serve \<epsilon> c (Resolve_run run r) = answer (resolve_run \<epsilon> run r)"
| "serve \<epsilon> c (Annotate as) = answer (append_annotations \<epsilon> as)"
| "serve \<epsilon> c (Backfill prin ps) = answer (backfill_projects \<epsilon> prin ps)"
| "serve \<epsilon> c (Extract req) = answer (extract_candidates \<epsilon> c req)"
| "serve \<epsilon> c (Seed req) = answer (ingest_seed \<epsilon> c req)"
| "serve \<epsilon> c (Enqueue_curator run f p m a ids d) = answer (enqueue_curator \<epsilon> c run f p m a ids d)"
| "serve \<epsilon> c (Decide i req) = answer (decide \<epsilon> c i req)"
| "serve \<epsilon> c (Decide_batch b req) = answer (decide_batch \<epsilon> c b req)"
| "serve \<epsilon> c (Owner_feedback i f m) = answer (queue_feedback \<epsilon> i f m)"
| "serve \<epsilon> c (Prepare cmd) = answer (prepare \<epsilon> cmd)"
| "serve \<epsilon> c (Preview cmd ids) = answer (preview_scores \<epsilon> cmd ids)"
| "serve \<epsilon> c (Commit cmd) = answer (commit \<epsilon> cmd)"
| "serve \<epsilon> c (Feedback cmd) = answer (feedback \<epsilon> cmd)"

text \<open>The requests that are served in several transactions; a resolution commits before its cards are read.\<close>

fun many_transactions :: "request \<Rightarrow> bool" where
  "many_transactions (Extract req) = True"
| "many_transactions (Seed req) = True"
| "many_transactions (Enqueue_curator run f p m a ids d) = True"
| "many_transactions (Resolve_run run r) = True"
| "many_transactions _ = False"

definition serve_all :: "env \<Rightarrow> memory_config \<Rightarrow> request list \<Rightarrow> db \<Rightarrow> db" where
  "serve_all \<epsilon> c reqs s = fold (\<lambda>req s. snd (serve \<epsilon> c req s)) reqs s"

lemma answer_steps: "safe.steps m \<Longrightarrow> safe_step s (snd (answer m s))"
  by (auto simp: answer_def split: prod.splits sum.splits dest: safe.stepsD)

lemma answer_aborts: "tables.aborts m \<Longrightarrow> answer m s = (Some e, t) \<Longrightarrow> same_tables s t"
  by (auto simp: answer_def tables.aborts_def split: prod.splits sum.splits)

lemma serve_safe: "safe_step s (snd (serve \<epsilon> c req s))"
  by (cases req) (simp_all add: answer_steps safe_create safe_split safe_patch safe_search safe_stage safe_resolve_run safe_append_annotations
      safe_backfill_projects safe_extract safe_ingest_seed safe_enqueue_curator safe_decide safe_decide_batch safe_queue_feedback
      safe_prepare safe_preview_scores safe_commit safe_feedback)

lemma db_ok_empty: "db_ok empty_db"
  by (simp add: db_ok_def lineage_ok_def labels_ok_def queue_ok_def empty_db_def)

end
