(* ===== verification/Decimal.thy ===== *)
theory Decimal
  imports Pystr
begin

text \<open>
  The part of Python's \<open>decimal\<close> module that the model policies use. A finite \<open>Decimal\<close> is the rational
  number it denotes (comparison, equality and hashing of decimals are those of the numbers), and every
  operation is the exact one followed by the rounding of the context: \<open>prec\<close> significant digits, ties to
  the even digit, exponents between -999999 and 999999, gradual underflow, and the \<open>Overflow\<close> trap
  (an exception, here \<open>None\<close>). \<open>Decimal(str)\<close> is exact; a string that denotes no finite number
  (a syntax error, an infinity, a NaN, an exponent beyond the format) gives \<open>None\<close>, because every caller
  treats those alike.
\<close>

section \<open>Rounding\<close>

definition ndigits :: "nat \<Rightarrow> nat" where
  "ndigits n = length (show_nat n)"

text \<open>The exponent of the leading digit (\<open>Decimal.adjusted\<close>).\<close>

definition adjusted :: "rat \<Rightarrow> int" where
  "adjusted x = (case quotient_of x of (a, b) \<Rightarrow>
     let e = int (ndigits (nat \<bar>a\<bar>)) - int (ndigits (nat b))
     in if 10 powi e \<le> \<bar>x\<bar> then e else e - 1)"

definition round_half_even :: "rat \<Rightarrow> int" where
  "round_half_even x =
     (let f = \<lfloor>x\<rfloor>; d = x - of_int f
      in if d < 1 / 2 then f else if 1 / 2 < d then f + 1 else if even f then f else f + 1)"

definition dec_fix :: "nat \<Rightarrow> rat \<Rightarrow> rat option" where
  "dec_fix p x =
     (if x = 0 then Some 0
      else let q = max (adjusted x) (- 999999) - int p + 1;
               y = of_int (round_half_even (x / 10 powi q)) * 10 powi q
           in if y \<noteq> 0 \<and> 999999 < adjusted y then None else Some y)"

section \<open>Numerals\<close>

definition is_digit :: "char \<Rightarrow> bool" where
  "is_digit c \<longleftrightarrow> (let n = of_char c :: nat in 48 \<le> n \<and> n \<le> 57)"

text \<open>An optional sign: \<open>1\<close> or \<open>-1\<close> and the rest.\<close>

definition split_sign :: "string \<Rightarrow> int \<times> string" where
  "split_sign s = (case s of [] \<Rightarrow> (1, []) | c # r \<Rightarrow>
     if c = CHR ''-'' then (- 1, r) else if c = CHR ''+'' then (1, r) else (1, s))"

definition exponent_of :: "string \<Rightarrow> int option" where
  "exponent_of s = (case s of [] \<Rightarrow> Some 0 | _ # r \<Rightarrow>
     (case split_sign r of (g, ds) \<Rightarrow>
        if ds \<noteq> [] \<and> list_all is_digit ds then Some (g * int (read_nat ds)) else None))"

text \<open>The largest exponents of an exactly converted number on a 64-bit platform; a zero is bounded by
  its exponent, any other number by the positions of its first and last digit.\<close>

definition representable :: "nat \<Rightarrow> int \<Rightarrow> bool" where
  "representable n e \<longleftrightarrow> - 1999999999999999997 \<le> e \<and>
     (if n = 0 then e else e + int (ndigits n) - 1) \<le> 999999999999999999"

definition decimal_of_string :: "string \<Rightarrow> rat option" where
  "decimal_of_string s =
     (case split_sign (filter (\<lambda>c. c \<noteq> CHR ''_'') (strip s)) of (g, t) \<Rightarrow>
        let m = takeWhile (\<lambda>c. c \<noteq> CHR ''e'' \<and> c \<noteq> CHR ''E'') t;
            i = takeWhile (\<lambda>c. c \<noteq> CHR ''.'') m;
            f = drop (Suc (length i)) m
        in if i @ f \<noteq> [] \<and> list_all is_digit (i @ f) then
             (case exponent_of (drop (length m) t) of
                None \<Rightarrow> None
              | Some x \<Rightarrow>
                  let n = read_nat (i @ f); e = x - int (length f)
                  in if representable n e then Some (of_int (g * int n) * 10 powi e) else None)
           else None)"

section \<open>The position of the leading digit\<close>

lemma ndigits_bounds: "0 < n \<Longrightarrow> 10 ^ (ndigits n - 1) \<le> n \<and> n < 10 ^ ndigits n"
proof (induction n rule: show_nat.induct)
  case (1 n)
  show ?case
  proof (cases "n < 10")
    case True
    with 1(2) show ?thesis by (simp add: ndigits_def show_nat.simps [of n])
  next
    case False
    define k where "k = ndigits (n div 10)"
    have k: "ndigits n = Suc k" "0 < k"
      using False show_nat_nonempty [of "n div 10"]
      by (simp_all add: ndigits_def k_def show_nat.simps [of n])
    have "10 ^ (k - 1) \<le> n div 10 \<and> n div 10 < 10 ^ k"
      using 1(1) False by (simp add: k_def)
    then have "10 * 10 ^ (k - 1) \<le> n" "n < 10 * 10 ^ k" by linarith+
    moreover have "10 * 10 ^ (k - 1) = (10 :: nat) ^ k" using k(2) by (cases k) simp_all
    ultimately show ?thesis by (simp add: k(1))
  qed
qed

lemma ndigits_pos: "0 < ndigits n"
  using show_nat_nonempty by (simp add: ndigits_def)

lemma ndigits_powi:
  assumes "0 < n"
  shows "10 powi (int (ndigits n) - 1) \<le> (of_nat n :: rat)" "(of_nat n :: rat) < 10 powi int (ndigits n)"
proof -
  have "(10 :: rat) powi (int (ndigits n) - 1) = of_nat (10 ^ (ndigits n - 1))"
    using ndigits_pos [of n] by (simp add: power_int_def nat_diff_distrib')
  also have "\<dots> \<le> of_nat n"
    using ndigits_bounds [OF assms] by (simp only: of_nat_le_iff)
  finally show "10 powi (int (ndigits n) - 1) \<le> (of_nat n :: rat)" .
  have "(of_nat n :: rat) < of_nat (10 ^ ndigits n)"
    using ndigits_bounds [OF assms] by (simp only: of_nat_less_iff)
  then show "(of_nat n :: rat) < 10 powi int (ndigits n)" by (simp add: power_int_def)
qed

lemma adjusted_bounds:
  assumes "x \<noteq> 0"
  shows "10 powi adjusted x \<le> \<bar>x\<bar>" "\<bar>x\<bar> < 10 powi (adjusted x + 1)"
proof -
  obtain a b where ab: "quotient_of x = (a, b)" by force
  have b: "0 < b" using quotient_of_denom_pos [OF ab] .
  have x: "x = of_int a / of_int b" using quotient_of_div [OF ab] .
  have a: "a \<noteq> 0" using assms x by auto
  define m where "m = nat \<bar>a\<bar>"
  define n where "n = nat b"
  have mn: "0 < m" "0 < n" using a b by (simp_all add: m_def n_def)
  have ax: "\<bar>x\<bar> = of_nat m / of_nat n"
    using b by (simp add: x m_def n_def abs_divide)
  define e where "e = int (ndigits m) - int (ndigits n)"
  have adj: "adjusted x = (if 10 powi e \<le> \<bar>x\<bar> then e else e - 1)"
    by (simp add: adjusted_def ab Let_def e_def m_def n_def)
  have n_pos: "0 < (of_nat n :: rat)" using mn by simp
  have "(10 :: rat) powi (e - 1) * of_nat n \<le> 10 powi (e - 1) * 10 powi int (ndigits n)"
    by (rule mult_left_mono [OF less_imp_le [OF ndigits_powi(2) [OF mn(2)]]]) simp
  also have "\<dots> = 10 powi (int (ndigits m) - 1)"
    unfolding e_def by (subst power_int_add [symmetric]) simp_all
  also have "\<dots> \<le> of_nat m" by (rule ndigits_powi(1) [OF mn(1)])
  finally have lo: "10 powi (e - 1) \<le> \<bar>x\<bar>"
    using n_pos by (simp add: ax pos_le_divide_eq)
  have "of_nat m < (10 :: rat) powi int (ndigits m)" by (rule ndigits_powi(2) [OF mn(1)])
  also have "\<dots> = 10 powi (e + 1) * 10 powi (int (ndigits n) - 1)"
    unfolding e_def by (subst power_int_add [symmetric]) simp_all
  also have "\<dots> \<le> 10 powi (e + 1) * of_nat n"
    by (rule mult_left_mono [OF ndigits_powi(1) [OF mn(2)]]) simp
  finally have hi: "\<bar>x\<bar> < 10 powi (e + 1)"
    using n_pos by (simp add: ax pos_divide_less_eq)
  show "10 powi adjusted x \<le> \<bar>x\<bar>" "\<bar>x\<bar> < 10 powi (adjusted x + 1)"
    using lo hi by (simp_all add: adj)
qed

section \<open>Results that need no rounding\<close>

lemma round_half_even_of_int [simp]: "round_half_even (of_int n) = n"
  by (simp add: round_half_even_def)

lemma powi10_less: "(10 :: rat) powi i < 10 powi j \<Longrightarrow> i < j"
  by (metis linorder_not_le one_le_numeral power_int_increasing)

text \<open>A number of at most \<open>p\<close> digits at a position from -999999 to 0 is kept.\<close>

lemma dec_fix_exact:
  assumes n: "\<bar>n\<bar> < 10 ^ p" and p: "p \<le> 1000" and k: "k \<le> 999999"
  shows "dec_fix p (of_int n * 10 powi (- int k)) = Some (of_int n * 10 powi (- int k))"
proof (cases "n = 0")
  case True
  then show ?thesis by (simp add: dec_fix_def)
next
  case False
  define x :: rat where "x = of_int n * 10 powi (- int k)"
  have x0: "x \<noteq> 0" using False by (simp add: x_def)
  have "\<bar>x\<bar> < 10 powi (int p - int k)"
  proof -
    have "\<bar>of_int n :: rat\<bar> < 10 ^ p"
      using n by (metis of_int_abs of_int_less_iff of_int_numeral of_int_power)
    then have "\<bar>x\<bar> < 10 ^ p * 10 powi (- int k)" by (simp add: x_def abs_mult)
    also have "\<dots> = 10 powi (int p - int k)"
      by (simp add: power_int_diff power_int_minus field_simps)
    finally show ?thesis .
  qed
  then have adj: "adjusted x < int p - int k"
    using adjusted_bounds(1) [OF x0] powi10_less by (meson order_le_less_trans)
  define q where "q = max (adjusted x) (- 999999) - int p + 1"
  have p0: "0 < p" using n False by (cases p) auto
  have q: "q \<le> - int k" using adj k p p0 unfolding q_def by (auto simp: max_def)
  define j where "j = nat (- int k - q)"
  have "(10 :: rat) powi (- int k) = 10 ^ j * 10 powi q"
    using q by (simp add: j_def flip: power_int_of_nat power_int_add)
  then have "x / 10 powi q = of_int (n * 10 ^ j)" by (simp add: x_def)
  then have "of_int (round_half_even (x / 10 powi q)) * 10 powi q = x"
    by (metis (no_types, lifting) nonzero_eq_divide_eq power_int_eq_0_iff round_half_even_of_int
        zero_neq_numeral)
  moreover have "adjusted x \<le> 999999" using adj p by linarith
  ultimately show ?thesis
    using x0 unfolding x_def [symmetric] dec_fix_def q_def [symmetric] Let_def by simp
qed

end
