(* ===== verification/Policy.thy ===== *)
theory Policy
  imports Decimal
begin

text \<open>
  The model policies of \<open>src/spine/model_policy.py\<close>: the grammar of a policy and the selection of one row
  of the benchmark table under it. Prices and indexes are decimals; every sum, difference, product,
  quotient and negation rounds as the active context does (28 digits, 48 inside the elbow). Python's
  correctly rounded \<open>Decimal.log10\<close> is the argument \<open>log10\<close>.
\<close>

section \<open>Policies, rows and errors\<close>

datatype policy_error =
    ModelPolicyConfigurationError string
  | ModelCatalogUnavailable string
  | NamedModelResolutionError string
  | DecimalException
  | AssertionFailure
  | BadValue string
  | BadType
  | BadAttribute
  | HttpFailure

datatype model_policy = Pinned string | Max | Elbow | Slope rat | Floor rat

record benchmark_model =
  permaslug :: string
  intelligence_index :: rat
  prompt_price :: rat
  completion_price :: rat

type_synonym 'a result = "policy_error + 'a"

section \<open>The grammar\<close>

definition blank_or_padded :: "string \<Rightarrow> bool" where
  "blank_or_padded s \<longleftrightarrow> s = [] \<or> s \<noteq> strip s"

definition validate_model_name :: "string \<Rightarrow> unit result" where
  "validate_model_name model =
     (if blank_or_padded model then Inl (ModelPolicyConfigurationError ''nonblank'')
      else if CHR '':'' \<notin> set model then Inl (ModelPolicyConfigurationError ''provider:model'')
      else let provider = takeWhile (\<lambda>c. c \<noteq> CHR '':'') model;
               model_name = drop (Suc (length provider)) model
           in check (provider = [] \<or> model_name = [] \<or> strip provider \<noteq> provider \<or> strip model_name \<noteq> model_name)
                (ModelPolicyConfigurationError ''provider:model''))"

definition policy_number :: "string \<Rightarrow> rat result" where
  "policy_number raw =
     (case decimal_of_string raw of
        Some x \<Rightarrow> if x \<le> 0 then Inl (ModelPolicyConfigurationError ''positive finite number'') else Inr x
      | None \<Rightarrow> Inl (ModelPolicyConfigurationError ''positive finite number''))"

definition parse_model_policy :: "string \<Rightarrow> model_policy result" where
  "parse_model_policy value =
     (if blank_or_padded value then Inl (ModelPolicyConfigurationError ''nonblank'')
      else if value = ''max'' then Inr Max
      else if value = ''elbow'' then Inr Elbow
      else if startswith value ''pinned:'' then
        (let model = drop 7 value in sbind (validate_model_name model) (\<lambda>_. Inr (Pinned model)))
      else if startswith value ''slope:'' then sbind (policy_number (drop 6 value)) (\<lambda>x. Inr (Slope x))
      else if startswith value ''floor:'' then sbind (policy_number (drop 6 value)) (\<lambda>x. Inr (Floor x))
      else Inl (ModelPolicyConfigurationError ''grammar''))"

section \<open>Selection\<close>

text \<open>The result of a decimal operation in a context of \<open>p\<close> digits.\<close>

definition dec :: "nat \<Rightarrow> rat \<Rightarrow> rat result" where
  "dec p x = (case dec_fix p x of None \<Rightarrow> Inl DecimalException | Some y \<Rightarrow> Inr y)"

text \<open>Python's \<open>min\<close> over a nonempty sequence, given with its keys: the first least element.\<close>

fun first_min :: "('k :: linorder \<times> 'a) \<Rightarrow> ('k \<times> 'a) list \<Rightarrow> 'a" where
  "first_min b [] = snd b"
| "first_min b (y # ys) = first_min (if fst y < fst b then y else b) ys"

fun min_keyed :: "('k :: linorder \<times> 'a) list \<Rightarrow> 'a result" where
  "min_keyed [] = Inl (BadValue ''min() of an empty sequence'')"
| "min_keyed (x # xs) = Inr (first_min x xs)"

definition select_max :: "benchmark_model list \<Rightarrow> benchmark_model result" where
  "select_max rows =
     sbind (smap (\<lambda>row. sbind (dec 28 (- intelligence_index row)) (\<lambda>k.
              Inr ((k, prompt_price row, permaslug row), row))) rows) min_keyed"

definition select_floor :: "rat \<Rightarrow> benchmark_model list \<Rightarrow> benchmark_model result" where
  "select_floor bound rows =
     (let eligible = filter (\<lambda>row. bound \<le> intelligence_index row) rows
      in if eligible = [] then Inl (ModelCatalogUnavailable ''no model meeting the floor'')
         else min_keyed (map (\<lambda>row. ((prompt_price row, completion_price row, permaslug row), row)) eligible))"

subsection \<open>The frontier\<close>

definition coordinate :: "benchmark_model \<Rightarrow> rat \<times> rat" where
  "coordinate row = (intelligence_index row, prompt_price row)"

definition claim_coordinate ::
  "((rat \<times> rat) \<times> benchmark_model) list \<Rightarrow> benchmark_model \<Rightarrow> ((rat \<times> rat) \<times> benchmark_model) list" where
  "claim_coordinate d row =
     (case map_of d (coordinate row) of
        None \<Rightarrow> AList.update (coordinate row) row d
      | Some incumbent \<Rightarrow> if permaslug row < permaslug incumbent then AList.update (coordinate row) row d else d)"

definition unique_rows :: "benchmark_model list \<Rightarrow> benchmark_model list" where
  "unique_rows rows = map snd (foldl claim_coordinate [] rows)"

text \<open>Strictness in one coordinate makes the test \<open>other is not row\<close> redundant.\<close>

definition dominates :: "benchmark_model \<Rightarrow> benchmark_model \<Rightarrow> bool" where
  "dominates other row \<longleftrightarrow>
     intelligence_index row \<le> intelligence_index other \<and> prompt_price other \<le> prompt_price row \<and>
     (intelligence_index row < intelligence_index other \<or> prompt_price other < prompt_price row)"

definition pareto_frontier :: "benchmark_model list \<Rightarrow> benchmark_model list" where
  "pareto_frontier rows =
     (let unique = unique_rows rows
      in sort_key intelligence_index (filter (\<lambda>row. \<not> list_ex (\<lambda>other. dominates other row) unique) unique))"

subsection \<open>The elbow\<close>

definition elbow_price_floor :: "benchmark_model list \<Rightarrow> benchmark_model list \<Rightarrow> rat option result" where
  "elbow_price_floor frontier rows =
     (if length frontier < 3 \<or> 0 < prompt_price (hd frontier) then Inr None
      else sbind (min_keyed (map (\<lambda>row. (prompt_price row, prompt_price row)) (filter (\<lambda>row. 0 < prompt_price row) rows)))
             (\<lambda>x. Inr (Some x)))"

definition elbow_log :: "(rat \<Rightarrow> rat) \<Rightarrow> rat option \<Rightarrow> benchmark_model \<Rightarrow> rat" where
  "elbow_log log10 bound row =
     log10 (case bound of None \<Rightarrow> prompt_price row
            | Some b \<Rightarrow> if prompt_price row \<noteq> 0 then prompt_price row else b)"

definition elbow_offset :: "rat \<Rightarrow> rat \<Rightarrow> rat \<Rightarrow> rat \<Rightarrow> rat \<times> benchmark_model \<Rightarrow> (rat \<times> benchmark_model) result" where
  "elbow_offset min_index index_span min_log log_span = (\<lambda>(log_price, row).
     sbind (dec 48 (intelligence_index row - min_index)) (\<lambda>dx.
     sbind (dec 48 (dx / index_span)) (\<lambda>x.
     sbind (dec 48 (log_price - min_log)) (\<lambda>dy.
     sbind (dec 48 (dy / log_span)) (\<lambda>y.
     sbind (dec 48 (x - y)) (\<lambda>offset. Inr (offset, row)))))))"

definition select_elbow ::
  "(rat \<Rightarrow> rat) \<Rightarrow> benchmark_model list \<Rightarrow> rat option \<Rightarrow> benchmark_model result" where
  "select_elbow log10 frontier bound =
     (if frontier = [] then Inl (ModelCatalogUnavailable ''benchmark frontier is empty'')
      else if length frontier < 3 then select_max frontier
      else
        let min_index = intelligence_index (hd frontier);
            max_index = intelligence_index (last frontier);
            logs = map (elbow_log log10 bound) frontier
        in sbind (dec 48 (max_index - min_index)) (\<lambda>index_span.
           sbind (dec 48 (last logs - hd logs)) (\<lambda>log_span.
           if index_span \<le> 0 \<or> log_span \<le> 0
           then Inl (ModelCatalogUnavailable ''elbow frontier has a degenerate axis'')
           else
             sbind (smap (elbow_offset min_index index_span (hd logs) log_span) (zip logs frontier)) (\<lambda>offsets.
             let positive = filter (\<lambda>(offset, row). 0 < offset) offsets
             in if positive = [] then select_max frontier
                else sbind (smap (\<lambda>(offset, row). sbind (dec 28 (- offset)) (\<lambda>k.
                              Inr ((k, prompt_price row, permaslug row), row))) positive) min_keyed))))"

subsection \<open>The slope\<close>

definition cross :: "benchmark_model \<Rightarrow> benchmark_model \<Rightarrow> benchmark_model \<Rightarrow> rat result" where
  "cross first middle final =
     sbind (dec 28 (intelligence_index middle - intelligence_index first)) (\<lambda>mi.
     sbind (dec 28 (prompt_price final - prompt_price first)) (\<lambda>lp.
     sbind (dec 28 (mi * lp)) (\<lambda>a.
     sbind (dec 28 (prompt_price middle - prompt_price first)) (\<lambda>mp.
     sbind (dec 28 (intelligence_index final - intelligence_index first)) (\<lambda>li.
     sbind (dec 28 (mp * li)) (\<lambda>b.
     dec 28 (a - b)))))))"

text \<open>The hull under construction is kept with its last vertex first.\<close>

fun pop_hull :: "benchmark_model \<Rightarrow> benchmark_model list \<Rightarrow> benchmark_model list result" where
  "pop_hull row (b # a # h) =
     sbind (cross a b row) (\<lambda>c. if c < 0 then pop_hull row (a # h) else Inr (b # a # h))"
| "pop_hull row h = Inr h"

fun hull_scan :: "benchmark_model list \<Rightarrow> benchmark_model list \<Rightarrow> benchmark_model list result" where
  "hull_scan h [] = Inr (rev h)"
| "hull_scan h (row # rows) = sbind (pop_hull row h) (\<lambda>h'. hull_scan (row # h') rows)"

definition lower_convex_hull :: "benchmark_model list \<Rightarrow> benchmark_model list result" where
  "lower_convex_hull frontier = hull_scan [] frontier"

fun climb :: "rat \<Rightarrow> benchmark_model \<Rightarrow> benchmark_model list \<Rightarrow> benchmark_model result" where
  "climb l lower [] = Inr lower"
| "climb l lower (upper # h) =
     sbind (dec 28 (prompt_price upper - prompt_price lower)) (\<lambda>price_delta.
     sbind (dec 28 (intelligence_index upper - intelligence_index lower)) (\<lambda>index_delta.
     sbind (dec 28 (l * index_delta)) (\<lambda>worth.
     if price_delta \<le> worth then climb l upper h else Inr lower)))"

definition select_slope :: "rat \<Rightarrow> benchmark_model list \<Rightarrow> benchmark_model result" where
  "select_slope l frontier =
     (if length frontier < 2 then Inl (ModelCatalogUnavailable ''slope frontier has fewer than two points'')
      else sbind (lower_convex_hull frontier) (\<lambda>h. climb l (hd h) (tl h)))"

subsection \<open>The dispatch\<close>

text \<open>\<open>except DecimalException: raise ModelCatalogUnavailable\<close>\<close>

definition decimal_guard :: "'a result \<Rightarrow> 'a result" where
  "decimal_guard r = (if r = Inl DecimalException
     then Inl (ModelCatalogUnavailable ''benchmark table arithmetic is degenerate'') else r)"

definition select_model :: "(rat \<Rightarrow> rat) \<Rightarrow> model_policy \<Rightarrow> benchmark_model list \<Rightarrow> benchmark_model result" where
  "select_model log10 policy rows =
     (if rows = [] then Inl (ModelCatalogUnavailable ''benchmark table has no complete rows'')
      else case policy of
          Max \<Rightarrow> select_max rows
        | Floor bound \<Rightarrow> select_floor bound rows
        | Elbow \<Rightarrow> decimal_guard (let frontier = pareto_frontier rows in
            sbind (elbow_price_floor frontier rows) (select_elbow log10 frontier))
        | Slope l \<Rightarrow> decimal_guard (select_slope l (pareto_frontier rows))
        | Pinned _ \<Rightarrow> Inl (ModelPolicyConfigurationError ''pinned policies do not consult the benchmark table''))"

section \<open>The frontier is the set of undominated rows\<close>

definition claims_ok :: "((rat \<times> rat) \<times> benchmark_model) list \<Rightarrow> benchmark_model list \<Rightarrow> bool" where
  "claims_ok d rows \<longleftrightarrow> distinct (map fst d) \<and>
     (\<forall>(c, r) \<in> set d. coordinate r = c \<and> r \<in> set rows) \<and>
     (\<forall>r \<in> set rows. \<exists>w. (coordinate r, w) \<in> set d \<and> permaslug w \<le> permaslug r)"

lemma claims_ok_step:
  assumes "claims_ok d rows"
  shows "claims_ok (claim_coordinate d row) (rows @ [row])"
proof (cases "map_of d (coordinate row)")
  case None
  then have "coordinate row \<notin> fst ` set d" by (simp add: map_of_eq_None_iff)
  then have "AList.update (coordinate row) row d = d @ [(coordinate row, row)]"
    by (induction d) auto
  with None assms \<open>coordinate row \<notin> fst ` set d\<close> show ?thesis
    unfolding claims_ok_def claim_coordinate_def by auto
next
  case (Some w)
  then have w: "(coordinate row, w) \<in> set d" by (rule map_of_SomeD)
  show ?thesis
  proof (cases "permaslug row < permaslug w")
    case False
    with Some assms w show ?thesis
      unfolding claims_ok_def claim_coordinate_def by fastforce
  next
    case True
    let ?d = "AList.update (coordinate row) row d"
    have step: "claim_coordinate d row = ?d" using Some True by (simp add: claim_coordinate_def)
    have dist: "distinct (map fst d)" using assms by (simp add: claims_ok_def)
    have dist': "distinct (map fst ?d)" using dist by (rule distinct_update)
    have get: "map_of ?d = (map_of d)(coordinate row \<mapsto> row)" by (rule update_conv')
    have in_iff: "(c, r) \<in> set ?d \<longleftrightarrow> (if c = coordinate row then r = row else (c, r) \<in> set d)" for c r
    proof -
      have "(c, r) \<in> set ?d \<longleftrightarrow> map_of ?d c = Some r" using map_of_eq_Some_iff [OF dist'] by blast
      also have "\<dots> \<longleftrightarrow> (if c = coordinate row then r = row else map_of d c = Some r)" by (auto simp: get)
      finally show ?thesis using map_of_eq_Some_iff [OF dist] by simp
    qed
    show ?thesis
      unfolding step claims_ok_def
    proof (intro conjI ballI)
      show "distinct (map fst ?d)" by (rule dist')
      fix x assume "x \<in> set ?d"
      then show "case x of (c, r) \<Rightarrow> coordinate r = c \<and> r \<in> set (rows @ [row])"
        using assms unfolding claims_ok_def by (auto simp: in_iff split: if_splits)
    next
      fix r assume "r \<in> set (rows @ [row])"
      then consider "r = row" | "r \<in> set rows" by auto
      then show "\<exists>v. (coordinate r, v) \<in> set ?d \<and> permaslug v \<le> permaslug r"
      proof cases
        case 2
        then obtain v where v: "(coordinate r, v) \<in> set d" "permaslug v \<le> permaslug r"
          using assms unfolding claims_ok_def by blast
        show ?thesis
        proof (cases "coordinate r = coordinate row")
          case True
          then have "v = w" using v(1) Some dist by (metis map_of_is_SomeI option.inject)
          with v(2) \<open>permaslug row < permaslug w\<close> True show ?thesis
            by (intro exI [of _ row]) (simp add: in_iff)
        qed (use v in_iff in auto)
      qed (simp add: in_iff)
    qed
  qed
qed

lemma claims_ok_fold: "claims_ok (foldl claim_coordinate [] rows) rows"
proof (induction rows rule: rev_induct)
  case Nil
  then show ?case by (simp add: claims_ok_def)
next
  case (snoc row rows)
  then show ?case by (simp add: claims_ok_step)
qed

lemma unique_rows_subset: "set (unique_rows rows) \<subseteq> set rows"
  using claims_ok_fold [of rows] unfolding claims_ok_def unique_rows_def by auto

lemma unique_rows_covers:
  "r \<in> set rows \<Longrightarrow> \<exists>w \<in> set (unique_rows rows). coordinate w = coordinate r \<and> permaslug w \<le> permaslug r"
proof -
  assume r: "r \<in> set rows"
  from claims_ok_fold [of rows] have
    co: "\<forall>(c, w) \<in> set (foldl claim_coordinate [] rows). coordinate w = c" and
    ex: "\<forall>r \<in> set rows. \<exists>w. (coordinate r, w) \<in> set (foldl claim_coordinate [] rows) \<and> permaslug w \<le> permaslug r"
    unfolding claims_ok_def by auto
  from ex r obtain w where "(coordinate r, w) \<in> set (foldl claim_coordinate [] rows)" "permaslug w \<le> permaslug r"
    by blast
  with co show ?thesis by (intro bexI [of _ w]) (auto simp: unique_rows_def intro: rev_image_eqI)
qed

lemma unique_rows_distinct: "distinct (map coordinate (unique_rows rows))"
proof -
  have "map coordinate (unique_rows rows) = map fst (foldl claim_coordinate [] rows)"
    using claims_ok_fold [of rows] unfolding claims_ok_def unique_rows_def by (auto simp: case_prod_beta)
  with claims_ok_fold [of rows] show ?thesis by (simp add: claims_ok_def)
qed

lemma dominates_trans: "dominates a b \<Longrightarrow> dominates b c \<Longrightarrow> dominates a c"
  by (auto simp: dominates_def)

lemma dominates_irrefl: "\<not> dominates a a"
  by (simp add: dominates_def)

lemma dominates_coordinate: "coordinate a = coordinate b \<Longrightarrow> dominates c a = dominates c b"
  "coordinate a = coordinate b \<Longrightarrow> dominates a c = dominates b c"
  by (simp_all add: dominates_def coordinate_def)

lemma frontier_undominated:
  assumes "r \<in> set (pareto_frontier rows)"
  shows "r \<in> set rows" "q \<in> set rows \<Longrightarrow> \<not> dominates q r"
proof -
  from assms have r: "r \<in> set (unique_rows rows)" "\<forall>q \<in> set (unique_rows rows). \<not> dominates q r"
    by (auto simp: pareto_frontier_def Let_def list_ex_iff)
  then show "r \<in> set rows" using unique_rows_subset by blast
  show "\<not> dominates q r" if "q \<in> set rows"
    using unique_rows_covers [OF that] r(2) dominates_coordinate(2) by blast
qed

text \<open>Domination has no infinite chains in a finite table.\<close>

lemma undominated_above:
  assumes "finite A" "r \<in> A"
  shows "\<exists>m \<in> A. (m = r \<or> dominates m r) \<and> (\<forall>q \<in> A. \<not> dominates q m)"
  using assms
proof (induction "card {q \<in> A. dominates q r}" arbitrary: r rule: less_induct)
  case less
  show ?case
  proof (cases "\<exists>q \<in> A. dominates q r")
    case True
    then obtain q where q: "q \<in> A" "dominates q r" by blast
    have "{p \<in> A. dominates p q} \<subset> {p \<in> A. dominates p r}"
      using q dominates_trans dominates_irrefl by blast
    then have "card {p \<in> A. dominates p q} < card {p \<in> A. dominates p r}"
      using less.prems by (intro psubset_card_mono) auto
    from less.hyps [OF this less.prems(1) q(1)] q(2) show ?thesis
      using dominates_trans by blast
  qed (use less.prems in blast)
qed

lemma frontier_covers:
  assumes "r \<in> set rows"
  shows "\<exists>m \<in> set (pareto_frontier rows). (coordinate m = coordinate r \<and> permaslug m \<le> permaslug r) \<or> dominates m r"
proof -
  obtain w where w: "w \<in> set (unique_rows rows)" "coordinate w = coordinate r" "permaslug w \<le> permaslug r"
    using unique_rows_covers [OF assms] by blast
  obtain m where "m \<in> set (unique_rows rows)" "m = w \<or> dominates m w"
    "\<forall>q \<in> set (unique_rows rows). \<not> dominates q m"
    using undominated_above [OF _ w(1)] by auto
  then show ?thesis
    using w dominates_coordinate(1) [OF w(2)]
    by (intro bexI [of _ m]) (auto simp: pareto_frontier_def Let_def list_ex_iff)
qed

lemma frontier_increasing:
  "sorted_wrt (\<lambda>a b. intelligence_index a < intelligence_index b \<and> prompt_price a < prompt_price b)
     (pareto_frontier rows)"
proof -
  define f where "f = pareto_frontier rows"
  have dist: "distinct f" "inj_on coordinate (set f)"
    using unique_rows_distinct [of rows]
    by (auto simp: f_def pareto_frontier_def Let_def distinct_map intro: inj_on_subset)
  have srt: "sorted (map intelligence_index f)"
    by (simp add: f_def pareto_frontier_def Let_def)
  have sub: "r \<in> set rows" if "r \<in> set f" for r
    using that frontier_undominated(1) by (simp add: f_def)
  have undom: "\<not> dominates q r" if "r \<in> set f" "q \<in> set f" for q r
    using that frontier_undominated(2) [of r rows q] sub by (simp add: f_def)
  have "sorted_wrt (\<lambda>a b. intelligence_index a \<le> intelligence_index b \<and> coordinate a \<noteq> coordinate b) f"
    using srt dist by (induction f) (auto simp: inj_on_def)
  then have "sorted_wrt (\<lambda>a b. intelligence_index a < intelligence_index b \<and> prompt_price a < prompt_price b) f"
  proof (rule sorted_wrt_mono_rel [rotated])
    fix a b
    assume ab: "a \<in> set f" "b \<in> set f" "intelligence_index a \<le> intelligence_index b \<and> coordinate a \<noteq> coordinate b"
    with undom [of a b] undom [of b a]
    show "intelligence_index a < intelligence_index b \<and> prompt_price a < prompt_price b"
      by (auto simp: dominates_def coordinate_def)
  qed
  then show ?thesis by (simp add: f_def)
qed

lemma frontier_nonempty: "rows \<noteq> [] \<Longrightarrow> pareto_frontier rows \<noteq> []"
  using frontier_covers [of "hd rows" rows] by (cases rows) auto

section \<open>The lower hull and the slope\<close>

definition turn :: "benchmark_model \<Rightarrow> benchmark_model \<Rightarrow> benchmark_model \<Rightarrow> rat" where
  "turn a b c =
     (intelligence_index b - intelligence_index a) * (prompt_price c - prompt_price a) -
     (prompt_price b - prompt_price a) * (intelligence_index c - intelligence_index a)"

text \<open>What a model is worth to someone who pays \<open>l\<close> per point of intelligence.\<close>

definition gain :: "rat \<Rightarrow> benchmark_model \<Rightarrow> rat" where
  "gain l a = l * intelligence_index a - prompt_price a"

definition rising :: "benchmark_model list \<Rightarrow> bool" where
  "rising h \<longleftrightarrow> sorted_wrt (\<lambda>a b. intelligence_index a < intelligence_index b) h"

definition convex_chain :: "benchmark_model list \<Rightarrow> bool" where
  "convex_chain h \<longleftrightarrow> (\<forall>xs a b c ys. h = xs @ a # b # c # ys \<longrightarrow> 0 \<le> turn a b c)"

lemma convex_chain_tl: "convex_chain (a # h) \<Longrightarrow> convex_chain h"
  unfolding convex_chain_def by (metis append_Cons)

lemma convex_chain_prefix: "convex_chain (h @ k) \<Longrightarrow> convex_chain h"
  unfolding convex_chain_def by (metis append.assoc append_Cons)

lemma convex_chain_short: "length h \<le> 2 \<Longrightarrow> convex_chain h"
  unfolding convex_chain_def by auto

lemma convex_chain_snoc:
  assumes "convex_chain (h @ [a, b])" "0 \<le> turn a b c"
  shows "convex_chain (h @ [a, b, c])"
  unfolding convex_chain_def
proof (intro allI impI)
  fix xs x y z ys
  assume eq: "h @ [a, b, c] = xs @ x # y # z # ys"
  show "0 \<le> turn x y z"
  proof (cases ys rule: rev_cases)
    case Nil
    with eq have "rev (h @ [a, b, c]) = rev (xs @ [x, y, z])" by simp
    then show ?thesis using assms(2) by simp
  next
    case (snoc zs w)
    with eq have "(h @ [a, b]) @ [c] = (xs @ x # y # z # zs) @ [w]" by simp
    then have "h @ [a, b] = xs @ x # y # z # zs" by (simp only: append1_eq_conv)
    then show ?thesis using assms(1) unfolding convex_chain_def by blast
  qed
qed

lemma turn_deltas:
  "turn a b c =
     (intelligence_index b - intelligence_index a) * (prompt_price c - prompt_price b) -
     (prompt_price b - prompt_price a) * (intelligence_index c - intelligence_index b)"
  by (simp add: turn_def algebra_simps)

text \<open>A vertex above the chord of its neighbours is worse than one of them.\<close>

lemma reflex_loses:
  assumes "turn a b c < 0" "intelligence_index a < intelligence_index b" "intelligence_index b < intelligence_index c"
  shows "gain l b < gain l a \<or> gain l b < gain l c"
proof (rule ccontr)
  let ?u = "intelligence_index b - intelligence_index a" and ?v = "intelligence_index c - intelligence_index b"
  let ?s = "prompt_price b - prompt_price a" and ?t = "prompt_price c - prompt_price b"
  assume "\<not> ?thesis"
  then have "?s \<le> l * ?u" "l * ?v \<le> ?t" by (simp_all add: gain_def algebra_simps)
  with assms(2,3) have "?s * ?v \<le> (l * ?u) * ?v" "?u * (l * ?v) \<le> ?u * ?t"
    by (simp_all add: mult_right_mono mult_left_mono)
  then have "?s * ?v \<le> ?u * ?t" by (simp add: mult.commute mult.left_commute)
  with assms(1) show False by (simp add: turn_deltas)
qed

text \<open>Past an edge too steep to be worth it, a convex chain only gets worse.\<close>

lemma steep_continues:
  assumes "0 \<le> turn a b c" "intelligence_index a < intelligence_index b" "intelligence_index b < intelligence_index c"
    and "gain l b < gain l a"
  shows "gain l c < gain l b"
proof (rule ccontr)
  let ?u = "intelligence_index b - intelligence_index a" and ?v = "intelligence_index c - intelligence_index b"
  let ?s = "prompt_price b - prompt_price a" and ?t = "prompt_price c - prompt_price b"
  assume "\<not> ?thesis"
  with assms(4) have "l * ?u < ?s" "?t \<le> l * ?v" by (simp_all add: gain_def algebra_simps)
  with assms(2,3) have "(l * ?u) * ?v < ?s * ?v" "?u * ?t \<le> ?u * (l * ?v)"
    by (simp_all add: mult_strict_right_mono mult_left_mono)
  then have "?u * ?t < ?s * ?v" by (simp add: mult.commute mult.left_commute)
  with assms(1) show False by (simp add: turn_deltas)
qed

lemma steep_tail:
  assumes "convex_chain (a # b # h)" "rising (a # b # h)" "gain l b < gain l a" "p \<in> set (b # h)"
  shows "gain l p < gain l a"
  using assms
proof (induction h arbitrary: a b)
  case Nil
  then show ?case by simp
next
  case (Cons c h)
  have "0 \<le> turn a b c" using Cons.prems(1) unfolding convex_chain_def by (elim allE [of _ "[]"]) simp
  then have "gain l c < gain l b"
    by (rule steep_continues) (use Cons.prems(2,3) in \<open>simp_all add: rising_def\<close>)
  moreover have "rising (b # c # h)" using Cons.prems(2) by (simp add: rising_def)
  ultimately have "p = b \<or> gain l p < gain l b"
    using Cons.IH [OF convex_chain_tl [OF Cons.prems(1)]] Cons.prems(4) by auto
  with Cons.prems(3) show ?case by auto
qed

subsection \<open>The scan\<close>

lemma pop_hull_spec:
  assumes "\<forall>a \<in> set h. \<forall>b \<in> set h. cross a b row = Inr (turn a b row)"
    and "rising (rev h @ [row])" "convex_chain (rev h)" "h \<noteq> []"
  shows "\<exists>k h'. pop_hull row h = Inr h' \<and> h = k @ h' \<and> h' \<noteq> [] \<and> convex_chain (rev h' @ [row]) \<and>
     (\<forall>p \<in> set k. \<exists>q \<in> set (row # h'). gain l p < gain l q)"
  using assms
proof (induction row h rule: pop_hull.induct)
  case (1 row b a h)
  have ex: "cross a b row = Inr (turn a b row)" using "1.prems"(1) by simp
  show ?case
  proof (cases "turn a b row < 0")
    case False
    then have "convex_chain (rev h @ [a, b, row])"
      using "1.prems"(3) by (intro convex_chain_snoc) simp_all
    with False ex show ?thesis by - (rule exI [of _ "[]"], rule exI [of _ "b # a # h"], simp add: sbind_def)
  next
    case True
    have hyp: "\<forall>x \<in> set (a # h). \<forall>y \<in> set (a # h). cross x y row = Inr (turn x y row)"
      "rising (rev (a # h) @ [row])" "convex_chain (rev (a # h))" "a # h \<noteq> []"
      using "1.prems" convex_chain_prefix [of "rev (a # h)" "[b]"]
      by (auto simp: rising_def sorted_wrt_append)
    from "1.IH" [OF True hyp] obtain k h' where k:
      "pop_hull row (a # h) = Inr h'" "a # h = k @ h'" "h' \<noteq> []" "convex_chain (rev h' @ [row])"
      "\<forall>p \<in> set k. \<exists>q \<in> set (row # h'). gain l p < gain l q" by blast
    have "gain l b < gain l a \<or> gain l b < gain l row"
      using True "1.prems"(2) by (intro reflex_loses) (auto simp: rising_def sorted_wrt_append)
    moreover have "a \<in> set k \<or> a \<in> set h'" using k(2) by (metis Un_iff list.set_intros(1) set_append)
    ultimately have "\<exists>q \<in> set (row # h'). gain l b < gain l q"
      using k(5) by (metis less_trans list.set_intros)
    moreover have "pop_hull row (b # a # h) = Inr h'" using ex True k(1) by (simp add: sbind_def)
    moreover have "b # a # h = (b # k) @ h'" using k(2) by simp
    ultimately show ?thesis using k(3-5)
      by - (rule exI [of _ "b # k"], rule exI [of _ h'], simp only: list.set insert_iff, blast)
  qed
qed (auto intro: convex_chain_short)

lemma hull_scan_spec:
  assumes "\<forall>a \<in> set h \<union> set rows. \<forall>b \<in> set h \<union> set rows. \<forall>c \<in> set rows. cross a b c = Inr (turn a b c)"
    and "rising (rev h @ rows)" "convex_chain (rev h)" "h \<noteq> []"
  shows "\<exists>v. hull_scan h rows = Inr v \<and> v \<noteq> [] \<and> set v \<subseteq> set h \<union> set rows \<and> rising v \<and> convex_chain v \<and>
     (\<forall>p \<in> set h \<union> set rows. p \<in> set v \<or> (\<exists>q \<in> set v. gain l p < gain l q))"
  using assms
proof (induction rows arbitrary: h)
  case Nil
  then show ?case by auto
next
  case (Cons row rows)
  have r: "rising (rev h @ [row])" "rising (rev h @ row # rows)"
    using Cons.prems(2) by (simp_all add: rising_def sorted_wrt_append)
  have "\<forall>a \<in> set h. \<forall>b \<in> set h. cross a b row = Inr (turn a b row)" using Cons.prems(1) by simp
  from pop_hull_spec [OF this r(1) Cons.prems(3,4), of l] obtain k h' where k:
    "pop_hull row h = Inr h'" "h = k @ h'" "h' \<noteq> []" "convex_chain (rev h' @ [row])"
    "\<forall>p \<in> set k. \<exists>q \<in> set (row # h'). gain l p < gain l q" by blast
  have "\<forall>a \<in> set (row # h') \<union> set rows. \<forall>b \<in> set (row # h') \<union> set rows. \<forall>c \<in> set rows. cross a b c = Inr (turn a b c)"
    using Cons.prems(1) k(2) by auto
  moreover have "rising (rev (row # h') @ rows)"
    using r(2) k(2) by (auto simp: rising_def sorted_wrt_append)
  ultimately obtain v where v: "hull_scan (row # h') rows = Inr v" "v \<noteq> []"
    "set v \<subseteq> set (row # h') \<union> set rows" "rising v" "convex_chain v"
    "\<forall>p \<in> set (row # h') \<union> set rows. p \<in> set v \<or> (\<exists>q \<in> set v. gain l p < gain l q)"
    using Cons.IH [of "row # h'"] k(4) by auto
  have "p \<in> set v \<or> (\<exists>q \<in> set v. gain l p < gain l q)" if p: "p \<in> set k" for p
  proof -
    obtain q where q: "q \<in> set (row # h')" "gain l p < gain l q" using k(5) p by blast
    with v(6) have "q \<in> set v \<or> (\<exists>q' \<in> set v. gain l q < gain l q')" by blast
    with q(2) show ?thesis by (auto dest: less_trans)
  qed
  with k v show ?case by (auto simp: sbind_def)
qed

lemma climb_spec:
  assumes "convex_chain (a # h)" "rising (a # h)"
    and "\<forall>x \<in> set (a # h). \<forall>y \<in> set (a # h).
      dec 28 (prompt_price y - prompt_price x) = Inr (prompt_price y - prompt_price x) \<and>
      dec 28 (intelligence_index y - intelligence_index x) = Inr (intelligence_index y - intelligence_index x) \<and>
      dec 28 (l * (intelligence_index y - intelligence_index x)) = Inr (l * (intelligence_index y - intelligence_index x))"
  shows "\<exists>s. climb l a h = Inr s \<and> s \<in> set (a # h) \<and>
     (\<forall>p \<in> set (a # h). gain l p < gain l s \<or> gain l p = gain l s \<and> intelligence_index p \<le> intelligence_index s)"
  using assms
proof (induction h arbitrary: a)
  case Nil
  then show ?case by simp
next
  case (Cons b h)
  have ex: "dec 28 (prompt_price b - prompt_price a) = Inr (prompt_price b - prompt_price a)"
    "dec 28 (intelligence_index b - intelligence_index a) = Inr (intelligence_index b - intelligence_index a)"
    "dec 28 (l * (intelligence_index b - intelligence_index a)) = Inr (l * (intelligence_index b - intelligence_index a))"
    using Cons.prems(3) by auto
  have ab: "intelligence_index a < intelligence_index b" using Cons.prems(2) by (simp add: rising_def)
  show ?case
  proof (cases "gain l b < gain l a")
    case True
    then have "climb l a (b # h) = Inr a" using ex by (simp add: sbind_def gain_def algebra_simps)
    moreover have "\<forall>p \<in> set (a # b # h). gain l p < gain l a \<or> gain l p = gain l a \<and> intelligence_index p \<le> intelligence_index a"
      using steep_tail [OF Cons.prems(1,2) True] by auto
    ultimately show ?thesis by (intro exI [of _ a]) (simp only: list.set_intros simp_thms)
  next
    case False
    then have "climb l a (b # h) = climb l b h" using ex by (simp add: sbind_def gain_def algebra_simps)
    moreover from Cons.IH [of b] Cons.prems convex_chain_tl [OF Cons.prems(1)] obtain s where
      "climb l b h = Inr s" "s \<in> set (b # h)"
      "\<forall>p \<in> set (b # h). gain l p < gain l s \<or> gain l p = gain l s \<and> intelligence_index p \<le> intelligence_index s"
      by (auto simp: rising_def)
    moreover from this have "gain l a < gain l s \<or> gain l a = gain l s \<and> intelligence_index a \<le> intelligence_index s"
      using False ab by fastforce
    ultimately show ?thesis by (intro exI [of _ s]) (simp only: list.set ball_simps insert_iff simp_thms, blast)
  qed
qed

subsection \<open>Tables of ordinary prices\<close>

text \<open>Six decimal places and less than ten million: no operation of the slope rounds.\<close>

definition ordinary :: "rat \<Rightarrow> bool" where
  "ordinary x \<longleftrightarrow> of_int \<lfloor>x * 10 ^ 6\<rfloor> = x * 10 ^ 6 \<and> \<bar>x\<bar> < 10 ^ 7"

definition ordinary_rows :: "benchmark_model list \<Rightarrow> bool" where
  "ordinary_rows rows \<longleftrightarrow> list_all (\<lambda>row. ordinary (intelligence_index row) \<and> ordinary (prompt_price row)) rows"

lemma dec_places:
  assumes "x = of_int n / 10 ^ k" "\<bar>n\<bar> < 10 ^ 28" "k \<le> 999999"
  shows "dec 28 x = Inr x"
proof -
  have "x = of_int n * 10 powi (- int k)" using assms(1) by (simp add: power_int_minus field_simps)
  with dec_fix_exact [of n 28 k] assms(2,3) show ?thesis by (simp add: dec_def)
qed

lemma ordinaryE:
  assumes "ordinary x"
  obtains n where "x = of_int n / 10 ^ 6" "\<bar>n\<bar> < 10 ^ 13"
proof
  from assms have eq: "of_int \<lfloor>x * 10 ^ 6\<rfloor> = x * 10 ^ 6" and lt: "\<bar>x\<bar> < 10 ^ 7"
    unfolding ordinary_def by blast+
  show "x = of_int \<lfloor>x * 10 ^ 6\<rfloor> / 10 ^ 6" unfolding eq by simp
  have "\<bar>of_int \<lfloor>x * 10 ^ 6\<rfloor> :: rat\<bar> = \<bar>x\<bar> * 10 ^ 6" unfolding eq by (simp add: abs_mult)
  also have "\<dots> < 10 ^ 7 * 10 ^ 6" using lt by simp
  finally have "of_int \<bar>\<lfloor>x * 10 ^ 6\<rfloor>\<bar> < (of_int (10 ^ 13) :: rat)" by simp
  then show "\<bar>\<lfloor>x * 10 ^ 6\<rfloor>\<bar> < 10 ^ 13" by (simp only: of_int_less_iff)
qed

lemma ordinary_diff:
  assumes "ordinary x" "ordinary y"
  obtains n where "x - y = of_int n / 10 ^ 6" "\<bar>n\<bar> < 2 * 10 ^ 13"
proof -
  obtain m n where "x = of_int m / 10 ^ 6" "\<bar>m\<bar> < 10 ^ 13" "y = of_int n / 10 ^ 6" "\<bar>n\<bar> < 10 ^ 13"
    using assms by (metis ordinaryE)
  then show thesis by (intro that [of "m - n"]) (simp_all add: diff_divide_distrib)
qed

lemma places_mult:
  assumes "\<bar>m\<bar> < (2 * 10 ^ 13 :: int)" "\<bar>n\<bar> < 2 * 10 ^ 13"
  shows "\<bar>m * n\<bar> < 4 * 10 ^ 26"
proof -
  have "\<bar>m\<bar> * \<bar>n\<bar> < (2 * 10 ^ 13) * (2 * 10 ^ 13)"
    using assms by (intro mult_strict_mono') simp_all
  then show ?thesis by (simp add: abs_mult)
qed

lemma dec_diff: "ordinary x \<Longrightarrow> ordinary y \<Longrightarrow> dec 28 (x - y) = Inr (x - y)"
  by (erule (1) ordinary_diff, erule dec_places) simp_all

lemma dec_scaled_diff:
  assumes "ordinary l" "ordinary x" "ordinary y"
  shows "dec 28 (l * (x - y)) = Inr (l * (x - y))"
proof -
  obtain m where m: "x - y = of_int m / 10 ^ 6" "\<bar>m\<bar> < 2 * 10 ^ 13" using assms by (metis ordinary_diff)
  obtain n where n: "l = of_int n / 10 ^ 6" "\<bar>n\<bar> < 10 ^ 13" using assms by (metis ordinaryE)
  have "\<bar>n * m\<bar> < 4 * 10 ^ 26" using m(2) n(2) by (intro places_mult) auto
  then show ?thesis by (intro dec_places [of _ "n * m" 12]) (simp_all add: m(1) n(1) flip: power_add)
qed

lemma cross_exact:
  assumes "ordinary_rows [a, b, c]"
  shows "cross a b c = Inr (turn a b c)"
proof -
  let ?i = intelligence_index and ?p = prompt_price
  have o: "ordinary (?i a)" "ordinary (?i b)" "ordinary (?i c)" "ordinary (?p a)" "ordinary (?p b)" "ordinary (?p c)"
    using assms by (simp_all add: ordinary_rows_def)
  obtain i j k l where d: "?i b - ?i a = of_int i / 10 ^ 6" "\<bar>i\<bar> < 2 * 10 ^ 13"
    "?p c - ?p a = of_int j / 10 ^ 6" "\<bar>j\<bar> < 2 * 10 ^ 13"
    "?p b - ?p a = of_int k / 10 ^ 6" "\<bar>k\<bar> < 2 * 10 ^ 13"
    "?i c - ?i a = of_int l / 10 ^ 6" "\<bar>l\<bar> < 2 * 10 ^ 13"
    using o by (metis ordinary_diff)
  have ij: "\<bar>i * j\<bar> < 4 * 10 ^ 26" and kl: "\<bar>k * l\<bar> < 4 * 10 ^ 26"
    by (rule places_mult [OF d(2) d(4)], rule places_mult [OF d(6) d(8)])
  have 1: "dec 28 ((?i b - ?i a) * (?p c - ?p a)) = Inr ((?i b - ?i a) * (?p c - ?p a))"
    by (rule dec_places [of _ "i * j" 12]) (use ij in \<open>simp_all add: d(1,3)\<close>)
  have 2: "dec 28 ((?p b - ?p a) * (?i c - ?i a)) = Inr ((?p b - ?p a) * (?i c - ?i a))"
    by (rule dec_places [of _ "k * l" 12]) (use kl in \<open>simp_all add: d(5,7)\<close>)
  have "turn a b c = of_int (i * j - k * l) / 10 ^ 12" "\<bar>i * j - k * l\<bar> < 10 ^ 28"
    using ij kl by (simp_all add: turn_def d diff_divide_distrib)
  then have "dec 28 (turn a b c) = Inr (turn a b c)" by (rule dec_places) simp
  with 1 2 show ?thesis
    by (simp add: cross_def sbind_def dec_diff [OF o(2,1)] dec_diff [OF o(6,4)] dec_diff [OF o(5,4)]
        dec_diff [OF o(3,1)] turn_def)
qed

lemma select_slope_best:
  assumes rows: "ordinary_rows rows" and l: "ordinary l"
    and f: "rising rows" "2 \<le> length rows"
  shows "\<exists>s. select_slope l rows = Inr s \<and> s \<in> set rows \<and>
     (\<forall>p \<in> set rows. gain l p < gain l s \<or> gain l p = gain l s \<and> intelligence_index p \<le> intelligence_index s)"
proof -
  obtain a rest where ar: "rows = a # rest" using f(2) by (cases rows) auto
  have o: "\<forall>r \<in> set rows. ordinary (intelligence_index r) \<and> ordinary (prompt_price r)"
    using rows by (simp add: ordinary_rows_def list_all_iff)
  then have "\<forall>a \<in> set rows. \<forall>b \<in> set rows. \<forall>c \<in> set rows. cross a b c = Inr (turn a b c)"
    by (auto intro!: cross_exact simp: ordinary_rows_def)
  then have "\<forall>x \<in> set [a] \<union> set rest. \<forall>y \<in> set [a] \<union> set rest. \<forall>z \<in> set rest. cross x y z = Inr (turn x y z)"
    using ar by auto
  from hull_scan_spec [OF this, of l] f(1) obtain v where v: "hull_scan [a] rest = Inr v" "v \<noteq> []"
    "set v \<subseteq> set rows" "rising v" "convex_chain v"
    "\<forall>p \<in> set rows. p \<in> set v \<or> (\<exists>q \<in> set v. gain l p < gain l q)"
    using ar by (auto simp: convex_chain_short)
  have hull: "lower_convex_hull rows = Inr v"
    using v(1) by (simp add: lower_convex_hull_def ar sbind_def)
  obtain b h where bh: "v = b # h" using v(2) by (cases v) auto
  have "\<forall>x \<in> set (b # h). \<forall>y \<in> set (b # h).
      dec 28 (prompt_price y - prompt_price x) = Inr (prompt_price y - prompt_price x) \<and>
      dec 28 (intelligence_index y - intelligence_index x) = Inr (intelligence_index y - intelligence_index x) \<and>
      dec 28 (l * (intelligence_index y - intelligence_index x)) = Inr (l * (intelligence_index y - intelligence_index x))"
    using o v(3) l unfolding bh by (blast intro!: dec_diff dec_scaled_diff)
  from climb_spec [OF _ _ this] v(4,5) bh obtain s where s: "climb l b h = Inr s" "s \<in> set v"
    "\<forall>p \<in> set v. gain l p < gain l s \<or> gain l p = gain l s \<and> intelligence_index p \<le> intelligence_index s"
    by auto
  have "gain l p < gain l s \<or> gain l p = gain l s \<and> intelligence_index p \<le> intelligence_index s"
    if "p \<in> set rows" for p
  proof -
    from v(6) that consider "p \<in> set v" | q where "q \<in> set v" "gain l p < gain l q" by blast
    then show ?thesis using s(3) by cases fastforce+
  qed
  moreover have "select_slope l rows = Inr s"
    using f(2) hull s(1) bh by (simp add: select_slope_def sbind_def)
  ultimately show ?thesis using s(2) v(3) by blast
qed

section \<open>What a selection can be\<close>

lemma first_min_least:
  "\<exists>k. (k, first_min b ys) \<in> set (b # ys) \<and> (\<forall>y \<in> set (b # ys). k \<le> fst y)"
proof (induction ys arbitrary: b)
  case Nil
  then show ?case by (intro exI [of _ "fst b"]) simp
next
  case (Cons y ys)
  define c where "c = (if fst y < fst b then y else b)"
  from Cons [of c] obtain k where k: "(k, first_min c ys) \<in> set (c # ys)" "\<forall>z \<in> set (c # ys). k \<le> fst z" by blast
  have c: "c \<in> {y, b}" "fst c \<le> fst y" "fst c \<le> fst b" by (auto simp: c_def)
  have "first_min b (y # ys) = first_min c ys" by (simp add: c_def)
  moreover have "(k, first_min c ys) \<in> set (b # y # ys)" using k(1) c(1) by auto
  moreover have "\<forall>z \<in> set (b # y # ys). k \<le> fst z" using k(2) c(2,3) by (auto intro: order_trans)
  ultimately show ?case by auto
qed

lemma min_keyed_least:
  "min_keyed xs = Inr r \<Longrightarrow> \<exists>k. (k, r) \<in> set xs \<and> (\<forall>y \<in> set xs. k \<le> fst y)"
  using first_min_least by (cases xs) auto

lemma min_keyed_total: "xs \<noteq> [] \<Longrightarrow> \<exists>r. min_keyed xs = Inr r"
  by (cases xs) auto

text \<open>A computation that gives a value of a certain kind, or fails with one of the two exceptions the
  resolver can absorb.\<close>

definition answers :: "('a \<Rightarrow> bool) \<Rightarrow> 'a result \<Rightarrow> bool" where
  "answers P r \<longleftrightarrow> (case r of Inr x \<Rightarrow> P x
     | Inl e \<Rightarrow> e = DecimalException \<or> (\<exists>m. e = ModelCatalogUnavailable m))"

lemma answers_Inr: "P x \<Longrightarrow> answers P (Inr x)"
  by (simp add: answers_def)

lemma answers_unavailable: "answers P (Inl (ModelCatalogUnavailable m))"
  by (simp add: answers_def)

lemma answers_dec: "answers (\<lambda>_. True) (dec p x)"
  by (simp add: answers_def dec_def split: option.splits)

lemma answers_sbind: "answers P r \<Longrightarrow> (\<And>x. P x \<Longrightarrow> answers Q (f x)) \<Longrightarrow> answers Q (sbind r f)"
  by (cases r) (simp_all add: answers_def sbind_def)

lemma answers_if: "(b \<Longrightarrow> answers P r) \<Longrightarrow> (\<not> b \<Longrightarrow> answers P q) \<Longrightarrow> answers P (if b then r else q)"
  by simp

lemma answers_mono: "answers P r \<Longrightarrow> (\<And>x. P x \<Longrightarrow> Q x) \<Longrightarrow> answers Q r"
  by (auto simp: answers_def split: sum.splits)

lemma answers_smap:
  "(\<And>x. x \<in> set xs \<Longrightarrow> answers Q (f x)) \<Longrightarrow>
     answers (\<lambda>ys. length ys = length xs \<and> (\<forall>y \<in> set ys. Q y)) (smap f xs)"
proof (induction xs)
  case Nil
  then show ?case by (simp add: answers_def)
next
  case (Cons x xs)
  have "answers Q (f x)" using Cons.prems by simp
  moreover have "answers (\<lambda>ys. length ys = length xs \<and> (\<forall>y \<in> set ys. Q y)) (smap f xs)"
    using Cons by simp
  ultimately show ?case
    unfolding smap.simps by (elim answers_sbind) (auto intro!: answers_Inr)
qed

lemma answers_min_keyed: "xs \<noteq> [] \<Longrightarrow> answers (\<lambda>r. r \<in> snd ` set xs) (min_keyed xs)"
  using min_keyed_total [of xs] min_keyed_least [of xs] by (force simp: answers_def)

lemma answers_select_max:
  assumes "rows \<noteq> []"
  shows "answers (\<lambda>s. s \<in> set rows) (select_max rows)"
  unfolding select_max_def
proof (rule answers_sbind)
  show "answers (\<lambda>ks. length ks = length rows \<and> (\<forall>k \<in> set ks. snd k \<in> set rows))
      (smap (\<lambda>row. sbind (dec 28 (- intelligence_index row)) (\<lambda>k.
         Inr ((k, prompt_price row, permaslug row), row))) rows)"
    by (rule answers_smap, rule answers_sbind [OF answers_dec]) (auto intro: answers_Inr)
qed (use assms in \<open>auto intro!: answers_mono [OF answers_min_keyed]\<close>)

lemma answers_elbow_offset:
  "answers (\<lambda>y. snd y = snd x) (elbow_offset a b c d x)"
  unfolding elbow_offset_def by (cases x) (auto intro!: answers_sbind [OF answers_dec] answers_Inr)

lemma answers_select_elbow:
  assumes f: "frontier \<noteq> []"
  shows "answers (\<lambda>s. s \<in> set frontier) (select_elbow log10 frontier bound)"
proof -
  have key: "answers (\<lambda>ks. length ks = length ps \<and> (\<forall>k \<in> set ks. snd k \<in> snd ` set ps))
      (smap (\<lambda>(offset, row). sbind (dec 28 (- offset)) (\<lambda>k.
         Inr ((k, prompt_price row, permaslug row), row))) ps)" for ps :: "(rat \<times> benchmark_model) list"
    by (rule answers_smap) (auto intro!: answers_sbind [OF answers_dec] answers_Inr intro: rev_image_eqI)
  have offsets: "answers (\<lambda>ys. length ys = length (zip ls frontier) \<and> (\<forall>y \<in> set ys. snd y \<in> set frontier))
      (smap (elbow_offset i j k l) (zip ls frontier))" for i j k l ls
    by (rule answers_smap, rule answers_mono [OF answers_elbow_offset]) (auto dest: set_zip_rightD)
  show ?thesis
    unfolding select_elbow_def Let_def
    apply (intro answers_if answers_unavailable answers_select_max answers_sbind [OF answers_dec]
        answers_sbind [OF offsets] f)
    apply (rule answers_sbind [OF key])
    apply (rule answers_mono [OF answers_min_keyed])
     apply (auto simp flip: length_greater_0_conv) [1]
    apply fastforce
    done
qed

lemma answers_pop_hull: "answers (\<lambda>k. set k \<subseteq> set h \<and> (h \<noteq> [] \<longrightarrow> k \<noteq> [])) (pop_hull row h)"
proof (induction row h rule: pop_hull.induct)
  case (1 row b a h)
  have "answers (\<lambda>_. True) (cross a b row)"
    unfolding cross_def by (intro answers_sbind [OF answers_dec] answers_dec)
  then show ?case
    unfolding pop_hull.simps
    by (rule answers_sbind) (auto intro!: answers_if answers_Inr answers_mono [OF 1])
qed (auto intro: answers_Inr)

lemma answers_hull_scan:
  "answers (\<lambda>v. set v \<subseteq> set h \<union> set rows \<and> (h @ rows \<noteq> [] \<longrightarrow> v \<noteq> [])) (hull_scan h rows)"
proof (induction h rows rule: hull_scan.induct)
  case (1 h)
  then show ?case by (auto intro: answers_Inr)
next
  case (2 h row rows)
  show ?case
    unfolding hull_scan.simps
    by (rule answers_sbind [OF answers_pop_hull], rule answers_mono [OF 2]) auto
qed

lemma answers_climb: "answers (\<lambda>s. s \<in> set (a # h)) (climb l a h)"
proof (induction h arbitrary: a)
  case Nil
  then show ?case by (auto intro: answers_Inr)
next
  case (Cons b h)
  show ?case
    unfolding climb.simps
    by (intro answers_sbind [OF answers_dec] answers_if answers_mono [OF Cons]) (auto intro: answers_Inr)
qed

lemma answers_select_slope: "answers (\<lambda>s. s \<in> set frontier) (select_slope l frontier)"
  unfolding select_slope_def lower_convex_hull_def
proof (intro answers_if answers_unavailable)
  assume "\<not> length frontier < 2"
  then have ne: "frontier \<noteq> []" by auto
  show "answers (\<lambda>s. s \<in> set frontier) (sbind (hull_scan [] frontier) (\<lambda>h. climb l (hd h) (tl h)))"
  proof (rule answers_sbind [OF answers_hull_scan], rule answers_mono [OF answers_climb])
    fix v s
    assume "set v \<subseteq> set [] \<union> set frontier \<and> ([] @ frontier \<noteq> [] \<longrightarrow> v \<noteq> [])" "s \<in> set (hd v # tl v)"
    then show "s \<in> set frontier" using ne by (cases v) auto
  qed
qed

lemma answers_elbow_price_floor:
  assumes "\<forall>r \<in> set rows. 0 \<le> prompt_price r"
  shows "answers (\<lambda>_. True) (elbow_price_floor (pareto_frontier rows) rows)"
  unfolding elbow_price_floor_def
proof (intro answers_if answers_Inr TrueI)
  let ?f = "pareto_frontier rows"
  assume "\<not> (length ?f < 3 \<or> 0 < prompt_price (hd ?f))"
  then obtain a b r where f: "?f = a # b # r"
    by (cases ?f; cases "tl ?f") auto
  then have "prompt_price a < prompt_price b" "a \<in> set rows" "b \<in> set rows"
    using frontier_increasing [of rows] frontier_undominated(1) [of _ rows] by auto
  then have "filter (\<lambda>row. 0 < prompt_price row) rows \<noteq> []"
    using assms by (force simp: filter_empty_conv)
  then show "answers (\<lambda>_. True) (sbind (min_keyed (map (\<lambda>row. (prompt_price row, prompt_price row))
      (filter (\<lambda>row. 0 < prompt_price row) rows))) (\<lambda>x. Inr (Some x)))"
    by (intro answers_sbind [OF answers_min_keyed] answers_Inr) simp_all
qed

lemma answers_guard: "answers P r \<Longrightarrow> (case decimal_guard r of Inr x \<Rightarrow> P x | Inl e \<Rightarrow> \<exists>m. e = ModelCatalogUnavailable m)"
  by (auto simp: answers_def decimal_guard_def split: sum.splits)

lemma elbow_slope_outcome:
  assumes "\<forall>r \<in> set rows. 0 \<le> prompt_price r" "policy = Elbow \<or> policy = Slope l"
  shows "case select_model log10 policy rows of
      Inr s \<Rightarrow> s \<in> set (pareto_frontier rows)
    | Inl e \<Rightarrow> \<exists>m. e = ModelCatalogUnavailable m"
proof (cases "rows = []")
  case True
  then show ?thesis by (simp add: select_model_def)
next
  case False
  have "answers (\<lambda>s. s \<in> set (pareto_frontier rows))
      (sbind (elbow_price_floor (pareto_frontier rows) rows) (select_elbow log10 (pareto_frontier rows)))"
    by (intro answers_sbind [OF answers_elbow_price_floor [OF assms(1)]] answers_select_elbow
        frontier_nonempty [OF False])
  from answers_guard [OF this] answers_guard [OF answers_select_slope] False assms(2)
  show ?thesis by (auto simp: select_model_def Let_def)
qed

lemma select_floor_least:
  assumes "select_floor bound rows = Inr s"
  shows "s \<in> set rows" "bound \<le> intelligence_index s"
    "q \<in> set rows \<Longrightarrow> bound \<le> intelligence_index q \<Longrightarrow>
       (prompt_price s, completion_price s, permaslug s) \<le> (prompt_price q, completion_price q, permaslug q)"
  using assms
  by (auto simp: select_floor_def Let_def split: if_splits dest!: min_keyed_least simp del: less_eq_prod_simp)

lemma select_floor_cases:
  "(\<exists>s. select_floor bound rows = Inr s) \<longleftrightarrow> (\<exists>r \<in> set rows. bound \<le> intelligence_index r)"
  "select_floor bound rows = Inl e \<Longrightarrow> \<exists>m. e = ModelCatalogUnavailable m"
proof -
  let ?el = "filter (\<lambda>row. bound \<le> intelligence_index row) rows"
  let ?ks = "map (\<lambda>row. ((prompt_price row, completion_price row, permaslug row), row)) ?el"
  have *: "\<exists>s. min_keyed ?ks = Inr s" if "?el \<noteq> []" using min_keyed_total [of ?ks] that by simp
  show "(\<exists>s. select_floor bound rows = Inr s) \<longleftrightarrow> (\<exists>r \<in> set rows. bound \<le> intelligence_index r)"
    using * by (auto simp: select_floor_def Let_def filter_empty_conv)
  show "\<exists>m. e = ModelCatalogUnavailable m" if "select_floor bound rows = Inl e"
    using that * by (auto simp: select_floor_def Let_def split: if_splits)
qed

lemma select_max_best:
  assumes "ordinary_rows rows" "rows \<noteq> []"
  shows "\<exists>s \<in> set rows. select_max rows = Inr s \<and>
     (\<forall>q \<in> set rows. (- intelligence_index s, prompt_price s, permaslug s) \<le> (- intelligence_index q, prompt_price q, permaslug q))"
proof -
  have z: "ordinary 0" by (simp add: ordinary_def)
  have exact: "dec 28 (- intelligence_index r) = Inr (- intelligence_index r)" if "r \<in> set rows" for r
    using dec_diff [OF z, of "intelligence_index r"] assms(1) that by (simp add: ordinary_rows_def list_all_iff)
  let ?ks = "map (\<lambda>row. ((- intelligence_index row, prompt_price row, permaslug row), row)) rows"
  have "smap (\<lambda>row. sbind (dec 28 (- intelligence_index row)) (\<lambda>k.
              Inr ((k, prompt_price row, permaslug row), row))) rows = Inr ?ks"
    using exact by (simp add: smap_Inr list_all2_map2 list_all2_same)
  then have eq: "select_max rows = min_keyed ?ks" by (simp add: select_max_def sbind_def)
  obtain s where s: "min_keyed ?ks = Inr s" using min_keyed_total [of ?ks] assms(2) by auto
  from min_keyed_least [OF this] eq s show ?thesis by (auto simp del: less_eq_prod_simp)
qed

lemma frontier_least_slug:
  assumes "r \<in> set (pareto_frontier rows)" "q \<in> set rows" "coordinate q = coordinate r"
  shows "permaslug r \<le> permaslug q"
proof -
  have r: "r \<in> set (unique_rows rows)" using assms(1) by (auto simp: pareto_frontier_def Let_def)
  obtain w where w: "w \<in> set (unique_rows rows)" "coordinate w = coordinate q" "permaslug w \<le> permaslug q"
    using unique_rows_covers [OF assms(2)] by blast
  then have "w = r"
    using r unique_rows_distinct [of rows] assms(3) by (auto simp: distinct_map dest: inj_onD)
  with w(3) show ?thesis by simp
qed

text \<open>C22: The frontier of any table is strictly increasing in
  intelligence and in price; each of its rows is a row of the table that no row dominates and carries
  the least permaslug among the rows at its coordinates; and every row of the table is dominated by a
  frontier row or has a frontier row at its own coordinates.\<close>

theorem pareto_frontier_characterised:
  "sorted_wrt (\<lambda>a b. intelligence_index a < intelligence_index b \<and> prompt_price a < prompt_price b) (pareto_frontier rows) \<and>
   (\<forall>r \<in> set (pareto_frontier rows). r \<in> set rows \<and> (\<forall>q \<in> set rows. \<not> dominates q r) \<and>
      (\<forall>q \<in> set rows. coordinate q = coordinate r \<longrightarrow> permaslug r \<le> permaslug q)) \<and>
   (\<forall>r \<in> set rows. \<exists>m \<in> set (pareto_frontier rows). coordinate m = coordinate r \<or> dominates m r)"
  using frontier_increasing frontier_undominated frontier_covers frontier_least_slug by blast

definition sample_rows :: "benchmark_model list" where
  "sample_rows =
    [\<lparr>permaslug = ''b/big'', intelligence_index = 60, prompt_price = 5, completion_price = 25\<rparr>,
     \<lparr>permaslug = ''a/mid'', intelligence_index = 50, prompt_price = 1, completion_price = 4\<rparr>,
     \<lparr>permaslug = ''c/old'', intelligence_index = 45, prompt_price = 3, completion_price = 9\<rparr>,
     \<lparr>permaslug = ''d/tiny'', intelligence_index = 30, prompt_price = 1/2, completion_price = 1\<rparr>]"

lemma sample_frontier: "map permaslug (pareto_frontier sample_rows) = [''d/tiny'', ''a/mid'', ''b/big'']"
  by code_simp

theorem pareto_frontier_characterised_witness:
  "\<exists>m. m \<in> set (pareto_frontier sample_rows) \<and>
     (coordinate m = coordinate (sample_rows ! 2) \<or> dominates m (sample_rows ! 2))"
proof -
  have "sample_rows ! 2 \<in> set sample_rows" by (simp add: sample_rows_def)
  with pareto_frontier_characterised [of sample_rows] show ?thesis by blast
qed

lemma dominated_gain:
  assumes "0 < l" "dominates m q"
  shows "gain l q < gain l m"
proof -
  have "l * intelligence_index q \<le> l * intelligence_index m" "prompt_price m \<le> prompt_price q"
    using assms by (simp_all add: dominates_def)
  moreover have "l * intelligence_index q < l * intelligence_index m \<or> prompt_price m < prompt_price q"
    using assms by (auto simp: dominates_def)
  ultimately show ?thesis by (auto simp: gain_def)
qed

text \<open>C21: On a table of ordinary decimals (at most six places, below ten million) whose
  frontier has at least two points, \<open>slope:<l>\<close> returns a row of the table, and that row maximises
  l times intelligence minus prompt price over the whole table; of several such rows it is the most intelligent.\<close>

theorem slope_selection_best:
  assumes "ordinary_rows rows" "ordinary l" "0 < l" "2 \<le> length (pareto_frontier rows)"
  shows "\<exists>s \<in> set rows. select_model log10 (Slope l) rows = Inr s \<and>
    (\<forall>q \<in> set rows.
       l * intelligence_index q - prompt_price q < l * intelligence_index s - prompt_price s \<or>
       l * intelligence_index q - prompt_price q = l * intelligence_index s - prompt_price s \<and>
       intelligence_index q \<le> intelligence_index s)"
proof -
  let ?f = "pareto_frontier rows"
  have "ordinary_rows ?f" "rising ?f"
    using assms(1) frontier_undominated(1) frontier_increasing [of rows]
    by (auto simp: ordinary_rows_def list_all_iff rising_def elim: sorted_wrt_mono_rel [rotated])
  from select_slope_best [OF this(1) assms(2) this(2) assms(4)] obtain s where
    s: "select_slope l ?f = Inr s" "s \<in> set ?f"
    "\<forall>p \<in> set ?f. gain l p < gain l s \<or> gain l p = gain l s \<and> intelligence_index p \<le> intelligence_index s" by blast
  have "gain l q < gain l s \<or> gain l q = gain l s \<and> intelligence_index q \<le> intelligence_index s"
    if q: "q \<in> set rows" for q
  proof -
    obtain m where m: "m \<in> set ?f" "coordinate m = coordinate q \<or> dominates m q"
      using frontier_covers [OF q] by blast
    then have "gain l q < gain l m \<or> gain l q = gain l m \<and> intelligence_index q = intelligence_index m"
      using dominated_gain [OF assms(3)] by (auto simp: gain_def coordinate_def)
    with s(3) m(1) show ?thesis by fastforce
  qed
  moreover have "rows \<noteq> []" using s(2) frontier_undominated(1) by fastforce
  ultimately show ?thesis
    using s(1,2) frontier_undominated(1)
    by (intro bexI [of _ s]) (auto simp: select_model_def decimal_guard_def gain_def)
qed

theorem slope_selection_best_witness:
  "\<exists>s \<in> set sample_rows. select_model (\<lambda>x. x) (Slope (1/2)) sample_rows = Inr s \<and>
    (\<forall>q \<in> set sample_rows.
       (1/2) * intelligence_index q - prompt_price q < (1/2) * intelligence_index s - prompt_price s \<or>
       (1/2) * intelligence_index q - prompt_price q = (1/2) * intelligence_index s - prompt_price s \<and>
       intelligence_index q \<le> intelligence_index s)"
proof (rule slope_selection_best)
  show "ordinary_rows sample_rows" by code_simp
  show "ordinary (1/2)" by code_simp
  show "2 \<le> length (pareto_frontier sample_rows)" by code_simp
qed simp

text \<open>C23: On a table without negative prices, whatever a policy returns is a row of the table;
  \<open>elbow\<close> and \<open>slope\<close> never return a dominated row, \<open>floor\<close> returns the cheapest row that meets the floor
  (then the cheapest completion, then the least permaslug), and the only error of these three is
  \<open>ModelCatalogUnavailable\<close>, even when the decimal arithmetic overflows.\<close>

theorem select_model_outcome:
  assumes "\<forall>r \<in> set rows. 0 \<le> prompt_price r"
  shows
    "(select_model log10 policy rows = Inr s \<longrightarrow> s \<in> set rows) \<and>
     (select_model log10 policy rows = Inr s \<and> (policy = Elbow \<or> policy = Slope l) \<longrightarrow> (\<forall>q \<in> set rows. \<not> dominates q s)) \<and>
     (select_model log10 (Floor n) rows = Inr s \<longrightarrow> n \<le> intelligence_index s \<and>
        (\<forall>q \<in> set rows. n \<le> intelligence_index q \<longrightarrow>
           (prompt_price s, completion_price s, permaslug s) \<le> (prompt_price q, completion_price q, permaslug q))) \<and>
     (policy = Elbow \<or> policy = Slope l \<or> policy = Floor n \<longrightarrow>
        select_model log10 policy rows = Inl e \<longrightarrow> (\<exists>m. e = ModelCatalogUnavailable m))"
proof (cases "rows = []")
  case True
  then show ?thesis by (auto simp: select_model_def)
next
  case False
  note es = elbow_slope_outcome [OF assms]
  have floor: "select_model log10 (Floor n) rows = select_floor n rows" for n
    using False by (simp add: select_model_def)
  have "s \<in> set rows" if s: "select_model log10 policy rows = Inr s"
  proof (cases policy)
    case (Pinned x)
    with s False show ?thesis by (simp add: select_model_def)
  next
    case Max
    with s False answers_select_max [OF False] show ?thesis by (simp add: select_model_def answers_def)
  next
    case Elbow
    with s es [of policy _ log10] frontier_undominated(1) show ?thesis by auto
  next
    case (Slope x)
    with s es [of policy x log10] frontier_undominated(1) show ?thesis by auto
  next
    case (Floor x)
    with s floor select_floor_least(1) show ?thesis by metis
  qed
  moreover have "\<not> dominates q s"
    if "select_model log10 policy rows = Inr s" "policy = Elbow \<or> policy = Slope l" "q \<in> set rows" for q
    using that es [of policy l log10] frontier_undominated(2) by auto
  moreover have "\<exists>m. e = ModelCatalogUnavailable m"
    if "policy = Elbow \<or> policy = Slope l \<or> policy = Floor n" "select_model log10 policy rows = Inl e"
    using that es [of policy l log10] select_floor_cases(2) [of n rows e] floor [of n] by auto
  ultimately show ?thesis
    unfolding floor using select_floor_least(2,3) by blast
qed

theorem select_model_outcome_witness:
  "\<exists>s. select_model (\<lambda>x. x) (Floor 40) sample_rows = Inr s \<and> s \<in> set sample_rows \<and> permaslug s = ''a/mid'' \<and>
     40 \<le> intelligence_index s"
proof -
  have nonneg: "\<forall>r \<in> set sample_rows. 0 \<le> prompt_price r" by code_simp
  define s where "s = sample_rows ! 1"
  have s: "select_model (\<lambda>x. x) (Floor 40) sample_rows = Inr s" unfolding s_def by code_simp
  have slug: "permaslug s = ''a/mid''" unfolding s_def by code_simp
  show ?thesis using select_model_outcome [OF nonneg, of "\<lambda>x. x" "Floor 40" s] s slug by blast
qed

end
