(* ===== verification/Catalog.thy ===== *)
theory Catalog
  imports Policy
begin

text \<open>
  The OpenRouter catalog of \<open>src/spine/model_policy.py\<close>: reading the benchmark table and the model table out
  of JSON, and the client that caches them (\<open>OpenRouterCatalogClient\<close>). An answer of the HTTP client is
  \<open>http_response\<close>: the transport may fail, the status may be an error, the body may not be JSON. What
  depends on the platform's floating point or on \<open>str\<close> of a container is the record \<open>pylib\<close>. A body of
  \<open>load\<close> or \<open>load_named_route\<close> that holds the client's lock is one function of the client's state: only tasks
  that wait for the lock run during its requests.
\<close>

record pylib =
  pl_str_float :: "rat \<Rightarrow> string"
  pl_str_container :: "json \<Rightarrow> string"
  pl_fl64 :: "rat \<Rightarrow> rat"

section \<open>JSON values as Python sees them\<close>

text \<open>\<open>d.get(k)\<close>: a missing key and \<open>null\<close> are both \<open>None\<close>.\<close>

definition jget :: "dict \<Rightarrow> string \<Rightarrow> json" where
  "jget d k = (case dget d k of None \<Rightarrow> JNull | Some v \<Rightarrow> v)"

definition py_num :: "json \<Rightarrow> rat option" where
  "py_num v = (case v of JBool b \<Rightarrow> Some (if b then 1 else 0) | JInt n \<Rightarrow> Some (of_int n) | JFloat x \<Rightarrow> Some x | _ \<Rightarrow> None)"

text \<open>\<open>==\<close>: numbers and booleans compare by value, objects regardless of order.\<close>

fun py_eq :: "json \<Rightarrow> json \<Rightarrow> bool" where
  "py_eq JNull w = (w = JNull)"
| "py_eq (JStr s) w = (w = JStr s)"
| "py_eq (JList xs) w = (case w of JList ys \<Rightarrow> list_all2 py_eq xs ys | _ \<Rightarrow> False)"
| "py_eq (JObj d) w = (case w of JObj e \<Rightarrow> length d = length e \<and>
     list_all (\<lambda>(k, v). case dget e k of None \<Rightarrow> False | Some u \<Rightarrow> py_eq v u) d | _ \<Rightarrow> False)"
| "py_eq v w = (py_num v = py_num w)"

definition show_int :: "int \<Rightarrow> string" where
  "show_int n = (if n < 0 then ''-'' @ show_nat (nat (- n)) else show_nat (nat n))"

text \<open>\<open>str(v)\<close>; an integer of more than 4300 digits raises \<open>ValueError\<close>.\<close>

definition py_str :: "pylib \<Rightarrow> json \<Rightarrow> string result" where
  "py_str py v = (case v of
     JNull \<Rightarrow> Inr ''None'' | JBool b \<Rightarrow> Inr (if b then ''True'' else ''False'')
   | JInt n \<Rightarrow> if 4300 < ndigits (nat \<bar>n\<bar>) then Inl (BadValue ''int too long'') else Inr (show_int n)
   | JFloat x \<Rightarrow> Inr (pl_str_float py x) | JStr s \<Rightarrow> Inr s | _ \<Rightarrow> Inr (pl_str_container py v))"

text \<open>\<open>_finite_decimal\<close>: the text of a container starts with a bracket and is no number.\<close>

definition finite_decimal :: "pylib \<Rightarrow> json \<Rightarrow> rat option" where
  "finite_decimal py v = (case v of
     JNull \<Rightarrow> None | JBool _ \<Rightarrow> None | JList _ \<Rightarrow> None | JObj _ \<Rightarrow> None
   | _ \<Rightarrow> (case py_str py v of Inl _ \<Rightarrow> None | Inr s \<Rightarrow> decimal_of_string s))"

text \<open>A nonblank string without surrounding whitespace.\<close>

definition clean_name :: "json \<Rightarrow> string option" where
  "clean_name v = (case v of JStr s \<Rightarrow> if blank_or_padded s then None else Some s | _ \<Rightarrow> None)"

definition positive_int :: "json \<Rightarrow> int option" where
  "positive_int v = (case v of JInt n \<Rightarrow> if 0 < n then Some n else None | _ \<Rightarrow> None)"

definition payload_data :: "json \<Rightarrow> json list result" where
  "payload_data payload = (case payload of
     JObj d \<Rightarrow> (case jget d ''data'' of JList xs \<Rightarrow> Inr xs | _ \<Rightarrow> Inl (ModelCatalogUnavailable ''no data array''))
   | _ \<Rightarrow> Inl (ModelCatalogUnavailable ''no data array''))"

section \<open>The benchmark table\<close>

definition per_million :: "rat \<Rightarrow> rat result" where
  "per_million x = dec 28 (x * 1000000)"

text \<open>One element of the array: \<open>None\<close> when the loop continues without it.\<close>

definition benchmark_row :: "pylib \<Rightarrow> json \<Rightarrow> benchmark_model option result" where
  "benchmark_row py raw = (case raw of
     JObj d \<Rightarrow>
       (if jget d ''source'' \<noteq> JStr ''artificial-analysis'' then Inr None
        else case jget d ''pricing'' of
          JObj pricing \<Rightarrow>
            (case (clean_name (jget d ''model_permaslug''), finite_decimal py (jget d ''intelligence_index''),
                   finite_decimal py (jget pricing ''prompt''), finite_decimal py (jget pricing ''completion'')) of
               (Some slug, Some i, Some p, Some c) \<Rightarrow>
                 if p < 0 \<or> c < 0 then Inr None
                 else sbind (per_million p) (\<lambda>pp. sbind (per_million c) (\<lambda>cc.
                   Inr (Some \<lparr>permaslug = slug, intelligence_index = i, prompt_price = pp, completion_price = cc\<rparr>)))
             | _ \<Rightarrow> Inr None)
        | _ \<Rightarrow> Inr None)
   | _ \<Rightarrow> Inr None)"

fun benchmark_loop ::
  "pylib \<Rightarrow> json list \<Rightarrow> (string \<times> benchmark_model) list \<Rightarrow> (string \<times> benchmark_model) list result" where
  "benchmark_loop py [] rows = Inr rows"
| "benchmark_loop py (raw # data) rows =
     sbind (benchmark_row py raw) (\<lambda>r. case r of
        None \<Rightarrow> benchmark_loop py data rows
      | Some row \<Rightarrow>
          (case map_of rows (permaslug row) of
             Some existing \<Rightarrow> if existing \<noteq> row then Inl (ModelCatalogUnavailable ''conflicting model rows'')
                              else benchmark_loop py data (AList.update (permaslug row) row rows)
           | None \<Rightarrow> benchmark_loop py data (AList.update (permaslug row) row rows)))"

definition parse_benchmark_rows :: "pylib \<Rightarrow> json \<Rightarrow> benchmark_model list result" where
  "parse_benchmark_rows py payload =
     sbind (payload_data payload) (\<lambda>data. sbind (benchmark_loop py data []) (\<lambda>rows.
       if rows = [] then Inl (ModelCatalogUnavailable ''no complete rows'') else Inr (map snd rows)))"

section \<open>The model table\<close>

record model_route =
  model_id :: string
  context_tokens :: int
  input_modalities :: "string set option"
  supported_parameters :: "string set option"

definition strings_in :: "json list \<Rightarrow> string list" where
  "strings_in xs = concat (map (\<lambda>x. case x of JStr s \<Rightarrow> [s] | _ \<Rightarrow> []) xs)"

definition parse_supported_parameters :: "dict \<Rightarrow> string set option" where
  "parse_supported_parameters raw = (case jget raw ''supported_parameters'' of
     JList xs \<Rightarrow> Some (set (strings_in xs)) | _ \<Rightarrow> None)"

definition parse_input_modalities :: "dict \<Rightarrow> string set option" where
  "parse_input_modalities raw = (case jget raw ''architecture'' of
     JObj a \<Rightarrow> (case jget a ''input_modalities'' of
        JList xs \<Rightarrow> if list_ex (\<lambda>x. clean_name x = None) xs then None else Some (set (strings_in xs))
      | _ \<Rightarrow> None)
   | _ \<Rightarrow> None)"

type_synonym route_value = "json \<times> string set option \<times> string set option"
type_synonym route_groups = "(string \<times> (string \<times> route_value) list) list"

definition route_value_eq :: "route_value \<Rightarrow> route_value \<Rightarrow> bool" where
  "route_value_eq v w \<longleftrightarrow> py_eq (fst v) (fst w) \<and> snd v = snd w"

primrec group_routes ::
  "json list \<Rightarrow> (string \<times> string) list \<Rightarrow> route_groups \<Rightarrow> route_groups result" where
  "group_routes [] canonical grouped = Inr grouped"
| "group_routes (raw # data) canonical grouped = (case raw of
     JObj d \<Rightarrow>
       (case (clean_name (jget d ''id''), clean_name (jget d ''canonical_slug'')) of
          (Some mid, Some slug) \<Rightarrow>
            if map_of canonical mid \<notin> {None, Some slug}
            then Inl (ModelCatalogUnavailable ''one route to multiple models'')
            else
              let routes = (case map_of grouped slug of None \<Rightarrow> [] | Some r \<Rightarrow> r);
                  v = (jget d ''context_length'', parse_input_modalities d, parse_supported_parameters d)
              in if (case map_of routes mid of None \<Rightarrow> False | Some w \<Rightarrow> \<not> route_value_eq w v)
                 then Inl (ModelCatalogUnavailable ''conflicting route rows'')
                 else group_routes data (AList.update mid slug canonical)
                        (AList.update slug (AList.update mid v routes) grouped)
        | _ \<Rightarrow> group_routes data canonical grouped)
   | _ \<Rightarrow> group_routes data canonical grouped)"

definition route_of :: "string \<Rightarrow> route_value \<Rightarrow> model_route option" where
  "route_of mid v = (case positive_int (fst v) of None \<Rightarrow> None
     | Some n \<Rightarrow> Some \<lparr>model_id = mid, context_tokens = n, input_modalities = fst (snd v), supported_parameters = snd (snd v)\<rparr>)"

definition selected_id :: "(string \<times> route_value) list \<Rightarrow> string option" where
  "selected_id by_id =
     (let standard_ids = filter (\<lambda>i. CHR '':'' \<notin> set i) (map fst by_id)
      in if length standard_ids = 1 then Some (hd standard_ids)
         else if standard_ids = [] \<and> length by_id = 1 then Some (fst (hd by_id))
         else None)"

definition resolve_group :: "string \<times> (string \<times> route_value) list \<Rightarrow> (string \<times> model_route) list" where
  "resolve_group = (\<lambda>(slug, by_id). case selected_id by_id of
       None \<Rightarrow> []
     | Some i \<Rightarrow> (case map_of by_id i of None \<Rightarrow> []
         | Some v \<Rightarrow> (case route_of i v of None \<Rightarrow> [] | Some r \<Rightarrow> [(slug, r)])))"

definition parse_model_routes :: "json \<Rightarrow> (string \<times> model_route) list result" where
  "parse_model_routes payload =
     sbind (payload_data payload) (\<lambda>data. sbind (group_routes data [] []) (\<lambda>grouped.
       let resolved = concat (map resolve_group grouped)
       in if resolved = [] then Inl (ModelCatalogUnavailable ''no unambiguous positive-context routes'') else Inr resolved))"

fun named_loop :: "json list \<Rightarrow> (string \<times> model_route) list \<Rightarrow> (string \<times> model_route) list result" where
  "named_loop [] resolved = Inr resolved"
| "named_loop (raw # data) resolved = (case raw of
     JObj d \<Rightarrow>
       (case (clean_name (jget d ''id''), positive_int (jget d ''context_length'')) of
          (Some mid, Some n) \<Rightarrow>
            let route = \<lparr>model_id = mid, context_tokens = n, input_modalities = parse_input_modalities d,
                         supported_parameters = parse_supported_parameters d\<rparr>
            in if map_of resolved mid \<notin> {None, Some route}
               then Inl (ModelCatalogUnavailable ''conflicting named routes'')
               else named_loop data (AList.update mid route resolved)
        | _ \<Rightarrow> named_loop data resolved)
   | _ \<Rightarrow> named_loop data resolved)"

definition parse_named_routes :: "json \<Rightarrow> (string \<times> model_route) list result" where
  "parse_named_routes payload =
     sbind (payload_data payload) (\<lambda>data. sbind (named_loop data []) (\<lambda>resolved.
       if resolved = [] then Inl (ModelCatalogUnavailable ''no positive-context named routes'') else Inr resolved))"

section \<open>The listing\<close>

record listed_model =
  lm_model_id :: string
  lm_name :: string
  lm_context_tokens :: "int option"
  lm_prompt_price :: "rat option"
  lm_completion_price :: "rat option"
  lm_reasoning :: bool
  lm_intelligence_index :: "rat option"
  lm_supported_parameters :: "string set option"

definition per_million_opt :: "rat option \<Rightarrow> rat option result" where
  "per_million_opt x = (case x of None \<Rightarrow> Inr None | Some p \<Rightarrow> sbind (per_million p) (\<lambda>y. Inr (Some y)))"

definition listed_price :: "pylib \<Rightarrow> dict \<Rightarrow> string \<Rightarrow> rat option" where
  "listed_price py d k = (case jget d ''pricing'' of JObj p \<Rightarrow> finite_decimal py (jget p k) | _ \<Rightarrow> None)"

definition listed_row :: "pylib \<Rightarrow> (string \<times> rat) list \<Rightarrow> json \<Rightarrow> listed_model option result" where
  "listed_row py index raw = (case raw of
     JObj d \<Rightarrow>
       (case clean_name (jget d ''id'') of
          Some mid \<Rightarrow>
            let prompt = listed_price py d ''prompt''; completion = listed_price py d ''completion''
            in if startswith mid ''openrouter/'' \<or> (case prompt of None \<Rightarrow> False | Some p \<Rightarrow> p < 0) \<or>
                  (case completion of None \<Rightarrow> False | Some c \<Rightarrow> c < 0)
               then Inr None
               else
                 sbind (per_million_opt prompt) (\<lambda>pp.
                 sbind (per_million_opt completion) (\<lambda>cc.
                 sbind (py_str py (jget d ''canonical_slug'')) (\<lambda>slug.
                 Inr (Some \<lparr>lm_model_id = mid,
                   lm_name = (case jget d ''name'' of JStr n \<Rightarrow> if strip n \<noteq> [] then strip n else mid | _ \<Rightarrow> mid),
                   lm_context_tokens = positive_int (jget d ''context_length''),
                   lm_prompt_price = pp, lm_completion_price = cc,
                   lm_reasoning = (case jget d ''supported_parameters'' of
                      JList xs \<Rightarrow> JStr ''reasoning'' \<in> set xs | _ \<Rightarrow> False),
                   lm_intelligence_index = map_of index slug,
                   lm_supported_parameters = parse_supported_parameters d\<rparr>))))
        | None \<Rightarrow> Inr None)
   | _ \<Rightarrow> Inr None)"

fun listing_loop ::
  "pylib \<Rightarrow> (string \<times> rat) list \<Rightarrow> json list \<Rightarrow> (string \<times> listed_model) list \<Rightarrow> (string \<times> listed_model) list result" where
  "listing_loop py index [] listed = Inr listed"
| "listing_loop py index (raw # data) listed =
     sbind (listed_row py index raw) (\<lambda>r. listing_loop py index data
       (case r of None \<Rightarrow> listed | Some m \<Rightarrow> AList.update (lm_model_id m) m listed))"

definition parse_model_listing :: "pylib \<Rightarrow> json \<Rightarrow> benchmark_model list \<Rightarrow> listed_model list result" where
  "parse_model_listing py payload rows =
     (let index = foldl (\<lambda>d row. AList.update (permaslug row) (intelligence_index row) d) [] rows
      in sbind (payload_data payload) (\<lambda>data. sbind (listing_loop py index data []) (\<lambda>listed. Inr (map snd listed))))"

section \<open>The client\<close>

record model_catalog =
  mc_rows :: "benchmark_model list"
  mc_model_routes :: "(string \<times> model_route) list"
  mc_fetched_at :: timestamp
  mc_listing :: "listed_model list"

record catalog_client =
  cc_api_key :: "string option"
  cc_cached :: "model_catalog option"
  cc_cached_at :: "rat option"
  cc_named_routes :: "(string \<times> model_route \<times> timestamp) list"

datatype http_response = Transport_error | Response bool "json option"

text \<open>What one call reads: the answers to its requests, the clock (\<open>None\<close> is a naive timestamp), and the
  monotonic clock before the lock, under the lock and when the catalog is stored.\<close>

record catalog_io =
  io_benchmarks :: http_response
  io_models :: http_response
  io_clock :: "timestamp option"
  io_monotonic :: "rat \<times> rat \<times> rat"

definition new_client :: "string option \<Rightarrow> catalog_client" where
  "new_client key = \<lparr>cc_api_key = map_option strip key, cc_cached = None, cc_cached_at = None, cc_named_routes = []\<rparr>"

definition catalog_ttl_seconds :: rat where
  "catalog_ttl_seconds = 24 * 60 * 60"

definition fresh_cache :: "pylib \<Rightarrow> rat \<Rightarrow> catalog_client \<Rightarrow> model_catalog option" where
  "fresh_cache py now c = (case (cc_cached c, cc_cached_at c) of
     (Some m, Some t) \<Rightarrow>
       (let age = pl_fl64 py (now - t) in if 0 \<le> age \<and> age < catalog_ttl_seconds then Some m else None)
   | _ \<Rightarrow> None)"

definition request_client :: "catalog_client \<Rightarrow> unit result" where
  "request_client c = check (cc_api_key c = None \<or> cc_api_key c = Some []) (ModelCatalogUnavailable ''OPENROUTER_API_KEY'')"

definition response_json :: "http_response \<Rightarrow> json result" where
  "response_json r = (case r of
     Transport_error \<Rightarrow> Inl HttpFailure
   | Response success body \<Rightarrow>
       if \<not> success then Inl (ModelCatalogUnavailable ''HTTP status'')
       else (case body of None \<Rightarrow> Inl (ModelCatalogUnavailable ''not JSON'') | Some j \<Rightarrow> Inr j))"

definition aware_clock :: "timestamp option \<Rightarrow> timestamp result" where
  "aware_clock t = (case t of None \<Rightarrow> Inl (ModelCatalogUnavailable ''naive timestamp'') | Some n \<Rightarrow> Inr n)"

text \<open>The body of the \<open>try\<close>: the catalog and the named routes it adds. A failed transport makes \<open>gather\<close> raise
  before either answer is read.\<close>

definition fetch_catalog ::
  "pylib \<Rightarrow> catalog_io \<Rightarrow> (model_catalog \<times> (string \<times> model_route \<times> timestamp) list) result" where
  "fetch_catalog py io =
     (if Transport_error \<in> {io_benchmarks io, io_models io} then Inl HttpFailure
      else
        sbind (response_json (io_benchmarks io)) (\<lambda>benchmarks.
        sbind (response_json (io_models io)) (\<lambda>models.
        sbind (aware_clock (io_clock io)) (\<lambda>fetched_at.
        sbind (parse_benchmark_rows py benchmarks) (\<lambda>rows.
        sbind (parse_model_routes models) (\<lambda>routes.
        sbind (parse_model_listing py models rows) (\<lambda>listing.
        sbind (parse_named_routes models) (\<lambda>named.
        Inr (\<lparr>mc_rows = rows, mc_model_routes = routes, mc_fetched_at = fetched_at, mc_listing = listing\<rparr>,
             map (\<lambda>(key, route). (key, route, fetched_at)) named)))))))))"

definition unavailable_guard :: "'a result \<Rightarrow> 'a result" where
  "unavailable_guard r = (case r of
     Inl (ModelCatalogUnavailable m) \<Rightarrow> r
   | Inl _ \<Rightarrow> Inl (ModelCatalogUnavailable ''OpenRouter catalog request failed'')
   | Inr _ \<Rightarrow> r)"

text \<open>What \<open>load\<close> does once it holds the lock.\<close>

definition load_locked :: "pylib \<Rightarrow> catalog_io \<Rightarrow> catalog_client \<Rightarrow> model_catalog result \<times> catalog_client" where
  "load_locked py io c =
     (case fresh_cache py (fst (snd (io_monotonic io))) c of
        Some m \<Rightarrow> (Inr m, c)
      | None \<Rightarrow>
          (case sbind (request_client c) (\<lambda>_. unavailable_guard (fetch_catalog py io)) of
             Inl e \<Rightarrow> (Inl e, c)
           | Inr (m, named) \<Rightarrow>
               (Inr m, c\<lparr>cc_named_routes := AList.updates (map fst named) (map snd named) (cc_named_routes c),
                         cc_cached := Some m, cc_cached_at := Some (snd (snd (io_monotonic io)))\<rparr>)))"

definition load :: "pylib \<Rightarrow> catalog_io \<Rightarrow> catalog_client \<Rightarrow> model_catalog result \<times> catalog_client" where
  "load py io c =
     (case fresh_cache py (fst (io_monotonic io)) c of
        Some m \<Rightarrow> (Inr m, c) | None \<Rightarrow> load_locked py io c)"

definition fetch_named :: "catalog_io \<Rightarrow> (string \<times> model_route \<times> timestamp) list result" where
  "fetch_named io =
     sbind (response_json (io_models io)) (\<lambda>payload.
     sbind (aware_clock (io_clock io)) (\<lambda>fetched_at.
     sbind (parse_named_routes payload) (\<lambda>routes.
     Inr (map (\<lambda>(key, route). (key, route, fetched_at)) routes))))"

definition load_named_route ::
  "catalog_io \<Rightarrow> string \<Rightarrow> catalog_client \<Rightarrow> (model_route \<times> timestamp) result \<times> catalog_client" where
  "load_named_route io mid c =
     (case request_client c of
        Inl e \<Rightarrow> (Inl e, c)
      | Inr _ \<Rightarrow>
          (case fetch_named io of
             Inr routes \<Rightarrow>
               (case map_of routes mid of
                  None \<Rightarrow> Inl (NamedModelResolutionError mid)
                | Some r \<Rightarrow> Inr r, c\<lparr>cc_named_routes := routes\<rparr>)
           | Inl _ \<Rightarrow>
               (case map_of (cc_named_routes c) mid of
                  Some r \<Rightarrow> Inr r
                | None \<Rightarrow> Inl (ModelCatalogUnavailable ''OpenRouter model-list request failed''), c)))"

section \<open>What a parsed table satisfies\<close>

lemma round_half_even_nonneg: "0 \<le> x \<Longrightarrow> 0 \<le> round_half_even x"
  by (auto simp: round_half_even_def Let_def)

lemma dec_nonneg: "dec p x = Inr y \<Longrightarrow> 0 \<le> x \<Longrightarrow> 0 \<le> y"
  by (auto simp: dec_def dec_fix_def Let_def round_half_even_nonneg split: if_splits option.splits)

definition clean :: "string \<Rightarrow> bool" where
  "clean s \<longleftrightarrow> \<not> blank_or_padded s"

lemma clean_name_Some: "clean_name v = Some s \<Longrightarrow> clean s"
  by (auto simp: clean_name_def clean_def split: json.splits if_splits)

lemma positive_int_Some: "positive_int v = Some n \<Longrightarrow> 0 < n"
  by (auto simp: positive_int_def split: json.splits if_splits)

definition row_ok :: "benchmark_model \<Rightarrow> bool" where
  "row_ok r \<longleftrightarrow> clean (permaslug r) \<and> 0 \<le> prompt_price r \<and> 0 \<le> completion_price r"

definition route_ok :: "model_route \<Rightarrow> bool" where
  "route_ok r \<longleftrightarrow> clean (model_id r) \<and> 0 < context_tokens r \<and>
     (case input_modalities r of None \<Rightarrow> True | Some m \<Rightarrow> \<forall>x \<in> m. clean x)"

lemma benchmark_row_ok: "benchmark_row py raw = Inr (Some r) \<Longrightarrow> row_ok r"
  by (auto simp: benchmark_row_def row_ok_def per_million_def clean_name_Some dec_nonneg
      split: json.splits if_splits option.splits)

lemma update_values:
  "P (k, v) \<Longrightarrow> \<forall>x \<in> set d. P x \<Longrightarrow> \<forall>x \<in> set (AList.update k v d). P x"
  by (induction d) auto

lemma update_keyed:
  assumes "\<forall>(k, v) \<in> set d. f v = k \<and> P v" "P v"
  shows "\<forall>(k, v) \<in> set (AList.update (f v) v d). f v = k \<and> P v"
  using assms by (induction d) auto

lemma benchmark_loop_ok:
  assumes "benchmark_loop py data rows = Inr out"
    and "distinct (map fst rows)" "\<forall>(k, r) \<in> set rows. permaslug r = k \<and> row_ok r"
  shows "distinct (map fst out) \<and> (\<forall>(k, r) \<in> set out. permaslug r = k \<and> row_ok r)"
  using assms
proof (induction data arbitrary: rows)
  case (Cons raw data)
  obtain r where r: "benchmark_row py raw = Inr r" using Cons.prems(1) by auto
  show ?case
  proof (cases r)
    case None
    with Cons r show ?thesis by (simp add: sbind_def)
  next
    case (Some row)
    let ?u = "AList.update (permaslug row) row rows"
    have "benchmark_loop py data ?u = Inr out"
      using Cons.prems(1) r Some by (auto simp: sbind_def split: option.splits if_splits)
    moreover have "distinct (map fst ?u)" "\<forall>(k, r) \<in> set ?u. permaslug r = k \<and> row_ok r"
      using Cons.prems(2) update_keyed [OF Cons.prems(3) benchmark_row_ok] r Some
      by (simp_all add: distinct_update)
    ultimately show ?thesis by (rule Cons.IH)
  qed
qed simp

lemma parse_benchmark_rows_ok:
  assumes "parse_benchmark_rows py payload = Inr rows"
  shows "rows \<noteq> []" "distinct (map permaslug rows)" "\<forall>r \<in> set rows. row_ok r"
proof -
  obtain data d where d: "benchmark_loop py data [] = Inr d" "rows = map snd d" "d \<noteq> []"
    using assms by (auto simp: parse_benchmark_rows_def split: if_splits)
  have ok: "distinct (map fst d)" "\<forall>(k, r) \<in> set d. permaslug r = k \<and> row_ok r"
    using benchmark_loop_ok [OF d(1)] by simp_all
  have "map permaslug rows = map fst d" unfolding d(2) using ok(2) by (auto simp: case_prod_beta)
  with ok(1) show "distinct (map permaslug rows)" by simp
  show "rows \<noteq> []" "\<forall>r \<in> set rows. row_ok r" using ok(2) d(2,3) by auto
qed

lemma parse_input_modalities_clean: "parse_input_modalities d = Some m \<Longrightarrow> x \<in> m \<Longrightarrow> clean x"
  by (auto simp: parse_input_modalities_def strings_in_def clean_name_def clean_def list_ex_iff
      split: json.splits if_splits)

definition entry_ok :: "string \<times> route_value \<Rightarrow> bool" where
  "entry_ok x \<longleftrightarrow> clean (fst x) \<and> (case fst (snd (snd x)) of None \<Rightarrow> True | Some m \<Rightarrow> \<forall>y \<in> m. clean y)"

definition group_ok :: "route_groups \<Rightarrow> bool" where
  "group_ok g \<longleftrightarrow> distinct (map fst g) \<and> (\<forall>x \<in> set g. \<forall>y \<in> set (snd x). entry_ok y)"

lemma group_routes_ok: "group_routes data canonical g = Inr out \<Longrightarrow> group_ok g \<Longrightarrow> group_ok out"
proof (induction data arbitrary: canonical g)
  case (Cons raw data)
  show ?case
  proof (cases "\<exists>d mid slug. raw = JObj d \<and> clean_name (jget d ''id'') = Some mid \<and> clean_name (jget d ''canonical_slug'') = Some slug")
    case False
    then have "group_routes data canonical g = Inr out"
      using Cons.prems(1) by (cases raw) (auto split: option.splits)
    then show ?thesis using Cons.IH Cons.prems(2) by blast
  next
    case True
    then obtain d mid slug where d: "raw = JObj d" "clean_name (jget d ''id'') = Some mid"
      "clean_name (jget d ''canonical_slug'') = Some slug" by blast
    let ?routes = "case map_of g slug of None \<Rightarrow> [] | Some r \<Rightarrow> r"
    let ?v = "(jget d ''context_length'', parse_input_modalities d, parse_supported_parameters d)"
    let ?g = "AList.update slug (AList.update mid ?v ?routes) g"
    have rec: "group_routes data (AList.update mid slug canonical) ?g = Inr out"
      using Cons.prems(1) d by (simp add: Let_def split: if_splits)
    have "\<forall>x \<in> set ?routes. entry_ok x"
      using Cons.prems(2) unfolding group_ok_def by (force split: option.splits dest: map_of_SomeD)
    moreover have "entry_ok (mid, ?v)"
      using clean_name_Some [OF d(2)] parse_input_modalities_clean [of d] by (auto simp: entry_ok_def split: option.splits)
    ultimately have "\<forall>x \<in> set (AList.update mid ?v ?routes). entry_ok x" by (intro update_values)
    then have "group_ok ?g"
      using Cons.prems(2) unfolding group_ok_def by (intro conjI distinct_update update_values) simp_all
    with rec show ?thesis by (rule Cons.IH)
  qed
qed simp

lemma resolve_group_ok:
  assumes "group_ok g" "(slug, r) \<in> set (concat (map resolve_group g))"
  shows "route_ok r"
proof -
  obtain s by_id where g: "(s, by_id) \<in> set g" "(slug, r) \<in> set (resolve_group (s, by_id))" using assms(2) by auto
  then obtain i v where v: "map_of by_id i = Some v" "route_of i v = Some r"
    by (cases "selected_id by_id"; cases "map_of by_id (the (selected_id by_id))";
        cases "route_of (the (selected_id by_id)) (the (map_of by_id (the (selected_id by_id))))")
      (auto simp: resolve_group_def)
  have "entry_ok (i, v)" using assms(1) g(1) map_of_SomeD [OF v(1)] unfolding group_ok_def by fastforce
  with v(2) show ?thesis
    by (auto simp: route_of_def route_ok_def entry_ok_def positive_int_Some split: option.splits)
qed

lemma parse_model_routes_ok:
  assumes "parse_model_routes payload = Inr routes"
  shows "routes \<noteq> []" "(slug, r) \<in> set routes \<Longrightarrow> route_ok r"
proof -
  obtain data g where g: "group_routes data [] [] = Inr g" "routes = concat (map resolve_group g)" "routes \<noteq> []"
    using assms by (auto simp: parse_model_routes_def Let_def split: if_splits)
  then show "routes \<noteq> []" by simp
  have "group_ok g" using group_routes_ok [OF g(1)] by (simp add: group_ok_def)
  with g(2) show "route_ok r" if "(slug, r) \<in> set routes" using that resolve_group_ok by blast
qed

definition named_ok :: "(string \<times> model_route) list \<Rightarrow> bool" where
  "named_ok d \<longleftrightarrow> (\<forall>(k, r) \<in> set d. model_id r = k \<and> route_ok r)"

lemma named_loop_ok: "named_loop data d = Inr out \<Longrightarrow> named_ok d \<Longrightarrow> named_ok out"
proof (induction data arbitrary: d)
  case (Cons raw data)
  show ?case
  proof (cases "\<exists>j mid n. raw = JObj j \<and> clean_name (jget j ''id'') = Some mid \<and> positive_int (jget j ''context_length'') = Some n")
    case False
    then have "named_loop data d = Inr out"
      using Cons.prems(1) by (cases raw) (auto split: option.splits)
    then show ?thesis using Cons.IH Cons.prems(2) by blast
  next
    case True
    then obtain j mid n where d: "raw = JObj j" "clean_name (jget j ''id'') = Some mid"
      "positive_int (jget j ''context_length'') = Some n" by blast
    let ?r = "\<lparr>model_id = mid, context_tokens = n, input_modalities = parse_input_modalities j,
                         supported_parameters = parse_supported_parameters j\<rparr>"
    have rec: "named_loop data (AList.update mid ?r d) = Inr out"
      using Cons.prems(1) d by (simp add: Let_def split: if_splits)
    have "route_ok ?r"
      using clean_name_Some [OF d(2)] positive_int_Some [OF d(3)] parse_input_modalities_clean [of j]
      by (auto simp: route_ok_def split: option.splits)
    then have "named_ok (AList.update mid ?r d)"
      using Cons.prems(2) update_keyed [of d model_id route_ok ?r] by (simp add: named_ok_def)
    with rec show ?thesis by (rule Cons.IH)
  qed
qed simp

lemma parse_named_routes_ok: "parse_named_routes payload = Inr d \<Longrightarrow> named_ok d"
  using named_loop_ok [of _ "[]" d] by (auto simp: parse_named_routes_def named_ok_def split: if_splits)

section \<open>The loader's contract\<close>

definition catalog_ok :: "model_catalog \<Rightarrow> bool" where
  "catalog_ok m \<longleftrightarrow> mc_rows m \<noteq> [] \<and> distinct (map permaslug (mc_rows m)) \<and> (\<forall>r \<in> set (mc_rows m). row_ok r) \<and>
     mc_model_routes m \<noteq> [] \<and> (\<forall>(slug, r) \<in> set (mc_model_routes m). route_ok r)"

definition load_answer :: "model_catalog result \<Rightarrow> bool" where
  "load_answer r \<longleftrightarrow> (case r of Inr m \<Rightarrow> catalog_ok m | Inl e \<Rightarrow> \<exists>m. e = ModelCatalogUnavailable m)"

definition named_answer :: "string \<Rightarrow> (model_route \<times> timestamp) result \<Rightarrow> bool" where
  "named_answer mid r \<longleftrightarrow> (case r of
     Inr (route, t) \<Rightarrow> model_id route = mid \<and> route_ok route
   | Inl e \<Rightarrow> (\<exists>m. e = ModelCatalogUnavailable m) \<or> e = NamedModelResolutionError mid)"

text \<open>What the resolver relies on (\<open>ModelCatalogLoader\<close>).\<close>

locale catalog_loader =
  fixes do_load :: "'io \<Rightarrow> 'c \<Rightarrow> model_catalog result \<times> 'c"
    and do_named :: "'io \<Rightarrow> string \<Rightarrow> 'c \<Rightarrow> (model_route \<times> timestamp) result \<times> 'c"
    and loader_ok :: "'c \<Rightarrow> bool"
  assumes load_law: "loader_ok c \<Longrightarrow> do_load io c = (r, c') \<Longrightarrow> loader_ok c' \<and> load_answer r"
    and named_law: "loader_ok c \<Longrightarrow> do_named io mid c = (q, c') \<Longrightarrow> loader_ok c' \<and> named_answer mid q"
begin

definition call :: "'io \<times> string option \<Rightarrow> 'c \<Rightarrow> 'c" where
  "call x c = (case snd x of None \<Rightarrow> snd (do_load (fst x) c) | Some mid \<Rightarrow> snd (do_named (fst x) mid c))"

lemma call_ok: "loader_ok c \<Longrightarrow> loader_ok (call x c)"
  unfolding call_def using load_law named_law by (metis option.case_eq_if prod.collapse)

lemma calls_ok: "loader_ok c \<Longrightarrow> loader_ok (foldl (\<lambda>c x. call x c) c xs)"
  by (induction xs arbitrary: c) (simp_all add: call_ok)

lemma load_answers: "loader_ok c \<Longrightarrow> load_answer (fst (do_load io (foldl (\<lambda>c x. call x c) c xs)))"
  using load_law calls_ok by (metis prod.collapse)

lemma named_answers: "loader_ok c \<Longrightarrow> named_answer mid (fst (do_named io mid (foldl (\<lambda>c x. call x c) c xs)))"
  using named_law calls_ok by (metis prod.collapse)

end

definition client_ok :: "catalog_client \<Rightarrow> bool" where
  "client_ok c \<longleftrightarrow> (case cc_cached c of None \<Rightarrow> True | Some m \<Rightarrow> catalog_ok m) \<and>
     (\<forall>(k, r, t) \<in> set (cc_named_routes c). model_id r = k \<and> route_ok r)"

lemma stamp_named_ok:
  "named_ok d \<Longrightarrow> \<forall>(k, r, t) \<in> set (map (\<lambda>(key, route). (key, route, n)) d). model_id r = k \<and> route_ok r"
  by (auto simp: named_ok_def)

lemma updates_values:
  "length ks = length vs \<Longrightarrow> \<forall>x \<in> set (zip ks vs). P x \<Longrightarrow> \<forall>x \<in> set d. P x \<Longrightarrow> \<forall>x \<in> set (AList.updates ks vs d). P x"
proof (induction ks vs arbitrary: d rule: list_induct2)
  case (Cons k ks v vs)
  have "\<forall>x \<in> set (AList.update k v d). P x"
    using Cons.prems by (intro update_values) simp_all
  with Cons show ?case by simp
qed simp

lemma fetch_catalog_ok:
  assumes "fetch_catalog py io = Inr (m, named)"
  shows "catalog_ok m" "\<forall>(k, r, t) \<in> set named. model_id r = k \<and> route_ok r"
proof -
  obtain b p rows routes ls ns n where *: "parse_benchmark_rows py b = Inr rows" "parse_model_routes p = Inr routes"
    "parse_named_routes p = Inr ns"
    "m = \<lparr>mc_rows = rows, mc_model_routes = routes, mc_fetched_at = n, mc_listing = ls\<rparr>"
    "named = map (\<lambda>(key, route). (key, route, n)) ns"
    using assms unfolding fetch_catalog_def
    by (simp only: sbind_Inr sum.inject prod.inject sum.distinct split: if_split_asm)
      (elim exE conjE, rule that, assumption, assumption, assumption, (erule sym)+)
  show "catalog_ok m"
    using parse_benchmark_rows_ok [OF *(1)] parse_model_routes_ok [OF *(2)] by (auto simp: *(4) catalog_ok_def)
  show "\<forall>(k, r, t) \<in> set named. model_id r = k \<and> route_ok r"
    unfolding *(5) by (rule stamp_named_ok [OF parse_named_routes_ok [OF *(3)]])
qed

lemma load_locked_ok:
  assumes "client_ok c" "load_locked py io c = (r, c')"
  shows "client_ok c' \<and> load_answer r"
proof (cases "fresh_cache py (fst (snd (io_monotonic io))) c")
  case (Some m)
  then have "cc_cached c = Some m" by (auto simp: fresh_cache_def Let_def split: option.splits if_splits)
  with Some assms show ?thesis by (auto simp: load_locked_def client_ok_def load_answer_def)
next
  case None
  show ?thesis
  proof (cases "sbind (request_client c) (\<lambda>_. unavailable_guard (fetch_catalog py io))")
    case (Inl e)
    then have "\<exists>m. e = ModelCatalogUnavailable m"
      by (auto simp: sbind_def request_client_def check_def unavailable_guard_def
          split: sum.splits if_splits policy_error.splits)
    with None Inl assms show ?thesis by (auto simp: load_locked_def load_answer_def)
  next
    case (Inr x)
    then obtain m named where x: "x = (m, named)" "fetch_catalog py io = Inr (m, named)"
      by (cases x) (auto simp: unavailable_guard_def split: sum.splits policy_error.splits)
    note ok = fetch_catalog_ok [OF x(2)]
    have "\<forall>(k, r, t) \<in> set (AList.updates (map fst named) (map snd named) (cc_named_routes c)). model_id r = k \<and> route_ok r"
      using ok(2) assms(1) by (intro updates_values) (simp_all add: zip_map_fst_snd client_ok_def)
    moreover have "r = Inr m" "c' = c\<lparr>cc_named_routes := AList.updates (map fst named) (map snd named) (cc_named_routes c),
        cc_cached := Some m, cc_cached_at := Some (snd (snd (io_monotonic io)))\<rparr>"
      using assms(2) unfolding load_locked_def None option.case Inr x(1) by simp_all
    ultimately show ?thesis using ok(1) by (simp add: load_answer_def client_ok_def)
  qed
qed

lemma load_ok:
  assumes "client_ok c" "load py io c = (r, c')"
  shows "client_ok c' \<and> load_answer r"
proof (cases "fresh_cache py (fst (io_monotonic io)) c")
  case (Some m)
  then have "cc_cached c = Some m" by (auto simp: fresh_cache_def Let_def split: option.splits if_splits)
  with Some assms show ?thesis by (auto simp: load_def client_ok_def load_answer_def)
next
  case None
  with assms load_locked_ok show ?thesis by (simp add: load_def)
qed

lemma load_named_route_ok:
  assumes "client_ok c" "load_named_route io mid c = (q, c')"
  shows "client_ok c' \<and> named_answer mid q"
proof -
  have old: "named_answer mid (Inr r)" if "map_of (cc_named_routes c) mid = Some r" for r
    using map_of_SomeD [OF that] assms(1) by (cases r) (auto simp: client_ok_def named_answer_def)
  have new: "(\<forall>(k, r, t) \<in> set routes. model_id r = k \<and> route_ok r)" if f: "fetch_named io = Inr routes" for routes
  proof -
    from f obtain p d n where "parse_named_routes p = Inr d" "routes = map (\<lambda>(key, route). (key, route, n)) d"
      by (auto simp: fetch_named_def)
    with stamp_named_ok [OF parse_named_routes_ok] show ?thesis by simp
  qed
  show ?thesis
  proof (cases "request_client c")
    case (Inl e)
    with assms show ?thesis
      by (auto simp: load_named_route_def named_answer_def request_client_def check_def split: if_splits)
  next
    case (Inr u)
    show ?thesis
    proof (cases "fetch_named io")
      case (Inl e)
      with Inr assms old show ?thesis
        by (auto simp: load_named_route_def named_answer_def split: option.splits)
    next
      case (Inr routes)
      note ok = new [OF this]
      have "named_answer mid (Inr r)" if "map_of routes mid = Some r" for r
        using map_of_SomeD [OF that] ok by (cases r) (auto simp: named_answer_def)
      with Inr \<open>request_client c = Inr u\<close> ok assms show ?thesis
        by (auto simp: load_named_route_def named_answer_def client_ok_def split: option.splits)
    qed
  qed
qed

interpretation open_router: catalog_loader "load py" load_named_route client_ok
  by unfold_locales (erule (1) load_ok, erule (1) load_named_route_ok)

section \<open>Any history of calls\<close>

definition run_calls :: "pylib \<Rightarrow> (catalog_io \<times> string option) list \<Rightarrow> catalog_client \<Rightarrow> catalog_client" where
  "run_calls py xs c = foldl (\<lambda>c x. case snd x of
     None \<Rightarrow> snd (load py (fst x) c) | Some mid \<Rightarrow> snd (load_named_route (fst x) mid c)) c xs"

lemma run_calls_call: "run_calls py xs c = foldl (\<lambda>c x. open_router.call py x c) c xs"
  unfolding run_calls_def open_router.call_def ..

lemma client_ok_new: "client_ok (new_client key)"
  by (simp add: client_ok_def new_client_def)

text \<open>C24: After any history of \<open>load\<close> and \<open>load_named_route\<close> calls on a new client, with any answers
  of the network and of the clocks, a \<open>load\<close> gives either \<open>ModelCatalogUnavailable\<close> or a well-formed catalog
  (at least one row, one row per permaslug, no negative price, at least one route, every route with a clean
  id, a positive context window and clean modalities), and \<open>load_named_route\<close> gives a
  well-formed route for exactly the id asked for, or one of its two documented errors.\<close>

theorem catalog_answers:
  "(case fst (load py io (run_calls py xs (new_client key))) of
      Inr m \<Rightarrow> catalog_ok m
    | Inl e \<Rightarrow> \<exists>m. e = ModelCatalogUnavailable m) \<and>
   (case fst (load_named_route io mid (run_calls py xs (new_client key))) of
      Inr (route, fetched_at) \<Rightarrow> model_id route = mid \<and> route_ok route
    | Inl e \<Rightarrow> (\<exists>m. e = ModelCatalogUnavailable m) \<or> e = NamedModelResolutionError mid)"
  unfolding run_calls_call
  by (rule conjI, rule open_router.load_answers [OF client_ok_new, unfolded load_answer_def],
      rule open_router.named_answers [OF client_ok_new, unfolded named_answer_def])

end
