(* ===== verification/Resolver.thy ===== *)
theory Resolver
  imports Catalog
begin

text \<open>
  The per-thread resolver of \<open>src/spine/model_policy.py\<close> (\<open>ModelPolicyResolver\<close>). The answers it awaits from its
  catalog loader are arguments: \<open>ask slug\<close> is what \<open>load_named_route(slug)\<close> gives and \<open>loaded\<close> what \<open>load()\<close>
  gives. A coroutine reads its object again after an await, so an operation that awaits takes the state at
  entry and the state at the await's return; \<open>mstep\<close> lets any tasks interleave at these points, under the
  resolver's lock. The hooks \<open>parse_named_model\<close> and \<open>qualify_model\<close>, which a loader outside the
  repository may add, are fields of \<open>loader\<close>.
\<close>

section \<open>Resolutions\<close>

datatype effort = Effort_none | Minimal | Low | Medium | High | Xhigh

record model_request_parameters =
  rp_temperature :: "rat option"
  rp_top_p :: "rat option"
  rp_top_k :: "int option"
  rp_max_tokens :: "int option"
  rp_effort :: "effort option"

definition outside :: "'a :: linorder \<Rightarrow> 'a \<Rightarrow> 'a option \<Rightarrow> bool" where
  "outside lo hi v = (case v of None \<Rightarrow> False | Some x \<Rightarrow> \<not> (lo \<le> x \<and> x \<le> hi))"

definition make_request_parameters :: "model_request_parameters \<Rightarrow> model_request_parameters result" where
  "make_request_parameters p =
     (if outside 0 2 (rp_temperature p) then Inl (BadValue ''temperature must be between 0 and 2'')
      else if outside 0 1 (rp_top_p p) then Inl (BadValue ''top_p must be between 0 and 1'')
      else if outside 0 500 (rp_top_k p) then Inl (BadValue ''top_k must be an integer between 0 and 500'')
      else if outside 1 131072 (rp_max_tokens p) then Inl (BadValue ''max_tokens must be an integer between 1 and 131072'')
      else Inr p)"

definition default_parameters :: model_request_parameters where
  "default_parameters = \<lparr>rp_temperature = None, rp_top_p = None, rp_top_k = None, rp_max_tokens = None, rp_effort = None\<rparr>"

record resolution =
  tr_model :: string
  tr_context_tokens :: int
  tr_policy :: string
  tr_price_sorted :: bool
  tr_input_modalities :: "string set option"
  tr_benchmark :: "benchmark_model option"
  tr_catalog_fetched_at :: "timestamp option"
  tr_stickiness_epoch :: int
  tr_supported_parameters :: "string set option"
  tr_request_parameters :: model_request_parameters

text \<open>A resolution with the defaults of the dataclass.\<close>

definition resolution_of :: "string \<Rightarrow> int \<Rightarrow> string \<Rightarrow> resolution" where
  "resolution_of model tokens policy = \<lparr>tr_model = model, tr_context_tokens = tokens, tr_policy = policy,
     tr_price_sorted = False, tr_input_modalities = None, tr_benchmark = None, tr_catalog_fetched_at = None,
     tr_stickiness_epoch = 0, tr_supported_parameters = None, tr_request_parameters = default_parameters\<rparr>"

text \<open>The dataclass constructor with its \<open>__post_init__\<close>.\<close>

definition make_resolution :: "resolution \<Rightarrow> resolution result" where
  "make_resolution r =
     sbind (validate_model_name (tr_model r)) (\<lambda>_.
     sbind (check (tr_context_tokens r \<le> 0) (BadValue ''context_tokens'')) (\<lambda>_.
     sbind (check (tr_stickiness_epoch r < 0) (BadValue ''stickiness_epoch'')) (\<lambda>_.
     sbind (check (case tr_input_modalities r of None \<Rightarrow> False | Some m \<Rightarrow> \<exists>x \<in> m. blank_or_padded x)
       (BadValue ''input_modalities'')) (\<lambda>_. Inr r))))"

definition uses_openrouter :: "resolution \<Rightarrow> bool" where
  "uses_openrouter r \<longleftrightarrow> startswith (tr_model r) ''openrouter:''"

section \<open>The resolver\<close>

record loader =
  ld_parse_named_model :: "(string \<Rightarrow> string result) option"
  ld_qualify_model :: "(string \<Rightarrow> string result) option"

record resolver =
  rs_policy_text :: string
  rs_policy :: model_policy
  rs_static_model :: string
  rs_static_context_tokens :: int
  rs_catalog :: "loader option"
  rs_resolutions :: "string \<rightharpoonup> resolution"
  rs_image_resolutions :: "string \<times> string \<times> int \<rightharpoonup> resolution"
  rs_image_input :: "string \<rightharpoonup> string set"

definition new_resolver :: "string \<Rightarrow> string \<Rightarrow> int \<Rightarrow> loader option \<Rightarrow> resolver result" where
  "new_resolver policy static_model tokens catalog =
     sbind (parse_model_policy policy) (\<lambda>p.
     sbind (validate_model_name static_model) (\<lambda>_.
     sbind (check (tokens \<le> 0) (ModelPolicyConfigurationError ''static model context tokens'')) (\<lambda>_.
     Inr \<lparr>rs_policy_text = policy, rs_policy = p, rs_static_model = static_model, rs_static_context_tokens = tokens,
       rs_catalog = catalog, rs_resolutions = Map.empty, rs_image_resolutions = Map.empty, rs_image_input = Map.empty\<rparr>)))"

definition set_policy :: "string \<Rightarrow> resolver \<Rightarrow> unit result \<times> resolver" where
  "set_policy policy rs = (case parse_model_policy policy of
     Inl e \<Rightarrow> (Inl e, rs) | Inr p \<Rightarrow> (Inr (), rs\<lparr>rs_policy_text := policy, rs_policy := p\<rparr>))"

definition check_thread :: "string \<Rightarrow> unit result" where
  "check_thread tid = check (strip tid = []) (BadValue ''thread_id must not be blank'')"

definition openrouter_prefix :: string where
  "openrouter_prefix = ''openrouter:''"

definition parse_named_model :: "loader option \<Rightarrow> string \<Rightarrow> string result" where
  "parse_named_model catalog model =
     (case (case catalog of None \<Rightarrow> None | Some l \<Rightarrow> ld_parse_named_model l) of
        Some parser \<Rightarrow> sbind (parser model) (\<lambda>parsed.
          if parsed = [] then Inl (NamedModelResolutionError ''invalid model id'') else Inr parsed)
      | None \<Rightarrow>
          if \<not> startswith model openrouter_prefix \<or> model \<noteq> strip model \<or> drop 11 model = []
          then Inl (NamedModelResolutionError ''openrouter:<broker-model-id>'') else Inr (drop 11 model))"

definition qualify_model :: "loader \<Rightarrow> string \<Rightarrow> string result" where
  "qualify_model l mid = (case ld_qualify_model l of
     Some qualifier \<Rightarrow> sbind (qualifier mid) (\<lambda>q. sbind (validate_model_name q) (\<lambda>_. Inr q))
   | None \<Rightarrow> Inr (openrouter_prefix @ mid))"

type_synonym asking = "string \<Rightarrow> (model_route \<times> timestamp) result"

definition resolve_named :: "resolver \<Rightarrow> string \<Rightarrow> string \<Rightarrow> asking \<Rightarrow> resolution result" where
  "resolve_named rs tid model ask =
     sbind (check_thread tid) (\<lambda>_.
     sbind (parse_named_model (rs_catalog rs) model) (\<lambda>slug.
     case rs_catalog rs of
       None \<Rightarrow> Inl (ModelCatalogUnavailable ''model router catalog is not configured'')
     | Some l \<Rightarrow>
         sbind (ask slug) (\<lambda>(route, fetched_at).
         sbind (qualify_model l (model_id route)) (\<lambda>q.
         make_resolution ((resolution_of q (context_tokens route) ''human_command'')
           \<lparr>tr_input_modalities := input_modalities route, tr_supported_parameters := supported_parameters route,
            tr_catalog_fetched_at := Some fetched_at\<rparr>)))))"

text \<open>The exceptions that keep an identity or fail open.\<close>

fun catalog_missing :: "policy_error \<Rightarrow> bool" where
  "catalog_missing (ModelCatalogUnavailable _) = True"
| "catalog_missing (NamedModelResolutionError _) = True"
| "catalog_missing _ = False"

definition resolve_hydrated :: "resolver \<Rightarrow> string \<Rightarrow> string \<Rightarrow> asking \<Rightarrow> resolution result" where
  "resolve_hydrated rs tid model ask = (case resolve_named rs tid model ask of
     Inr r \<Rightarrow> Inr r
   | Inl e \<Rightarrow> if catalog_missing e
       then make_resolution (resolution_of model (rs_static_context_tokens rs) ''hydrated_unverified'') else Inl e)"

subsection \<open>Resolving a thread\<close>

text \<open>The pinned branch, when the pick is not the configured model and there is a catalog: \<open>rs0\<close> before and
  \<open>rs\<close> after the await. The image input is stored under the value the policy has by then.\<close>

definition pinned_route ::
  "resolver \<Rightarrow> resolver \<Rightarrow> string \<Rightarrow> string \<Rightarrow> asking \<Rightarrow>
     (int \<times> string set option \<times> string set option) result \<times> resolver" where
  "pinned_route rs0 rs tid pick ask = (case resolve_named rs0 tid pick ask of
     Inr named \<Rightarrow>
       (Inr (tr_context_tokens named, tr_supported_parameters named, tr_input_modalities named),
        (case (rs_policy rs, tr_input_modalities named) of
           (Pinned now, Some m) \<Rightarrow> rs\<lparr>rs_image_input := (rs_image_input rs)(now \<mapsto> m)\<rparr>
         | _ \<Rightarrow> rs))
   | Inl e \<Rightarrow> (if catalog_missing e then Inr (rs_static_context_tokens rs, None, None) else Inl e, rs))"

definition pinned_resolution ::
  "resolver \<Rightarrow> int \<times> string set option \<times> string set option \<Rightarrow> resolution result" where
  "pinned_resolution rs = (\<lambda>(tokens, params, modalities). case rs_policy rs of
     Pinned v \<Rightarrow> make_resolution ((resolution_of v tokens (rs_policy_text rs))
       \<lparr>tr_supported_parameters := params, tr_input_modalities := modalities\<rparr>)
   | _ \<Rightarrow> Inl (ModelPolicyConfigurationError ''nonblank''))"

definition fallback :: "resolver \<Rightarrow> resolution result" where
  "fallback rs = make_resolution ((resolution_of (rs_static_model rs) (rs_static_context_tokens rs) (rs_policy_text rs))
     \<lparr>tr_price_sorted := True\<rparr>)"

definition catalog_choice ::
  "(rat \<Rightarrow> rat) \<Rightarrow> model_policy \<Rightarrow> model_catalog result \<Rightarrow> (benchmark_model \<times> model_route \<times> timestamp) result" where
  "catalog_choice log10 policy loaded =
     sbind loaded (\<lambda>catalog.
     sbind (select_model log10 policy (mc_rows catalog)) (\<lambda>selected.
     case map_of (mc_model_routes catalog) (permaslug selected) of
       None \<Rightarrow> Inl (ModelCatalogUnavailable ''no unambiguous positive-context route'')
     | Some route \<Rightarrow> Inr (selected, route, mc_fetched_at catalog)))"

definition resolve_uncached ::
  "(rat \<Rightarrow> rat) \<Rightarrow> resolver \<Rightarrow> resolver \<Rightarrow> string \<Rightarrow> asking \<Rightarrow> model_catalog result \<Rightarrow> resolution result \<times> resolver" where
  "resolve_uncached log10 rs0 rs tid ask loaded = (case rs_policy rs0 of
     Pinned pick \<Rightarrow>
       if pick \<noteq> rs_static_model rs0 \<and> rs_catalog rs0 \<noteq> None then
         (case pinned_route rs0 rs tid pick ask of
            (Inl e, rs') \<Rightarrow> (Inl e, rs')
          | (Inr v, rs') \<Rightarrow> (pinned_resolution rs' v, rs'))
       else (pinned_resolution rs0 (rs_static_context_tokens rs0, None, None), rs)
   | _ \<Rightarrow>
       (case rs_catalog rs0 of
          None \<Rightarrow> (fallback rs0, rs)
        | Some l \<Rightarrow>
            (case catalog_choice log10 (rs_policy rs) loaded of
               Inl (ModelCatalogUnavailable _) \<Rightarrow> fallback rs
             | Inl e \<Rightarrow> Inl e
             | Inr (selected, route, fetched_at) \<Rightarrow>
                 sbind (qualify_model l (model_id route)) (\<lambda>q.
                 make_resolution ((resolution_of q (context_tokens route) (rs_policy_text rs))
                   \<lparr>tr_price_sorted := True, tr_input_modalities := input_modalities route,
                    tr_supported_parameters := supported_parameters route, tr_benchmark := Some selected,
                    tr_catalog_fetched_at := Some fetched_at\<rparr>)), rs)))"

text \<open>Storing what was resolved under the lock.\<close>

definition retain :: "string \<Rightarrow> resolution result \<times> resolver \<Rightarrow> resolution result \<times> resolver" where
  "retain tid = (\<lambda>(r, rs). case r of
     Inl e \<Rightarrow> (Inl e, rs) | Inr v \<Rightarrow> (Inr v, rs\<lparr>rs_resolutions := (rs_resolutions rs)(tid \<mapsto> v)\<rparr>))"

text \<open>\<open>resolve\<close> when nothing else runs during its awaits.\<close>

definition resolve ::
  "(rat \<Rightarrow> rat) \<Rightarrow> string \<Rightarrow> asking \<Rightarrow> model_catalog result \<Rightarrow> resolver \<Rightarrow> resolution result \<times> resolver" where
  "resolve log10 tid ask loaded rs = (case check_thread tid of
     Inl e \<Rightarrow> (Inl e, rs)
   | Inr _ \<Rightarrow>
       (case rs_resolutions rs tid of
          Some r \<Rightarrow> (Inr r, rs)
        | None \<Rightarrow> retain tid (resolve_uncached log10 rs rs tid ask loaded)))"

subsection \<open>Image input\<close>

text \<open>Before the catalog is asked: an answer, an error, or the cache key to ask for.\<close>

definition image_lookup :: "resolver \<Rightarrow> string \<Rightarrow> resolution \<Rightarrow> resolution option result" where
  "image_lookup rs tid r =
     sbind (check_thread tid) (\<lambda>_.
     if \<not> uses_openrouter r \<or> tr_input_modalities r \<noteq> None then Inr (Some r)
     else if rs_catalog rs = None then Inl (ModelCatalogUnavailable ''OpenRouter catalog is not configured'')
     else case rs_image_resolutions rs (tid, tr_model r, tr_stickiness_epoch r) of
         Some cached \<Rightarrow> Inr (Some cached)
       | None \<Rightarrow>
           (case rs_image_input rs (tr_model r) of
              Some known \<Rightarrow> sbind (make_resolution (r\<lparr>tr_input_modalities := Some known\<rparr>)) (\<lambda>v. Inr (Some v))
            | None \<Rightarrow> Inr None))"

text \<open>When the answer arrives: the enriched resolution; its image input is remembered for the model.\<close>

definition image_answer :: "resolver \<Rightarrow> resolution \<Rightarrow> asking \<Rightarrow> resolution result \<times> resolver" where
  "image_answer rs r ask =
     (let slug = drop 11 (tr_model r) in
      case sbind (ask slug) (\<lambda>(route, fetched_at).
             sbind (check (model_id route \<noteq> slug) (NamedModelResolutionError slug)) (\<lambda>_.
             make_resolution (r\<lparr>tr_input_modalities := input_modalities route, tr_catalog_fetched_at := Some fetched_at\<rparr>))) of
        Inl e \<Rightarrow> (Inl e, rs)
      | Inr v \<Rightarrow> (Inr v, (case tr_input_modalities v of
            None \<Rightarrow> rs | Some m \<Rightarrow> rs\<lparr>rs_image_input := (rs_image_input rs)(tr_model r \<mapsto> m)\<rparr>)))"

text \<open>Under the lock: the first enriched resolution of the epoch stands, for the image cache and for the thread.\<close>

definition image_store :: "string \<Rightarrow> resolution \<Rightarrow> resolution \<Rightarrow> resolver \<Rightarrow> resolution \<times> resolver" where
  "image_store tid r enriched rs =
     (let key = (tid, tr_model r, tr_stickiness_epoch r);
          current = (case rs_image_resolutions rs key of None \<Rightarrow> enriched | Some c \<Rightarrow> c);
          rs1 = rs\<lparr>rs_image_resolutions := (rs_image_resolutions rs)(key \<mapsto> current)\<rparr>
      in (current,
          (case rs_resolutions rs tid of
             Some retained \<Rightarrow>
               if tr_model retained = tr_model r \<and> tr_stickiness_epoch retained = tr_stickiness_epoch r
               then rs1\<lparr>rs_resolutions := (rs_resolutions rs)(tid \<mapsto> current)\<rparr> else rs1
           | None \<Rightarrow> rs1)))"

definition resolve_image_capability :: "string \<Rightarrow> resolution \<Rightarrow> asking \<Rightarrow> resolver \<Rightarrow> resolution result \<times> resolver" where
  "resolve_image_capability tid r ask rs = (case image_lookup rs tid r of
     Inl e \<Rightarrow> (Inl e, rs)
   | Inr (Some v) \<Rightarrow> (Inr v, rs)
   | Inr None \<Rightarrow>
       (case image_answer rs r ask of
          (Inl e, rs') \<Rightarrow> (Inl e, rs')
        | (Inr v, rs') \<Rightarrow>
            if tr_input_modalities v = None then (Inr v, rs')
            else (case image_store tid r v rs' of (c, rs'') \<Rightarrow> (Inr c, rs''))))"

subsection \<open>Explaining a choice\<close>

text \<open>What \<open>explain\<close> says, before it is put into words.\<close>

datatype explanation =
    Explicit_choice
  | Evidence_unavailable
  | Pinned_choice
  | Fallback_choice model_policy
  | Catalog_choice model_policy benchmark_model

definition explain :: "resolver \<Rightarrow> string \<Rightarrow> string \<Rightarrow> bool \<Rightarrow> explanation result" where
  "explain rs tid model explicitly_selected =
     (if explicitly_selected then Inr Explicit_choice
      else case rs_resolutions rs tid of
        None \<Rightarrow> Inr Evidence_unavailable
      | Some r \<Rightarrow>
          if tr_model r \<noteq> model then Inr Evidence_unavailable
          else sbind (parse_model_policy (tr_policy r)) (\<lambda>p. case p of
              Pinned _ \<Rightarrow> Inr Pinned_choice
            | _ \<Rightarrow> (case tr_benchmark r of
                None \<Rightarrow> Inr (Fallback_choice p) | Some b \<Rightarrow> Inr (Catalog_choice p b))))"

section \<open>Tasks that interleave\<close>

datatype task =
    Waiting string
  | Loading string resolver
  | Done string resolution
  | Image_waiting string resolution resolution
  | Over

record machine =
  m_rs :: resolver
  m_tasks :: "task list"

fun holds_lock :: "task \<Rightarrow> bool" where
  "holds_lock (Loading _ _) = True"
| "holds_lock _ = False"

definition unlocked :: "machine \<Rightarrow> bool" where
  "unlocked m \<longleftrightarrow> \<not> list_ex holds_lock (m_tasks m)"

inductive mstep :: "(rat \<Rightarrow> rat) \<Rightarrow> machine \<Rightarrow> machine \<Rightarrow> bool" for log10 where
  hit: "check_thread tid = Inr () \<Longrightarrow> rs_resolutions (m_rs m) tid = Some r \<Longrightarrow>
    mstep log10 m (m\<lparr>m_tasks := m_tasks m @ [Done tid r]\<rparr>)"
| miss: "check_thread tid = Inr () \<Longrightarrow> rs_resolutions (m_rs m) tid = None \<Longrightarrow>
    mstep log10 m (m\<lparr>m_tasks := m_tasks m @ [Waiting tid]\<rparr>)"
| second_look: "unlocked m \<Longrightarrow> i < length (m_tasks m) \<Longrightarrow> m_tasks m ! i = Waiting tid \<Longrightarrow>
    rs_resolutions (m_rs m) tid = Some r \<Longrightarrow> mstep log10 m (m\<lparr>m_tasks := (m_tasks m)[i := Done tid r]\<rparr>)"
| acquire: "unlocked m \<Longrightarrow> i < length (m_tasks m) \<Longrightarrow> m_tasks m ! i = Waiting tid \<Longrightarrow>
    rs_resolutions (m_rs m) tid = None \<Longrightarrow> mstep log10 m (m\<lparr>m_tasks := (m_tasks m)[i := Loading tid (m_rs m)]\<rparr>)"
| finish: "i < length (m_tasks m) \<Longrightarrow> m_tasks m ! i = Loading tid rs0 \<Longrightarrow>
    retain tid (resolve_uncached log10 rs0 (m_rs m) tid ask loaded) = (Inr r, rs') \<Longrightarrow>
    mstep log10 m (m\<lparr>m_rs := rs', m_tasks := (m_tasks m)[i := Done tid r]\<rparr>)"
| crash: "i < length (m_tasks m) \<Longrightarrow> m_tasks m ! i = Loading tid rs0 \<Longrightarrow>
    retain tid (resolve_uncached log10 rs0 (m_rs m) tid ask loaded) = (Inl e, rs') \<Longrightarrow>
    mstep log10 m (m\<lparr>m_rs := rs', m_tasks := (m_tasks m)[i := Over]\<rparr>)"
| policy: "mstep log10 m (m\<lparr>m_rs := snd (set_policy p (m_rs m))\<rparr>)"
| image: "image_lookup rs0 tid r = Inr None \<Longrightarrow> image_answer (m_rs m) r ask = (Inr v, rs') \<Longrightarrow>
    tr_input_modalities v \<noteq> None \<Longrightarrow>
    mstep log10 m (m\<lparr>m_rs := rs', m_tasks := m_tasks m @ [Image_waiting tid r v]\<rparr>)"
| keep_image: "unlocked m \<Longrightarrow> i < length (m_tasks m) \<Longrightarrow> m_tasks m ! i = Image_waiting tid r v \<Longrightarrow>
    mstep log10 m (m\<lparr>m_rs := snd (image_store tid r v (m_rs m)), m_tasks := (m_tasks m)[i := Over]\<rparr>)"

definition start :: "resolver \<Rightarrow> machine" where
  "start rs = \<lparr>m_rs = rs, m_tasks = []\<rparr>"

section \<open>A thread keeps its model\<close>

definition same_choice :: "resolution \<Rightarrow> resolution \<Rightarrow> bool" where
  "same_choice r q \<longleftrightarrow> tr_model r = tr_model q \<and> tr_stickiness_epoch r = tr_stickiness_epoch q"

lemma make_resolution_eq: "make_resolution r = Inr v \<Longrightarrow> v = r"
  by (simp add: make_resolution_def)

lemma resolve_uncached_keeps:
  assumes "resolve_uncached log10 rs0 rs tid ask loaded = (v, rs')"
  shows "rs_resolutions rs' = rs_resolutions rs" "rs_image_resolutions rs' = rs_image_resolutions rs"
  using assms
  by (auto simp: resolve_uncached_def pinned_route_def split: model_policy.splits if_splits sum.splits option.splits prod.splits)

lemma image_answer_keeps:
  assumes "image_answer rs r ask = (v, rs')"
  shows "rs_resolutions rs' = rs_resolutions rs" "rs_image_resolutions rs' = rs_image_resolutions rs"
  using assms by (auto simp: image_answer_def Let_def split: sum.splits option.splits)

lemma image_answer_same: "image_answer rs r ask = (Inr v, rs') \<Longrightarrow> same_choice v r"
  by (auto simp: image_answer_def Let_def same_choice_def dest!: make_resolution_eq split: sum.splits prod.splits)

lemma set_policy_keeps:
  "rs_resolutions (snd (set_policy p rs)) = rs_resolutions rs"
  "rs_image_resolutions (snd (set_policy p rs)) = rs_image_resolutions rs"
  by (auto simp: set_policy_def split: sum.splits)

definition image_keys_ok :: "resolver \<Rightarrow> bool" where
  "image_keys_ok rs \<longleftrightarrow> (\<forall>tid mo ep c. rs_image_resolutions rs (tid, mo, ep) = Some c \<longrightarrow>
     tr_model c = mo \<and> tr_stickiness_epoch c = ep)"

lemma image_store_keys:
  "image_keys_ok rs \<Longrightarrow> same_choice v r \<Longrightarrow> image_keys_ok (snd (image_store tid r v rs))"
  by (auto simp: image_keys_ok_def image_store_def Let_def same_choice_def split: option.splits if_splits)

lemma image_store_resolution:
  assumes "image_keys_ok rs" "same_choice v r" "rs_resolutions rs t = Some q"
  shows "\<exists>q'. rs_resolutions (snd (image_store tid r v rs)) t = Some q' \<and> same_choice q q'"
  using assms by (auto simp: image_keys_ok_def image_store_def Let_def same_choice_def split: option.splits)

fun task_ok :: "resolver \<Rightarrow> task \<Rightarrow> bool" where
  "task_ok rs (Done tid r) = (\<exists>q. rs_resolutions rs tid = Some q \<and> same_choice r q)"
| "task_ok rs (Loading tid _) = (rs_resolutions rs tid = None)"
| "task_ok rs (Image_waiting tid r v) = same_choice v r"
| "task_ok rs _ = True"

definition one_lock :: "task list \<Rightarrow> bool" where
  "one_lock ts \<longleftrightarrow> (\<forall>i < length ts. \<forall>j < length ts. holds_lock (ts ! i) \<and> holds_lock (ts ! j) \<longrightarrow> i = j)"

definition machine_ok :: "machine \<Rightarrow> bool" where
  "machine_ok m \<longleftrightarrow> image_keys_ok (m_rs m) \<and> one_lock (m_tasks m) \<and>
     (\<forall>t \<in> set (m_tasks m). task_ok (m_rs m) t)"

lemma task_ok_cong: "rs_resolutions rs = rs_resolutions rs' \<Longrightarrow> task_ok rs t = task_ok rs' t"
  by (cases t) simp_all

lemma image_keys_cong: "rs_image_resolutions rs = rs_image_resolutions rs' \<Longrightarrow> image_keys_ok rs = image_keys_ok rs'"
  by (simp add: image_keys_ok_def)

lemma one_lock_append: "one_lock ts \<Longrightarrow> \<not> holds_lock t \<Longrightarrow> one_lock (ts @ [t])"
  by (auto simp: one_lock_def nth_append)

lemma nth_update_cases: "j < length xs \<Longrightarrow> xs[i := y] ! j = (if i = j then y else xs ! j)"
  by (cases "i = j") simp_all

lemma one_lock_release: "one_lock ts \<Longrightarrow> \<not> holds_lock t \<Longrightarrow> one_lock (ts[i := t])"
  by (auto simp: one_lock_def nth_update_cases split: if_splits)

lemma one_lock_acquire: "\<not> list_ex holds_lock ts \<Longrightarrow> one_lock (ts[i := t])"
  by (auto simp: one_lock_def nth_update_cases list_ex_length split: if_splits)

text \<open>Another task stays sound while one that held the lock stores the thread it resolved.\<close>

lemma finish_others:
  assumes "one_lock ts" "i < length ts" "ts ! i = Loading tid rs0" "\<forall>t \<in> set ts. task_ok rs t" "rs_resolutions rs tid = None"
    and "rs_resolutions rs' = (rs_resolutions rs)(tid \<mapsto> r)"
  shows "\<forall>t \<in> set (ts[i := Done tid r]). task_ok rs' t"
proof
  fix t assume "t \<in> set (ts[i := Done tid r])"
  then obtain j where j: "j < length ts" "t = ts[i := Done tid r] ! j" by (auto simp: in_set_conv_nth)
  show "task_ok rs' t"
  proof (cases "j = i")
    case True
    with j assms(2,6) show ?thesis by (simp add: same_choice_def)
  next
    case False
    then have t: "t = ts ! j" "task_ok rs t" using j assms(4) by auto
    have "\<not> holds_lock t" using False assms(1-3) j(1) t(1) unfolding one_lock_def by auto
    with t(2) assms(5,6) show ?thesis by (cases t) auto
  qed
qed

lemma mstep_ok:
  assumes "mstep log10 m m'" "machine_ok m"
  shows "machine_ok m'"
  using assms
proof (induction rule: mstep.induct)
  case (hit tid m r)
  then show ?case by (auto simp: machine_ok_def one_lock_append same_choice_def)
next
  case (miss tid m)
  then show ?case by (auto simp: machine_ok_def one_lock_append)
next
  case (second_look m i tid r)
  then show ?case by (auto simp: machine_ok_def one_lock_release same_choice_def dest!: subsetD [OF set_update_subset_insert])
next
  case (acquire m i tid)
  then show ?case by (auto simp: machine_ok_def one_lock_acquire unlocked_def dest!: subsetD [OF set_update_subset_insert])
next
  case (finish i m tid rs0 ask loaded r rs')
  obtain rs1 where rs1: "resolve_uncached log10 rs0 (m_rs m) tid ask loaded = (Inr r, rs1)"
    "rs' = rs1\<lparr>rs_resolutions := (rs_resolutions rs1)(tid \<mapsto> r)\<rparr>"
    using finish(3) by (auto simp: retain_def split: sum.splits prod.splits)
  note keep = resolve_uncached_keeps [OF rs1(1)]
  have "task_ok (m_rs m) (Loading tid rs0)" using finish(1,2,4) by (metis machine_ok_def nth_mem)
  then have "\<forall>t \<in> set ((m_tasks m)[i := Done tid r]). task_ok rs' t"
    using finish(1,2,4) keep(1) rs1(2) by (intro finish_others [of _ _ _ _ "m_rs m"]) (auto simp: machine_ok_def)
  then show ?case
    using finish(4) keep(2) rs1(2) image_keys_cong [of "m_rs m" rs'] by (simp add: machine_ok_def one_lock_release)
next
  case (crash i m tid rs0 ask loaded e rs')
  have "resolve_uncached log10 rs0 (m_rs m) tid ask loaded = (Inl e, rs')"
    using crash(3) by (auto simp: retain_def split: sum.splits prod.splits)
  note keep = resolve_uncached_keeps [OF this]
  show ?case
    using crash(4) image_keys_cong [OF keep(2)] task_ok_cong [OF keep(1)]
    by (auto simp: machine_ok_def one_lock_release dest!: subsetD [OF set_update_subset_insert])
next
  case (policy m p)
  then show ?case
    using image_keys_cong [OF set_policy_keeps(2)] task_ok_cong [OF set_policy_keeps(1)] by (simp add: machine_ok_def)
next
  case (image rs0 tid r m ask v rs')
  note keep = image_answer_keeps [OF image(2)]
  show ?case
    using image(4) image_keys_cong [OF keep(2)] task_ok_cong [OF keep(1)] image_answer_same [OF image(2)]
    by (auto simp: machine_ok_def one_lock_append)
next
  case (keep_image m i tid r v)
  have same: "same_choice v r" using keep_image(2-4) by (metis machine_ok_def nth_mem task_ok.simps(3))
  let ?rs = "snd (image_store tid r v (m_rs m))"
  have "task_ok ?rs t" if t: "t \<in> set (m_tasks m)" for t
  proof (cases t)
    case (Done u q)
    then obtain q0 where "rs_resolutions (m_rs m) u = Some q0" "same_choice q q0"
      using keep_image(4) t by (fastforce simp: machine_ok_def)
    with image_store_resolution [OF _ same this(1)] keep_image(4) Done show ?thesis
      by (fastforce simp: machine_ok_def same_choice_def)
  next
    case (Loading u q)
    with keep_image(1) t show ?thesis by (auto simp: unlocked_def list_ex_iff)
  next
    case (Image_waiting u q w)
    then show ?thesis using keep_image(4) t by (auto simp: machine_ok_def)
  qed simp_all
  then show ?case
    using keep_image(4) image_store_keys [OF _ same] by (auto simp: machine_ok_def one_lock_release dest!: subsetD [OF set_update_subset_insert])
qed

lemma machine_reachable: "(mstep log10)\<^sup>*\<^sup>* m m' \<Longrightarrow> machine_ok m \<Longrightarrow> machine_ok m'"
  by (induction rule: rtranclp_induct) (auto intro: mstep_ok)

lemma machine_ok_start: "new_resolver policy model tokens catalog = Inr rs \<Longrightarrow> machine_ok (start rs)"
  by (auto simp: new_resolver_def machine_ok_def start_def image_keys_ok_def one_lock_def)

text \<open>C25: However \<open>resolve\<close> calls, policy changes and image turns interleave at their awaits, all
  \<open>resolve\<close> calls for one thread that return give the same model in the same stickiness epoch, and it is the one retained for the
  thread, even when they started before any of them had resolved it or under different policies.\<close>

theorem resolve_sticky:
  assumes "new_resolver policy model tokens catalog = Inr rs" "(mstep log10)\<^sup>*\<^sup>* (start rs) m"
    and "Done tid r \<in> set (m_tasks m)" "Done tid q \<in> set (m_tasks m)"
  shows "tr_model r = tr_model q \<and> tr_stickiness_epoch r = tr_stickiness_epoch q \<and>
     (\<exists>k. rs_resolutions (m_rs m) tid = Some k \<and> tr_model k = tr_model r \<and> tr_stickiness_epoch k = tr_stickiness_epoch r)"
proof -
  have "\<forall>t \<in> set (m_tasks m). task_ok (m_rs m) t"
    using machine_reachable [OF assms(2) machine_ok_start [OF assms(1)]] by (simp add: machine_ok_def)
  with assms(3,4) have "task_ok (m_rs m) (Done tid r)" "task_ok (m_rs m) (Done tid q)" by blast+
  then show ?thesis by (auto simp: same_choice_def)
qed

definition sample_resolver :: resolver where
  "sample_resolver = \<lparr>rs_policy_text = ''pinned:acme:one'', rs_policy = Pinned ''acme:one'', rs_static_model = ''acme:one'',
     rs_static_context_tokens = 1000, rs_catalog = None, rs_resolutions = Map.empty,
     rs_image_resolutions = Map.empty, rs_image_input = Map.empty\<rparr>"

definition sample_resolution :: resolution where
  "sample_resolution = resolution_of ''acme:one'' 1000 ''pinned:acme:one''"

lemma new_sample_resolver: "new_resolver ''pinned:acme:one'' ''acme:one'' 1000 None = Inr sample_resolver"
  by (simp add: new_resolver_def sample_resolver_def sbind_def check_def parse_model_policy_def validate_model_name_def
      blank_or_padded_def strip_def rstrip_def is_space_def startswith_def)

lemma sample_resolved:
  "resolve_uncached log10 sample_resolver sample_resolver ''t'' ask loaded = (Inr sample_resolution, sample_resolver)"
  by (simp add: resolve_uncached_def sample_resolver_def pinned_resolution_def make_resolution_def resolution_of_def
      sample_resolution_def sbind_def check_def validate_model_name_def blank_or_padded_def strip_def rstrip_def is_space_def)

theorem resolve_sticky_witness:
  "\<exists>m. (mstep (\<lambda>x. x))\<^sup>*\<^sup>* (start sample_resolver) m \<and> m_tasks m = [Done ''t'' sample_resolution, Done ''t'' sample_resolution] \<and>
     rs_policy (m_rs m) = Max \<and>
     (\<exists>k. rs_resolutions (m_rs m) ''t'' = Some k \<and> tr_model k = tr_model sample_resolution)"
proof -
  let ?s = sample_resolver and ?r = sample_resolution
  let ?rs = "?s\<lparr>rs_resolutions := [''t'' \<mapsto> ?r]\<rparr>"
  let ?max = "?rs\<lparr>rs_policy_text := ''max'', rs_policy := Max\<rparr>"
  have t: "check_thread ''t'' = Inr ()" by (simp add: check_thread_def check_def strip_def rstrip_def is_space_def)
  have none: "rs_resolutions ?s = Map.empty" by (simp add: sample_resolver_def)
  have 1: "mstep (\<lambda>x. x) (start ?s) \<lparr>m_rs = ?s, m_tasks = [Waiting ''t'']\<rparr>"
    using mstep.miss [OF t, of "start ?s" "\<lambda>x. x"] none by (simp add: start_def)
  have 2: "mstep (\<lambda>x. x) \<lparr>m_rs = ?s, m_tasks = [Waiting ''t'']\<rparr> \<lparr>m_rs = ?s, m_tasks = [Loading ''t'' ?s]\<rparr>"
    using mstep.acquire [of "\<lparr>m_rs = ?s, m_tasks = [Waiting ''t'']\<rparr>" 0 "''t''" "\<lambda>x. x"] none by (simp add: unlocked_def)
  have 3: "mstep (\<lambda>x. x) \<lparr>m_rs = ?s, m_tasks = [Loading ''t'' ?s]\<rparr> \<lparr>m_rs = ?rs, m_tasks = [Done ''t'' ?r]\<rparr>"
    using mstep.finish [of 0 "\<lparr>m_rs = ?s, m_tasks = [Loading ''t'' ?s]\<rparr>" "''t''" ?s "\<lambda>x. x"
        "\<lambda>_. Inl AssertionFailure" "Inl AssertionFailure" ?r ?rs] none
    by (simp add: retain_def sample_resolved)
  have 4: "mstep (\<lambda>x. x) \<lparr>m_rs = ?rs, m_tasks = [Done ''t'' ?r]\<rparr> \<lparr>m_rs = ?max, m_tasks = [Done ''t'' ?r]\<rparr>"
    using mstep.policy [of "\<lambda>x. x" "\<lparr>m_rs = ?rs, m_tasks = [Done ''t'' ?r]\<rparr>" "''max''"]
    by (simp add: set_policy_def parse_model_policy_def blank_or_padded_def strip_def rstrip_def is_space_def)
  have 5: "mstep (\<lambda>x. x) \<lparr>m_rs = ?max, m_tasks = [Done ''t'' ?r]\<rparr> \<lparr>m_rs = ?max, m_tasks = [Done ''t'' ?r, Done ''t'' ?r]\<rparr>"
    using mstep.hit [OF t, of "\<lparr>m_rs = ?max, m_tasks = [Done ''t'' ?r]\<rparr>" ?r "\<lambda>x. x"] by simp
  let ?m = "\<lparr>m_rs = ?max, m_tasks = [Done ''t'' ?r, Done ''t'' ?r]\<rparr>"
  have run: "(mstep (\<lambda>x. x))\<^sup>*\<^sup>* (start ?s) ?m"
    using 1 2 3 4 5 by (meson rtranclp.rtrancl_into_rtrancl rtranclp.rtrancl_refl)
  have "\<exists>k. rs_resolutions (m_rs ?m) ''t'' = Some k \<and> tr_model k = tr_model ?r"
    using resolve_sticky [OF new_sample_resolver run, of "''t''" ?r ?r] by auto
  with run show ?thesis by (intro exI [of _ ?m]) simp
qed

section \<open>Failing open\<close>

lemma length_strip_le: "length (strip s) \<le> length (dropWhile is_space s)"
  using length_dropWhile_le [of is_space "rev (dropWhile is_space s)"] by (simp add: strip_def rstrip_def)

lemma strip_id_iff: "strip s = s \<longleftrightarrow> s = [] \<or> (\<not> is_space (hd s) \<and> \<not> is_space (last s))"
proof (cases s)
  case Nil
  then show ?thesis by (simp add: strip_def rstrip_def)
next
  case (Cons c t)
  show ?thesis
  proof (cases "is_space c")
    case True
    then have "length (dropWhile is_space s) < length s"
      using length_dropWhile_le [of is_space t] by (simp add: Cons)
    with length_strip_le [of s] have "strip s \<noteq> s" by auto
    with True Cons show ?thesis by simp
  next
    case False
    then have d: "strip s = rev (dropWhile is_space (rev s))" by (simp add: Cons strip_def rstrip_def)
    have r: "rev s = last s # rev (butlast s)" using Cons by (metis append_butlast_last_id list.distinct(1) rev.simps(2) rev_rev_ident rev_append rev_singleton_conv append_Cons append_Nil)
    show ?thesis
    proof (cases "is_space (last s)")
      case True
      have "length (dropWhile is_space (rev s)) < length s"
        using length_dropWhile_le [of is_space "rev (butlast s)"] True Cons unfolding r
        by (simp only: dropWhile.simps if_True length_rev length_butlast) (simp add: Cons)
      then have "strip s \<noteq> s" unfolding d by (metis length_rev nat_neq_iff)
      with True Cons show ?thesis by simp
    next
      case False
      then have "dropWhile is_space (rev s) = rev s" by (subst (1 2) r) simp
      with False \<open>\<not> is_space c\<close> Cons d show ?thesis by simp
    qed
  qed
qed

lemma qualified_valid:
  assumes "clean mid"
  shows "validate_model_name (openrouter_prefix @ mid) = Inr ()"
proof -
  have mid: "mid \<noteq> []" "strip mid = mid" using assms by (auto simp: clean_def blank_or_padded_def)
  then have "strip (openrouter_prefix @ mid) = openrouter_prefix @ mid"
    by (auto simp: strip_id_iff openrouter_prefix_def is_space_def)
  moreover have "takeWhile (\<lambda>c. c \<noteq> CHR '':'') (openrouter_prefix @ mid) = ''openrouter''"
    by (simp add: openrouter_prefix_def)
  moreover have "strip ''openrouter'' = ''openrouter''" by (simp add: strip_id_iff is_space_def)
  ultimately show ?thesis
    using mid by (simp add: validate_model_name_def blank_or_padded_def check_def Let_def) (simp add: openrouter_prefix_def)
qed

definition modalities_ok :: "string set option \<Rightarrow> bool" where
  "modalities_ok m \<longleftrightarrow> (case m of None \<Rightarrow> True | Some s \<Rightarrow> \<forall>x \<in> s. clean x)"

lemma make_resolution_total:
  assumes "validate_model_name (tr_model r) = Inr ()" "0 < tr_context_tokens r" "0 \<le> tr_stickiness_epoch r"
    "modalities_ok (tr_input_modalities r)"
  shows "make_resolution r = Inr r"
  using assms by (auto simp: make_resolution_def sbind_def check_def modalities_ok_def clean_def split: option.splits)

lemma route_modalities: "route_ok route \<Longrightarrow> modalities_ok (input_modalities route)"
  by (auto simp: route_ok_def modalities_ok_def split: option.splits)

definition openrouter_loader :: loader where
  "openrouter_loader = \<lparr>ld_parse_named_model = None, ld_qualify_model = None\<rparr>"

lemma resolve_named_answer:
  assumes "rs_catalog rs = Some openrouter_loader" "check_thread tid = Inr ()" "\<And>slug. named_answer slug (ask slug)"
  shows "case resolve_named rs tid model ask of
     Inr r \<Rightarrow> 0 < tr_context_tokens r \<and> modalities_ok (tr_input_modalities r)
   | Inl e \<Rightarrow> catalog_missing e"
proof (cases "parse_named_model (rs_catalog rs) model")
  case (Inl e)
  then have "catalog_missing e"
    using assms(1) by (auto simp: parse_named_model_def openrouter_loader_def split: if_splits)
  with Inl assms show ?thesis by (simp add: resolve_named_def sbind_def)
next
  case (Inr slug)
  note slug = this
  show ?thesis
  proof (cases "ask slug")
    case (Inl e)
    then have "catalog_missing e" using assms(3) [of slug] by (auto simp: named_answer_def)
    with Inl slug assms show ?thesis by (simp add: resolve_named_def sbind_def)
  next
    case (Inr x)
    obtain route t where x: "x = (route, t)" by (cases x)
    have ok: "route_ok route" using assms(3) [of slug] Inr x by (simp add: named_answer_def)
    then have "validate_model_name (openrouter_prefix @ model_id route) = Inr ()" "0 < context_tokens route"
      by (simp_all add: route_ok_def qualified_valid)
    with route_modalities [OF ok] slug Inr x assms(1,2) show ?thesis
      by (simp add: resolve_named_def sbind_def qualify_model_def openrouter_loader_def make_resolution_total resolution_of_def)
  qed
qed

lemma new_resolver_ok:
  assumes "new_resolver policy model tokens catalog = Inr rs"
  shows "parse_model_policy policy = Inr (rs_policy rs)" "validate_model_name (rs_static_model rs) = Inr ()"
    "0 < rs_static_context_tokens rs" "rs_catalog rs = catalog" "rs_resolutions rs = Map.empty"
    "rs_static_model rs = model" "rs_static_context_tokens rs = tokens"
  using assms by (auto simp: new_resolver_def)

lemma parsed_pinned: "parse_model_policy policy = Inr (Pinned v) \<Longrightarrow> validate_model_name v = Inr ()"
  by (auto simp: parse_model_policy_def Let_def split: if_splits)

lemma parsed_max: "parse_model_policy policy = Inr Max \<Longrightarrow> policy = ''max''"
  by (auto simp: parse_model_policy_def Let_def split: if_splits)

lemma fallback_total:
  assumes "validate_model_name (rs_static_model rs) = Inr ()" "0 < rs_static_context_tokens rs"
  shows "\<exists>r. fallback rs = Inr r \<and> tr_model r = rs_static_model rs \<and> tr_context_tokens r = rs_static_context_tokens rs"
  using assms by (simp add: fallback_def make_resolution_total resolution_of_def modalities_ok_def)

lemma catalog_choice_answer:
  assumes "load_answer loaded" "policy \<noteq> Max" "\<And>v. policy \<noteq> Pinned v"
  shows "case catalog_choice log10 policy loaded of
     Inr (selected, route, t) \<Rightarrow> route_ok route \<and> (\<exists>m. loaded = Inr m)
   | Inl e \<Rightarrow> \<exists>m. e = ModelCatalogUnavailable m"
proof (cases loaded)
  case (Inl e)
  with assms(1) show ?thesis by (simp add: catalog_choice_def sbind_def load_answer_def)
next
  case (Inr m)
  with assms(1) have m: "catalog_ok m" by (simp add: load_answer_def)
  then have price: "\<forall>r \<in> set (mc_rows m). 0 \<le> prompt_price r" "mc_rows m \<noteq> []"
    by (auto simp: catalog_ok_def row_ok_def)
  show ?thesis
  proof (cases "select_model log10 policy (mc_rows m)")
    case (Inl e)
    then have "\<exists>m. e = ModelCatalogUnavailable m"
      using assms(2,3) price elbow_slope_outcome [OF price(1), of policy _ log10] select_floor_cases(2)
      by (cases policy) (auto simp: select_model_def)
    with Inl Inr show ?thesis by (simp add: catalog_choice_def sbind_def)
  next
    case (Inr s)
    have "route_ok route" if "map_of (mc_model_routes m) (permaslug s) = Some route" for route
      using map_of_SomeD [OF that] m by (auto simp: catalog_ok_def)
    with Inr \<open>loaded = Inr m\<close> show ?thesis
      by (simp add: catalog_choice_def sbind_def split: option.splits)
  qed
qed

lemma catalog_case_total:
  assumes rs: "validate_model_name (rs_static_model rs) = Inr ()" "0 < rs_static_context_tokens rs"
      "rs_catalog rs = Some openrouter_loader"
    and np: "rs_policy rs \<noteq> Max" "\<And>v. rs_policy rs \<noteq> Pinned v" and loaded: "load_answer loaded"
  shows "\<exists>r. resolve_uncached log10 rs rs tid ask loaded = (Inr r, rs) \<and> 0 < tr_context_tokens r \<and>
     (loaded = Inl e \<longrightarrow> tr_model r = rs_static_model rs \<and> tr_context_tokens r = rs_static_context_tokens rs)"
proof -
  obtain f where f: "fallback rs = Inr f" "tr_model f = rs_static_model rs" "tr_context_tokens f = rs_static_context_tokens rs"
    using fallback_total [OF rs(1,2)] by blast
  have eq: "resolve_uncached log10 rs rs tid ask loaded =
      (case catalog_choice log10 (rs_policy rs) loaded of
               Inl (ModelCatalogUnavailable _) \<Rightarrow> fallback rs
             | Inl e \<Rightarrow> Inl e
             | Inr (selected, route, fetched_at) \<Rightarrow>
                 sbind (qualify_model openrouter_loader (model_id route)) (\<lambda>q.
                 make_resolution ((resolution_of q (context_tokens route) (rs_policy_text rs))
                   \<lparr>tr_price_sorted := True, tr_input_modalities := input_modalities route,
                    tr_supported_parameters := supported_parameters route, tr_benchmark := Some selected,
                    tr_catalog_fetched_at := Some fetched_at\<rparr>)), rs)"
    using np rs(3) by (cases "rs_policy rs") (auto simp: resolve_uncached_def)
  show ?thesis
  proof (cases "catalog_choice log10 (rs_policy rs) loaded")
    case (Inl e)
    then obtain m where "e = ModelCatalogUnavailable m"
      using catalog_choice_answer [OF loaded np, of log10] by auto
    with Inl f rs(2) show ?thesis unfolding eq by simp
  next
    case (Inr x)
    obtain selected route t where x: "x = (selected, route, t)" by (cases x)
    have ok: "route_ok route" "\<exists>m. loaded = Inr m"
      using catalog_choice_answer [OF loaded np, of log10] Inr x by simp_all
    then have "validate_model_name (openrouter_prefix @ model_id route) = Inr ()" "0 < context_tokens route"
      by (simp_all add: route_ok_def qualified_valid)
    with ok(2) Inr x route_modalities [OF ok(1)] show ?thesis
      unfolding eq by (auto simp: sbind_def qualify_model_def openrouter_loader_def make_resolution_total resolution_of_def)
  qed
qed

lemma pinned_case_total:
  assumes rs: "0 < rs_static_context_tokens rs" "rs_catalog rs = Some openrouter_loader"
    and pin: "rs_policy rs = Pinned v" "validate_model_name v = Inr ()"
    and ask: "check_thread tid = Inr ()" "\<And>slug. named_answer slug (ask slug)"
  shows "\<exists>r rs'. resolve_uncached log10 rs rs tid ask loaded = (Inr r, rs') \<and> tr_model r = v \<and> 0 < tr_context_tokens r"
proof -
  have made: "\<exists>r. pinned_resolution q (n, p, m) = Inr r \<and> tr_model r = v \<and> 0 < tr_context_tokens r"
    if "rs_policy q = Pinned v" "0 < n" "modalities_ok m" for q n p m
    using that pin(2) by (simp add: pinned_resolution_def make_resolution_total resolution_of_def)
  have none: "modalities_ok None" by (simp add: modalities_ok_def)
  show ?thesis
  proof (cases "v = rs_static_model rs")
    case True
    with pin(1) made [OF pin(1) rs(1) none] show ?thesis by (simp add: resolve_uncached_def)
  next
    case False
    have go: "resolve_uncached log10 rs rs tid ask loaded =
        (case pinned_route rs rs tid v ask of
            (Inl e, rs') \<Rightarrow> (Inl e, rs')
          | (Inr w, rs') \<Rightarrow> (pinned_resolution rs' w, rs'))"
      using False pin(1) rs(2) by (simp add: resolve_uncached_def)
    note answer = resolve_named_answer [OF rs(2) ask, of v]
    show ?thesis
    proof (cases "resolve_named rs tid v ask")
      case (Inl e)
      with answer made [OF pin(1) rs(1) none] show ?thesis unfolding go by (simp add: pinned_route_def)
    next
      case (Inr r)
      let ?rs = "case (rs_policy rs, tr_input_modalities r) of
           (Pinned now, Some m) \<Rightarrow> rs\<lparr>rs_image_input := (rs_image_input rs)(now \<mapsto> m)\<rparr> | _ \<Rightarrow> rs"
      have "rs_policy ?rs = Pinned v" using pin(1) by (simp split: option.splits)
      with Inr answer made [of ?rs "tr_context_tokens r" "tr_input_modalities r"] show ?thesis
        unfolding go by (auto simp: pinned_route_def)
    qed
  qed
qed

subsection \<open>Any history\<close>

text \<open>Whatever happened to a resolver, its configuration is the one it was built with, its policy is a parsed one,
  and every resolution it keeps, or is about to keep, has a positive window.\<close>

definition configured :: "string \<Rightarrow> int \<Rightarrow> resolver \<Rightarrow> bool" where
  "configured model tokens rs \<longleftrightarrow> parse_model_policy (rs_policy_text rs) = Inr (rs_policy rs) \<and> rs_static_model rs = model \<and>
     rs_static_context_tokens rs = tokens \<and> rs_catalog rs = Some openrouter_loader"

definition windows_ok :: "resolver \<Rightarrow> bool" where
  "windows_ok rs \<longleftrightarrow> (\<forall>tid r. rs_resolutions rs tid = Some r \<longrightarrow> 0 < tr_context_tokens r) \<and>
     (\<forall>key r. rs_image_resolutions rs key = Some r \<longrightarrow> 0 < tr_context_tokens r)"

fun task_window :: "string \<Rightarrow> int \<Rightarrow> task \<Rightarrow> bool" where
  "task_window model tokens (Loading _ rs0) = configured model tokens rs0"
| "task_window model tokens (Image_waiting _ _ v) = (0 < tr_context_tokens v)"
| "task_window model tokens _ = True"

definition machine_window :: "string \<Rightarrow> int \<Rightarrow> machine \<Rightarrow> bool" where
  "machine_window model tokens m \<longleftrightarrow> configured model tokens (m_rs m) \<and> windows_ok (m_rs m) \<and>
     (\<forall>t \<in> set (m_tasks m). task_window model tokens t)"

lemma make_resolution_window: "make_resolution r = Inr v \<Longrightarrow> 0 < tr_context_tokens v"
  by (auto simp: make_resolution_def)

lemma resolve_uncached_window:
  "resolve_uncached log10 rs0 rs tid ask loaded = (Inr r, rs') \<Longrightarrow> 0 < tr_context_tokens r"
  by (auto simp: resolve_uncached_def pinned_resolution_def fallback_def dest: make_resolution_window
      split: model_policy.splits if_splits sum.splits option.splits prod.splits policy_error.splits)

lemma resolve_uncached_configured:
  assumes "resolve_uncached log10 rs0 rs tid ask loaded = (v, rs')"
  shows "configured model tokens rs' = configured model tokens rs"
proof -
  have "\<exists>im. rs' = rs\<lparr>rs_image_input := im\<rparr>"
    using assms by (auto simp: resolve_uncached_def pinned_route_def intro: exI [of _ "rs_image_input rs"]
        split: model_policy.splits if_splits sum.splits option.splits prod.splits)
  then show ?thesis by (auto simp: configured_def)
qed

lemma windows_ok_cong:
  "rs_resolutions rs' = rs_resolutions rs \<Longrightarrow> rs_image_resolutions rs' = rs_image_resolutions rs \<Longrightarrow> windows_ok rs' = windows_ok rs"
  by (simp add: windows_ok_def)

lemma retain_window:
  assumes "retain tid (resolve_uncached log10 rs0 rs tid ask loaded) = (v, rs')" "configured model tokens rs" "windows_ok rs"
  shows "configured model tokens rs' \<and> windows_ok rs'"
proof -
  obtain w u where u: "resolve_uncached log10 rs0 rs tid ask loaded = (w, u)" by fastforce
  have "configured model tokens u" "windows_ok u"
    using resolve_uncached_configured [OF u] windows_ok_cong [OF resolve_uncached_keeps [OF u]] assms(2,3) by simp_all
  with assms(1) u resolve_uncached_window [of log10 rs0 rs tid ask loaded] show ?thesis
    by (cases w) (auto simp: retain_def configured_def windows_ok_def split: if_splits)
qed

lemma image_answer_window:
  assumes "image_answer rs r ask = (Inr v, rs')"
  shows "0 < tr_context_tokens v \<and> configured model tokens rs' = configured model tokens rs \<and> windows_ok rs' = windows_ok rs"
proof -
  have "\<exists>im. rs' = rs\<lparr>rs_image_input := im\<rparr>"
    using assms by (auto simp: image_answer_def Let_def intro: exI [of _ "rs_image_input rs"] split: sum.splits option.splits)
  moreover have "0 < tr_context_tokens v"
    using assms by (auto simp: image_answer_def Let_def dest: make_resolution_window split: sum.splits prod.splits)
  ultimately show ?thesis by (auto simp: configured_def windows_ok_def)
qed

lemma image_store_window:
  assumes "0 < tr_context_tokens v" "configured model tokens rs" "windows_ok rs"
  shows "configured model tokens (snd (image_store tid r v rs)) \<and> windows_ok (snd (image_store tid r v rs))"
  using assms by (auto simp: image_store_def Let_def configured_def windows_ok_def split: option.splits)

lemma set_policy_window:
  "configured model tokens rs \<Longrightarrow> windows_ok rs \<Longrightarrow>
     configured model tokens (snd (set_policy p rs)) \<and> windows_ok (snd (set_policy p rs))"
  by (auto simp: set_policy_def configured_def windows_ok_def split: sum.splits)

lemma mstep_window: "mstep log10 m m' \<Longrightarrow> machine_window model tokens m \<Longrightarrow> machine_window model tokens m'"
proof (induction rule: mstep.induct)
  case (finish i m tid rs0 ask loaded r rs')
  then show ?case
    using retain_window [OF finish(3), of model tokens] set_update_subset_insert [of "m_tasks m" i "Done tid r"]
    by (auto simp: machine_window_def)
next
  case (crash i m tid rs0 ask loaded e rs')
  then show ?case
    using retain_window [OF crash(3), of model tokens] set_update_subset_insert [of "m_tasks m" i Over]
    by (auto simp: machine_window_def)
next
  case (keep_image m i tid r v)
  then have "task_window model tokens (Image_waiting tid r v)" by (metis machine_window_def nth_mem)
  with keep_image show ?case
    using image_store_window [of v model tokens "m_rs m" tid r] set_update_subset_insert [of "m_tasks m" i Over]
    by (auto simp: machine_window_def)
next
  case (image rs0 tid r m ask v rs')
  then show ?case using image_answer_window [OF image(2), of model tokens] by (auto simp: machine_window_def)
next
  case (policy m p)
  then show ?case using set_policy_window [of model tokens "m_rs m" p] by (auto simp: machine_window_def)
qed (use set_update_subset_insert in \<open>fastforce simp: machine_window_def\<close>)+

lemma machine_window_reachable:
  assumes "new_resolver policy model tokens (Some openrouter_loader) = Inr rs" "(mstep log10)\<^sup>*\<^sup>* (start rs) m"
  shows "machine_window model tokens m"
  using assms(2)
proof (induction rule: rtranclp_induct)
  case base
  have "rs_image_resolutions rs = Map.empty" "rs_policy_text rs = policy" using assms(1) by (auto simp: new_resolver_def)
  then show ?case
    using new_resolver_ok [OF assms(1)] by (simp add: machine_window_def start_def configured_def windows_ok_def)
qed (rule mstep_window)

text \<open>A resolution under way only uses the configuration and the policy of the resolver it began with.\<close>

lemma resolve_uncached_start:
  assumes "configured model tokens rs0" "configured model tokens rs" "rs_policy_text rs0 = rs_policy_text rs"
  shows "resolve_uncached log10 rs0 rs tid ask loaded = resolve_uncached log10 rs rs tid ask loaded"
proof -
  have same: "rs_policy rs0 = rs_policy rs" "rs_catalog rs0 = rs_catalog rs" "rs_static_model rs0 = rs_static_model rs"
    "rs_static_context_tokens rs0 = rs_static_context_tokens rs"
    using assms by (simp_all add: configured_def)
  then have "pinned_route rs0 rs tid v ask = pinned_route rs rs tid v ask" for v by (simp add: pinned_route_def resolve_named_def)
  moreover have "fallback rs0 = fallback rs" "pinned_resolution rs0 = pinned_resolution rs"
    using same assms(3) by (simp_all add: fallback_def fun_eq_iff pinned_resolution_def split: model_policy.split)
  ultimately show ?thesis
    using same assms(2) by (cases "rs_policy rs") (simp_all add: resolve_uncached_def configured_def)
qed

lemma uncached_fails_open:
  assumes rs: "configured model tokens rs" "validate_model_name model = Inr ()" "0 < tokens" "rs_policy_text rs \<noteq> ''max''"
    and t: "check_thread tid = Inr ()" and ask: "\<And>slug. named_answer slug (ask slug)" and loaded: "load_answer loaded"
  shows "\<exists>r rs'. resolve_uncached log10 rs rs tid ask loaded = (Inr r, rs') \<and> 0 < tr_context_tokens r \<and>
     (loaded = Inl e \<and> \<not> startswith (rs_policy_text rs) ''pinned:'' \<longrightarrow> tr_model r = model \<and> tr_context_tokens r = tokens)"
proof (cases "\<exists>v. rs_policy rs = Pinned v")
  case True
  then obtain v where v: "rs_policy rs = Pinned v" by blast
  then have p: "parse_model_policy (rs_policy_text rs) = Inr (Pinned v)" using rs(1) by (simp add: configured_def)
  then have "startswith (rs_policy_text rs) ''pinned:''" by (auto simp: parse_model_policy_def Let_def split: if_splits)
  with pinned_case_total [OF _ _ v parsed_pinned [OF p] t ask, of log10 loaded] rs(1,3) show ?thesis
    by (fastforce simp: configured_def)
next
  case False
  have "rs_policy rs \<noteq> Max" using rs(1,4) by (auto simp: configured_def dest: parsed_max)
  with catalog_case_total [of rs loaded log10 tid ask e] False rs(1-3) loaded show ?thesis
    by (fastforce simp: configured_def)
qed

text \<open>C26: Take a resolver built on the OpenRouter client, after any interleaving of resolutions, policy
  changes and image turns. While its policy is not \<open>max\<close>, a thread with a nonblank id is resolved to a model with
  a positive context window, whatever the network, the clocks and the client's history are: both when the resolution
  runs through now and when one that waits for the catalog, and was begun under the same policy, finishes now. For a thread
  that had no resolution, when the catalog cannot be loaded and the policy is not pinned, it is the configured model with
  the configured window.\<close>

theorem resolve_fails_open:
  assumes new: "new_resolver policy model tokens (Some openrouter_loader) = Inr rs0" and run: "(mstep log10)\<^sup>*\<^sup>* (start rs0) m"
    and rs: "rs = m_rs m" "rs_policy_text rs \<noteq> ''max''" and tid: "strip tid \<noteq> []" and c: "c = run_calls py xs (new_client key)"
    and ask: "ask = (\<lambda>slug. fst (load_named_route io slug c))" and loaded: "loaded = fst (load py io c)"
  shows "(\<exists>r rs'. resolve log10 tid ask loaded rs = (Inr r, rs') \<and> rs_resolutions rs' tid = Some r \<and> 0 < tr_context_tokens r \<and>
       (rs_resolutions rs tid = None \<and> loaded = Inl e \<and> \<not> startswith (rs_policy_text rs) ''pinned:'' \<longrightarrow>
          tr_model r = model \<and> tr_context_tokens r = tokens)) \<and>
     (\<forall>rs1. Loading tid rs1 \<in> set (m_tasks m) \<and> rs_policy_text rs1 = rs_policy_text rs \<longrightarrow>
       (\<exists>r rs'. retain tid (resolve_uncached log10 rs1 rs tid ask loaded) = (Inr r, rs') \<and> rs_resolutions rs' tid = Some r \<and>
          0 < tr_context_tokens r \<and> (loaded = Inl e \<and> \<not> startswith (rs_policy_text rs) ''pinned:'' \<longrightarrow>
            tr_model r = model \<and> tr_context_tokens r = tokens)))"
proof -
  have "load_answer loaded"
    unfolding loaded c run_calls_call by (rule open_router.load_answers [OF client_ok_new])
  moreover have "named_answer slug (ask slug)" for slug
    unfolding ask c run_calls_call by (rule open_router.named_answers [OF client_ok_new])
  moreover have t: "check_thread tid = Inr ()" using tid by (simp add: check_thread_def check_def)
  moreover have "machine_window model tokens m" by (rule machine_window_reachable [OF new run])
  then have w: "configured model tokens rs" "windows_ok rs" "\<forall>t \<in> set (m_tasks m). task_window model tokens t"
    by (simp_all add: machine_window_def rs(1))
  moreover have "validate_model_name model = Inr ()" "0 < tokens" using new_resolver_ok [OF new] by simp_all
  ultimately obtain r rs' where r: "resolve_uncached log10 rs rs tid ask loaded = (Inr r, rs')" "0 < tr_context_tokens r"
    "loaded = Inl e \<and> \<not> startswith (rs_policy_text rs) ''pinned:'' \<longrightarrow> tr_model r = model \<and> tr_context_tokens r = tokens"
    using uncached_fails_open [of model tokens rs tid ask loaded log10 e] rs(2) by blast
  have "\<exists>r rs'. resolve log10 tid ask loaded rs = (Inr r, rs') \<and> rs_resolutions rs' tid = Some r \<and> 0 < tr_context_tokens r \<and>
       (rs_resolutions rs tid = None \<and> loaded = Inl e \<and> \<not> startswith (rs_policy_text rs) ''pinned:'' \<longrightarrow>
          tr_model r = model \<and> tr_context_tokens r = tokens)"
  proof (cases "rs_resolutions rs tid")
    case None
    with r t show ?thesis by (simp add: resolve_def retain_def)
  next
    case (Some q)
    with w(2) have "0 < tr_context_tokens q" by (auto simp: windows_ok_def)
    with Some t show ?thesis by (simp add: resolve_def)
  qed
  moreover have "retain tid (resolve_uncached log10 rs1 rs tid ask loaded) = retain tid (Inr r, rs')"
    if "Loading tid rs1 \<in> set (m_tasks m)" "rs_policy_text rs1 = rs_policy_text rs" for rs1
    using that w(3) resolve_uncached_start [OF _ w(1) that(2), of log10 tid ask loaded] r(1) by fastforce
  ultimately show ?thesis using r(2,3) by (auto simp: retain_def)
qed

definition offline_io :: catalog_io where
  "offline_io = \<lparr>io_benchmarks = Transport_error, io_models = Transport_error, io_clock = None, io_monotonic = (0, 0, 0)\<rparr>"

definition plain_pylib :: pylib where
  "plain_pylib = \<lparr>pl_str_float = (\<lambda>_. ''0.5''), pl_str_container = (\<lambda>_. ''[]''), pl_fl64 = (\<lambda>x. x)\<rparr>"

lemma offline_load:
  "fst (load plain_pylib offline_io (run_calls plain_pylib [] (new_client None))) =
     Inl (ModelCatalogUnavailable ''OPENROUTER_API_KEY'')"
  by (simp add: load_def run_calls_def new_client_def fresh_cache_def load_locked_def request_client_def check_def sbind_def)

theorem resolve_fails_open_witness:
  "\<exists>rs r rs'. new_resolver ''elbow'' ''acme:one'' 1000 (Some openrouter_loader) = Inr rs \<and>
     resolve (\<lambda>x. x) ''t'' (\<lambda>slug. fst (load_named_route offline_io slug (run_calls plain_pylib [] (new_client None))))
       (fst (load plain_pylib offline_io (run_calls plain_pylib [] (new_client None)))) rs = (Inr r, rs') \<and>
     tr_model r = ''acme:one'' \<and> tr_context_tokens r = 1000"
proof -
  obtain rs where rs: "new_resolver ''elbow'' ''acme:one'' 1000 (Some openrouter_loader) = Inr rs"
    and fields: "rs_policy_text rs = ''elbow''" "rs_resolutions rs = Map.empty"
    by (simp add: new_resolver_def sbind_def check_def parse_model_policy_def validate_model_name_def
        blank_or_padded_def strip_def rstrip_def is_space_def)
  have "strip ''t'' \<noteq> []" "\<not> startswith ''elbow'' ''pinned:''"
    by (simp_all add: strip_def rstrip_def is_space_def startswith_def)
  with resolve_fails_open [OF rs rtranclp.rtrancl_refl refl _ _ refl refl refl, where tid = "''t''" and io = offline_io
      and py = plain_pylib and xs = "[]" and key = None]
    offline_load fields rs
  show ?thesis by (fastforce simp: start_def)
qed

section \<open>Where the resolver raises\<close>

text \<open>A policy set while a \<open>load()\<close> is awaited replaces the one the call started with: if the new policy is pinned,
  the call raises instead of resolving the thread.\<close>

lemma pinned_during_load_raises:
  assumes "rs_policy rs0 = Elbow" "rs_catalog rs0 = Some l" "mc_rows m \<noteq> []"
    and "set_policy ''pinned:acme:two'' rs0 = (Inr (), rs)"
  shows "fst (resolve_uncached log10 rs0 rs tid ask (Inr m)) =
    Inl (ModelPolicyConfigurationError ''pinned policies do not consult the benchmark table'')"
proof -
  have "rs_policy rs = Pinned ''acme:two''"
    using assms(4) by (auto simp: set_policy_def parse_model_policy_def validate_model_name_def sbind_def check_def
        blank_or_padded_def strip_def rstrip_def is_space_def startswith_def)
  with assms(1-3) show ?thesis by (simp add: resolve_uncached_def catalog_choice_def sbind_def select_model_def)
qed

text \<open>An image turn on an explicitly named resolution of the same model replaces the retained resolution; its policy
  \<open>human_command\<close> is no policy, and \<open>explain\<close> raises.\<close>

lemma explain_after_image_raises:
  assumes "rs_resolutions rs tid = Some retained" "same_choice retained r" "same_choice v r" "tr_policy v = ''human_command''"
    and "rs_image_resolutions rs (tid, tr_model r, tr_stickiness_epoch r) = None"
  shows "explain (snd (image_store tid r v rs)) tid (tr_model retained) False = Inl (ModelPolicyConfigurationError ''grammar'')"
  using assms by (simp add: explain_def image_store_def Let_def same_choice_def parse_model_policy_def sbind_def
      blank_or_padded_def strip_def rstrip_def is_space_def startswith_def)

lemma round_half_even_neg: "x \<le> - of_int n \<Longrightarrow> round_half_even x \<le> - n"
proof -
  assume x: "x \<le> - of_int n"
  have f: "\<lfloor>x\<rfloor> \<le> - n" using x by (simp add: floor_le_iff)
  show ?thesis
  proof (cases "\<lfloor>x\<rfloor> = - n")
    case True
    then have "x = of_int (- n)" using x by (metis floor_correct of_int_minus order_antisym_conv)
    then show ?thesis by (metis order_refl round_half_even_of_int)
  next
    case False
    with f show ?thesis by (auto simp: round_half_even_def Let_def)
  qed
qed

text \<open>An index of a million digits or more: negating it traps, so the key of \<open>max\<close> cannot be computed, and
  \<open>select_model\<close> lets the exception out.\<close>

lemma dec_overflow:
  assumes "0 < x" "1000000 \<le> adjusted (- x)"
  shows "dec 28 (- x) = Inl DecimalException"
proof -
  define e where "e = adjusted (- x)"
  define q where "q = e - 27"
  define y where "y = (of_int (round_half_even (- x / 10 powi q)) :: rat) * 10 powi q"
  have nz: "- x \<noteq> 0" using assms(1) by simp
  have q: "0 < (10 :: rat) powi q" by (simp add: zero_less_power_int)
  have split: "(10 :: rat) powi e = 10 ^ 27 * 10 powi q"
    unfolding q_def by (simp add: power_int_diff)
  have "10 powi e \<le> x" using adjusted_bounds(1) [OF nz] assms(1) by (simp add: e_def)
  then have "- x / 10 powi q \<le> - of_int (10 ^ 27)" using q unfolding split by (simp add: field_simps)
  then have "round_half_even (- x / 10 powi q) \<le> - (10 ^ 27)" by (rule round_half_even_neg)
  then have "of_int (round_half_even (- x / 10 powi q)) \<le> (of_int (- (10 ^ 27)) :: rat)" by (simp only: of_int_le_iff)
  then have "y \<le> of_int (- (10 ^ 27)) * 10 powi q" unfolding y_def using q by (intro mult_right_mono) simp_all
  then have y: "y \<le> - (10 powi e)" unfolding split by simp
  have pe: "0 < (10 :: rat) powi e" by (simp add: zero_less_power_int)
  then have y0: "y \<noteq> 0" and "10 powi e \<le> \<bar>y\<bar>" using y by linarith+
  then have "(10 :: rat) powi e < 10 powi (adjusted y + 1)" using adjusted_bounds(2) [OF y0] by linarith
  then have big: "999999 < adjusted y" using powi10_less [of e "adjusted y + 1"] assms(2) by (simp add: e_def)
  have "max (adjusted (- x)) (- 999999) - int 28 + 1 = q" using assms(2) by (simp add: q_def e_def)
  then have "dec_fix 28 (- x) = (if y \<noteq> 0 \<and> 999999 < adjusted y then None else Some y)"
    using nz unfolding dec_fix_def Let_def y_def by (simp only: if_False)
  with y0 big show ?thesis by (simp add: dec_def)
qed

lemma max_lets_overflow_out:
  assumes "0 < intelligence_index row" "1000000 \<le> adjusted (- intelligence_index row)"
  shows "select_model log10 Max (row # rows) = Inl DecimalException"
  using dec_overflow [OF assms] by (simp add: select_model_def select_max_def sbind_def)

end
