(* ===== verification/Jobs.thy ===== *)
theory Jobs
  imports Ids "HOL-Library.Sublist"
begin

text \<open>
  Workflow jobs (\<open>src/spine/jobs.py\<close>): saved recipes with their schedule cursor, and the runs that claim an
  occurrence of one.

  The state is the two tables. A request runs in one transaction, and \<open>claim\<close> locks the job row, so requests on a job
  are sequential. The cron library (\<open>croniter\<close>) is the parameter \<open>cron_lib\<close>; the readings of the clock are an argument.
  A definition is stored as JSON and read back as the same fields, so the row holds the record.
\<close>

section \<open>Definitions and rows\<close>

datatype tool_set = Tools_pydantic | Tools_none
datatype memory_scope = Scope_workspace | Scope_none
datatype trigger = Trigger_file | Trigger_queue | Trigger_palace
datatype run_state = Running | Completed | Failed | Cancelled | Interrupted

record workflow_definition =
  wd_name :: string
  wd_prompt :: string
  wd_folder :: string
  wd_model_policy :: string
  wd_tools :: tool_set
  wd_memory_scope :: memory_scope
  wd_budget_usd :: rat
  wd_exit_condition :: string
  wd_cron :: "string option"
  wd_trigger :: "trigger option"
  wd_trigger_path :: "string option"

record save_job =
  sj_principal_id :: string
  sj_machine_id :: string
  sj_definition :: workflow_definition
  sj_expected_revision :: int
  sj_enabled :: bool
  sj_trigger_cursor :: "string option"

record claim_job =
  cj_principal_id :: string
  cj_machine_id :: string
  cj_run_id :: string
  cj_thread_id :: uuid
  cj_trigger_key :: string
  cj_expected_revision :: int
  cj_trigger_cursor :: "string option"
  cj_manual :: bool

record finish_job =
  fj_principal_id :: string
  fj_machine_id :: string
  fj_state :: run_state
  fj_verdict :: string

record workflow_job =
  wj_job_id :: string
  wj_principal_id :: string
  wj_machine_id :: string
  wj_definition :: workflow_definition
  wj_revision :: int
  wj_enabled :: bool
  wj_next_run_at :: "timestamp option"
  wj_trigger_cursor :: "string option"
  wj_created_at :: timestamp

record workflow_run =
  wr_run_id :: string
  wr_job_id :: string
  wr_thread_id :: uuid
  wr_trigger_key :: string
  wr_definition :: workflow_definition
  wr_state :: run_state
  wr_verdict :: "string option"
  wr_started_at :: timestamp
  wr_finished_at :: "timestamp option"

record job_store =
  workflow_jobs :: "workflow_job list"
  workflow_runs :: "workflow_run list"

text \<open>\<open>croniter.is_valid\<close> and \<open>get_next\<close>, which raises when the line has no next occurrence.\<close>

record cron_lib =
  cron_valid :: "string \<Rightarrow> bool"
  cron_next :: "string \<Rightarrow> timestamp \<Rightarrow> timestamp option"

text \<open>What one request reads of the clock: in the validator of a definition, in the service, and \<open>now()\<close> in the
  transaction.\<close>

record job_times =
  t_validate :: timestamp
  t_now :: timestamp
  t_txn :: timestamp

datatype job_error =
    ValidationError string
  | HTTPException nat string
  | CroniterBadDateError
  | NumericValueOutOfRange

type_synonym 'a job_op = "(job_store, job_error, 'a) act"

section \<open>Timestamps as text\<close>

text \<open>\<open>datetime.isoformat\<close> of a UTC timestamp, counted in microseconds from 1970: the civil date of a day number (days
  in eras of 400 years that start on 1 March), the time of day, and the microseconds when there are any.\<close>

definition civil_from_days :: "int \<Rightarrow> int \<times> int \<times> int" where
  "civil_from_days n =
     (let z = n + 719468; era = z div 146097; doe = z mod 146097;
          yoe = (doe - doe div 1460 + doe div 36524 - doe div 146096) div 365;
          doy = doe - (365 * yoe + yoe div 4 - yoe div 100);
          mp = (5 * doy + 2) div 153;
          m = (if mp < 10 then mp + 3 else mp - 9)
      in (yoe + era * 400 + (if m \<le> 2 then 1 else 0), m, doy - (153 * mp + 2) div 5 + 1))"

definition padded :: "nat \<Rightarrow> int \<Rightarrow> string" where
  "padded w n = (let s = show_nat (nat n) in replicate (w - length s) (CHR ''0'') @ s)"

definition utc_isoformat :: "timestamp \<Rightarrow> string" where
  "utc_isoformat t =
     (let us = t mod 1000000; secs = t div 1000000; sod = secs mod 86400
      in case civil_from_days (secs div 86400) of (y, m, d) \<Rightarrow>
        padded 4 y @ ''-'' @ padded 2 m @ ''-'' @ padded 2 d @ ''T'' @
        padded 2 (sod div 3600) @ '':'' @ padded 2 (sod div 60 mod 60) @ '':'' @ padded 2 (sod mod 60) @
        (if us = 0 then '''' else ''.'' @ padded 6 us) @ ''+00:00'')"

section \<open>Validation\<close>

text \<open>\<open>str.split()\<close>\<close>

function py_split :: "string \<Rightarrow> string list" where
  "py_split s = (case dropWhile is_space s of [] \<Rightarrow> []
     | c # r \<Rightarrow> (c # takeWhile (\<lambda>x. \<not> is_space x) r) # py_split (dropWhile (\<lambda>x. \<not> is_space x) r))"
  by pat_completeness auto
termination
proof (relation "measure length")
  fix s r :: string and c
  assume "dropWhile is_space s = c # r"
  then have "length (c # r) \<le> length s" by (metis length_dropWhile_le)
  then show "(dropWhile (\<lambda>x. \<not> is_space x) r, s) \<in> measure length"
    using length_dropWhile_le [of "\<lambda>x. \<not> is_space x" r] by simp
qed simp

declare py_split.simps [simp del]

definition nonblank :: "string \<Rightarrow> bool" where
  "nonblank s \<longleftrightarrow> strip s \<noteq> []"

definition cron_line :: "cron_lib \<Rightarrow> timestamp \<Rightarrow> string option \<Rightarrow> bool" where
  "cron_line L now c = (case c of None \<Rightarrow> True
     | Some v \<Rightarrow> length (py_split v) = 5 \<and> cron_valid L v \<and> cron_next L v now \<noteq> None)"

definition truthy :: "string option \<Rightarrow> bool" where
  "truthy v \<longleftrightarrow> v \<noteq> None \<and> v \<noteq> Some []"

definition schedule_shape :: "workflow_definition \<Rightarrow> bool" where
  "schedule_shape d \<longleftrightarrow> \<not> (truthy (wd_cron d) \<and> wd_trigger d \<noteq> None) \<and>
     (wd_trigger d = Some Trigger_file \<longleftrightarrow> truthy (wd_trigger_path d))"

definition model_validate :: "cron_lib \<Rightarrow> timestamp \<Rightarrow> workflow_definition \<Rightarrow> job_error + workflow_definition" where
  "model_validate L now d =
     sbind (check (\<not> list_all nonblank [wd_name d, wd_prompt d, wd_folder d, wd_model_policy d, wd_exit_condition d])
       (ValidationError ''fields'')) (\<lambda>_.
     sbind (check (wd_budget_usd d \<le> 0) (ValidationError ''budget_usd'')) (\<lambda>_.
     sbind (check (\<not> cron_line L now (wd_cron d)) (ValidationError ''cron'')) (\<lambda>_.
     sbind (check (\<not> schedule_shape d) (ValidationError ''schedule'')) (\<lambda>_. Inr d))))"

section \<open>The service\<close>

definition job_transaction :: "'a job_op \<Rightarrow> 'a job_op" where
  "job_transaction m = atomic (\<lambda>s t. s) m"

text \<open>\<open>croniter(cron, now).get_next(datetime) if due else None\<close>\<close>

definition get_next :: "cron_lib \<Rightarrow> timestamp \<Rightarrow> string option \<Rightarrow> bool \<Rightarrow> job_error + timestamp option" where
  "get_next L now cron due = (case cron of
       Some c \<Rightarrow> if c \<noteq> [] \<and> due then
           (case cron_next L c now of None \<Rightarrow> Inl CroniterBadDateError | Some t \<Rightarrow> Inr (Some t)) else Inr None
     | None \<Rightarrow> Inr None)"

text \<open>\<open>INSERT ... ON CONFLICT DO NOTHING RETURNING *\<close> on the primary key.\<close>

definition insert_job :: "workflow_job \<Rightarrow> workflow_job option job_op" where
  "insert_job j = (\<lambda>s. if wj_job_id j \<in> wj_job_id ` set (workflow_jobs s) then (Inr None, s)
     else (Inr (Some j), s\<lparr>workflow_jobs := workflow_jobs s @ [j]\<rparr>))"

definition replace_job :: "workflow_job \<Rightarrow> workflow_job list \<Rightarrow> workflow_job list" where
  "replace_job j js = map (\<lambda>x. if wj_job_id x = wj_job_id j then j else x) js"

definition owned_job :: "string \<Rightarrow> string \<Rightarrow> string \<Rightarrow> workflow_job \<Rightarrow> bool" where
  "owned_job job_id p m j \<longleftrightarrow> wj_job_id j = job_id \<and> wj_principal_id j = p \<and> wj_machine_id j = m"

text \<open>The compare-and-set update; \<open>revision\<close> is a 32-bit integer, in the parameter and in the new row.\<close>

definition update_job :: "string \<Rightarrow> save_job \<Rightarrow> timestamp option \<Rightarrow> workflow_job option job_op" where
  "update_job job_id body next =
     sqn (raise_if (sj_expected_revision body \<ge> 2 ^ 31) NumericValueOutOfRange)
     (bnd (gets (\<lambda>s. find (\<lambda>j. owned_job job_id (sj_principal_id body) (sj_machine_id body) j \<and>
         wj_revision j = sj_expected_revision body) (workflow_jobs s))) (\<lambda>found.
      case found of None \<Rightarrow> ret None
      | Some j \<Rightarrow> sqn (raise_if (wj_revision j + 1 \<ge> 2 ^ 31) NumericValueOutOfRange)
          (let row = j\<lparr>wj_definition := sj_definition body, wj_enabled := sj_enabled body,
              wj_revision := wj_revision j + 1, wj_next_run_at := next, wj_trigger_cursor := sj_trigger_cursor body\<rparr>
           in sqn (modify (\<lambda>s. s\<lparr>workflow_jobs := replace_job row (workflow_jobs s)\<rparr>)) (ret (Some row)))))"

definition new_job :: "string \<Rightarrow> save_job \<Rightarrow> timestamp option \<Rightarrow> timestamp \<Rightarrow> workflow_job" where
  "new_job job_id body next ts =
     \<lparr>wj_job_id = job_id, wj_principal_id = sj_principal_id body, wj_machine_id = sj_machine_id body,
      wj_definition = sj_definition body, wj_revision = 1, wj_enabled = sj_enabled body,
      wj_next_run_at = next, wj_trigger_cursor = sj_trigger_cursor body, wj_created_at = ts\<rparr>"

definition save :: "cron_lib \<Rightarrow> job_times \<Rightarrow> string \<Rightarrow> save_job \<Rightarrow> workflow_job job_op" where
  "save L tm job_id body =
     bnd (lift (get_next L (t_now tm) (wd_cron (sj_definition body)) (sj_enabled body))) (\<lambda>next.
     job_transaction
       (bnd (if sj_expected_revision body = 0 then insert_job (new_job job_id body next (t_txn tm))
             else update_job job_id body next) (\<lambda>row.
        case row of None \<Rightarrow> raise (HTTPException 409 ''The workflow changed. Refresh before saving.'')
        | Some r \<Rightarrow> ret r)))"

text \<open>The guards on a run that the schedule starts.\<close>

definition schedule_due :: "job_times \<Rightarrow> workflow_job \<Rightarrow> workflow_definition \<Rightarrow> claim_job \<Rightarrow> job_error + unit" where
  "schedule_due tm job d body =
     sbind (check (\<not> wj_enabled job) (HTTPException 409 ''This schedule is paused.'')) (\<lambda>_.
     if truthy (wd_cron d) then
       (case wj_next_run_at job of
          None \<Rightarrow> Inl (HTTPException 409 ''This schedule is not due.'')
        | Some ts \<Rightarrow>
            sbind (check (ts > t_now tm) (HTTPException 409 ''This schedule is not due.'')) (\<lambda>_.
            check (cj_trigger_key body \<noteq> utc_isoformat ts) (HTTPException 409 ''The scheduled occurrence changed.'')))
     else check (wd_trigger d = None \<or> cj_trigger_cursor body = None \<or> cj_trigger_cursor body = wj_trigger_cursor job)
       (HTTPException 409 ''No new trigger event.''))"

text \<open>\<open>ON CONFLICT DO NOTHING\<close> covers every unique index: the primary key, the thread, the occurrence.\<close>

definition run_conflict :: "workflow_run \<Rightarrow> workflow_run \<Rightarrow> bool" where
  "run_conflict r x \<longleftrightarrow> wr_run_id x = wr_run_id r \<or> wr_thread_id x = wr_thread_id r \<or>
     wr_job_id x = wr_job_id r \<and> wr_trigger_key x = wr_trigger_key r"

definition insert_run :: "workflow_run \<Rightarrow> workflow_run option job_op" where
  "insert_run r = (\<lambda>s. if list_ex (run_conflict r) (workflow_runs s) then (Inr None, s)
     else (Inr (Some r), s\<lparr>workflow_runs := workflow_runs s @ [r]\<rparr>))"

definition new_run :: "string \<Rightarrow> claim_job \<Rightarrow> workflow_definition \<Rightarrow> timestamp \<Rightarrow> workflow_run" where
  "new_run job_id body d ts =
     \<lparr>wr_run_id = cj_run_id body, wr_job_id = job_id, wr_thread_id = cj_thread_id body,
      wr_trigger_key = cj_trigger_key body, wr_definition = d, wr_state = Running, wr_verdict = None,
      wr_started_at = ts, wr_finished_at = None\<rparr>"

definition advance_cursor :: "cron_lib \<Rightarrow> job_times \<Rightarrow> workflow_job \<Rightarrow> workflow_definition \<Rightarrow> claim_job \<Rightarrow> unit job_op" where
  "advance_cursor L tm job d body =
     bnd (lift (get_next L (t_now tm) (wd_cron d) True)) (\<lambda>next.
     modify (\<lambda>s. s\<lparr>workflow_jobs := replace_job
       (job\<lparr>wj_next_run_at := next, wj_trigger_cursor := cj_trigger_cursor body\<rparr>) (workflow_jobs s)\<rparr>))"

definition claim :: "cron_lib \<Rightarrow> job_times \<Rightarrow> string \<Rightarrow> claim_job \<Rightarrow> workflow_run job_op" where
  "claim L tm job_id body = job_transaction
     (bnd (gets (\<lambda>s. find (owned_job job_id (cj_principal_id body) (cj_machine_id body)) (workflow_jobs s))) (\<lambda>found.
      case found of None \<Rightarrow> raise (HTTPException 404 ''Workflow not found.'')
      | Some job \<Rightarrow>
     bnd (gets (\<lambda>s. filter (\<lambda>r. wr_job_id r = job_id \<and> wr_state r = Running) (workflow_runs s))) (\<lambda>running.
     sqn (raise_if (running \<noteq> [] \<or> wj_revision job \<noteq> cj_expected_revision body)
       (HTTPException 409 ''Workflow is already running or changed. Refresh it.''))
     (bnd (lift (model_validate L (t_validate tm) (wj_definition job))) (\<lambda>d.
     sqn (lift (if cj_manual body then Inr () else schedule_due tm job d body))
     (bnd (insert_run (new_run job_id body d (t_txn tm))) (\<lambda>row.
      case row of None \<Rightarrow> raise (HTTPException 409 ''This occurrence was already started.'')
      | Some r \<Rightarrow> sqn (if cj_manual body then ret () else advance_cursor L tm job d body) (ret r))))))))"

definition finished_run :: "job_times \<Rightarrow> finish_job \<Rightarrow> workflow_run \<Rightarrow> workflow_run" where
  "finished_run tm body r =
     r\<lparr>wr_state := fj_state body, wr_verdict := Some (fj_verdict body), wr_finished_at := Some (t_txn tm)\<rparr>"

definition finish :: "job_times \<Rightarrow> string \<Rightarrow> finish_job \<Rightarrow> workflow_run job_op" where
  "finish tm run_id body = job_transaction
     (bnd (gets (\<lambda>s. find (\<lambda>r. wr_run_id r = run_id \<and> wr_state r = Running \<and>
         list_ex (owned_job (wr_job_id r) (fj_principal_id body) (fj_machine_id body)) (workflow_jobs s))
         (workflow_runs s))) (\<lambda>found.
      case found of None \<Rightarrow> raise (HTTPException 409 ''Run is absent or already finished.'')
      | Some r \<Rightarrow> sqn (modify (\<lambda>s. s\<lparr>workflow_runs :=
            map (\<lambda>x. if wr_run_id x = run_id then finished_run tm body x else x) (workflow_runs s)\<rparr>))
          (ret (finished_run tm body r))))"

text \<open>\<open>list\<close>: the jobs of an owner, and the runs of those jobs with what their thread has cost. A receipt line is its
  principal, thread and cost; the total is 0 where nothing is priced.\<close>

definition run_spend :: "(string option \<times> uuid option \<times> rat option) list \<Rightarrow> string \<Rightarrow> uuid \<Rightarrow> rat \<times> nat" where
  "run_spend receipts p tid =
     (let lines = map (\<lambda>(_, _, c). c) (filter (\<lambda>(q, th, _). q = Some p \<and> th = Some tid) receipts)
      in (sum_list (map (\<lambda>c. case c of None \<Rightarrow> 0 | Some x \<Rightarrow> x) lines), length (filter Option.is_none lines)))"

definition list_jobs :: "(string option \<times> uuid option \<times> rat option) list \<Rightarrow> string \<Rightarrow> string \<Rightarrow> job_store \<Rightarrow>
    workflow_job list \<times> (workflow_run \<times> rat \<times> nat) list" where
  "list_jobs receipts p m s =
     (let jobs = filter (\<lambda>j. wj_principal_id j = p \<and> wj_machine_id j = m) (workflow_jobs s);
          runs = filter (\<lambda>r. wr_job_id r \<in> wj_job_id ` set jobs) (workflow_runs s)
      in (sort_key (\<lambda>j. (wj_created_at j, wj_job_id j)) jobs,
          map (\<lambda>r. (r, run_spend receipts p (wr_thread_id r)))
            (sort_key (\<lambda>r. (wr_started_at r, wr_run_id r)) runs)))"

section \<open>Requests\<close>

text \<open>The routes: identifiers are ULIDs, bodies are validated, a \<open>finish\<close> cannot ask for \<open>running\<close>.\<close>

datatype job_request =
    Save string save_job
  | Claim string claim_job
  | Finish string finish_job

definition ulid_param :: "string \<Rightarrow> job_error + string" where
  "ulid_param s = (case normalize_ulid s of None \<Rightarrow> Inl (ValidationError ''ulid'') | Some u \<Rightarrow> Inr u)"

definition save_route :: "cron_lib \<Rightarrow> job_times \<Rightarrow> string \<Rightarrow> save_job \<Rightarrow> workflow_job job_op" where
  "save_route L tm job_id body =
     bnd (lift (ulid_param job_id)) (\<lambda>i.
     sqn (lift (model_validate L (t_validate tm) (sj_definition body)))
     (sqn (raise_if (sj_expected_revision body < 0) (ValidationError ''expected_revision''))
     (save L tm i body)))"

definition claim_route :: "cron_lib \<Rightarrow> job_times \<Rightarrow> string \<Rightarrow> claim_job \<Rightarrow> workflow_run job_op" where
  "claim_route L tm job_id body =
     bnd (lift (ulid_param job_id)) (\<lambda>i.
     bnd (lift (ulid_param (cj_run_id body))) (\<lambda>r.
     claim L tm i (body\<lparr>cj_run_id := r\<rparr>)))"

definition finish_route :: "job_times \<Rightarrow> string \<Rightarrow> finish_job \<Rightarrow> workflow_run job_op" where
  "finish_route tm run_id body =
     bnd (lift (ulid_param run_id)) (\<lambda>r.
     sqn (raise_if (fj_state body = Running) (ValidationError ''state''))
     (finish tm r body))"

fun serve_job :: "cron_lib \<Rightarrow> job_times \<times> job_request \<Rightarrow> job_store \<Rightarrow> job_store" where
  "serve_job L (tm, Save i b) s = snd (save_route L tm i b s)"
| "serve_job L (tm, Claim i b) s = snd (claim_route L tm i b s)"
| "serve_job L (tm, Finish i b) s = snd (finish_route tm i b s)"

definition serve_jobs :: "cron_lib \<Rightarrow> (job_times \<times> job_request) list \<Rightarrow> job_store \<Rightarrow> job_store" where
  "serve_jobs L reqs s = fold (serve_job L) reqs s"

section \<open>The invariant\<close>

text \<open>What every definition that was stored satisfies, whatever the time.\<close>

definition definition_ok :: "workflow_definition \<Rightarrow> bool" where
  "definition_ok d \<longleftrightarrow> list_all nonblank [wd_name d, wd_prompt d, wd_folder d, wd_model_policy d, wd_exit_condition d] \<and>
     0 < wd_budget_usd d \<and> wd_cron d \<noteq> Some [] \<and> schedule_shape d"

text \<open>A job has a next occurrence exactly when it is an enabled cron job.\<close>

definition job_ok :: "workflow_job \<Rightarrow> bool" where
  "job_ok j \<longleftrightarrow> definition_ok (wj_definition j) \<and> 1 \<le> wj_revision j \<and> wj_revision j < 2 ^ 31 \<and>
     (wj_next_run_at j = None \<longleftrightarrow> wd_cron (wj_definition j) = None \<or> \<not> wj_enabled j)"

definition run_ok :: "workflow_run \<Rightarrow> bool" where
  "run_ok r \<longleftrightarrow> definition_ok (wr_definition r) \<and> (wr_state r = Running \<longleftrightarrow> wr_verdict r = None) \<and>
     (wr_state r = Running \<longleftrightarrow> wr_finished_at r = None)"

definition running_jobs :: "workflow_run list \<Rightarrow> string list" where
  "running_jobs rs = map wr_job_id (filter (\<lambda>r. wr_state r = Running) rs)"

definition jobs_ok :: "job_store \<Rightarrow> bool" where
  "jobs_ok s \<longleftrightarrow> distinct (map wj_job_id (workflow_jobs s)) \<and> list_all job_ok (workflow_jobs s) \<and>
     distinct (map wr_run_id (workflow_runs s)) \<and> distinct (map wr_thread_id (workflow_runs s)) \<and>
     distinct (map (\<lambda>r. (wr_job_id r, wr_trigger_key r)) (workflow_runs s)) \<and>
     distinct (running_jobs (workflow_runs s)) \<and> list_all run_ok (workflow_runs s) \<and>
     wr_job_id ` set (workflow_runs s) \<subseteq> wj_job_id ` set (workflow_jobs s)"

text \<open>How a run may change: not at all once it is finished, and until then only by finishing.\<close>

definition run_moves :: "workflow_run \<Rightarrow> workflow_run \<Rightarrow> bool" where
  "run_moves r r' \<longleftrightarrow> r' = r \<or> wr_state r = Running \<and> wr_state r' \<noteq> Running \<and>
     (\<exists>st v f. r' = r\<lparr>wr_state := st, wr_verdict := v, wr_finished_at := f\<rparr>)"

definition job_moves :: "workflow_job \<Rightarrow> workflow_job \<Rightarrow> bool" where
  "job_moves j j' \<longleftrightarrow> wj_job_id j' = wj_job_id j \<and> wj_principal_id j' = wj_principal_id j \<and>
     wj_machine_id j' = wj_machine_id j \<and> wj_created_at j' = wj_created_at j \<and> wj_revision j \<le> wj_revision j' \<and>
     (wj_revision j = wj_revision j' \<longrightarrow> wj_definition j' = wj_definition j \<and> wj_enabled j' = wj_enabled j)"

text \<open>Rows are only appended, and move in place.\<close>

definition jobs_grow :: "job_store \<Rightarrow> job_store \<Rightarrow> bool" where
  "jobs_grow s t \<longleftrightarrow>
     (\<exists>js. list_all2 job_moves (workflow_jobs s) js \<and> prefix js (workflow_jobs t)) \<and>
     (\<exists>rs. list_all2 run_moves (workflow_runs s) rs \<and> prefix rs (workflow_runs t))"

definition jobs_step :: "job_store \<Rightarrow> job_store \<Rightarrow> bool" where
  "jobs_step s t \<longleftrightarrow> (jobs_ok s \<longrightarrow> jobs_ok t \<and> jobs_grow s t)"

lemma run_moves_refl: "run_moves r r"
  by (simp add: run_moves_def)

lemma run_moves_trans: "run_moves a b \<Longrightarrow> run_moves b c \<Longrightarrow> run_moves a c"
  unfolding run_moves_def by auto

lemma job_moves_refl: "job_moves j j"
  by (simp add: job_moves_def)

lemma job_moves_trans: "job_moves a b \<Longrightarrow> job_moves b c \<Longrightarrow> job_moves a c"
  unfolding job_moves_def by auto

lemma moved_prefix_trans:
  assumes R: "\<And>a b c. R a b \<Longrightarrow> R b c \<Longrightarrow> R a c"
    and "list_all2 R xs ys" "prefix ys us" "list_all2 R us vs" "prefix vs ws"
  shows "\<exists>zs. list_all2 R xs zs \<and> prefix zs ws"
proof -
  from assms(3) obtain d where us: "us = ys @ d" by (auto elim: prefixE)
  from assms(4) [unfolded us] obtain v1 v2 where v: "vs = v1 @ v2" "list_all2 R ys v1"
    by (auto simp: list_all2_append1)
  from list_all2_trans [of R R R, OF R assms(2) v(2)] have "list_all2 R xs v1" .
  with v(1) assms(5) show ?thesis by (meson append_prefixD)
qed

lemma moved_prefix_refl: "(\<And>a. R a a) \<Longrightarrow> \<exists>zs. list_all2 R xs zs \<and> prefix zs xs"
  by (rule exI [of _ xs]) (simp add: list.rel_refl)

lemma jobs_grow_refl: "jobs_grow s s"
  unfolding jobs_grow_def by (intro conjI moved_prefix_refl job_moves_refl run_moves_refl)

lemma jobs_grow_trans:
  assumes "jobs_grow s t" "jobs_grow t u"
  shows "jobs_grow s u"
proof -
  from assms obtain js rs js' rs' where
    j: "list_all2 job_moves (workflow_jobs s) js" "prefix js (workflow_jobs t)"
      "list_all2 job_moves (workflow_jobs t) js'" "prefix js' (workflow_jobs u)"
    and r: "list_all2 run_moves (workflow_runs s) rs" "prefix rs (workflow_runs t)"
      "list_all2 run_moves (workflow_runs t) rs'" "prefix rs' (workflow_runs u)"
    unfolding jobs_grow_def by auto
  from moved_prefix_trans [OF job_moves_trans j] moved_prefix_trans [OF run_moves_trans r]
  show ?thesis by (auto simp: jobs_grow_def)
qed

interpretation job_steps: step_order jobs_step
  by unfold_locales (auto simp: jobs_step_def jobs_grow_refl intro: jobs_grow_trans)

text \<open>A transaction that fails leaves the tables as they were, so only its successful runs matter.\<close>

lemma job_transaction_Inr [act_iff]: "job_transaction m s = (Inr x, t) \<longleftrightarrow> m s = (Inr x, t)"
  by (simp add: job_transaction_def act_iff)

lemma job_transaction_Inl: "job_transaction m s = (Inl e, t) \<Longrightarrow> t = s"
  by (auto simp: job_transaction_def atomic_Inl_iff)

lemma job_transaction_steps:
  assumes m: "m = job_transaction m'"
    and "\<And>s x t. jobs_ok s \<Longrightarrow> m s = (Inr x, t) \<Longrightarrow> jobs_ok t \<and> jobs_grow s t"
  shows "job_steps.steps m"
proof (rule job_steps.stepsI)
  fix s r t
  assume run: "m s = (r, t)"
  show "jobs_step s t"
  proof (cases r)
    case (Inl e)
    with run show ?thesis unfolding m by (auto dest: job_transaction_Inl intro: job_steps.R_refl)
  next
    case (Inr x)
    with run assms(2) show ?thesis by (simp add: jobs_step_def)
  qed
qed

section \<open>The operations keep it\<close>

lemma find_job: "find (owned_job i p m) js = Some j \<Longrightarrow> j \<in> set js \<and> wj_job_id j = i"
  by (auto dest: find_Some_set simp: owned_job_def)

lemma replace_job_ids: "map wj_job_id (replace_job j js) = map wj_job_id js"
  by (auto simp: replace_job_def)

lemma replace_job_ok: "list_all job_ok js \<Longrightarrow> job_ok j \<Longrightarrow> list_all job_ok (replace_job j js)"
  by (auto simp: replace_job_def list_all_iff)

lemma replace_job_moves:
  assumes "distinct (map wj_job_id js)" "j \<in> set js" "job_moves j j'"
  shows "list_all2 job_moves js (replace_job j' js)"
proof -
  have "job_moves x (if wj_job_id x = wj_job_id j' then j' else x)" if "x \<in> set js" for x
  proof (cases "wj_job_id x = wj_job_id j'")
    case True
    with assms(3) have "wj_job_id x = wj_job_id j" by (simp add: job_moves_def)
    with assms(1,2) that have "x = j" by (meson distinct_map inj_onD)
    with assms(3) show ?thesis by (simp add: job_moves_def)
  qed (simp add: job_moves_refl)
  then show ?thesis by (simp add: replace_job_def list.rel_map list.rel_refl_strong)
qed

lemma jobs_ok_change_jobs:
  assumes "jobs_ok s" "distinct (map wj_job_id js)" "list_all job_ok js"
    and "wj_job_id ` set (workflow_jobs s) \<subseteq> wj_job_id ` set js"
  shows "jobs_ok (s\<lparr>workflow_jobs := js\<rparr>)"
  using assms unfolding jobs_ok_def by (simp, elim conjE) (rule subset_trans)

lemma replace_job_step:
  assumes "jobs_ok s" "j \<in> set (workflow_jobs s)" "job_moves j j'" "job_ok j'"
  shows "jobs_ok (s\<lparr>workflow_jobs := replace_job j' (workflow_jobs s)\<rparr>)"
    and "jobs_grow s (s\<lparr>workflow_jobs := replace_job j' (workflow_jobs s)\<rparr>)"
proof -
  note ids = replace_job_ids [of j' "workflow_jobs s"]
  have set_ids: "wj_job_id ` set (replace_job j' (workflow_jobs s)) = wj_job_id ` set (workflow_jobs s)"
    using arg_cong [OF ids, of set] by simp
  have d: "distinct (map wj_job_id (workflow_jobs s))" "list_all job_ok (workflow_jobs s)"
    using assms(1) by (simp_all add: jobs_ok_def)
  show "jobs_ok (s\<lparr>workflow_jobs := replace_job j' (workflow_jobs s)\<rparr>)"
    by (rule jobs_ok_change_jobs) (simp_all add: assms ids set_ids d replace_job_ok)
  show "jobs_grow s (s\<lparr>workflow_jobs := replace_job j' (workflow_jobs s)\<rparr>)"
    using replace_job_moves [OF d(1) assms(2,3)] moved_prefix_refl [of run_moves, OF run_moves_refl]
    by (auto simp: jobs_grow_def)
qed

lemma get_next_Inr:
  "get_next L now c due = Inr n \<Longrightarrow> c \<noteq> Some [] \<Longrightarrow> n = None \<longleftrightarrow> c = None \<or> \<not> due"
  by (cases c; cases "cron_next L (the c) now") (auto simp: get_next_def split: if_splits dest!: sym [of "Some _"])

lemma py_split_Nil [simp]: "py_split [] = []"
  by (simp add: py_split.simps [of "[]"])

lemma model_validate_Inr:
  assumes "model_validate L now d = Inr d'"
  shows "d' = d" "definition_ok d"
  using assms by (auto simp: model_validate_def definition_ok_def cron_line_def not_le)


lemma bnd_lift: "bnd (lift v) f = (case v of Inl e \<Rightarrow> raise e | Inr x \<Rightarrow> f x)"
  by (cases v) (auto simp: act_defs fun_eq_iff)

lemma bnd_ret: "bnd (ret x) f = f x" and bnd_raise: "bnd (raise e) f = raise e"
  by (auto simp: act_defs fun_eq_iff)

lemma insert_job_step:
  assumes "jobs_ok s" "job_ok j" "insert_job j s = (Inr (Some x), t)"
  shows "jobs_ok t" "jobs_grow s t"
proof -
  from assms(3) have new: "wj_job_id j \<notin> wj_job_id ` set (workflow_jobs s)"
    and t: "t = s\<lparr>workflow_jobs := workflow_jobs s @ [j]\<rparr>"
    by (auto simp: insert_job_def split: if_splits)
  show "jobs_ok t"
    unfolding t using assms(1,2) new
    by (intro jobs_ok_change_jobs) (auto simp: jobs_ok_def)
  show "jobs_grow s t"
    unfolding t jobs_grow_def using moved_prefix_refl [of run_moves, OF run_moves_refl]
    by (auto intro!: exI [of _ "workflow_jobs s"] simp: list.rel_refl job_moves_refl)
qed

lemma update_job_step:
  assumes "jobs_ok s" "definition_ok (sj_definition body)"
    and "next = None \<longleftrightarrow> wd_cron (sj_definition body) = None \<or> \<not> sj_enabled body"
    and "update_job i body next s = (Inr (Some x), t)"
  shows "jobs_ok t" "jobs_grow s t"
proof -
  define row where "row j = j\<lparr>wj_definition := sj_definition body, wj_enabled := sj_enabled body,
      wj_revision := wj_revision j + 1, wj_next_run_at := next, wj_trigger_cursor := sj_trigger_cursor body\<rparr>" for j :: workflow_job
  from assms(4) obtain j where j: "j \<in> set (workflow_jobs s)" "wj_revision j + 1 < 2 ^ 31"
    and t: "t = s\<lparr>workflow_jobs := replace_job (row j) (workflow_jobs s)\<rparr>"
    by (auto simp: update_job_def act_iff Let_def row_def not_le dest!: find_Some_set)
  have "job_ok j" using assms(1) j(1) by (auto simp: jobs_ok_def list_all_iff)
  then have ok: "job_ok (row j)" using assms(2,3) j(2) by (simp add: job_ok_def row_def)
  have moves: "job_moves j (row j)" by (simp add: job_moves_def row_def)
  show "jobs_ok t" "jobs_grow s t"
    unfolding t by (rule replace_job_step [OF assms(1) j(1) moves ok])+
qed

lemma save_steps:
  assumes "definition_ok (sj_definition body)"
  shows "job_steps.steps (save L tm i body)"
proof (cases "get_next L (t_now tm) (wd_cron (sj_definition body)) (sj_enabled body)")
  case (Inl e)
  then show ?thesis by (simp add: save_def bnd_lift job_steps.steps_raise)
next
  case (Inr nx)
  have nx: "nx = None \<longleftrightarrow> wd_cron (sj_definition body) = None \<or> \<not> sj_enabled body"
    using assms by (intro get_next_Inr [OF Inr]) (simp add: definition_ok_def)
  have new: "job_ok (new_job i body nx ts)" for ts
    using assms nx by (simp add: job_ok_def new_job_def)
  show ?thesis
    unfolding save_def bnd_lift Inr sum.case
    by (rule job_transaction_steps [OF refl])
      (auto simp: act_iff split: if_splits dest: insert_job_step [OF _ new] update_job_step [OF _ assms nx])
qed


lemma claim_Inr:
  assumes "claim L tm i body s = (Inr r, t)"
  obtains job nx where "job \<in> set (workflow_jobs s)" "owned_job i (cj_principal_id body) (cj_machine_id body) job"
    "\<And>x. x \<in> set (workflow_runs s) \<Longrightarrow> wr_job_id x = i \<Longrightarrow> wr_state x \<noteq> Running"
    "wj_revision job = cj_expected_revision body"
    "model_validate L (t_validate tm) (wj_definition job) = Inr (wj_definition job)"
    "\<not> cj_manual body \<Longrightarrow> schedule_due tm job (wj_definition job) body = Inr ()"
    "\<not> list_ex (run_conflict r) (workflow_runs s)" "r = new_run i body (wj_definition job) (t_txn tm)"
    "\<not> cj_manual body \<Longrightarrow> get_next L (t_now tm) (wd_cron (wj_definition job)) True = Inr nx"
    "t = s\<lparr>workflow_runs := workflow_runs s @ [r],
       workflow_jobs := (if cj_manual body then workflow_jobs s else replace_job
         (job\<lparr>wj_next_run_at := nx, wj_trigger_cursor := cj_trigger_cursor body\<rparr>) (workflow_jobs s))\<rparr>"
proof -
  from assms obtain job d u where
    job: "find (owned_job i (cj_principal_id body) (cj_machine_id body)) (workflow_jobs s) = Some job"
    and run: "filter (\<lambda>r. wr_job_id r = i \<and> wr_state r = Running) (workflow_runs s) = []"
      "wj_revision job = cj_expected_revision body"
    and d: "model_validate L (t_validate tm) (wj_definition job) = Inr d"
    and due: "(if cj_manual body then Inr () else schedule_due tm job d body) = Inr ()"
    and ins: "insert_run (new_run i body d (t_txn tm)) s = (Inr (Some r), u)"
    and adv: "(if cj_manual body then ret () else advance_cursor L tm job d body) u = (Inr (), t)"
    unfolding claim_def by (simp only: act_iff) (auto simp: act_iff split: if_splits dest!: sym [of "Inr _"])
  note d = model_validate_Inr(1) [OF d] d
  from ins have r: "r = new_run i body d (t_txn tm)" "\<not> list_ex (run_conflict r) (workflow_runs s)"
    and u: "u = s\<lparr>workflow_runs := workflow_runs s @ [r]\<rparr>"
    by (auto simp: insert_run_def split: if_splits)
  from adv obtain nx where nx: "\<not> cj_manual body \<Longrightarrow> get_next L (t_now tm) (wd_cron d) True = Inr nx"
    "t = s\<lparr>workflow_runs := workflow_runs s @ [r],
       workflow_jobs := (if cj_manual body then workflow_jobs s else replace_job
         (job\<lparr>wj_next_run_at := nx, wj_trigger_cursor := cj_trigger_cursor body\<rparr>) (workflow_jobs s))\<rparr>"
    by (cases "cj_manual body") (auto simp: advance_cursor_def act_iff u dest!: sym [of "Inr _"])
  show thesis
    by (rule that [of job nx])
      (use find_Some_set [OF job] run d due r nx in \<open>auto simp: filter_empty_conv\<close>)
qed

lemma scheduled_claim_Inr:
  assumes "claim L tm i body s = (Inr r, t)" "\<not> cj_manual body"
  obtains job nx where "job \<in> set (workflow_jobs s)" "wj_job_id job = i" "wj_revision job = cj_expected_revision body"
    "schedule_due tm job (wj_definition job) body = Inr ()"
    "\<not> list_ex (run_conflict r) (workflow_runs s)" "r = new_run i body (wj_definition job) (t_txn tm)"
    "get_next L (t_now tm) (wd_cron (wj_definition job)) True = Inr nx"
    "t = s\<lparr>workflow_runs := workflow_runs s @ [r], workflow_jobs := replace_job
       (job\<lparr>wj_next_run_at := nx, wj_trigger_cursor := cj_trigger_cursor body\<rparr>) (workflow_jobs s)\<rparr>"
  using assms(2) by (rule_tac claim_Inr [OF assms(1)]) (simp add: owned_job_def)

lemma run_conflict_iff:
  "\<not> list_ex (run_conflict r) rs \<longleftrightarrow> wr_run_id r \<notin> wr_run_id ` set rs \<and> wr_thread_id r \<notin> wr_thread_id ` set rs \<and>
     (wr_job_id r, wr_trigger_key r) \<notin> (\<lambda>x. (wr_job_id x, wr_trigger_key x)) ` set rs"
  by (auto simp: list_ex_iff run_conflict_def image_iff)

lemma new_run_step:
  assumes "jobs_ok s" "run_ok r" "\<not> list_ex (run_conflict r) (workflow_runs s)"
    and "wr_job_id r \<in> wj_job_id ` set (workflow_jobs s)"
    and "\<And>x. x \<in> set (workflow_runs s) \<Longrightarrow> wr_job_id x = wr_job_id r \<Longrightarrow> wr_state x \<noteq> Running"
  shows "jobs_ok (s\<lparr>workflow_runs := workflow_runs s @ [r]\<rparr>)" "jobs_grow s (s\<lparr>workflow_runs := workflow_runs s @ [r]\<rparr>)"
proof -
  have "wr_job_id r \<notin> set (running_jobs (workflow_runs s))" using assms(5) by (auto simp: running_jobs_def)
  then show "jobs_ok (s\<lparr>workflow_runs := workflow_runs s @ [r]\<rparr>)"
    using assms(1,2,4) assms(3) [unfolded run_conflict_iff]
    by (simp add: jobs_ok_def running_jobs_def)
  show "jobs_grow s (s\<lparr>workflow_runs := workflow_runs s @ [r]\<rparr>)"
    unfolding jobs_grow_def using moved_prefix_refl [of job_moves, OF job_moves_refl]
    by (auto intro!: exI [of _ "workflow_runs s"] simp: list.rel_refl run_moves_refl)
qed


lemma claim_steps: "job_steps.steps (claim L tm i body)"
proof (rule job_transaction_steps [OF claim_def])
  fix s r t
  assume ok: "jobs_ok s" and run: "claim L tm i body s = (Inr r, t)"
  from claim_Inr [OF run] obtain job nx where
    job: "job \<in> set (workflow_jobs s)" "owned_job i (cj_principal_id body) (cj_machine_id body) job"
    and free: "\<And>x. x \<in> set (workflow_runs s) \<Longrightarrow> wr_job_id x = i \<Longrightarrow> wr_state x \<noteq> Running"
    and due: "\<not> cj_manual body \<Longrightarrow> schedule_due tm job (wj_definition job) body = Inr ()"
    and r: "\<not> list_ex (run_conflict r) (workflow_runs s)" "r = new_run i body (wj_definition job) (t_txn tm)"
    and nx: "\<not> cj_manual body \<Longrightarrow> get_next L (t_now tm) (wd_cron (wj_definition job)) True = Inr nx"
    and t: "t = s\<lparr>workflow_runs := workflow_runs s @ [r],
       workflow_jobs := (if cj_manual body then workflow_jobs s else replace_job
         (job\<lparr>wj_next_run_at := nx, wj_trigger_cursor := cj_trigger_cursor body\<rparr>) (workflow_jobs s))\<rparr>" by blast
  let ?u = "s\<lparr>workflow_runs := workflow_runs s @ [r]\<rparr>"
  have jok: "job_ok job" using ok job(1) by (auto simp: jobs_ok_def list_all_iff)
  then have "run_ok r" by (simp add: r(2) run_ok_def new_run_def job_ok_def)
  moreover have ri: "wr_job_id r = i" "i \<in> wj_job_id ` set (workflow_jobs s)"
    using job by (auto simp: r(2) new_run_def owned_job_def)
  ultimately have u: "jobs_ok ?u" "jobs_grow s ?u"
    using new_run_step [OF ok _ r(1)] free by simp_all
  show "jobs_ok t \<and> jobs_grow s t"
  proof (cases "cj_manual body")
    case True
    with u t show ?thesis by simp
  next
    case False
    let ?j = "job\<lparr>wj_next_run_at := nx, wj_trigger_cursor := cj_trigger_cursor body\<rparr>"
    have "wj_enabled job" using due [OF False] by (auto simp: schedule_due_def)
    then have "job_ok ?j" using jok get_next_Inr [OF nx [OF False]] by (auto simp: job_ok_def definition_ok_def)
    moreover have "job_moves job ?j" by (simp add: job_moves_def)
    moreover have "job \<in> set (workflow_jobs ?u)" using job(1) by simp
    ultimately show ?thesis
      using replace_job_step [OF u(1), of job ?j] jobs_grow_trans [OF u(2)] False t by simp
  qed
qed

lemma finish_steps:
  assumes "fj_state body \<noteq> Running"
  shows "job_steps.steps (finish tm i body)"
proof (rule job_transaction_steps [OF finish_def])
  fix s r t
  assume ok: "jobs_ok s" and run: "finish tm i body s = (Inr r, t)"
  let ?f = "\<lambda>x. if wr_run_id x = i then finished_run tm body x else x"
  from run obtain x where x: "x \<in> set (workflow_runs s)" "wr_run_id x = i" "wr_state x = Running"
    and t: "t = s\<lparr>workflow_runs := map ?f (workflow_runs s)\<rparr>"
    by (auto simp: finish_def act_iff dest!: find_Some_set)
  have only: "y = x" if "y \<in> set (workflow_runs s)" "wr_run_id y = i" for y
    using ok x(1,2) that by (auto simp: jobs_ok_def distinct_map dest: inj_onD)
  have same: "wr_run_id (?f y) = wr_run_id y" "wr_job_id (?f y) = wr_job_id y" "wr_thread_id (?f y) = wr_thread_id y"
    "wr_trigger_key (?f y) = wr_trigger_key y" for y by (simp_all add: finished_run_def)
  have fewer: "running_jobs (map ?f rs) = map wr_job_id (filter (\<lambda>y. wr_state y = Running \<and> wr_run_id y \<noteq> i) rs)" for rs
    using assms by (induction rs) (auto simp: running_jobs_def finished_run_def)
  have "distinct (running_jobs (map ?f rs))" if "distinct (running_jobs rs)" for rs
    using distinct_map_filter [OF that [unfolded running_jobs_def], of "\<lambda>y. wr_run_id y \<noteq> i"]
    by (simp add: fewer conj_commute)
  moreover have "list_all run_ok (map ?f (workflow_runs s))"
    using ok assms by (auto simp: jobs_ok_def list_all_iff run_ok_def finished_run_def)
  moreover have "wr_job_id ` set (map ?f rs) = wr_job_id ` set rs" for rs
    by (simp only: set_map image_image same)
  ultimately have "jobs_ok t" using ok by (simp add: jobs_ok_def t o_def same del: set_map)
  moreover have "run_moves y (?f y)" if "y \<in> set (workflow_runs s)" for y
    using only [OF that] x(3) assms by (auto simp: run_moves_def finished_run_def)
  then have "jobs_grow s t"
    using moved_prefix_refl [of job_moves, OF job_moves_refl]
    by (auto intro!: exI [of _ "map ?f (workflow_runs s)"] simp: t jobs_grow_def list.rel_map list.rel_refl_strong)
  ultimately show "jobs_ok t \<and> jobs_grow s t" ..
qed

lemma serve_job_step: "jobs_step s (serve_job L req s)"
proof -
  obtain tm q where req: "req = (tm, q)" by (cases req)
  have saved: "job_steps.steps (save_route L tm i b)" for i b
    unfolding save_route_def sqn_def bnd_lift
    by (auto simp: sqn_def bnd_lift split: sum.splits
        intro!: job_steps.steps_rules save_steps dest: model_validate_Inr)
  have claimed: "job_steps.steps (claim_route L tm i b)" for i b
    unfolding claim_route_def by (intro job_steps.steps_rules claim_steps)
  have finished: "job_steps.steps (finish_route tm i b)" for i b
    using finish_steps [of b tm]
    by (auto simp: finish_route_def raise_if_def sqn_def bnd_ret bnd_raise intro!: job_steps.steps_rules)
  show ?thesis
    by (cases q) (simp_all add: req, (metis job_steps.stepsD [OF saved] job_steps.stepsD [OF claimed]
      job_steps.stepsD [OF finished] prod.collapse)+)
qed


lemma jobs_history:
  assumes "jobs_ok s"
  shows "jobs_ok (serve_jobs L reqs s)" "jobs_grow s (serve_jobs L reqs s)"
proof -
  have "jobs_step s (serve_jobs L reqs s)"
    by (induction reqs arbitrary: s)
      (auto simp: serve_jobs_def job_steps.R_refl intro: job_steps.R_trans serve_job_step)
  with assms show "jobs_ok (serve_jobs L reqs s)" "jobs_grow s (serve_jobs L reqs s)" by (simp_all add: jobs_step_def)
qed

lemma moved_member:
  "list_all2 R xs ys \<Longrightarrow> prefix ys zs \<Longrightarrow> x \<in> set xs \<Longrightarrow> \<exists>y \<in> set zs. R x y"
  by (metis list_all2_iff in_set_conv_nth nth_mem set_mono_prefix subsetD list_all2_nthD)

section \<open>Properties\<close>

text \<open>C29: Whatever saves, claims and finishes arrive, valid or not, in whatever order and with whatever
  clock: a job has at most one running run, every occurrence of a job and every thread belongs to at most one run,
  revisions stay in their range, and a job has a next occurrence exactly when it is an enabled cron job. No job or run
  disappears; a finished run never changes, a running one changes only by finishing, with its recipe frozen; a job
  keeps its owner, and its recipe changes only with its revision.\<close>

theorem workflow_history:
  assumes "jobs_ok s"
  shows "jobs_ok (serve_jobs L reqs s) \<and>
    (\<forall>r \<in> set (workflow_runs s). \<exists>r' \<in> set (workflow_runs (serve_jobs L reqs s)). run_moves r r') \<and>
    (\<forall>j \<in> set (workflow_jobs s). \<exists>j' \<in> set (workflow_jobs (serve_jobs L reqs s)). job_moves j j')"
  using jobs_history [OF assms, of L reqs] unfolding jobs_grow_def by (auto dest: moved_member)

text \<open>C30: A run that the schedule starts appends one running run with the recipe of the enabled job. For
  a cron job it names the occurrence that is due, and the next occurrence of the job moves past the present; for a
  triggered job the cursor moves on. The cron library is assumed to answer with a later time.\<close>

theorem scheduled_claim:
  assumes later: "\<forall>c t n. cron_next L c t = Some n \<longrightarrow> t < n"
    and "jobs_ok s" "claim L tm i body s = (Inr r, t)" "\<not> cj_manual body"
  shows "\<exists>job nx. job \<in> set (workflow_jobs s) \<and> wj_job_id job = i \<and> wj_enabled job \<and>
     wj_revision job = cj_expected_revision body \<and>
     r = new_run i body (wj_definition job) (t_txn tm) \<and> workflow_runs t = workflow_runs s @ [r] \<and>
     workflow_jobs t = replace_job (job\<lparr>wj_next_run_at := nx, wj_trigger_cursor := cj_trigger_cursor body\<rparr>) (workflow_jobs s) \<and>
     (if wd_cron (wj_definition job) = None
      then nx = None \<and> wd_trigger (wj_definition job) \<noteq> None \<and>
        cj_trigger_cursor body \<noteq> None \<and> cj_trigger_cursor body \<noteq> wj_trigger_cursor job
      else \<exists>due later. wj_next_run_at job = Some due \<and> due \<le> t_now tm \<and> cj_trigger_key body = utc_isoformat due \<and>
        nx = Some later \<and> t_now tm < later)"
proof -
  from scheduled_claim_Inr [OF assms(3,4)] obtain job nx where
    job: "job \<in> set (workflow_jobs s)" "wj_job_id job = i" "wj_revision job = cj_expected_revision body"
    and due: "schedule_due tm job (wj_definition job) body = Inr ()"
    and r: "r = new_run i body (wj_definition job) (t_txn tm)"
    and nx: "get_next L (t_now tm) (wd_cron (wj_definition job)) True = Inr nx"
    and t: "t = s\<lparr>workflow_runs := workflow_runs s @ [r], workflow_jobs := replace_job
       (job\<lparr>wj_next_run_at := nx, wj_trigger_cursor := cj_trigger_cursor body\<rparr>) (workflow_jobs s)\<rparr>" .
  have "job_ok job" using assms(2) job(1) by (auto simp: jobs_ok_def list_all_iff)
  then have cron: "wd_cron (wj_definition job) \<noteq> Some []" by (simp add: job_ok_def definition_ok_def)
  have enabled: "wj_enabled job" using due by (auto simp: schedule_due_def)
  have "if wd_cron (wj_definition job) = None
      then nx = None \<and> wd_trigger (wj_definition job) \<noteq> None \<and>
        cj_trigger_cursor body \<noteq> None \<and> cj_trigger_cursor body \<noteq> wj_trigger_cursor job
      else \<exists>due later. wj_next_run_at job = Some due \<and> due \<le> t_now tm \<and> cj_trigger_key body = utc_isoformat due \<and>
        nx = Some later \<and> t_now tm < later"
  proof (cases "wd_cron (wj_definition job)")
    case None
    with due nx show ?thesis by (auto simp: schedule_due_def truthy_def get_next_def)
  next
    case (Some c)
    with cron have c: "c \<noteq> []" by simp
    from due Some c obtain at' where "wj_next_run_at job = Some at'" "at' \<le> t_now tm" "cj_trigger_key body = utc_isoformat at'"
      by (auto simp: schedule_due_def truthy_def not_less split: option.splits)
    moreover from nx Some c obtain n where "cron_next L c (t_now tm) = Some n" "nx = Some n"
      by (auto simp: get_next_def split: option.splits)
    ultimately show ?thesis using later Some by simp
  qed
  with job enabled r t show ?thesis by (intro exI [of _ job] exI [of _ nx]) simp
qed

text \<open>An occurrence whose key is already on a run of the job stays refused: a scheduled claim fails and the schedule
  does not move. A manual claim may carry any key, also the one of the occurrence that is due next.\<close>

lemma taken_occurrence_blocks:
  assumes "jobs_ok s" "job \<in> set (workflow_jobs s)" "wj_job_id job = i" "wj_next_run_at job = Some occ"
    and "x \<in> set (workflow_runs s)" "wr_job_id x = i" "wr_trigger_key x = utc_isoformat occ"
    and "\<not> cj_manual body"
  shows "\<exists>e. claim L tm i body s = (Inl e, s)"
proof (cases "claim L tm i body s")
  case (Pair r t)
  show ?thesis
  proof (cases r)
    case (Inl e)
    with Pair show ?thesis by (auto simp: claim_def dest: job_transaction_Inl)
  next
    case (Inr run)
    with Pair have run: "claim L tm i body s = (Inr run, t)" by simp
    from scheduled_claim_Inr [OF run assms(8)] obtain job' where
      job: "job' \<in> set (workflow_jobs s)" "wj_job_id job' = i"
      and due: "schedule_due tm job' (wj_definition job') body = Inr ()"
      and r: "\<not> list_ex (run_conflict run) (workflow_runs s)" "run = new_run i body (wj_definition job') (t_txn tm)" .
    have "job' = job" using assms(1,2,3) job by (auto simp: jobs_ok_def distinct_map dest: inj_onD)
    moreover have "job_ok job" using assms(1,2) by (auto simp: jobs_ok_def list_all_iff)
    ultimately have "cj_trigger_key body = utc_isoformat occ"
      using due assms(4) by (auto simp: schedule_due_def job_ok_def definition_ok_def truthy_def)
    then have "run_conflict run x" using assms(6,7) by (simp add: run_conflict_def r(2) new_run_def)
    with r(1) assms(5) show ?thesis by (auto simp: list_ex_iff)
  qed
qed


section \<open>Examples\<close>

definition sample_cron :: cron_lib where
  "sample_cron = \<lparr>cron_valid = (\<lambda>_. True), cron_next = (\<lambda>_ t. Some (t + 60000000))\<rparr>"

definition sample_definition :: workflow_definition where
  "sample_definition = \<lparr>wd_name = ''digest'', wd_prompt = ''Sum up.'', wd_folder = ''/w'', wd_model_policy = ''max'',
     wd_tools = Tools_pydantic, wd_memory_scope = Scope_workspace, wd_budget_usd = 1, wd_exit_condition = ''done'',
     wd_cron = Some ''* * * * *'', wd_trigger = None, wd_trigger_path = None\<rparr>"

definition sample_save :: save_job where
  "sample_save = \<lparr>sj_principal_id = ''p'', sj_machine_id = ''m'', sj_definition = sample_definition,
     sj_expected_revision = 0, sj_enabled = True, sj_trigger_cursor = None\<rparr>"

definition sample_claim :: claim_job where
  "sample_claim = \<lparr>cj_principal_id = ''p'', cj_machine_id = ''m'', cj_run_id = ''01ARZ3NDEKTSV4RRFFQ69G5FAV'',
     cj_thread_id = 7, cj_trigger_key = ''1970-01-01T00:01:00+00:00'', cj_expected_revision = 1,
     cj_trigger_cursor = None, cj_manual = False\<rparr>"

definition sample_times :: "timestamp \<Rightarrow> job_times" where
  "sample_times t = \<lparr>t_validate = t, t_now = t, t_txn = t\<rparr>"

definition sample_saved :: job_store where
  "sample_saved = \<lparr>workflow_jobs = [new_job ''01ARZ3NDEKTSV4RRFFQ69G5FAW'' sample_save (Some 60000000) 0], workflow_runs = []\<rparr>"

lemma sample_saved_ok: "jobs_ok sample_saved"
  by code_simp

lemma sample_saved_by: "serve_jobs sample_cron [(sample_times 0, Save ''01arz3ndektsv4rrffq69g5faw'' sample_save)]
    \<lparr>workflow_jobs = [], workflow_runs = []\<rparr> = sample_saved"
  by code_simp

lemma sample_claimed:
  "fst (claim sample_cron (sample_times 90000000) ''01ARZ3NDEKTSV4RRFFQ69G5FAW'' sample_claim sample_saved) =
     Inr (new_run ''01ARZ3NDEKTSV4RRFFQ69G5FAW'' sample_claim sample_definition 90000000)"
  by code_simp

theorem workflow_history_witness:
  "jobs_ok (serve_jobs sample_cron [(sample_times 90000000, Claim ''01ARZ3NDEKTSV4RRFFQ69G5FAW'' sample_claim)] sample_saved)"
  using workflow_history [OF sample_saved_ok] by blast

theorem scheduled_claim_witness:
  "\<exists>job \<in> set (workflow_jobs sample_saved). \<exists>due. wj_next_run_at job = Some due \<and>
     cj_trigger_key sample_claim = utc_isoformat due"
proof -
  obtain t where t: "claim sample_cron (sample_times 90000000) ''01ARZ3NDEKTSV4RRFFQ69G5FAW'' sample_claim sample_saved =
     (Inr (new_run ''01ARZ3NDEKTSV4RRFFQ69G5FAW'' sample_claim sample_definition 90000000), t)"
    using sample_claimed by (metis prod.collapse)
  have later: "\<forall>c t n. cron_next sample_cron c t = Some n \<longrightarrow> t < n" by (simp add: sample_cron_def)
  have scheduled: "\<not> cj_manual sample_claim" by (simp add: sample_claim_def)
  have cron: "wd_cron (wj_definition job) \<noteq> None" if "job \<in> set (workflow_jobs sample_saved)" for job
    using that by (simp add: sample_saved_def new_job_def sample_save_def sample_definition_def)
  obtain job nx where job: "job \<in> set (workflow_jobs sample_saved)"
    and at_due: "if wd_cron (wj_definition job) = None
      then nx = None \<and> wd_trigger (wj_definition job) \<noteq> None \<and>
        cj_trigger_cursor sample_claim \<noteq> None \<and> cj_trigger_cursor sample_claim \<noteq> wj_trigger_cursor job
      else \<exists>due later. wj_next_run_at job = Some due \<and> due \<le> t_now (sample_times 90000000) \<and>
        cj_trigger_key sample_claim = utc_isoformat due \<and> nx = Some later \<and> t_now (sample_times 90000000) < later"
    using scheduled_claim [OF later sample_saved_ok t scheduled] by (elim exE conjE) (rule that)
  from at_due [unfolded if_not_P [OF cron [OF job]]] job show ?thesis by blast
qed

end
