(* ===== verification/Spend.thy ===== *)
theory Spend
  imports Catalog Ids
begin

text \<open>
  The spend ledger (\<open>src/spine/spend/service.py\<close>, \<open>contracts.py\<close>, \<open>views.py\<close>): receipt lines are appended once and
  never changed, and read as tables of exact sums.

  The state holds the rows of \<open>spend_event\<close>, the materialised view \<open>v_spend_rate\<close> as it was last refreshed, and the
  reconciliation rows. A line that the contract accepts has the fields of the row, so both are one record. A decimal is
  the number it denotes. What PostgreSQL gives back for a stored \<open>jsonb\<close> object is the parameter \<open>jsonb\<close> (\<open>None\<close> for
  an object it refuses). The advisory lock of an invoice and the isolation level of a table only order transactions.
\<close>

section \<open>Receipt lines\<close>

datatype spend_basis = Measured | Allocated | Estimated
datatype spend_behavior = Variable | Fixed | Step
datatype spend_purpose =
  Building | Extraction | Curation | Judging | Remembering | Embedding_call | Scout

record spend_event =
  se_event_uid :: string
  se_ts :: timestamp
  se_product_type :: string
  se_quantity_type :: string
  se_unit_of_measure :: string
  se_quantity :: rat
  se_cost_usd :: "rat option"
  se_basis :: spend_basis
  se_behavior :: spend_behavior
  se_purpose :: spend_purpose
  se_principal_id :: "string option"
  se_machine_id :: "string option"
  se_origin_agent :: "string option"
  se_thread_id :: "uuid option"
  se_run_id :: "string option"
  se_prompt_id :: "string option"
  se_memory_id :: "uuid option"
  se_model :: "string option"
  se_provider :: "string option"
  se_quantization :: "string option"
  se_ref :: string
  se_meta :: dict

text \<open>A row of \<open>v_spend_rate\<close>.\<close>

record rate_row =
  rr_minute :: timestamp
  rr_purpose :: spend_purpose
  rr_model :: "string option"
  rr_provider :: "string option"
  rr_receipt_lines :: nat
  rr_quantity :: rat
  rr_cost_usd :: "rat option"
  rr_unpriced_lines :: nat

datatype reconciliation_status = Baseline | Balanced | Drift | Unavailable
datatype reconciliation_error = Broker_unavailable | Invalid_broker_response

record spend_reconciliation =
  rc_event_uid :: string
  rc_ts :: timestamp
  rc_status :: reconciliation_status
  rc_broker_usage_usd :: "rat option"
  rc_ledger_cost_usd :: "rat option"
  rc_broker_since_baseline_usd :: "rat option"
  rc_ledger_since_baseline_usd :: "rat option"
  rc_drift_usd :: "rat option"
  rc_tolerance_usd :: rat
  rc_unpriced_lines :: nat
  rc_error_code :: "reconciliation_error option"

record spend_store =
  spend_events :: "spend_event list"
  rate_view :: "rate_row list"
  reconciliations :: "spend_reconciliation list"

datatype spend_error =
    SpendValueError string
  | SpendValidation string
  | SpendEventConflict string
  | SpendNotPersisted string
  | SpendIntegrity string
  | SpendDataError
  | SpendInvalidOperation

type_synonym 'a spend_op = "(spend_store, spend_error, 'a) act"

definition spend_transaction :: "'a spend_op \<Rightarrow> 'a spend_op" where
  "spend_transaction m = atomic (\<lambda>s t. s) m"

section \<open>The contract\<close>

definition trimmed_nonblank :: "string \<Rightarrow> bool" where
  "trimmed_nonblank s \<longleftrightarrow> strip s \<noteq> [] \<and> s = strip s"

definition opt_ok :: "('a \<Rightarrow> bool) \<Rightarrow> 'a option \<Rightarrow> bool" where
  "opt_ok P v = (case v of None \<Rightarrow> True | Some x \<Rightarrow> P x)"

text \<open>\<open>max_digits\<close> and \<open>decimal_places\<close>: at most \<open>places\<close> digits after the point and \<open>digits - places\<close> before it.\<close>

definition decimal_fits :: "nat \<Rightarrow> nat \<Rightarrow> rat \<Rightarrow> bool" where
  "decimal_fits digits places x \<longleftrightarrow> snd (quotient_of (x * 10 ^ places)) = 1 \<and> \<bar>x\<bar> < 10 ^ (digits - places)"

definition receipt_fields_ok :: "spend_event \<Rightarrow> bool" where
  "receipt_fields_ok e \<longleftrightarrow> ulid_pattern (se_event_uid e) \<and>
     trimmed_nonblank (se_quantity_type e) \<and> trimmed_nonblank (se_unit_of_measure e) \<and>
     0 < se_quantity e \<and> decimal_fits 30 9 (se_quantity e) \<and>
     opt_ok (\<lambda>c. 0 \<le> c \<and> decimal_fits 20 12 c) (se_cost_usd e) \<and>
     list_all (opt_ok trimmed_nonblank) [se_principal_id e, se_machine_id e, se_origin_agent e, se_model e, se_provider e,
       se_quantization e] \<and>
     list_all (opt_ok ulid_pattern) [se_run_id e, se_prompt_id e] \<and> trimmed_nonblank (se_ref e)"

definition spend_event_input_ok :: "spend_event \<Rightarrow> bool" where
  "spend_event_input_ok e \<longleftrightarrow> receipt_fields_ok e \<and> se_product_type e \<in> {''llm.request'', ''llm.embedding''}"

definition invoice_receipt_ok :: "spend_event \<Rightarrow> bool" where
  "invoice_receipt_ok e \<longleftrightarrow> receipt_fields_ok e \<and> se_product_type e = ''infra.run.serve''"

definition spend_events_request_ok :: "spend_event list \<Rightarrow> bool" where
  "spend_events_request_ok es \<longleftrightarrow> es \<noteq> [] \<and> length es \<le> 1000 \<and> list_all spend_event_input_ok es \<and>
     distinct (map se_event_uid es)"

record infrastructure_invoice =
  ii_amount_usd :: rat
  ii_invoice_date :: int
  ii_invoice_id :: string

definition infrastructure_invoice_ok :: "infrastructure_invoice \<Rightarrow> bool" where
  "infrastructure_invoice_ok i \<longleftrightarrow> 0 < ii_amount_usd i \<and> decimal_fits 20 12 (ii_amount_usd i) \<and>
     trimmed_nonblank (ii_invoice_id i)"

text \<open>\<open>_row_values(row) != event_values(event)\<close>: objects compare regardless of order, numbers by value.\<close>

definition same_receipt :: "spend_event \<Rightarrow> spend_event \<Rightarrow> bool" where
  "same_receipt row e \<longleftrightarrow> row\<lparr>se_meta := []\<rparr> = e\<lparr>se_meta := []\<rparr> \<and> py_eq (JObj (se_meta row)) (JObj (se_meta e))"

section \<open>The table\<close>

text \<open>The CHECK constraints; \<open>btrim\<close> removes spaces only.\<close>

definition btrim :: "string \<Rightarrow> string" where
  "btrim s = rev (dropWhile (\<lambda>c. c = CHR '' '') (rev (dropWhile (\<lambda>c. c = CHR '' '') s)))"

definition product_types :: "string list" where
  "product_types = [''llm.request'', ''llm.embedding'', ''llm.fee'', ''infra.db.instance'', ''infra.db.storage'',
     ''infra.run.serve'', ''infra.run.job'', ''infra.observability'', ''net.egress'', ''fleet.lease'', ''fleet.snapshot'']"

definition spend_event_checks :: "spend_event \<Rightarrow> bool" where
  "spend_event_checks e \<longleftrightarrow>
     (se_product_type e \<in> set product_types \<or>
      startswith (se_product_type e) ''ext.api.'' \<and> 9 \<le> length (se_product_type e)) \<and>
     list_all (\<lambda>t. t = btrim t \<and> t \<noteq> []) [se_quantity_type e, se_unit_of_measure e, se_ref e] \<and>
     0 < se_quantity e \<and> opt_ok (\<lambda>c. 0 \<le> c) (se_cost_usd e)"

text \<open>The row as the database keeps it.\<close>

definition stored_event :: "(dict \<Rightarrow> dict option) \<Rightarrow> spend_event \<Rightarrow> spend_error + spend_event" where
  "stored_event jsonb e = (case jsonb (se_meta e) of None \<Rightarrow> Inl SpendDataError
     | Some m \<Rightarrow> sbind (check (\<not> spend_event_checks e) (SpendIntegrity ''spend_event'')) (\<lambda>_. Inr (e\<lparr>se_meta := m\<rparr>)))"

definition uid_taken :: "string \<Rightarrow> spend_store \<Rightarrow> bool" where
  "uid_taken u s \<longleftrightarrow> u \<in> se_event_uid ` set (spend_events s)"

definition insert_or_skip :: "(dict \<Rightarrow> dict option) \<Rightarrow> spend_event \<Rightarrow> unit spend_op" where
  "insert_or_skip jsonb e =
     bnd (lift (stored_event jsonb e)) (\<lambda>row.
     modify (\<lambda>s. if uid_taken (se_event_uid e) s then s else s\<lparr>spend_events := spend_events s @ [row]\<rparr>))"

definition insert_event :: "(dict \<Rightarrow> dict option) \<Rightarrow> spend_event \<Rightarrow> unit spend_op" where
  "insert_event jsonb e =
     bnd (lift (stored_event jsonb e)) (\<lambda>row.
     bnd (gets (uid_taken (se_event_uid e))) (\<lambda>taken.
     sqn (raise_if taken (SpendIntegrity ''event_uid''))
     (modify (\<lambda>s. s\<lparr>spend_events := spend_events s @ [row]\<rparr>))))"

section \<open>Writing receipts\<close>

definition event_by_uid :: "spend_store \<Rightarrow> string \<Rightarrow> spend_event option" where
  "event_by_uid s u = find (\<lambda>e. se_event_uid e = u) (spend_events s)"

definition require_persisted :: "spend_event \<Rightarrow> unit spend_op" where
  "require_persisted e =
     bnd (gets (\<lambda>s. event_by_uid s (se_event_uid e))) (\<lambda>found.
      case found of None \<Rightarrow> raise (SpendNotPersisted (se_event_uid e))
      | Some row \<Rightarrow> raise_if (\<not> same_receipt row e) (SpendEventConflict (se_event_uid e)))"

definition append_receipts :: "(dict \<Rightarrow> dict option) \<Rightarrow> spend_event list \<Rightarrow> nat spend_op" where
  "append_receipts jsonb events =
     sqn (raise_if (events = []) (SpendValueError ''spend receipt batch must not be empty''))
     (sqn (raise_if (\<not> distinct (map se_event_uid events))
        (SpendValueError ''spend receipt batch must have unique event_uid values''))
     (sqn (spend_transaction (sqn (iterM (insert_or_skip jsonb) events) (iterM require_persisted events)))
     (ret (length events))))"

definition invoice_ref :: "infrastructure_invoice \<Rightarrow> string" where
  "invoice_ref bill = ''gcp-invoice:'' @ ii_invoice_id bill"

definition invoice_receipt :: "string \<Rightarrow> string \<Rightarrow> infrastructure_invoice \<Rightarrow> spend_event" where
  "invoice_receipt uid owner bill =
     \<lparr>se_event_uid = uid, se_ts = ii_invoice_date bill * 86400000000, se_product_type = ''infra.run.serve'',
      se_quantity_type = ''invoice'', se_unit_of_measure = ''invoice'', se_quantity = 1,
      se_cost_usd = Some (ii_amount_usd bill), se_basis = Measured, se_behavior = Fixed, se_purpose = Building,
      se_principal_id = Some owner, se_machine_id = None, se_origin_agent = None, se_thread_id = None,
      se_run_id = None, se_prompt_id = None, se_memory_id = None, se_model = None, se_provider = Some ''gcp'',
      se_quantization = None, se_ref = invoice_ref bill,
      se_meta = [(''source'', JStr ''manual_invoice''), (''invoice_id'', JStr (ii_invoice_id bill))]\<rparr>"

definition is_invoice :: "string \<Rightarrow> infrastructure_invoice \<Rightarrow> spend_event \<Rightarrow> bool" where
  "is_invoice owner bill e \<longleftrightarrow> se_principal_id e = Some owner \<and> se_ref e = invoice_ref bill \<and>
     se_product_type e = ''infra.run.serve''"

text \<open>\<open>minted\<close> is what \<open>mint_ulid\<close> would return.\<close>

definition invoice :: "(dict \<Rightarrow> dict option) \<Rightarrow> string \<Rightarrow> string \<Rightarrow> infrastructure_invoice \<Rightarrow> nat spend_op" where
  "invoice jsonb minted owner bill =
     sqn (spend_transaction
       (bnd (gets (\<lambda>s. find (is_invoice owner bill) (spend_events s))) (\<lambda>existing.
        let receipt = invoice_receipt (case existing of None \<Rightarrow> minted | Some e \<Rightarrow> se_event_uid e) owner bill
        in sqn (raise_if (\<not> invoice_receipt_ok receipt) (SpendValidation ''InvoiceReceipt''))
           (case existing of
              Some row \<Rightarrow> raise_if (\<not> same_receipt row receipt) (SpendEventConflict (se_event_uid row))
            | None \<Rightarrow> insert_event jsonb receipt))))
     (ret 1)"

section \<open>Appending once\<close>

lemma stored_event_Inr:
  "stored_event jsonb e = Inr row \<longleftrightarrow> (\<exists>m. jsonb (se_meta e) = Some m \<and> spend_event_checks e \<and> row = e\<lparr>se_meta := m\<rparr>)"
  by (auto simp: stored_event_def split: option.splits)

definition keep_event :: "(dict \<Rightarrow> dict option) \<Rightarrow> spend_event \<Rightarrow> spend_event" where
  "keep_event jsonb e = e\<lparr>se_meta := the (jsonb (se_meta e))\<rparr>"

definition storable :: "(dict \<Rightarrow> dict option) \<Rightarrow> spend_event \<Rightarrow> bool" where
  "storable jsonb e \<longleftrightarrow> jsonb (se_meta e) \<noteq> None \<and> spend_event_checks e"

lemma stored_event_cases:
  "stored_event jsonb e = (if storable jsonb e then Inr (keep_event jsonb e)
     else if jsonb (se_meta e) = None then Inl SpendDataError else Inl (SpendIntegrity ''spend_event''))"
  by (auto simp: stored_event_def storable_def keep_event_def sbind_def check_def split: option.splits)

lemma keep_event_uid [simp]: "se_event_uid (keep_event jsonb e) = se_event_uid e"
  by (simp add: keep_event_def)

text \<open>The receipts of a batch that the ledger does not have yet.\<close>

definition missing :: "spend_store \<Rightarrow> spend_event list \<Rightarrow> spend_event list" where
  "missing s events = filter (\<lambda>e. \<not> uid_taken (se_event_uid e) s) events"

lemma insert_or_skip_all:
  assumes "distinct (map se_event_uid events)"
  shows "iterM (insert_or_skip jsonb) events s = (Inr u, t) \<longleftrightarrow> list_all (storable jsonb) events \<and>
     t = s\<lparr>spend_events := spend_events s @ map (keep_event jsonb) (missing s events)\<rparr>"
  using assms
proof (induction events arbitrary: s)
  case Nil
  then show ?case by (auto simp: act_iff missing_def)
next
  case (Cons e es)
  define s' where "s' = (if uid_taken (se_event_uid e) s then s else s\<lparr>spend_events := spend_events s @ [keep_event jsonb e]\<rparr>)"
  have step: "insert_or_skip jsonb e s = (Inr v, w) \<longleftrightarrow> storable jsonb e \<and> w = s'" for v w
    unfolding insert_or_skip_def act_iff stored_event_cases by (auto simp: s'_def [symmetric])
  have same: "uid_taken (se_event_uid x) s' \<longleftrightarrow> uid_taken (se_event_uid x) s" if "x \<in> set es" for x
    using Cons(2) imageI [OF that, of se_event_uid] by (auto simp: s'_def uid_taken_def)
  then have "missing s' es = missing s es" by (auto simp: missing_def intro!: filter_cong)
  then have "s'\<lparr>spend_events := spend_events s' @ map (keep_event jsonb) (missing s' es)\<rparr> =
     s\<lparr>spend_events := spend_events s @ map (keep_event jsonb) (missing s (e # es))\<rparr>"
    by (auto simp: s'_def missing_def)
  with Cons show ?case by (auto simp: act_iff step)
qed

lemma require_persisted_all:
  "iterM require_persisted events s = (Inr u, t) \<longleftrightarrow> t = s \<and>
     (\<forall>e \<in> set events. \<exists>row. event_by_uid s (se_event_uid e) = Some row \<and> same_receipt row e)"
  by (induction events) (auto simp: act_iff require_persisted_def)

lemma event_by_uid_append:
  "event_by_uid (s\<lparr>spend_events := spend_events s @ xs\<rparr>) u =
     (case event_by_uid s u of None \<Rightarrow> find (\<lambda>e. se_event_uid e = u) xs | Some e \<Rightarrow> Some e)"
  by (simp add: event_by_uid_def find_append)

lemma event_by_uid_None: "event_by_uid s u = None \<longleftrightarrow> \<not> uid_taken u s"
  by (auto simp: event_by_uid_def uid_taken_def find_None_iff)

lemma find_missing:
  assumes "distinct (map se_event_uid events)" "e \<in> set events" "\<not> uid_taken (se_event_uid e) s"
  shows "find (\<lambda>x. se_event_uid x = se_event_uid e) (map (keep_event jsonb) (missing s events)) = Some (keep_event jsonb e)"
proof -
  have "distinct (map se_event_uid (map (keep_event jsonb) (missing s events)))"
    using assms(1) by (simp add: missing_def comp_def distinct_map_filter)
  then show ?thesis
    using assms(2,3) by (subst find_distinct_key) (auto simp: missing_def)
qed

text \<open>What a batch needs to be accepted: every line can be stored and receipt_agrees with the line of its identifier, the one
  the ledger has or else the one it is about to keep.\<close>

definition receipt_agrees :: "(dict \<Rightarrow> dict option) \<Rightarrow> spend_store \<Rightarrow> spend_event \<Rightarrow> bool" where
  "receipt_agrees jsonb s e \<longleftrightarrow> storable jsonb e \<and>
     same_receipt (case event_by_uid s (se_event_uid e) of None \<Rightarrow> keep_event jsonb e | Some row \<Rightarrow> row) e"

lemma appended_by_uid:
  assumes "distinct (map se_event_uid events)" "e \<in> set events"
  shows "event_by_uid (s\<lparr>spend_events := spend_events s @ map (keep_event jsonb) (missing s events)\<rparr>) (se_event_uid e) =
    Some (case event_by_uid s (se_event_uid e) of None \<Rightarrow> keep_event jsonb e | Some row \<Rightarrow> row)"
  using find_missing [OF assms] event_by_uid_None [of s "se_event_uid e"]
  by (auto simp: event_by_uid_append split: option.splits)

lemma append_receipts_Inr:
  "append_receipts jsonb events s = (Inr n, t) \<longleftrightarrow>
     events \<noteq> [] \<and> distinct (map se_event_uid events) \<and> list_all (receipt_agrees jsonb s) events \<and> n = length events \<and>
     t = s\<lparr>spend_events := spend_events s @ map (keep_event jsonb) (missing s events)\<rparr>"
proof (cases "distinct (map se_event_uid events)")
  case True
  let ?t = "s\<lparr>spend_events := spend_events s @ map (keep_event jsonb) (missing s events)\<rparr>"
  have row: "event_by_uid ?t (se_event_uid e) =
      Some (case event_by_uid s (se_event_uid e) of None \<Rightarrow> keep_event jsonb e | Some row \<Rightarrow> row)" if "e \<in> set events" for e
    by (rule appended_by_uid [OF True that])
  have "(\<forall>e \<in> set events. \<exists>row. event_by_uid ?t (se_event_uid e) = Some row \<and> same_receipt row e) \<longleftrightarrow>
      (\<forall>e \<in> set events. same_receipt (case event_by_uid s (se_event_uid e) of None \<Rightarrow> keep_event jsonb e | Some row \<Rightarrow> row) e)"
    using row by auto
  then show ?thesis
    using True by (auto simp: append_receipts_def spend_transaction_def act_iff insert_or_skip_all require_persisted_all
        receipt_agrees_def list_all_iff)
qed (auto simp: append_receipts_def act_iff)

lemma append_receipts_Inl: "append_receipts jsonb events s = (Inl e, t) \<Longrightarrow> t = s"
  by (auto simp: append_receipts_def spend_transaction_def act_Inl_iff act_iff ret_def)


section \<open>The ledger\<close>

text \<open>Identifiers are unique, lines satisfy the constraints of the table, and an invoice has one line.\<close>

definition invoice_key :: "spend_event \<Rightarrow> string option \<times> string" where
  "invoice_key e = (se_principal_id e, se_ref e)"

definition invoice_lines :: "spend_store \<Rightarrow> spend_event list" where
  "invoice_lines s = filter (\<lambda>e. se_product_type e = ''infra.run.serve'') (spend_events s)"

definition ledger_ok :: "spend_store \<Rightarrow> bool" where
  "ledger_ok s \<longleftrightarrow> distinct (map se_event_uid (spend_events s)) \<and> list_all spend_event_checks (spend_events s) \<and>
     distinct (map invoice_key (invoice_lines s))"

lemma keep_event_fields [simp]:
  "spend_event_checks (keep_event jsonb e) = spend_event_checks e" "se_product_type (keep_event jsonb e) = se_product_type e"
  "invoice_key (keep_event jsonb e) = invoice_key e"
  by (simp_all add: keep_event_def spend_event_checks_def invoice_key_def)

lemma append_receipts_ok:
  assumes "ledger_ok s" "list_all spend_event_input_ok events" "append_receipts jsonb events s = (Inr n, t)"
  shows "ledger_ok t"
proof -
  from assms(3) have t: "t = s\<lparr>spend_events := spend_events s @ map (keep_event jsonb) (missing s events)\<rparr>"
    and es: "distinct (map se_event_uid events)" "list_all (receipt_agrees jsonb s) events"
    by (simp_all add: append_receipts_Inr)
  have "distinct (map se_event_uid (missing s events))" using es(1) by (simp add: missing_def distinct_map_filter)
  moreover have "filter (\<lambda>e. se_product_type e = ''infra.run.serve'') (map (keep_event jsonb) (missing s events)) = []"
    using assms(2) by (auto simp: filter_empty_conv missing_def list_all_iff spend_event_input_ok_def)
  moreover have "se_event_uid e \<notin> se_event_uid ` set (spend_events s)" if "e \<in> set (missing s events)" for e
    using that by (simp add: missing_def uid_taken_def)
  then have "se_event_uid ` set (missing s events) \<subseteq> - se_event_uid ` set (spend_events s)"
    by (intro image_subsetI) simp
  then have "se_event_uid ` set (spend_events s) \<inter> se_event_uid ` set (missing s events) = {}"
    by (simp add: disjoint_eq_subset_Compl [symmetric] Int_commute)
  moreover have "list_all spend_event_checks (missing s events)"
    using es(2) by (auto simp: missing_def list_all_iff receipt_agrees_def storable_def)
  ultimately show ?thesis
    using assms(1) by (simp add: t ledger_ok_def invoice_lines_def comp_def list.pred_map image_image)
qed

lemma spend_kept: "stored_event jsonb e = Inr row \<Longrightarrow> storable jsonb e \<and> row = keep_event jsonb e"
  by (simp add: stored_event_cases split: if_splits)

lemma insert_event_Inr:
  assumes "insert_event jsonb e s = (Inr u, t)"
  shows "storable jsonb e" "\<not> uid_taken (se_event_uid e) s"
    "t = s\<lparr>spend_events := spend_events s @ [keep_event jsonb e]\<rparr>"
proof -
  from assms obtain row where "stored_event jsonb e = Inr row" and rest: "\<not> uid_taken (se_event_uid e) s"
    "t = s\<lparr>spend_events := spend_events s @ [row]\<rparr>"
    unfolding insert_event_def act_iff by (elim exE conjE) (auto dest: sym)
  with spend_kept [of jsonb e row] show "storable jsonb e" "\<not> uid_taken (se_event_uid e) s"
    "t = s\<lparr>spend_events := spend_events s @ [keep_event jsonb e]\<rparr>" by simp_all
qed

lemma invoice_Inr:
  assumes "invoice jsonb minted owner bill s = (Inr n, t)"
  obtains (replayed) row where "find (is_invoice owner bill) (spend_events s) = Some row" "t = s"
      "same_receipt row (invoice_receipt (se_event_uid row) owner bill)"
  | (recorded) "find (is_invoice owner bill) (spend_events s) = None" "\<not> uid_taken minted s"
      "storable jsonb (invoice_receipt minted owner bill)" "invoice_receipt_ok (invoice_receipt minted owner bill)"
      "t = s\<lparr>spend_events := spend_events s @ [keep_event jsonb (invoice_receipt minted owner bill)]\<rparr>"
proof (cases "find (is_invoice owner bill) (spend_events s)")
  case (Some row)
  with assms show thesis
    by (intro replayed [of row]) (auto simp: invoice_def spend_transaction_def act_iff Let_def)
next
  case None
  let ?e = "invoice_receipt minted owner bill"
  from assms None have "invoice_receipt_ok ?e" and ins: "insert_event jsonb ?e s = (Inr (), t)"
    by (auto simp: invoice_def spend_transaction_def act_iff Let_def)
  moreover have uid: "se_event_uid ?e = minted" by (simp add: invoice_receipt_def)
  ultimately show thesis using None insert_event_Inr [OF ins] by (intro recorded) (simp_all add: uid)
qed

lemma is_invoice_key:
  "is_invoice owner bill e \<longleftrightarrow> se_product_type e = ''infra.run.serve'' \<and> invoice_key e = (Some owner, invoice_ref bill)"
  by (auto simp: is_invoice_def invoice_key_def)

lemma invoice_ok:
  assumes "ledger_ok s" "invoice jsonb minted owner bill s = (Inr n, t)"
  shows "ledger_ok t"
  using assms(2)
proof (cases rule: invoice_Inr)
  case replayed
  with assms(1) show ?thesis by simp
next
  case recorded
  let ?e = "invoice_receipt minted owner bill"
  have e: "se_event_uid ?e = minted" "se_product_type ?e = ''infra.run.serve''" "invoice_key ?e = (Some owner, invoice_ref bill)"
    by (simp_all add: invoice_receipt_def invoice_key_def)
  have "(Some owner, invoice_ref bill) \<notin> invoice_key ` set (invoice_lines s)"
    using recorded(1) by (auto simp: find_None_iff is_invoice_key invoice_lines_def)
  with assms(1) recorded e show ?thesis
    by (simp add: ledger_ok_def invoice_lines_def uid_taken_def storable_def)
qed

lemma invoice_Inl: "invoice jsonb minted owner bill s = (Inl e, t) \<Longrightarrow> t = s"
  by (auto simp: invoice_def spend_transaction_def act_Inl_iff act_iff ret_def)

section \<open>The spend table\<close>

record spend_metrics =
  sm_input_tokens :: rat
  sm_kv_cache_tokens :: rat
  sm_reasoning_tokens :: rat
  sm_output_tokens :: rat
  sm_total_usd :: "rat option"
  sm_total_receipt_lines :: nat
  sm_total_unpriced_lines :: nat
  sm_spend_per_hour_usd :: "rat option"
  sm_hourly_receipt_lines :: nat
  sm_hourly_unpriced_lines :: nat

text \<open>\<open>sum\<close> ignores nulls and is null when nothing is left.\<close>

definition sql_sum :: "rat option list \<Rightarrow> rat option" where
  "sql_sum xs = (case List.map_filter id xs of [] \<Rightarrow> None | ys \<Rightarrow> Some (sum_list ys))"

definition unpriced :: "spend_event list \<Rightarrow> nat" where
  "unpriced rows = length (filter (\<lambda>e. se_cost_usd e = None) rows)"

definition tokens_of :: "string list \<Rightarrow> spend_event \<Rightarrow> rat" where
  "tokens_of types e = (if se_unit_of_measure e = ''tokens'' \<and> se_quantity_type e \<in> set types then se_quantity e else 0)"

text \<open>\<open>_AGGREGATE_COLUMNS\<close> over one group; the window starts 60 minutes before \<open>as_of\<close>.\<close>

definition window_start :: "timestamp \<Rightarrow> timestamp" where
  "window_start as_of = as_of - 3600000000"

definition aggregate :: "timestamp \<Rightarrow> spend_event list \<Rightarrow> spend_metrics" where
  "aggregate as_of rows =
     (let window = filter (\<lambda>e. window_start as_of \<le> se_ts e) rows
      in \<lparr>sm_input_tokens = sum_list (map (tokens_of [''input_fresh'']) rows),
          sm_kv_cache_tokens = sum_list (map (tokens_of [''input_cached'', ''cache_write'']) rows),
          sm_reasoning_tokens = sum_list (map (tokens_of [''reasoning'']) rows),
          sm_output_tokens = sum_list (map (tokens_of [''output'']) rows),
          sm_total_usd = sql_sum (map se_cost_usd rows),
          sm_total_receipt_lines = length rows,
          sm_total_unpriced_lines = unpriced rows,
          sm_spend_per_hour_usd = sql_sum (map se_cost_usd window),
          sm_hourly_receipt_lines = length window,
          sm_hourly_unpriced_lines = unpriced window\<rparr>)"

definition honest_cost :: "rat option \<Rightarrow> nat \<Rightarrow> nat \<Rightarrow> bool" where
  "honest_cost cost lines free \<longleftrightarrow> free \<le> lines \<and> \<not> (lines = free \<and> 0 < lines \<and> cost \<noteq> None) \<and>
     \<not> (lines \<noteq> free \<and> cost = None)"

definition metrics_ok :: "spend_metrics \<Rightarrow> bool" where
  "metrics_ok m \<longleftrightarrow>
     list_all (\<lambda>x. 0 \<le> x \<and> decimal_fits 30 9 x)
       [sm_input_tokens m, sm_kv_cache_tokens m, sm_reasoning_tokens m, sm_output_tokens m] \<and>
     list_all (opt_ok (\<lambda>x. 0 \<le> x \<and> decimal_fits 20 12 x)) [sm_total_usd m, sm_spend_per_hour_usd m] \<and>
     honest_cost (sm_total_usd m) (sm_total_receipt_lines m) (sm_total_unpriced_lines m) \<and>
     honest_cost (sm_spend_per_hour_usd m) (sm_hourly_receipt_lines m) (sm_hourly_unpriced_lines m)"

definition checked_metrics :: "timestamp \<Rightarrow> spend_event list \<Rightarrow> spend_error + spend_metrics" where
  "checked_metrics as_of rows = (let m = aggregate as_of rows in if metrics_ok m then Inr m else Inl (SpendValidation ''metrics''))"

record thread_spend_row =
  ts_thread_id :: uuid
  ts_models :: "(string option \<times> spend_metrics) list"
  ts_metrics :: spend_metrics

fun purpose_name :: "spend_purpose \<Rightarrow> string" where
  "purpose_name Building = ''building''"
| "purpose_name Extraction = ''extraction''"
| "purpose_name Curation = ''curation''"
| "purpose_name Judging = ''judge''"
| "purpose_name Remembering = ''remember''"
| "purpose_name Embedding_call = ''embedding''"
| "purpose_name Scout = ''scout''"

fun purpose_label :: "spend_purpose \<Rightarrow> string" where
  "purpose_label Building = ''Building''"
| "purpose_label Extraction = ''Memory extraction''"
| "purpose_label Curation = ''Memory keeping''"
| "purpose_label Judging = ''Judging''"
| "purpose_label Remembering = ''Remembering''"
| "purpose_label Embedding_call = ''Embeddings''"
| "purpose_label Scout = ''Verification''"

text \<open>\<open>GROUP BY ... ORDER BY ... NULLS LAST\<close>: the distinct keys in order, each with its rows; text is ordered by code point.\<close>

definition nulls_last :: "string option \<Rightarrow> bool \<times> string" where
  "nulls_last v = (v = None, case v of None \<Rightarrow> [] | Some t \<Rightarrow> t)"

definition group_rows :: "('a \<Rightarrow> 'k) \<Rightarrow> ('k \<Rightarrow> 'o :: linorder) \<Rightarrow> 'a list \<Rightarrow> ('k \<times> 'a list) list" where
  "group_rows key ord rows = map (\<lambda>k. (k, filter (\<lambda>x. key x = k) rows)) (sort_key ord (remdups (map key rows)))"

definition in_scope :: "timestamp \<Rightarrow> uuid list option \<Rightarrow> string option \<Rightarrow> spend_event \<Rightarrow> bool" where
  "in_scope as_of threads owner e \<longleftrightarrow> se_ts e \<le> as_of \<and>
     (case threads of None \<Rightarrow> True | Some ts \<Rightarrow> \<exists>t \<in> set ts. se_thread_id e = Some t) \<and>
     (case owner of None \<Rightarrow> True | Some p \<Rightarrow> se_principal_id e = Some p)"

definition model_row :: "timestamp \<Rightarrow> string option \<times> spend_event list \<Rightarrow> spend_error + string option \<times> spend_metrics" where
  "model_row as_of g = sbind (checked_metrics as_of (snd g)) (\<lambda>m.
     if opt_ok trimmed_nonblank (fst g) then Inr (fst g, m) else Inl (SpendValidation ''model''))"

definition thread_row_of :: "timestamp \<Rightarrow> uuid \<times> spend_event list \<Rightarrow> spend_error + thread_spend_row" where
  "thread_row_of as_of g =
     sbind (smap (model_row as_of) (group_rows se_model nulls_last (snd g))) (\<lambda>models.
     sbind (checked_metrics as_of (snd g)) (\<lambda>m.
     Inr \<lparr>ts_thread_id = fst g, ts_models = models, ts_metrics = m\<rparr>))"

definition thread_rows :: "timestamp \<Rightarrow> spend_event list \<Rightarrow> spend_error + thread_spend_row list" where
  "thread_rows as_of base =
     smap (thread_row_of as_of) (group_rows (\<lambda>e. the (se_thread_id e)) id (filter (\<lambda>e. se_thread_id e \<noteq> None) base))"

definition purpose_rows :: "timestamp \<Rightarrow> spend_event list \<Rightarrow> spend_error + (spend_purpose \<times> string \<times> spend_metrics) list" where
  "purpose_rows as_of base =
     smap (\<lambda>g. sbind (checked_metrics as_of (snd g)) (\<lambda>m. Inr (fst g, purpose_label (fst g), m)))
       (group_rows se_purpose purpose_name (filter (\<lambda>e. se_thread_id e = None) base))"

section \<open>History\<close>

definition trunc_to :: "int \<Rightarrow> timestamp \<Rightarrow> timestamp" where
  "trunc_to unit t = t div unit * unit"

abbreviation minute_us :: int where "minute_us \<equiv> 60000000"
abbreviation day_us :: int where "day_us \<equiv> 86400000000"

record spend_point =
  pt_minute :: timestamp
  pt_cost_usd :: "rat option"
  pt_receipt_lines :: nat
  pt_unpriced_lines :: nat

record spend_rate_lane =
  ln_dimension :: string
  ln_key :: "string option"
  ln_label :: string
  ln_points :: "spend_point list"

record message_cache =
  mc_thread_id :: uuid
  mc_prompt_id :: "string option"
  mc_first_request_at :: timestamp
  mc_fresh_tokens :: rat
  mc_cached_tokens :: rat
  mc_cache_write_tokens :: rat

record daily_spend =
  ds_day :: timestamp
  ds_model_usd :: "rat option"
  ds_infrastructure_usd :: "rat option"
  ds_total_usd :: "rat option"
  ds_unpriced_lines :: nat

text \<open>The rows of \<open>v_spend_rate\<close>, computed when the view is refreshed.\<close>

definition spend_rate_view :: "spend_event list \<Rightarrow> rate_row list" where
  "spend_rate_view events =
     map (\<lambda>((m, p, md, pv), rows). \<lparr>rr_minute = m, rr_purpose = p, rr_model = md, rr_provider = pv,
         rr_receipt_lines = length rows, rr_quantity = sum_list (map se_quantity rows),
         rr_cost_usd = sql_sum (map se_cost_usd rows), rr_unpriced_lines = unpriced rows\<rparr>)
       (group_rows (\<lambda>e. (trunc_to minute_us (se_ts e), se_purpose e, se_model e, se_provider e))
         (\<lambda>(m, p, md, pv). (m, purpose_name p, nulls_last md, nulls_last pv)) events)"

definition refresh_once :: "unit spend_op" where
  "refresh_once = spend_transaction (modify (\<lambda>s. s\<lparr>rate_view := spend_rate_view (spend_events s)\<rparr>))"

text \<open>A minute row of the rate query: minute, purpose, model, cost, lines, unpriced lines.\<close>

type_synonym minute_row = "timestamp \<times> spend_purpose \<times> string option \<times> rat option \<times> nat \<times> nat"

definition minute_rows :: "timestamp \<Rightarrow> uuid list option \<Rightarrow> string option \<Rightarrow> spend_store \<Rightarrow> minute_row list" where
  "minute_rows as_of threads owner s =
     (if threads = None \<and> owner = None then
        map (\<lambda>r. (rr_minute r, rr_purpose r, rr_model r, rr_cost_usd r, rr_receipt_lines r, rr_unpriced_lines r))
          (filter (\<lambda>r. window_start as_of \<le> rr_minute r \<and> rr_minute r \<le> as_of) (rate_view s))
      else
        map (\<lambda>((m, p, md), rows). (m, p, md, sql_sum (map se_cost_usd rows), length rows, unpriced rows))
          (group_rows (\<lambda>e. (trunc_to minute_us (se_ts e), se_purpose e, se_model e))
            (\<lambda>(m, p, md). (m, purpose_name p, nulls_last md))
            (filter (\<lambda>e. in_scope as_of threads owner e \<and> window_start as_of \<le> se_ts e) (spend_events s))))"

text \<open>\<open>'/root\.|/[0-7][0-9A-HJKMNP-TV-Z]{25}$'\<close>\<close>

definition is_subagent :: "string option \<Rightarrow> bool" where
  "is_subagent a = (case a of None \<Rightarrow> False
     | Some t \<Rightarrow> contains t ''/root.'' \<or>
         (let n = length t in 27 \<le> n \<and> t ! (n - 27) = CHR ''/'' \<and> ulid_pattern (drop (n - 26) t)))"

type_synonym lane_row = "string \<times> string option \<times> timestamp \<times> rat option \<times> nat \<times> nat"

definition minute_lanes :: "minute_row \<Rightarrow> lane_row list" where
  "minute_lanes r = (case r of (m, p, md, c, l, u) \<Rightarrow>
     (''total'', None, m, c, l, u) # (''model'', md, m, c, l, u) #
     (if p = Curation then [(''curation'', Some ''curation'', m, c, l, u)] else []))"

definition agent_lanes :: "timestamp \<Rightarrow> spend_event list \<Rightarrow> lane_row list" where
  "agent_lanes as_of base =
     map (\<lambda>((m, d, a), rows). (d, a, m, sql_sum (map se_cost_usd rows), length rows, unpriced rows))
       (group_rows (\<lambda>e. (trunc_to minute_us (se_ts e), if is_subagent (se_origin_agent e) then ''subagent'' else ''agent'',
            se_origin_agent e))
         (\<lambda>(m, d, a). (m, d, nulls_last a))
         (filter (\<lambda>e. window_start as_of \<le> se_ts e \<and> se_product_type e = ''llm.request'') base))"

definition dimension_label :: "string \<Rightarrow> string option \<Rightarrow> string" where
  "dimension_label d key =
     (if d = ''total'' then ''Total'' else if d = ''curation'' then ''Memory curation''
      else (if d = ''agent'' then ''Agent'' else if d = ''subagent'' then ''Sub-agent'' else ''Model'') @
        '' '' @ [char_of (183 :: nat)] @ '' '' @ (case key of None \<Rightarrow> ''unreported'' | Some k \<Rightarrow> if k = [] then ''unreported'' else k))"

definition rate_lanes :: "lane_row list \<Rightarrow> spend_rate_lane list" where
  "rate_lanes lanes =
     map (\<lambda>((d, key), rows). \<lparr>ln_dimension = d, ln_key = key, ln_label = dimension_label d key,
         ln_points = map (\<lambda>(m, rs). \<lparr>pt_minute = m, pt_cost_usd = sql_sum (map (\<lambda>(_, _, _, c, _, _). c) rs),
             pt_receipt_lines = sum_list (map (\<lambda>(_, _, _, _, l, _). l) rs),
             pt_unpriced_lines = sum_list (map (\<lambda>(_, _, _, _, _, u). u) rs)\<rparr>)
           (group_rows (\<lambda>(_, _, m, _). m) id rows)\<rparr>)
       (group_rows (\<lambda>(d, key, _). (d, key)) (\<lambda>(d, key). (d, nulls_last key)) lanes)"

definition message_caches :: "spend_event list \<Rightarrow> message_cache list" where
  "message_caches base =
     sort_key (\<lambda>c. (mc_first_request_at c, mc_thread_id c, nulls_last (mc_prompt_id c)))
       (map (\<lambda>((th, p), rows). \<lparr>mc_thread_id = th, mc_prompt_id = p, mc_first_request_at = Min (set (map se_ts rows)),
           mc_fresh_tokens = sum_list (map (tokens_of [''input_fresh'']) rows),
           mc_cached_tokens = sum_list (map (tokens_of [''input_cached'']) rows),
           mc_cache_write_tokens = sum_list (map (tokens_of [''cache_write'']) rows)\<rparr>)
         (group_rows (\<lambda>e. (the (se_thread_id e), se_prompt_id e)) (\<lambda>(th, p). (th, nulls_last p))
           (filter (\<lambda>e. se_product_type e = ''llm.request'' \<and> se_unit_of_measure e = ''tokens'' \<and> se_thread_id e \<noteq> None) base)))"

definition priced_in :: "string \<Rightarrow> spend_event list \<Rightarrow> rat option" where
  "priced_in prefix rows = sql_sum (map se_cost_usd (filter (\<lambda>e. startswith (se_product_type e) prefix) rows))"

definition daily_spends :: "spend_event list \<Rightarrow> daily_spend list" where
  "daily_spends base =
     map (\<lambda>(d, rows). \<lparr>ds_day = d, ds_model_usd = priced_in ''llm.'' rows, ds_infrastructure_usd = priced_in ''infra.'' rows,
         ds_total_usd = sql_sum (map se_cost_usd rows), ds_unpriced_lines = unpriced rows\<rparr>)
       (group_rows (\<lambda>e. trunc_to day_us (se_ts e)) id base)"

record spend_table_snapshot =
  sn_as_of :: timestamp
  sn_threads :: "thread_spend_row list"
  sn_purposes :: "(spend_purpose \<times> string \<times> spend_metrics) list"
  sn_rates :: "spend_rate_lane list"
  sn_rate_source :: string
  sn_messages :: "message_cache list"
  sn_days :: "daily_spend list"
  sn_receipts :: "spend_event list"

definition spend_table :: "uuid list option \<Rightarrow> timestamp \<Rightarrow> string option \<Rightarrow> spend_store \<Rightarrow> spend_error + spend_table_snapshot" where
  "spend_table threads as_of owner s =
     (if threads = Some [] then
        Inr \<lparr>sn_as_of = as_of, sn_threads = [], sn_purposes = [], sn_rates = [], sn_rate_source = ''spend_event'',
          sn_messages = [], sn_days = [], sn_receipts = []\<rparr>
      else
        let base = filter (in_scope as_of threads owner) (spend_events s);
            rates = rate_lanes (concat (map minute_lanes (minute_rows as_of threads owner s)) @ agent_lanes as_of base)
        in sbind (check (\<not> list_all (\<lambda>l. trimmed_nonblank (ln_label l)) rates) (SpendValidation ''label'')) (\<lambda>_.
           sbind (thread_rows as_of base) (\<lambda>ths.
           sbind (purpose_rows as_of base) (\<lambda>ps.
           Inr \<lparr>sn_as_of = as_of, sn_threads = ths, sn_purposes = (if threads \<noteq> None then [] else ps), sn_rates = rates,
             sn_rate_source = (if threads \<noteq> None \<or> owner \<noteq> None then ''spend_event'' else ''v_spend_rate+spend_event''),
             sn_messages = message_caches base, sn_days = daily_spends base,
             sn_receipts = sort_key se_event_uid base\<rparr>))))"

section \<open>Sums over groups\<close>

lemma sum_over_keys:
  assumes "finite K" "key ` set rows \<subseteq> K"
  shows "(\<Sum>k \<in> K. sum_list (map f (filter (\<lambda>x. key x = k) rows))) = (sum_list (map f rows) :: 'b :: comm_monoid_add)"
  using assms(2)
proof (induction rows)
  case (Cons x rows)
  have "(\<Sum>k \<in> K. sum_list (map f (filter (\<lambda>y. key y = k) (x # rows)))) =
      (\<Sum>k \<in> K. (if k = key x then f x else 0) + sum_list (map f (filter (\<lambda>y. key y = k) rows)))"
    by (intro sum.cong) auto
  also have "\<dots> = f x + sum_list (map f rows)"
    using Cons assms(1) by (simp add: sum.distrib)
  finally show ?case by simp
qed simp

lemma group_rows_keys:
  "distinct (map fst (group_rows key ord rows))" "set (map fst (group_rows key ord rows)) = key ` set rows"
  by (simp_all add: group_rows_def comp_def)

text \<open>Grouping loses nothing: a column summed in every group and then over the groups is the sum over all rows.\<close>

lemma sum_over_groups:
  "sum_list (map (\<lambda>g. sum_list (map f (snd g))) (group_rows key ord rows)) = (sum_list (map f rows) :: 'b :: comm_monoid_add)"
proof -
  let ?ks = "sort_key ord (remdups (map key rows))"
  have "sum_list (map (\<lambda>g. sum_list (map f (snd g))) (group_rows key ord rows)) =
      sum_list (map (\<lambda>k. sum_list (map f (filter (\<lambda>x. key x = k) rows))) ?ks)"
    by (simp add: group_rows_def comp_def)
  also have "\<dots> = (\<Sum>k \<in> set ?ks. sum_list (map f (filter (\<lambda>x. key x = k) rows)))"
    by (rule sum_list_distinct_conv_sum_set) simp
  also have "\<dots> = sum_list (map f rows)" by (rule sum_over_keys) auto
  finally show ?thesis .
qed

lemma group_rows_snd: "g \<in> set (group_rows key ord rows) \<Longrightarrow> snd g \<noteq> [] \<and> set (snd g) \<subseteq> set rows"
  by (auto simp: group_rows_def filter_empty_conv)

text \<open>A null sum counts as zero.\<close>

definition known :: "rat option \<Rightarrow> rat" where
  "known v = (case v of None \<Rightarrow> 0 | Some x \<Rightarrow> x)"

lemma map_filter_id: "List.map_filter id xs = map the (filter (\<lambda>x. x \<noteq> None) xs)"
  by (induction xs) (auto simp: List.map_filter_def)

lemma sql_sum_known: "known (sql_sum xs) = sum_list (map known xs)"
proof -
  have "sum_list (map the (filter (\<lambda>x. x \<noteq> None) xs)) = sum_list (map known xs)"
    by (induction xs) (auto simp: known_def)
  then show ?thesis by (auto simp: sql_sum_def map_filter_id known_def split: list.split)
qed

lemma sql_sum_None: "sql_sum xs = None \<longleftrightarrow> list_all (\<lambda>x. x = None) xs"
proof -
  have "sql_sum xs = None \<longleftrightarrow> List.map_filter id xs = []" by (simp add: sql_sum_def split: list.split)
  then show ?thesis by (simp add: map_filter_id filter_empty_conv list_all_iff)
qed

lemma unpriced_le: "unpriced rows \<le> length rows"
  by (simp add: unpriced_def)

lemma unpriced_all: "unpriced rows = length rows \<longleftrightarrow> list_all (\<lambda>e. se_cost_usd e = None) rows"
proof (induction rows)
  case (Cons e rows)
  have "length (filter (\<lambda>e. se_cost_usd e = None) rows) \<noteq> Suc (length rows)"
    using length_filter_le [of "\<lambda>e. se_cost_usd e = None" rows] by linarith
  with Cons show ?case by (auto simp: unpriced_def)
qed (simp add: unpriced_def)

text \<open>The validator of a metrics row never refuses what the query computes on the ground of its line counts.\<close>

lemma aggregate_honest:
  "honest_cost (sql_sum (map se_cost_usd rows)) (length rows) (unpriced rows)"
proof -
  have "list_all (\<lambda>x. x = None) (map se_cost_usd rows) \<longleftrightarrow> list_all (\<lambda>e. se_cost_usd e = None) rows"
    by (simp add: list_all_iff)
  then show ?thesis
    using unpriced_le [of rows] unpriced_all [of rows] sql_sum_None [of "map se_cost_usd rows"]
    by (auto simp: honest_cost_def)
qed


text \<open>A column of the table that is a sum over the rows of the group.\<close>

definition sums_column :: "timestamp \<Rightarrow> (spend_metrics \<Rightarrow> 'b :: comm_monoid_add) \<Rightarrow> (spend_event \<Rightarrow> 'b) \<Rightarrow> bool" where
  "sums_column as_of f h \<longleftrightarrow> (\<forall>rows. f (aggregate as_of rows) = sum_list (map h rows))"

lemma total_columns:
  "sums_column as_of (known \<circ> sm_total_usd) (known \<circ> se_cost_usd)"
  "sums_column as_of sm_total_receipt_lines (\<lambda>_. 1)"
  "sums_column as_of sm_total_unpriced_lines (\<lambda>e. if se_cost_usd e = None then 1 else 0)"
  "sums_column as_of sm_output_tokens (tokens_of [''output''])"
proof -
  show "sums_column as_of (known \<circ> sm_total_usd) (known \<circ> se_cost_usd)"
    by (simp add: sums_column_def aggregate_def Let_def sql_sum_known comp_def)
  have "length rows = sum_list (map (\<lambda>_. 1) rows)" for rows :: "spend_event list" by (induction rows) simp_all
  then show "sums_column as_of sm_total_receipt_lines (\<lambda>_. 1)"
    by (simp add: sums_column_def aggregate_def Let_def)
  have "unpriced rows = sum_list (map (\<lambda>e. if se_cost_usd e = None then 1 else 0) rows)" for rows
    by (induction rows) (simp_all add: unpriced_def)
  then show "sums_column as_of sm_total_unpriced_lines (\<lambda>e. if se_cost_usd e = None then 1 else 0)"
    by (simp add: sums_column_def aggregate_def Let_def)
  show "sums_column as_of sm_output_tokens (tokens_of [''output''])"
    by (simp add: sums_column_def aggregate_def Let_def)
qed

lemma checked_metrics_Inr: "checked_metrics as_of rows = Inr m \<longleftrightarrow> m = aggregate as_of rows \<and> metrics_ok m"
  by (auto simp: checked_metrics_def Let_def)

lemma smap_sum:
  assumes "smap step gs = Inr ys" "\<And>g y. g \<in> set gs \<Longrightarrow> step g = Inr y \<Longrightarrow> f y = h g"
  shows "map f ys = map h gs"
  using assms by (induction gs arbitrary: ys) auto

lemma column_models:
  assumes col: "sums_column as_of f h" and "thread_row_of as_of g = Inr r"
  shows "sum_list (map (\<lambda>x. f (snd x)) (ts_models r)) = f (ts_metrics r)" "f (ts_metrics r) = sum_list (map h (snd g))"
proof -
  from assms(2) obtain ms where ms: "smap (model_row as_of) (group_rows se_model nulls_last (snd g)) = Inr ms"
    and r: "ts_models r = ms" "ts_metrics r = aggregate as_of (snd g)"
    by (auto simp: thread_row_of_def checked_metrics_Inr)
  have "map (\<lambda>x. f (snd x)) ms = map (\<lambda>g. sum_list (map h (snd g))) (group_rows se_model nulls_last (snd g))"
    by (rule smap_sum [OF ms]) (use col in \<open>auto simp: model_row_def checked_metrics_Inr sums_column_def split: if_splits\<close>)
  then show "sum_list (map (\<lambda>x. f (snd x)) (ts_models r)) = f (ts_metrics r)" "f (ts_metrics r) = sum_list (map h (snd g))"
    using col by (simp_all add: r sum_over_groups sums_column_def)
qed

lemma column_threads:
  assumes "sums_column as_of f h" "thread_rows as_of base = Inr ths"
  shows "sum_list (map (\<lambda>r. f (ts_metrics r)) ths) = sum_list (map h (filter (\<lambda>e. se_thread_id e \<noteq> None) base))"
    and "\<forall>r \<in> set ths. sum_list (map (\<lambda>x. f (snd x)) (ts_models r)) = f (ts_metrics r)"
proof -
  note ths = assms(2) [unfolded thread_rows_def]
  show "sum_list (map (\<lambda>r. f (ts_metrics r)) ths) = sum_list (map h (filter (\<lambda>e. se_thread_id e \<noteq> None) base))"
    using smap_sum [OF ths, of "\<lambda>r. f (ts_metrics r)" "\<lambda>g. sum_list (map h (snd g))"] column_models(2) [OF assms(1)]
    by (simp add: sum_over_groups)
  show "\<forall>r \<in> set ths. sum_list (map (\<lambda>x. f (snd x)) (ts_models r)) = f (ts_metrics r)"
    using smap_member [OF ths] column_models(1) [OF assms(1)] by blast
qed

lemma column_purposes:
  assumes "sums_column as_of f h" "purpose_rows as_of base = Inr ps"
  shows "sum_list (map (\<lambda>(_, _, m). f m) ps) = sum_list (map h (filter (\<lambda>e. se_thread_id e = None) base))"
proof -
  have "map (\<lambda>(_, _, m). f m) ps = map (\<lambda>g. sum_list (map h (snd g)))
      (group_rows se_purpose purpose_name (filter (\<lambda>e. se_thread_id e = None) base))"
    by (rule smap_sum [OF assms(2) [unfolded purpose_rows_def]])
      (use assms(1) in \<open>auto simp: checked_metrics_Inr sums_column_def\<close>)
  then show ?thesis by (simp add: sum_over_groups)
qed

lemma sum_list_filter_split:
  "sum_list (map h (filter (\<lambda>x. \<not> P x) xs)) + sum_list (map h (filter P xs)) = (sum_list (map h xs) :: 'b :: comm_monoid_add)"
  by (induction xs) (auto simp: ac_simps)

text \<open>A table scoped to threads has no purposes and needs none: every row in its scope has a thread.\<close>

lemma table_column:
  assumes "sums_column as_of f h" "spend_table threads as_of owner s = Inr sn"
  shows "sum_list (map (\<lambda>r. f (ts_metrics r)) (sn_threads sn)) + sum_list (map (\<lambda>(_, _, m). f m) (sn_purposes sn)) =
      sum_list (map h (filter (in_scope as_of threads owner) (spend_events s)))"
    and "\<forall>r \<in> set (sn_threads sn). sum_list (map (\<lambda>x. f (snd x)) (ts_models r)) = f (ts_metrics r)"
proof -
  let ?base = "filter (in_scope as_of threads owner) (spend_events s)"
  have "sum_list (map (\<lambda>r. f (ts_metrics r)) (sn_threads sn)) + sum_list (map (\<lambda>(_, _, m). f m) (sn_purposes sn)) =
      sum_list (map h ?base) \<and> (\<forall>r \<in> set (sn_threads sn). sum_list (map (\<lambda>x. f (snd x)) (ts_models r)) = f (ts_metrics r))"
  proof (cases "threads = Some []")
    case True
    then have "?base = []" by (simp add: in_scope_def filter_empty_conv)
    with True assms(2) show ?thesis by (auto simp: spend_table_def)
  next
    case False
    with assms(2) obtain ps where ths: "thread_rows as_of ?base = Inr (sn_threads sn)" and ps: "purpose_rows as_of ?base = Inr ps"
      and sn: "sn_purposes sn = (if threads \<noteq> None then [] else ps)"
      by (auto simp: spend_table_def Let_def)
    have "threads \<noteq> None \<Longrightarrow> filter (\<lambda>e. se_thread_id e = None) ?base = []"
      by (auto simp: in_scope_def filter_empty_conv)
    then have "sum_list (map (\<lambda>(_, _, m). f m) (sn_purposes sn)) = sum_list (map h (filter (\<lambda>e. se_thread_id e = None) ?base))"
      unfolding sn using column_purposes [OF assms(1) ps] by auto
    then show ?thesis
      using sum_list_filter_split [of h "\<lambda>e. se_thread_id e = None" ?base] column_threads [OF assms(1) ths] by simp
  qed
  then show "sum_list (map (\<lambda>r. f (ts_metrics r)) (sn_threads sn)) + sum_list (map (\<lambda>(_, _, m). f m) (sn_purposes sn)) =
      sum_list (map h ?base)"
    "\<forall>r \<in> set (sn_threads sn). sum_list (map (\<lambda>x. f (snd x)) (ts_models r)) = f (ts_metrics r)" by simp_all
qed

section \<open>Properties\<close>

lemma dropWhile_full: "length s \<le> length (dropWhile P s) \<Longrightarrow> dropWhile P s = s"
proof (cases s)
  case (Cons x xs)
  moreover assume "length s \<le> length (dropWhile P s)"
  ultimately show ?thesis using length_dropWhile_le [of P xs] by auto
qed simp

lemma btrim_trimmed:
  assumes "s = strip s"
  shows "btrim s = s"
proof -
  have space: "is_space (CHR '' '')" by (simp add: is_space_def)
  have "length (strip s) \<le> length (dropWhile is_space s)"
    using length_dropWhile_le [of is_space "rev (dropWhile is_space s)"] by (simp add: strip_def rstrip_def)
  then have left: "dropWhile is_space s = s" using assms by (intro dropWhile_full) simp
  have "rev (strip s) = rev s" using assms by simp
  with left have "dropWhile is_space (rev s) = rev s" by (simp add: strip_def rstrip_def)
  with left have "s = [] \<or> \<not> is_space (hd s)" "rev s = [] \<or> \<not> is_space (hd (rev s))"
    by (simp_all only: dropWhile_eq_self_iff)
  with space have "dropWhile (\<lambda>c. c = CHR '' '') s = s" "dropWhile (\<lambda>c. c = CHR '' '') (rev s) = rev s"
    unfolding dropWhile_eq_self_iff by metis+
  then show ?thesis by (simp add: btrim_def)
qed

lemma trimmed_nonblank_text:
  assumes "trimmed_nonblank t"
  shows "btrim t = t" "t \<noteq> []"
proof -
  from assms have t: "t = strip t" "strip t \<noteq> []" unfolding trimmed_nonblank_def by (rule conjunct2, rule conjunct1)
  show "btrim t = t" by (rule btrim_trimmed [OF t(1)])
  show "t \<noteq> []" by (subst t(1)) (rule t(2))
qed

lemma input_checks:
  assumes "spend_event_input_ok e"
  shows "spend_event_checks e"
proof -
  from assms have ok: "trimmed_nonblank (se_quantity_type e)" "trimmed_nonblank (se_unit_of_measure e)" "trimmed_nonblank (se_ref e)"
    "0 < se_quantity e" "opt_ok (\<lambda>c. 0 \<le> c \<and> decimal_fits 20 12 c) (se_cost_usd e)"
    "se_product_type e = ''llm.request'' \<or> se_product_type e = ''llm.embedding''"
    by (simp_all add: spend_event_input_ok_def receipt_fields_ok_def)
  from ok(6) have "se_product_type e \<in> set product_types" by (auto simp: product_types_def)
  moreover from ok(5) have "opt_ok (\<lambda>c. 0 \<le> c) (se_cost_usd e)" by (cases "se_cost_usd e") (simp_all add: opt_ok_def)
  moreover have "list_all (\<lambda>t. t = btrim t \<and> t \<noteq> []) [se_quantity_type e, se_unit_of_measure e, se_ref e]"
    using ok(1-3) by (simp add: trimmed_nonblank_text)
  ultimately show ?thesis using ok(4) by (simp add: spend_event_checks_def)
qed

text \<open>C31: A batch of receipts is accepted exactly when every line agrees with the line that the ledger has
  under its identifier, or else survives being stored. An accepted batch appends the lines that were missing, in order,
  and nothing else; afterwards every line of it is found under its identifier, and the same batch sent again is accepted
  without a write, while any batch that gives one of the identifiers other values is refused. A refused batch changes
  nothing.\<close>

theorem receipts_once:
  assumes "ledger_ok s" "spend_events_request_ok events" "append_receipts jsonb events s = (r, t)"
  shows "case r of
      Inl _ \<Rightarrow> t = s \<and> \<not> list_all (receipt_agrees jsonb s) events
    | Inr n \<Rightarrow> list_all (receipt_agrees jsonb s) events \<and> n = length events \<and> ledger_ok t \<and>
        spend_events t = spend_events s @ map (keep_event jsonb) (missing s events) \<and>
        (\<forall>e \<in> set events. \<exists>row. event_by_uid t (se_event_uid e) = Some row \<and> same_receipt row e) \<and>
        append_receipts jsonb events t = (Inr n, t) \<and>
        (\<forall>other. (\<exists>e \<in> set other. \<exists>row. event_by_uid t (se_event_uid e) = Some row \<and> \<not> same_receipt row e) \<longrightarrow>
           (\<exists>err. append_receipts jsonb other t = (Inl err, t)))"
proof (cases r)
  case (Inl err)
  with assms(3) have "t = s" by (auto dest: append_receipts_Inl)
  moreover have "\<not> list_all (receipt_agrees jsonb s) events"
  proof
    assume "list_all (receipt_agrees jsonb s) events"
    with assms(2) have "append_receipts jsonb events s = (Inr (length events),
        s\<lparr>spend_events := spend_events s @ map (keep_event jsonb) (missing s events)\<rparr>)"
      by (simp add: append_receipts_Inr spend_events_request_ok_def)
    with assms(3) Inl show False by simp
  qed
  ultimately show ?thesis using Inl by simp
next
  case (Inr n)
  with assms(3) have run: "append_receipts jsonb events s = (Inr n, t)" by simp
  have ok: "ledger_ok t" using append_receipts_ok [OF assms(1) _ run] assms(2) by (simp add: spend_events_request_ok_def)
  from run have es: "events \<noteq> []" "distinct (map se_event_uid events)" "list_all (receipt_agrees jsonb s) events" "n = length events"
    and t: "t = s\<lparr>spend_events := spend_events s @ map (keep_event jsonb) (missing s events)\<rparr>"
    by (simp_all add: append_receipts_Inr)
  have found: "event_by_uid t (se_event_uid e) =
      Some (case event_by_uid s (se_event_uid e) of None \<Rightarrow> keep_event jsonb e | Some row \<Rightarrow> row)" if "e \<in> set events" for e
    using appended_by_uid [OF es(2) that] by (simp add: t)
  have rows: "\<forall>e \<in> set events. \<exists>row. event_by_uid t (se_event_uid e) = Some row \<and> same_receipt row e"
    using found es(3) by (auto simp: list_all_iff receipt_agrees_def)
  have "uid_taken (se_event_uid e) t" if "e \<in> set events" for e
    using found [OF that] event_by_uid_None [of t "se_event_uid e"] by auto
  then have none: "missing t events = []" by (auto simp: missing_def filter_empty_conv)
  have "list_all (receipt_agrees jsonb t) events"
    using rows es(3) by (auto simp: list_all_iff receipt_agrees_def)
  then have again: "append_receipts jsonb events t = (Inr n, t)"
    by (simp add: append_receipts_Inr es none)
  have refused: "\<exists>err. append_receipts jsonb other t = (Inl err, t)"
    if "e \<in> set other" "event_by_uid t (se_event_uid e) = Some row" "\<not> same_receipt row e" for other e row
  proof -
    have "\<not> list_all (receipt_agrees jsonb t) other" using that by (auto simp: list_all_iff receipt_agrees_def intro!: bexI [of _ e])
    then show ?thesis
      using append_receipts_Inl append_receipts_Inr by (metis old.sum.exhaust prod.exhaust_sel)
  qed
  show ?thesis using Inr es ok t rows again refused by (auto simp: list_all_iff)
qed

text \<open>Receipts that are new to the ledger are accepted whenever the database gives their metadata back unchanged.\<close>

lemma fresh_batch_accepted:
  assumes "spend_events_request_ok events" "\<forall>e \<in> set events. \<not> uid_taken (se_event_uid e) s"
    and "\<forall>e \<in> set events. \<exists>m. jsonb (se_meta e) = Some m \<and> py_eq (JObj m) (JObj (se_meta e))"
  shows "append_receipts jsonb events s =
    (Inr (length events), s\<lparr>spend_events := spend_events s @ map (keep_event jsonb) events\<rparr>)"
proof -
  have "receipt_agrees jsonb s e" if "e \<in> set events" for e
  proof -
    from assms(3) that obtain m where "jsonb (se_meta e) = Some m" "py_eq (JObj m) (JObj (se_meta e))" by blast
    moreover have "event_by_uid s (se_event_uid e) = None" using assms(2) that by (simp add: event_by_uid_None)
    moreover have "spend_event_checks e"
      using assms(1) that by (auto simp: spend_events_request_ok_def list_all_iff intro: input_checks)
    ultimately show ?thesis by (simp add: receipt_agrees_def storable_def same_receipt_def keep_event_def)
  qed
  moreover have "missing s events = events" using assms(2) by (simp add: missing_def)
  ultimately show ?thesis
    using assms(1) by (simp add: append_receipts_Inr spend_events_request_ok_def list_all_iff)
qed

text \<open>C32: The spend table loses and invents nothing, whichever threads and owner it is asked for: over the
  receipts in scope, the threads and the threadless purposes together carry every line, every unpriced line, the whole
  known cost and all output tokens, and in each of the four every thread is the sum of its models.\<close>

theorem table_conserves:
  assumes "spend_table threads as_of owner s = Inr sn"
  defines "base \<equiv> filter (in_scope as_of threads owner) (spend_events s)"
  shows "sum_list (map (\<lambda>r. sm_total_receipt_lines (ts_metrics r)) (sn_threads sn)) +
      sum_list (map (\<lambda>(_, _, m). sm_total_receipt_lines m) (sn_purposes sn)) = length base \<and>
    sum_list (map (\<lambda>r. sm_total_unpriced_lines (ts_metrics r)) (sn_threads sn)) +
      sum_list (map (\<lambda>(_, _, m). sm_total_unpriced_lines m) (sn_purposes sn)) = unpriced base \<and>
    sum_list (map (\<lambda>r. known (sm_total_usd (ts_metrics r))) (sn_threads sn)) +
      sum_list (map (\<lambda>(_, _, m). known (sm_total_usd m)) (sn_purposes sn)) = sum_list (map (\<lambda>e. known (se_cost_usd e)) base) \<and>
    sum_list (map (\<lambda>r. sm_output_tokens (ts_metrics r)) (sn_threads sn)) +
      sum_list (map (\<lambda>(_, _, m). sm_output_tokens m) (sn_purposes sn)) = sum_list (map (tokens_of [''output'']) base) \<and>
    (\<forall>r \<in> set (sn_threads sn).
       sum_list (map (\<lambda>x. sm_total_receipt_lines (snd x)) (ts_models r)) = sm_total_receipt_lines (ts_metrics r) \<and>
       sum_list (map (\<lambda>x. sm_total_unpriced_lines (snd x)) (ts_models r)) = sm_total_unpriced_lines (ts_metrics r) \<and>
       sum_list (map (\<lambda>x. known (sm_total_usd (snd x))) (ts_models r)) = known (sm_total_usd (ts_metrics r)) \<and>
       sum_list (map (\<lambda>x. sm_output_tokens (snd x)) (ts_models r)) = sm_output_tokens (ts_metrics r))"
proof -
  note cols = total_columns [of as_of]
  have len: "sum_list (map (\<lambda>_. 1) base) = length base" "sum_list (map (\<lambda>e. if se_cost_usd e = None then 1 else 0) base) = unpriced base"
    by (induction base) (simp_all add: unpriced_def)
  show ?thesis
    using table_column [OF cols(1) assms(1)] table_column [OF cols(2) assms(1)] table_column [OF cols(3) assms(1)]
      table_column [OF cols(4) assms(1)]
    unfolding base_def [symmetric] len comp_def by blast
qed

section \<open>Examples\<close>

definition sample_receipt :: spend_event where
  "sample_receipt = \<lparr>se_event_uid = ''01ARZ3NDEKTSV4RRFFQ69G5FAV'', se_ts = 5, se_product_type = ''llm.request'',
     se_quantity_type = ''output'', se_unit_of_measure = ''tokens'', se_quantity = 12, se_cost_usd = Some (1 / 100),
     se_basis = Measured, se_behavior = Variable, se_purpose = Building, se_principal_id = Some ''p'', se_machine_id = None,
     se_origin_agent = None, se_thread_id = Some 7, se_run_id = None, se_prompt_id = None, se_memory_id = None,
     se_model = Some ''m'', se_provider = None, se_quantization = None, se_ref = ''gen-1'', se_meta = []\<rparr>"

definition empty_ledger :: spend_store where
  "empty_ledger = \<lparr>spend_events = [], rate_view = [], reconciliations = []\<rparr>"

lemma sample_receipt_ok: "spend_events_request_ok [sample_receipt]"
  by code_simp

lemma empty_ledger_ok: "ledger_ok empty_ledger"
  by code_simp

theorem receipts_once_witness:
  "\<exists>t. append_receipts Some [sample_receipt] empty_ledger = (Inr 1, t) \<and> append_receipts Some [sample_receipt] t = (Inr 1, t)"
proof -
  let ?t = "empty_ledger\<lparr>spend_events := [keep_event Some sample_receipt]\<rparr>"
  have meta: "se_meta sample_receipt = []" by (simp add: sample_receipt_def)
  have "append_receipts Some [sample_receipt] empty_ledger = (Inr 1, ?t)"
    using fresh_batch_accepted [OF sample_receipt_ok, of empty_ledger Some] by (simp add: empty_ledger_def uid_taken_def meta)
  with receipts_once [OF empty_ledger_ok sample_receipt_ok this] show ?thesis by auto
qed

definition sample_ledger :: spend_store where
  "sample_ledger = empty_ledger\<lparr>spend_events := [sample_receipt]\<rparr>"

lemma sample_table: "isl (spend_table None 10 None sample_ledger) = False"
  by code_simp

theorem table_conserves_witness:
  "\<exists>sn. spend_table None 10 None sample_ledger = Inr sn \<and>
     sum_list (map (\<lambda>r. known (sm_total_usd (ts_metrics r))) (sn_threads sn)) +
       sum_list (map (\<lambda>(_, _, m). known (sm_total_usd m)) (sn_purposes sn)) = 1 / 100"
proof -
  obtain sn where sn: "spend_table None 10 None sample_ledger = Inr sn"
    using sample_table by (cases "spend_table None 10 None sample_ledger") simp_all
  have "sum_list (map (\<lambda>e. known (se_cost_usd e)) (filter (in_scope 10 None None) (spend_events sample_ledger))) = 1 / 100"
    by code_simp
  with table_conserves [OF sn] sn show ?thesis by (intro exI [of _ sn]) simp
qed

end
