(* ===== verification/Reconcile.thy ===== *)
theory Reconcile
  imports Spend
begin

text \<open>
  Reconciliation of the ledger with the broker (\<open>src/spine/spend/reconciliation.py\<close>): each run appends one row that
  compares the growth of both since the first usable observation.

  Amounts are decimals in the default context (28 digits, \<open>ROUND_HALF_EVEN\<close>); \<open>quantize\<close> raises when the result needs
  more digits. The answer of the broker is an argument.
\<close>

section \<open>Amounts\<close>

text \<open>\<open>_usd\<close>: quantised to twelve digits after the point.\<close>

definition usd :: "rat \<Rightarrow> rat option" where
  "usd x = (let k = round_half_even (x * 10 ^ 12) in
     if 28 < ndigits (nat \<bar>k\<bar>) then None else Some (of_int k / 10 ^ 12))"

definition usd_or :: "spend_error \<Rightarrow> rat \<Rightarrow> spend_error + rat" where
  "usd_or e x = (case usd x of None \<Rightarrow> Inl e | Some y \<Rightarrow> Inr y)"

text \<open>A difference in the context, quantised.\<close>

definition usd_diff :: "rat \<Rightarrow> rat \<Rightarrow> rat option" where
  "usd_diff x y = Option.bind (dec_fix 28 (x - y)) usd"

section \<open>The broker\<close>

datatype broker_answer = Usage rat | Broker_down | Broker_invalid

text \<open>\<open>cumulative_usage_usd\<close>: the body is decoded with every number as a decimal. A string is read as one; a boolean, a
  non-finite number, a missing field or a container is invalid.\<close>

definition usage_value :: "json \<Rightarrow> rat option" where
  "usage_value v = (case v of JStr t \<Rightarrow> decimal_of_string t | JInt n \<Rightarrow> Some (of_int n) | JFloat x \<Rightarrow> Some x | _ \<Rightarrow> None)"

definition usage_field :: "json option \<Rightarrow> json option" where
  "usage_field body = (case body of
       Some (JObj d) \<Rightarrow> (case dget d ''data'' of Some (JObj e) \<Rightarrow> dget e ''usage'' | _ \<Rightarrow> None)
     | _ \<Rightarrow> None)"

definition cumulative_usage_usd :: "http_response \<Rightarrow> broker_answer" where
  "cumulative_usage_usd response = (case response of
       Transport_error \<Rightarrow> Broker_down
     | Response ok body \<Rightarrow>
         if \<not> ok then Broker_down
         else (case Option.bind (usage_field body) usage_value of
                 None \<Rightarrow> Broker_invalid
               | Some v \<Rightarrow> if v < 0 then Broker_invalid
                   else (case usd v of None \<Rightarrow> Broker_invalid | Some u \<Rightarrow> Usage u)))"

section \<open>One reconciliation\<close>

text \<open>\<open>_ledger_totals\<close>\<close>

definition is_llm :: "spend_event \<Rightarrow> bool" where
  "is_llm e \<longleftrightarrow> se_product_type e \<in> {''llm.request'', ''llm.embedding''}"

definition ledger_totals :: "spend_store \<Rightarrow> spend_error + rat \<times> nat" where
  "ledger_totals s = (let rows = filter is_llm (spend_events s) in
     sbind (usd_or SpendInvalidOperation (known (sql_sum (map se_cost_usd rows)))) (\<lambda>cost. Inr (cost, unpriced rows)))"

definition unavailable_row :: "string \<Rightarrow> timestamp \<Rightarrow> reconciliation_error \<Rightarrow> rat \<Rightarrow> nat \<Rightarrow> spend_reconciliation" where
  "unavailable_row uid ts code tol free =
     \<lparr>rc_event_uid = uid, rc_ts = ts, rc_status = Unavailable, rc_broker_usage_usd = None, rc_ledger_cost_usd = None,
      rc_broker_since_baseline_usd = None, rc_ledger_since_baseline_usd = None, rc_drift_usd = None,
      rc_tolerance_usd = tol, rc_unpriced_lines = free, rc_error_code = Some code\<rparr>"

text \<open>\<open>_row\<close> quantises its amounts once more.\<close>

definition measured_row :: "string \<Rightarrow> timestamp \<Rightarrow> reconciliation_status \<Rightarrow> rat \<Rightarrow> rat \<Rightarrow> rat \<Rightarrow> rat \<Rightarrow> rat \<Rightarrow> rat \<Rightarrow> nat \<Rightarrow>
    spend_reconciliation option" where
  "measured_row uid ts status broker ledger broker_since ledger_since drift tol free =
     (case (usd broker, usd ledger, usd broker_since, usd ledger_since, usd drift) of
        (Some b, Some l, Some bs, Some ls, Some d) \<Rightarrow>
          Some \<lparr>rc_event_uid = uid, rc_ts = ts, rc_status = status, rc_broker_usage_usd = Some b, rc_ledger_cost_usd = Some l,
            rc_broker_since_baseline_usd = Some bs, rc_ledger_since_baseline_usd = Some ls, rc_drift_usd = Some d,
            rc_tolerance_usd = tol, rc_unpriced_lines = free, rc_error_code = None\<rparr>
      | _ \<Rightarrow> None)"

text \<open>The earliest observation that is not unavailable.\<close>

definition baseline_of :: "spend_reconciliation list \<Rightarrow> spend_reconciliation option" where
  "baseline_of rows = (case sort_key (\<lambda>r. (rc_ts r, rc_event_uid r)) (filter (\<lambda>r. rc_status r \<noteq> Unavailable) rows) of
     [] \<Rightarrow> None | r # _ \<Rightarrow> Some r)"

text \<open>\<open>_successful_row\<close>; \<open>None\<close> stands for \<open>InvalidBrokerResponse\<close> and \<open>InvalidOperation\<close>, which the caller treats alike.\<close>

definition successful_row :: "string \<Rightarrow> timestamp \<Rightarrow> rat \<Rightarrow> spend_reconciliation list \<Rightarrow> rat \<Rightarrow> rat \<Rightarrow> nat \<Rightarrow>
    spend_reconciliation option" where
  "successful_row uid ts tol rows broker ledger free =
     (case baseline_of rows of
        None \<Rightarrow> measured_row uid ts Baseline broker ledger 0 0 0 tol free
      | Some base \<Rightarrow>
          Option.bind (usd_diff broker (the (rc_broker_usage_usd base))) (\<lambda>broker_since.
          Option.bind (usd_diff ledger (the (rc_ledger_cost_usd base))) (\<lambda>ledger_since.
          if broker_since < 0 \<or> ledger_since < 0 then None
          else Option.bind (usd_diff ledger_since broker_since) (\<lambda>drift.
            measured_row uid ts (if tol < \<bar>drift\<bar> then Drift else Balanced) broker ledger broker_since ledger_since drift tol free))))"

text \<open>The columns are \<open>numeric(20, 12)\<close>; the CHECK constraints of the table.\<close>

definition fits_column :: "rat option \<Rightarrow> bool" where
  "fits_column v = opt_ok (\<lambda>x. \<bar>x\<bar> < 10 ^ 8) v"

definition reconciliation_shape :: "spend_reconciliation \<Rightarrow> bool" where
  "reconciliation_shape r \<longleftrightarrow> 0 \<le> rc_tolerance_usd r \<and>
     (let known_both = rc_broker_usage_usd r \<noteq> None \<and> rc_ledger_cost_usd r \<noteq> None
      in case rc_status r of
           Unavailable \<Rightarrow> rc_broker_usage_usd r = None \<and> rc_ledger_cost_usd r = None \<and>
             rc_broker_since_baseline_usd r = None \<and> rc_ledger_since_baseline_usd r = None \<and> rc_drift_usd r = None \<and>
             rc_error_code r \<noteq> None
         | Baseline \<Rightarrow> known_both \<and> rc_broker_since_baseline_usd r = Some 0 \<and> rc_ledger_since_baseline_usd r = Some 0 \<and>
             rc_drift_usd r = Some 0 \<and> rc_error_code r = None
         | _ \<Rightarrow> known_both \<and> rc_broker_since_baseline_usd r \<noteq> None \<and> rc_ledger_since_baseline_usd r \<noteq> None \<and>
             rc_drift_usd r \<noteq> None \<and> rc_error_code r = None)"

definition insert_reconciliation :: "spend_reconciliation \<Rightarrow> unit spend_op" where
  "insert_reconciliation r =
     bnd (gets (\<lambda>s. rc_event_uid r \<in> rc_event_uid ` set (reconciliations s))) (\<lambda>taken.
     sqn (raise_if (\<not> list_all fits_column [rc_broker_usage_usd r, rc_ledger_cost_usd r, rc_broker_since_baseline_usd r,
         rc_ledger_since_baseline_usd r, rc_drift_usd r, Some (rc_tolerance_usd r)]) SpendDataError)
     (sqn (raise_if (\<not> reconciliation_shape r) (SpendIntegrity ''spend_reconciliation''))
     (sqn (raise_if taken (SpendIntegrity ''event_uid''))
     (modify (\<lambda>s. s\<lparr>reconciliations := reconciliations s @ [r]\<rparr>)))))"

text \<open>The row for an answer: the \<open>try\<close> block of \<open>reconcile_once\<close>.\<close>

definition observation_row :: "rat \<Rightarrow> string \<Rightarrow> timestamp \<Rightarrow> broker_answer \<Rightarrow> spend_reconciliation list \<Rightarrow> rat \<Rightarrow> nat \<Rightarrow>
    spend_reconciliation" where
  "observation_row tol uid ts answer rows ledger free = (case answer of
       Broker_down \<Rightarrow> unavailable_row uid ts Broker_unavailable tol free
     | Broker_invalid \<Rightarrow> unavailable_row uid ts Invalid_broker_response tol free
     | Usage u \<Rightarrow> (case (if u < 0 then None else
           Option.bind (usd u) (\<lambda>b. successful_row uid ts tol rows b ledger free)) of
         None \<Rightarrow> unavailable_row uid ts Invalid_broker_response tol free
       | Some r \<Rightarrow> r))"

text \<open>\<open>reconcile_once\<close>, with the service's tolerance, the identifier that is minted and the time of the transaction.\<close>

definition reconcile_once :: "rat \<Rightarrow> string \<Rightarrow> timestamp \<Rightarrow> broker_answer \<Rightarrow> spend_reconciliation spend_op" where
  "reconcile_once tol uid ts answer = spend_transaction
     (bnd (gets ledger_totals) (\<lambda>totals.
      bnd (lift totals) (\<lambda>(ledger, free).
      bnd (gets (\<lambda>s. observation_row tol uid ts answer (reconciliations s) ledger free)) (\<lambda>row.
      sqn (insert_reconciliation row) (ret row)))))"

text \<open>The service refuses a tolerance that is not positive after quantising.\<close>

definition make_reconciler :: "rat \<Rightarrow> spend_error + rat" where
  "make_reconciler tolerance =
     sbind (usd_or SpendInvalidOperation tolerance) (\<lambda>t.
     sbind (check (t \<le> 0) (SpendValueError ''reconciliation tolerance must be positive'')) (\<lambda>_. Inr t))"

section \<open>Exactness of the amounts\<close>

definition grid :: "int \<Rightarrow> rat" where
  "grid n = of_int n / 10 ^ 12"

text \<open>An amount that the context holds exactly.\<close>

definition amount :: "rat \<Rightarrow> bool" where
  "amount x \<longleftrightarrow> (\<exists>n. x = grid n \<and> 0 \<le> n \<and> n < 10 ^ 28)"

lemma round_of_int: "round_half_even (of_int n) = n"
  by (simp add: round_half_even_def)

lemma ndigits_le: "n < 10 ^ d \<Longrightarrow> 0 < d \<Longrightarrow> ndigits n \<le> d"
proof -
  assume n: "n < 10 ^ d" and d: "0 < d"
  show ?thesis
  proof (cases "n = 0")
    case True
    with d show ?thesis by (simp add: ndigits_def show_nat.simps [of 0])
  next
    case False
    then have "10 ^ (ndigits n - 1) \<le> n" using ndigits_bounds [of n] by simp
    from le_less_trans [OF this n] have "(10 :: nat) ^ (ndigits n - 1) < 10 ^ d" .
    then have "ndigits n - 1 < d" by (rule power_less_imp_less_exp [rotated]) simp
    then show ?thesis by simp
  qed
qed

lemma ndigits_gt: "ndigits n \<le> d \<Longrightarrow> n < 10 ^ d"
proof (cases "n = 0")
  case False
  moreover assume "ndigits n \<le> d"
  ultimately show ?thesis using ndigits_bounds [of n] by (meson less_le_trans neq0_conv one_le_numeral power_increasing)
qed simp

lemma usd_grid: "\<bar>n\<bar> < 10 ^ 28 \<Longrightarrow> usd (grid n) = Some (grid n)"
proof -
  assume n: "\<bar>n\<bar> < 10 ^ 28"
  then have "nat \<bar>n\<bar> < 10 ^ 28" by (simp add: nat_less_iff)
  then have "ndigits (nat \<bar>n\<bar>) \<le> 28" by (rule ndigits_le) simp
  then show ?thesis by (simp add: usd_def grid_def round_of_int Let_def)
qed

lemma usd_Some:
  assumes "usd x = Some y"
  obtains n where "y = grid n" "\<bar>n\<bar> < 10 ^ 28" "n = round_half_even (x * 10 ^ 12)"
proof -
  let ?k = "round_half_even (x * 10 ^ 12)"
  from assms have "ndigits (nat \<bar>?k\<bar>) \<le> 28" "y = grid ?k"
    by (auto simp: usd_def grid_def Let_def not_less split: if_splits)
  moreover from this(1) have "nat \<bar>?k\<bar> < 10 ^ 28" by (rule ndigits_gt)
  ultimately show thesis by (intro that [of ?k]) (simp_all add: nat_less_iff)
qed

lemma round_nonneg: "0 \<le> x \<Longrightarrow> 0 \<le> round_half_even x"
  by (auto simp: round_half_even_def Let_def)

lemma usd_amount: "usd x = Some y \<Longrightarrow> 0 \<le> x \<Longrightarrow> amount y"
  by (elim usd_Some) (auto simp: amount_def intro!: exI round_nonneg)

lemma amount_usd: "amount x \<Longrightarrow> usd x = Some x"
  by (auto simp: amount_def usd_grid)

lemma amount_zero: "amount 0"
  by (auto simp: amount_def grid_def intro: exI [of _ 0])

lemma usd_diff_amount: "amount x \<Longrightarrow> amount y \<Longrightarrow> usd_diff x y = Some (x - y)"
proof -
  assume "amount x" "amount y"
  then obtain m n where x: "x = grid m" "0 \<le> m" "m < 10 ^ 28" and y: "y = grid n" "0 \<le> n" "n < 10 ^ 28"
    by (auto simp: amount_def)
  have d: "x - y = grid (m - n)" by (simp add: x y grid_def diff_divide_distrib)
  have b: "\<bar>m - n\<bar> < 10 ^ 28" using x y by linarith
  have g: "grid k = of_int k * 10 powi (- int 12)" for k
    unfolding grid_def power_int_minus power_int_of_nat by (rule divide_inverse)
  have "dec_fix 28 (grid (m - n)) = Some (grid (m - n))"
    unfolding g by (rule dec_fix_exact [OF b]) simp_all
  then show ?thesis by (simp add: usd_diff_def d usd_grid [OF b])
qed

lemma amount_diff: "amount x \<Longrightarrow> amount y \<Longrightarrow> y \<le> x \<Longrightarrow> amount (x - y)"
proof -
  assume "amount x" "amount y" and le: "y \<le> x"
  then obtain m n where x: "x = grid m" "0 \<le> m" "m < 10 ^ 28" and y: "y = grid n" "0 \<le> n" "n < 10 ^ 28"
    by (auto simp: amount_def)
  have "n \<le> m" using le by (simp add: x y grid_def divide_le_cancel)
  then show ?thesis using x y by (auto simp: amount_def grid_def diff_divide_distrib intro!: exI [of _ "m - n"])
qed

section \<open>What a reconciliation records\<close>

text \<open>Rows have the shape of the table and exact amounts, and at most one of them is a baseline.\<close>

definition row_amounts :: "spend_reconciliation \<Rightarrow> bool" where
  "row_amounts r \<longleftrightarrow> (rc_status r \<noteq> Unavailable \<longrightarrow>
     (\<exists>b l. rc_broker_usage_usd r = Some b \<and> amount b \<and> rc_ledger_cost_usd r = Some l \<and> amount l))"

definition reconciliations_ok :: "spend_reconciliation list \<Rightarrow> bool" where
  "reconciliations_ok rows \<longleftrightarrow> list_all reconciliation_shape rows \<and> list_all row_amounts rows \<and>
     distinct (map rc_event_uid rows) \<and> length (filter (\<lambda>r. rc_status r = Baseline) rows) \<le> 1"

text \<open>The costs of a ledger are exact non-negative amounts, as the contract has it.\<close>

definition costs_ok :: "spend_store \<Rightarrow> bool" where
  "costs_ok s \<longleftrightarrow> list_all (\<lambda>e. opt_ok (\<lambda>c. 0 \<le> c \<and> decimal_fits 20 12 c) (se_cost_usd e)) (spend_events s)"

definition llm_cost :: "spend_store \<Rightarrow> rat" where
  "llm_cost s = sum_list (map (\<lambda>e. known (se_cost_usd e)) (filter is_llm (spend_events s)))"

definition on_grid :: "rat \<Rightarrow> bool" where
  "on_grid x \<longleftrightarrow> (\<exists>n. 0 \<le> n \<and> x = grid n)"

lemma on_grid_add: "on_grid x \<Longrightarrow> on_grid y \<Longrightarrow> on_grid (x + y)"
proof -
  have "grid m + grid n = grid (m + n)" for m n by (simp add: grid_def add_divide_distrib)
  then show "on_grid x \<Longrightarrow> on_grid y \<Longrightarrow> on_grid (x + y)" unfolding on_grid_def by (metis add_nonneg_nonneg)
qed

lemma fits_on_grid: "0 \<le> c \<Longrightarrow> decimal_fits 20 12 c \<Longrightarrow> on_grid c"
proof -
  assume c: "0 \<le> c" "decimal_fits 20 12 c"
  obtain n where n: "quotient_of (c * 10 ^ 12) = (n, 1)"
    using c(2) by (cases "quotient_of (c * 10 ^ 12)") (simp add: decimal_fits_def)
  then have "c * 10 ^ 12 = of_int n" using quotient_of_div [OF n] by simp
  then have "c = grid n" by (simp add: grid_def field_simps)
  moreover have "0 \<le> n" using c(1) calculation by (simp add: grid_def zero_le_divide_iff)
  ultimately show ?thesis by (auto simp: on_grid_def)
qed

lemma llm_cost_on_grid:
  assumes "costs_ok s"
  shows "on_grid (llm_cost s)"
proof -
  have zero: "on_grid 0" by (auto simp: on_grid_def grid_def intro: exI [of _ 0])
  have "on_grid (known (se_cost_usd e))" if "e \<in> set (spend_events s)" for e
  proof (cases "se_cost_usd e")
    case (Some c)
    from assms that have "opt_ok (\<lambda>c. 0 \<le> c \<and> decimal_fits 20 12 c) (se_cost_usd e)" by (simp add: costs_ok_def list_all_iff)
    with Some show ?thesis by (simp add: opt_ok_def known_def fits_on_grid)
  qed (simp add: known_def zero)
  then have "on_grid (sum_list (map (\<lambda>e. known (se_cost_usd e)) es))" if "set es \<subseteq> set (spend_events s)" for es
    using that zero by (induction es) (auto intro: on_grid_add)
  then show ?thesis by (simp add: llm_cost_def)
qed

lemma usd_on_grid: "on_grid x \<Longrightarrow> usd x = Some y \<Longrightarrow> y = x \<and> amount x"
proof (elim usd_Some)
  fix n
  assume "on_grid x" "y = grid n" "\<bar>n\<bar> < 10 ^ 28" "n = round_half_even (x * 10 ^ 12)"
  moreover from this(1) obtain k where k: "0 \<le> k" "x = grid k" by (auto simp: on_grid_def)
  moreover have "round_half_even (x * 10 ^ 12) = k" by (simp add: k(2) grid_def round_of_int)
  ultimately show ?thesis by (auto simp: amount_def)
qed

lemma ledger_totals_exact:
  assumes "costs_ok s" "ledger_totals s = Inr (l, free)"
  shows "l = llm_cost s" "amount l" "free = unpriced (filter is_llm (spend_events s))"
proof -
  have sum: "known (sql_sum (map se_cost_usd (filter is_llm (spend_events s)))) = llm_cost s"
    by (simp add: sql_sum_known llm_cost_def comp_def)
  from assms(2) have "usd (llm_cost s) = Some l" and free: "free = unpriced (filter is_llm (spend_events s))"
    by (auto simp: ledger_totals_def usd_or_def Let_def sum split: option.splits)
  from usd_on_grid [OF llm_cost_on_grid [OF assms(1)] this(1)] free
  show "l = llm_cost s" "amount l" "free = unpriced (filter is_llm (spend_events s))" by simp_all
qed

lemma baseline_of_None: "baseline_of rows = None \<longleftrightarrow> (\<forall>r \<in> set rows. rc_status r = Unavailable)"
proof -
  have "baseline_of rows = None \<longleftrightarrow> sort_key (\<lambda>r. (rc_ts r, rc_event_uid r)) (filter (\<lambda>r. rc_status r \<noteq> Unavailable) rows) = []"
    by (simp add: baseline_of_def split: list.split)
  also have "\<dots> \<longleftrightarrow> set (sort_key (\<lambda>r. (rc_ts r, rc_event_uid r)) (filter (\<lambda>r. rc_status r \<noteq> Unavailable) rows)) = {}"
    by (simp only: set_empty)
  finally show ?thesis by auto
qed

lemma baseline_of_Some:
  assumes "baseline_of rows = Some b"
  shows "b \<in> set rows" "rc_status b \<noteq> Unavailable"
    "\<forall>r \<in> set rows. rc_status r \<noteq> Unavailable \<longrightarrow> (rc_ts b, rc_event_uid b) \<le> (rc_ts r, rc_event_uid r)"
proof -
  let ?k = "\<lambda>r. (rc_ts r, rc_event_uid r)"
  obtain rs where rs: "sort_key ?k (filter (\<lambda>r. rc_status r \<noteq> Unavailable) rows) = b # rs"
    using assms by (auto simp: baseline_of_def split: list.splits)
  have set: "set (b # rs) = set (filter (\<lambda>r. rc_status r \<noteq> Unavailable) rows)" using rs [symmetric] by (simp only: set_sort)
  then show "b \<in> set rows" "rc_status b \<noteq> Unavailable" by auto
  have "sorted (map ?k (b # rs))" using rs [symmetric] by (simp only: sorted_sort_key)
  with set show "\<forall>r \<in> set rows. rc_status r \<noteq> Unavailable \<longrightarrow> ?k b \<le> ?k r" by auto
qed


text \<open>The row of a usable answer, for exact amounts: a baseline, or the exact drift since the baseline.\<close>

lemma measured_row_exact:
  assumes "amount b" "amount l" "amount bs" "amount ls" "usd d = Some d"
  shows "measured_row uid ts st b l bs ls d tol free =
    Some \<lparr>rc_event_uid = uid, rc_ts = ts, rc_status = st, rc_broker_usage_usd = Some b, rc_ledger_cost_usd = Some l,
      rc_broker_since_baseline_usd = Some bs, rc_ledger_since_baseline_usd = Some ls, rc_drift_usd = Some d,
      rc_tolerance_usd = tol, rc_unpriced_lines = free, rc_error_code = None\<rparr>"
  by (simp add: measured_row_def assms amount_usd)

lemma usd_amount_diff: "amount x \<Longrightarrow> amount y \<Longrightarrow> usd (x - y) = Some (x - y)"
proof -
  assume "amount x" "amount y"
  then obtain m n where x: "x = grid m" "0 \<le> m" "m < 10 ^ 28" and y: "y = grid n" "0 \<le> n" "n < 10 ^ 28"
    by (auto simp: amount_def)
  have "x - y = grid (m - n)" by (simp add: x y grid_def diff_divide_distrib)
  moreover have "\<bar>m - n\<bar> < 10 ^ 28" using x y by linarith
  ultimately show ?thesis by (simp add: usd_grid)
qed

lemma successful_row_baseline:
  assumes "baseline_of rows = None" "amount b" "amount l"
  obtains r where "successful_row uid ts tol rows b l free = Some r" "rc_status r = Baseline" "row_amounts r"
    "rc_event_uid r = uid" "rc_unpriced_lines r = free" "rc_broker_usage_usd r = Some b" "rc_ledger_cost_usd r = Some l"
  using assms measured_row_exact [OF assms(2,3) amount_zero amount_zero, of 0]
  by (auto simp: successful_row_def amount_usd amount_zero row_amounts_def)

lemma successful_row_drift:
  assumes "baseline_of rows = Some base" "amount b" "amount l"
    and "rc_broker_usage_usd base = Some b0" "amount b0" "rc_ledger_cost_usd base = Some l0" "amount l0"
  shows "b < b0 \<or> l < l0 \<Longrightarrow> successful_row uid ts tol rows b l free = None"
    and "b0 \<le> b \<Longrightarrow> l0 \<le> l \<Longrightarrow> successful_row uid ts tol rows b l free =
      Some \<lparr>rc_event_uid = uid, rc_ts = ts, rc_status = (if tol < \<bar>(l - l0) - (b - b0)\<bar> then Drift else Balanced),
        rc_broker_usage_usd = Some b, rc_ledger_cost_usd = Some l,
        rc_broker_since_baseline_usd = Some (b - b0), rc_ledger_since_baseline_usd = Some (l - l0),
        rc_drift_usd = Some ((l - l0) - (b - b0)), rc_tolerance_usd = tol, rc_unpriced_lines = free, rc_error_code = None\<rparr>"
proof -
  have d: "usd_diff b b0 = Some (b - b0)" "usd_diff l l0 = Some (l - l0)"
    using assms by (simp_all add: usd_diff_amount)
  show "b < b0 \<or> l < l0 \<Longrightarrow> successful_row uid ts tol rows b l free = None"
    by (auto simp: successful_row_def assms d)
  assume "b0 \<le> b" "l0 \<le> l"
  then have a: "amount (b - b0)" "amount (l - l0)" using assms by (simp_all add: amount_diff)
  have "usd_diff (l - l0) (b - b0) = Some ((l - l0) - (b - b0))" using a by (simp add: usd_diff_amount)
  moreover have "usd ((l - l0) - (b - b0)) = Some ((l - l0) - (b - b0))" using a by (simp add: usd_amount_diff)
  ultimately show "successful_row uid ts tol rows b l free =
      Some \<lparr>rc_event_uid = uid, rc_ts = ts, rc_status = (if tol < \<bar>(l - l0) - (b - b0)\<bar> then Drift else Balanced),
        rc_broker_usage_usd = Some b, rc_ledger_cost_usd = Some l,
        rc_broker_since_baseline_usd = Some (b - b0), rc_ledger_since_baseline_usd = Some (l - l0),
        rc_drift_usd = Some ((l - l0) - (b - b0)), rc_tolerance_usd = tol, rc_unpriced_lines = free, rc_error_code = None\<rparr>"
    using \<open>b0 \<le> b\<close> \<open>l0 \<le> l\<close> measured_row_exact [OF assms(2,3) a] by (simp add: successful_row_def assms(1,4,6) d)
qed

lemma client_amount: "cumulative_usage_usd response = Usage u \<Longrightarrow> amount u"
  by (auto simp: cumulative_usage_usd_def not_less intro: usd_amount split: http_response.splits if_splits option.splits)

lemma insert_reconciliation_Inr:
  assumes "insert_reconciliation r s = (Inr u, t)"
  shows "reconciliation_shape r" "rc_event_uid r \<notin> rc_event_uid ` set (reconciliations s)"
    "t = s\<lparr>reconciliations := reconciliations s @ [r]\<rparr>"
  using assms unfolding insert_reconciliation_def act_iff by auto

lemma reconciliations_ok_snoc:
  assumes "reconciliations_ok rows" "reconciliation_shape r" "row_amounts r" "rc_event_uid r \<notin> rc_event_uid ` set rows"
    and "rc_status r = Baseline \<Longrightarrow> baseline_of rows = None"
  shows "reconciliations_ok (rows @ [r])"
proof -
  have "filter (\<lambda>x. rc_status x = Baseline) rows = []" if "rc_status r = Baseline"
    using assms(5) [OF that] by (auto simp: baseline_of_None filter_empty_conv)
  with assms(1-4) show ?thesis by (auto simp: reconciliations_ok_def)
qed

text \<open>What the row of an answer is, for exact amounts.\<close>

definition row_of :: "rat \<Rightarrow> spend_store \<Rightarrow> broker_answer \<Rightarrow> spend_reconciliation \<Rightarrow> bool" where
  "row_of tol s answer row = (case answer of
       Broker_down \<Rightarrow> rc_status row = Unavailable \<and> rc_error_code row = Some Broker_unavailable
     | Broker_invalid \<Rightarrow> rc_status row = Unavailable \<and> rc_error_code row = Some Invalid_broker_response
     | Usage u \<Rightarrow> (case baseline_of (reconciliations s) of
           None \<Rightarrow> rc_status row = Baseline \<and> rc_broker_usage_usd row = Some u \<and> rc_ledger_cost_usd row = Some (llm_cost s)
         | Some base \<Rightarrow>
             (let broker_since = u - the (rc_broker_usage_usd base); ledger_since = llm_cost s - the (rc_ledger_cost_usd base)
              in if broker_since < 0 \<or> ledger_since < 0
                 then rc_status row = Unavailable \<and> rc_error_code row = Some Invalid_broker_response
                 else rc_drift_usd row = Some (ledger_since - broker_since) \<and>
                   rc_status row = (if tol < \<bar>ledger_since - broker_since\<bar> then Drift else Balanced))))"

lemma usage_row:
  assumes "reconciliations_ok (reconciliations s)" "amount u" "amount (llm_cost s)"
    and "row = (case successful_row uid ts tol (reconciliations s) u (llm_cost s) free of
        None \<Rightarrow> unavailable_row uid ts Invalid_broker_response tol free | Some r \<Rightarrow> r)"
  shows "row_of tol s (Usage u) row" "row_amounts row" "rc_unpriced_lines row = free"
    "rc_status row = Baseline \<Longrightarrow> baseline_of (reconciliations s) = None"
proof -
  have "row_of tol s (Usage u) row \<and> row_amounts row \<and> rc_unpriced_lines row = free \<and>
    (rc_status row = Baseline \<longrightarrow> baseline_of (reconciliations s) = None)"
  proof (cases "baseline_of (reconciliations s)")
    case None
    then obtain r where "successful_row uid ts tol (reconciliations s) u (llm_cost s) free = Some r" "rc_status r = Baseline"
      "row_amounts r" "rc_unpriced_lines r = free" "rc_broker_usage_usd r = Some u" "rc_ledger_cost_usd r = Some (llm_cost s)"
      by (rule successful_row_baseline [OF _ assms(2,3)])
    with None show ?thesis by (simp add: assms(4) row_of_def)
  next
    case (Some base)
    have "row_amounts base" using assms(1) baseline_of_Some(1) [OF Some] by (auto simp: reconciliations_ok_def list_all_iff)
    then obtain b0 l0 where b: "rc_broker_usage_usd base = Some b0" "amount b0" "rc_ledger_cost_usd base = Some l0" "amount l0"
      using baseline_of_Some(2) [OF Some] by (auto simp: row_amounts_def)
    note srow = successful_row_drift [OF Some assms(2,3) b]
    show ?thesis
    proof (cases "u < b0 \<or> llm_cost s < l0")
      case True
      from srow(1) [OF True] True show ?thesis
        by (auto simp: assms(4) row_of_def Some b Let_def unavailable_row_def row_amounts_def)
    next
      case False
      with srow(2) have "row = \<lparr>rc_event_uid = uid, rc_ts = ts,
          rc_status = (if tol < \<bar>(llm_cost s - l0) - (u - b0)\<bar> then Drift else Balanced),
          rc_broker_usage_usd = Some u, rc_ledger_cost_usd = Some (llm_cost s),
          rc_broker_since_baseline_usd = Some (u - b0), rc_ledger_since_baseline_usd = Some (llm_cost s - l0),
          rc_drift_usd = Some ((llm_cost s - l0) - (u - b0)), rc_tolerance_usd = tol, rc_unpriced_lines = free,
          rc_error_code = None\<rparr>"
        by (simp add: assms(4) not_less)
      with False assms(2,3) show ?thesis by (simp add: row_of_def Some b Let_def row_amounts_def not_less)
    qed
  qed
  then show "row_of tol s (Usage u) row" "row_amounts row" "rc_unpriced_lines row = free"
    "rc_status row = Baseline \<Longrightarrow> baseline_of (reconciliations s) = None" by simp_all
qed

section \<open>Properties\<close>

text \<open>C33: A reconciliation that returns appends exactly the row it returns and leaves the ledger alone.
  The first usable answer becomes the only baseline. Every later one records the exact drift, the growth of the ledger's
  known model cost minus the growth of the broker's usage since the baseline, with no rounding, and is marked as drift
  exactly when it exceeds the tolerance. An unreachable broker, an invalid answer or an amount that shrank is recorded as
  unavailable.\<close>

theorem reconcile_records:
  assumes ok: "reconciliations_ok (reconciliations s)" and costs: "costs_ok s"
    and run: "reconcile_once tol uid ts (cumulative_usage_usd response) s = (Inr row, t)"
  shows "t = s\<lparr>reconciliations := reconciliations s @ [row]\<rparr> \<and> reconciliations_ok (reconciliations t) \<and>
    rc_unpriced_lines row = unpriced (filter is_llm (spend_events s)) \<and> row_of tol s (cumulative_usage_usd response) row"
proof -
  let ?a = "cumulative_usage_usd response"
  obtain l free where totals: "ledger_totals s = Inr (l, free)"
    and ins: "insert_reconciliation row s = (Inr (), t)"
    and row: "row = observation_row tol uid ts ?a (reconciliations s) l free"
    using run unfolding reconcile_once_def spend_transaction_def
    by (cases "ledger_totals s") (auto simp: act_iff)
  note exact = ledger_totals_exact [OF costs totals]
  have main: "row_of tol s ?a row \<and> row_amounts row \<and> rc_unpriced_lines row = free \<and>
      (rc_status row = Baseline \<longrightarrow> baseline_of (reconciliations s) = None)"
  proof (cases ?a)
    case (Usage u)
    then have u: "amount u" by (rule client_amount)
    then have "0 \<le> u" by (auto simp: amount_def grid_def)
    with row Usage u have r: "row = (case successful_row uid ts tol (reconciliations s) u (llm_cost s) free of
        None \<Rightarrow> unavailable_row uid ts Invalid_broker_response tol free | Some r \<Rightarrow> r)"
      by (simp add: observation_row_def amount_usd exact(1))
    from usage_row [OF ok u _ r] exact Usage show ?thesis by simp
  qed (simp_all add: row observation_row_def row_of_def unavailable_row_def row_amounts_def)
  note insd = insert_reconciliation_Inr [OF ins]
  have "reconciliations_ok (reconciliations s @ [row])"
    using main by (intro reconciliations_ok_snoc ok insd(1,2)) simp_all
  with insd(3) main exact(3) show ?thesis by simp
qed

text \<open>A run that fails leaves both tables as they were.\<close>

lemma reconcile_fails: "reconcile_once tol uid ts a s = (Inl e, t) \<Longrightarrow> t = s"
  by (auto simp: reconcile_once_def spend_transaction_def atomic_Inl_iff)

definition sample_usage :: http_response where
  "sample_usage = Response True (Some (JObj [(''data'', JObj [(''usage'', JInt 2)])]))"

lemma usd_small: "usd 2 = Some 2" "usd 0 = Some 0"
proof -
  have "grid 2000000000000 = 2" by (simp add: grid_def)
  with usd_grid [of 2000000000000] show "usd 2 = Some 2" by simp
  show "usd 0 = Some 0" by (rule amount_usd [OF amount_zero])
qed

lemma sample_usage_answer: "cumulative_usage_usd sample_usage = Usage 2"
  by (simp add: sample_usage_def cumulative_usage_usd_def usage_field_def usage_value_def dget_def usd_small)

theorem reconcile_records_witness:
  "\<exists>row t. reconcile_once (1 / 100) ''U'' 3 (cumulative_usage_usd sample_usage) empty_ledger = (Inr row, t) \<and> rc_status row = Baseline"
proof -
  have empty: "reconciliations empty_ledger = []" "spend_events empty_ledger = []" by (simp_all add: empty_ledger_def)
  have "ledger_totals empty_ledger = Inr (0, 0)"
    by (simp add: ledger_totals_def empty usd_or_def sql_sum_def map_filter_id known_def unpriced_def usd_small Let_def sbind_def)
  then have "\<exists>row t. reconcile_once (1 / 100) ''U'' 3 (cumulative_usage_usd sample_usage) empty_ledger = (Inr row, t)"
    by (simp add: reconcile_once_def spend_transaction_def act_defs sample_usage_answer observation_row_def usd_small successful_row_def
        baseline_of_def empty measured_row_def insert_reconciliation_def fits_column_def opt_ok_def reconciliation_shape_def Let_def)
  then obtain row t where run: "reconcile_once (1 / 100) ''U'' 3 (cumulative_usage_usd sample_usage) empty_ledger = (Inr row, t)" by blast
  have ok: "reconciliations_ok (reconciliations empty_ledger)" "costs_ok empty_ledger"
    by (simp_all add: empty reconciliations_ok_def costs_ok_def)
  have "row_of (1 / 100) empty_ledger (Usage 2) row"
    using reconcile_records [OF ok run] by (simp add: sample_usage_answer)
  with run show ?thesis by (auto simp: row_of_def baseline_of_def empty)
qed

end
