(* ===== verification/Transcripts.thy ===== *)
theory Transcripts
  imports Ids "HOL-Library.Sublist"
begin

text \<open>
  The transcript backup (\<open>src/spine/transcripts/service.py\<close> and \<open>contracts.py\<close>): each thread of a principal has an
  append-only journal of exact lines with contiguous sequence numbers.

  The state is the table. What the validator reads of a line (its digest, the JSON it holds, whether a text is an aware
  timestamp) is the parameter \<open>journal_lib\<close>. The advisory lock of a principal makes appends sequential, and one append
  is one transaction.
\<close>

section \<open>Lines and requests\<close>

record transcript_record =
  tx_principal_id :: string
  tx_thread_id :: uuid
  tx_sequence :: int
  tx_journal_line :: string
  tx_sha256 :: string
  tx_received_at :: timestamp

record transcript_record_input =
  ti_thread_id :: uuid
  ti_sequence :: int
  ti_journal_line :: string
  ti_sha256 :: string

record append_transcripts_request =
  ar_principal_id :: string
  ar_records :: "transcript_record_input list"

record transcript_status =
  st_principal_id :: string
  st_record_count :: nat
  st_thread_count :: nat
  st_latest_received_at :: "timestamp option"

record transcript_append_result =
  ra_accepted :: nat
  ra_replayed :: nat
  ra_status :: transcript_status

record journal_lib =
  jl_sha256_hex :: "string \<Rightarrow> string"
  jl_loads :: "string \<Rightarrow> json option"
  jl_aware_timestamp :: "string \<Rightarrow> bool"

datatype transcript_error =
    TranscriptValidation string
  | TranscriptConflict string
  | TranscriptIntegrity string
  | TranscriptDataError

type_synonym transcript_store = "transcript_record list"
type_synonym 'a transcript_op = "(transcript_store, transcript_error, 'a) act"

section \<open>Validation\<close>

definition sha256_pattern :: "string \<Rightarrow> bool" where
  "sha256_pattern s \<longleftrightarrow> length s = 64 \<and> set s \<subseteq> set ''0123456789abcdef''"

text \<open>\<open>captured_at.replace("Z", "+00:00")\<close>\<close>

definition utc_suffix :: "string \<Rightarrow> string" where
  "utc_suffix t = replace_char (CHR ''Z'') ''+00:00'' t"

definition exact_valid_journal_line :: "journal_lib \<Rightarrow> transcript_record_input \<Rightarrow> bool" where
  "exact_valid_journal_line J r \<longleftrightarrow> 0 < ti_sequence r \<and> sha256_pattern (ti_sha256 r) \<and>
     CHR 0x0A \<notin> set (ti_journal_line r) \<and> CHR 0x0D \<notin> set (ti_journal_line r) \<and>
     jl_sha256_hex J (ti_journal_line r) = ti_sha256 r \<and>
     (case jl_loads J (ti_journal_line r) of
        Some (JObj d) \<Rightarrow> dget d ''thread_id'' = Some (JStr (uuid_str (ti_thread_id r))) \<and>
          (case dget d ''captured_at'' of Some (JStr t) \<Rightarrow> jl_aware_timestamp J (utc_suffix t) | _ \<Rightarrow> False)
      | _ \<Rightarrow> False)"

definition record_key :: "transcript_record_input \<Rightarrow> uuid \<times> int" where
  "record_key r = (ti_thread_id r, ti_sequence r)"

definition append_request_ok :: "journal_lib \<Rightarrow> append_transcripts_request \<Rightarrow> bool" where
  "append_request_ok J b \<longleftrightarrow> strip (ar_principal_id b) \<noteq> [] \<and> strip (ar_principal_id b) = ar_principal_id b \<and>
     ar_records b \<noteq> [] \<and> length (ar_records b) \<le> 100 \<and> list_all (exact_valid_journal_line J) (ar_records b) \<and>
     distinct (map record_key (ar_records b)) \<and>
     map record_key (ar_records b) = sort_key (\<lambda>(t, n). (uuid_str t, n)) (map record_key (ar_records b))"

section \<open>The service\<close>

definition transcript_at :: "string \<Rightarrow> uuid \<Rightarrow> int \<Rightarrow> transcript_record \<Rightarrow> bool" where
  "transcript_at p t n x \<longleftrightarrow> tx_principal_id x = p \<and> tx_thread_id x = t \<and> tx_sequence x = n"

definition thread_lines :: "string \<Rightarrow> uuid \<Rightarrow> transcript_store \<Rightarrow> transcript_store" where
  "thread_lines p t s = filter (\<lambda>x. tx_principal_id x = p \<and> tx_thread_id x = t) s"

text \<open>\<open>max(sequence) or 0\<close>\<close>

definition latest_sequence :: "string \<Rightarrow> uuid \<Rightarrow> transcript_store \<Rightarrow> int" where
  "latest_sequence p t s = fold max (map tx_sequence (thread_lines p t s)) 0"

definition stored_line :: "string \<Rightarrow> timestamp \<Rightarrow> transcript_record_input \<Rightarrow> transcript_record" where
  "stored_line p now r = \<lparr>tx_principal_id = p, tx_thread_id = ti_thread_id r, tx_sequence = ti_sequence r,
     tx_journal_line = ti_journal_line r, tx_sha256 = ti_sha256 r, tx_received_at = now\<rparr>"

text \<open>One record of a batch: \<open>True\<close> when it was accepted, \<open>False\<close> when it was already there. The sequence is a 64-bit
  column.\<close>

definition append_record :: "string \<Rightarrow> timestamp \<Rightarrow> transcript_record_input \<Rightarrow> bool transcript_op" where
  "append_record p now r =
     sqn (raise_if (ti_sequence r \<ge> 2 ^ 63) TranscriptDataError)
     (bnd (gets (find (transcript_at p (ti_thread_id r) (ti_sequence r)))) (\<lambda>existing.
      case existing of
        Some x \<Rightarrow>
          sqn (raise_if (tx_journal_line x \<noteq> ti_journal_line r \<or> tx_sha256 x \<noteq> ti_sha256 r) (TranscriptConflict ''changed_replay''))
          (ret False)
      | None \<Rightarrow>
          bnd (gets (latest_sequence p (ti_thread_id r))) (\<lambda>latest.
          sqn (raise_if (ti_sequence r \<noteq> latest + 1) (TranscriptConflict ''non_contiguous_sequence''))
          (sqn (modify (\<lambda>s. s @ [stored_line p now r])) (ret True)))))"

definition status_of :: "string \<Rightarrow> transcript_store \<Rightarrow> transcript_status" where
  "status_of p s =
     (let rows = filter (\<lambda>x. tx_principal_id x = p) s
      in \<lparr>st_principal_id = p, st_record_count = length rows, st_thread_count = length (remdups (map tx_thread_id rows)),
          st_latest_received_at = (if rows = [] then None else Some (Max (set (map tx_received_at rows))))\<rparr>)"

definition append_transcripts :: "timestamp \<Rightarrow> append_transcripts_request \<Rightarrow> transcript_append_result transcript_op" where
  "append_transcripts now b = atomic (\<lambda>s t. s)
     (bnd (mapM (append_record (ar_principal_id b) now) (ar_records b)) (\<lambda>flags.
      bnd (gets (status_of (ar_principal_id b))) (\<lambda>status.
      ret \<lparr>ra_accepted = length (filter id flags), ra_replayed = length (filter Not flags), ra_status = status\<rparr>)))"

definition list_transcripts :: "string \<Rightarrow> transcript_store \<Rightarrow> transcript_record list" where
  "list_transcripts p s = sort_key (\<lambda>x. (tx_thread_id x, tx_sequence x)) (filter (\<lambda>x. tx_principal_id x = p) s)"

definition append_route :: "journal_lib \<Rightarrow> timestamp \<Rightarrow> append_transcripts_request \<Rightarrow> transcript_append_result transcript_op" where
  "append_route J now b =
     sqn (raise_if (\<not> append_request_ok J b) (TranscriptValidation ''AppendTranscriptsRequest''))
     (append_transcripts now b)"

definition run_appends :: "journal_lib \<Rightarrow> (timestamp \<times> append_transcripts_request) list \<Rightarrow> transcript_store \<Rightarrow> transcript_store" where
  "run_appends J reqs s = fold (\<lambda>(now, b) s. snd (append_route J now b s)) reqs s"

section \<open>Journals\<close>

text \<open>The lines of a thread in the order of the table are numbered 1, 2, 3 and so on.\<close>

definition journals_ok :: "transcript_store \<Rightarrow> bool" where
  "journals_ok s \<longleftrightarrow> (\<forall>p t. map tx_sequence (thread_lines p t s) = map int [1..<Suc (length (thread_lines p t s))])"

lemma fold_max_upto: "fold max (map int [1..<Suc n]) 0 = int n"
  by (induction n) (auto simp: max_def)

lemma latest_length: "journals_ok s \<Longrightarrow> latest_sequence p t s = int (length (thread_lines p t s))"
  using fold_max_upto by (simp add: latest_sequence_def journals_ok_def del: upt_Suc)

lemma append_record_Inr:
  assumes "append_record p now r s = (Inr flag, t)"
  shows "flag \<longrightarrow> t = s @ [stored_line p now r] \<and> ti_sequence r = latest_sequence p (ti_thread_id r) s + 1"
    and "\<not> flag \<longrightarrow> t = s" 
    and "\<exists>x \<in> set t. transcript_at p (ti_thread_id r) (ti_sequence r) x \<and> tx_journal_line x = ti_journal_line r \<and> tx_sha256 x = ti_sha256 r"
  using assms by (auto simp: append_record_def act_iff stored_line_def transcript_at_def dest!: find_Some_set)

lemma append_record_ok:
  assumes "journals_ok s" "append_record p now r s = (Inr flag, t)"
  shows "journals_ok t"
proof (cases flag)
  case True
  let ?x = "stored_line p now r"
  have t: "t = s @ [?x]" and n: "tx_sequence ?x = int (length (thread_lines p (ti_thread_id r) s)) + 1"
    using append_record_Inr(1) [OF assms(2)] True latest_length [OF assms(1)] by (auto simp: stored_line_def)
  show ?thesis
    unfolding journals_ok_def
  proof (intro allI)
    fix p' t'
    show "map tx_sequence (thread_lines p' t' t) = map int [1..<Suc (length (thread_lines p' t' t))]"
    proof (cases "p' = p \<and> t' = ti_thread_id r")
      case True
      then have "thread_lines p' t' t = thread_lines p' t' s @ [?x]" by (simp add: t thread_lines_def stored_line_def)
      with assms(1) n True show ?thesis by (simp add: journals_ok_def)
    next
      case False
      then have "thread_lines p' t' t = thread_lines p' t' s" by (auto simp: t thread_lines_def stored_line_def)
      with assms(1) show ?thesis by (simp add: journals_ok_def del: upt_Suc)
    qed
  qed
next
  case False
  with append_record_Inr(2) [OF assms(2)] assms(1) show ?thesis by simp
qed

lemma append_records:
  assumes "mapM (append_record p now) rs s = (Inr flags, t)"
  shows "journals_ok s \<Longrightarrow> journals_ok t" "prefix s t"
    "\<forall>r \<in> set rs. \<exists>x \<in> set t. transcript_at p (ti_thread_id r) (ti_sequence r) x \<and> tx_journal_line x = ti_journal_line r \<and> tx_sha256 x = ti_sha256 r"
    "length t = length s + length (filter id flags)" "length flags = length rs"
proof -
  have "(journals_ok s \<longrightarrow> journals_ok t) \<and> prefix s t \<and>
    (\<forall>r \<in> set rs. \<exists>x \<in> set t. transcript_at p (ti_thread_id r) (ti_sequence r) x \<and> tx_journal_line x = ti_journal_line r \<and> tx_sha256 x = ti_sha256 r) \<and>
    length t = length s + length (filter id flags) \<and> length flags = length rs"
    using assms
  proof (induction rs arbitrary: s flags)
    case Nil
    then show ?case by (auto simp: act_iff)
  next
    case (Cons r rs)
    from Cons.prems obtain flag u fs where r: "append_record p now r s = (Inr flag, u)"
      and rs: "mapM (append_record p now) rs u = (Inr fs, t)" and fl: "flags = flag # fs"
      by (auto simp: act_iff)
    note IH = Cons.IH [OF rs] and head = append_record_Inr [OF r]
    have "prefix s u" "length u = length s + length (filter id [flag])" using head by (cases flag; auto)+
    with IH have "prefix s t" by (meson prefix_order.trans)
    moreover have "set u \<subseteq> set t" using IH by (meson set_mono_prefix)
    ultimately show ?case using IH head(3) append_record_ok [OF _ r] \<open>length u = _\<close> by (auto simp: fl)
  qed
  then show "journals_ok s \<Longrightarrow> journals_ok t" "prefix s t"
    "\<forall>r \<in> set rs. \<exists>x \<in> set t. transcript_at p (ti_thread_id r) (ti_sequence r) x \<and> tx_journal_line x = ti_journal_line r \<and> tx_sha256 x = ti_sha256 r"
    "length t = length s + length (filter id flags)" "length flags = length rs" by simp_all
qed

lemma journal_unique:
  assumes "journals_ok s" "x \<in> set s" "y \<in> set s" "transcript_at p t n x" "transcript_at p t n y"
  shows "x = y"
proof -
  have "distinct (map tx_sequence (thread_lines p t s))"
    using assms(1) by (simp add: journals_ok_def distinct_map inj_on_def del: upt_Suc)
  moreover have "x \<in> set (thread_lines p t s)" "y \<in> set (thread_lines p t s)"
    using assms by (auto simp: thread_lines_def transcript_at_def)
  ultimately show ?thesis using assms(4,5) by (auto simp: distinct_map transcript_at_def dest: inj_onD)
qed

text \<open>A record whose exact line is in the table is a replay.\<close>

lemma append_record_replay:
  assumes "journals_ok s" "ti_sequence r < 2 ^ 63" "x \<in> set s" "transcript_at p (ti_thread_id r) (ti_sequence r) x"
    "tx_journal_line x = ti_journal_line r" "tx_sha256 x = ti_sha256 r"
  shows "append_record p now r s = (Inr False, s)"
proof -
  have "find (transcript_at p (ti_thread_id r) (ti_sequence r)) s \<noteq> None"
    using assms(3,4) by (auto simp: find_None_iff)
  then obtain y where y: "find (transcript_at p (ti_thread_id r) (ti_sequence r)) s = Some y" by auto
  from find_Some_set [OF y] journal_unique [OF assms(1,3) _ assms(4)] have "y = x" by blast
  with y assms(2,5,6) show ?thesis by (simp add: append_record_def act_defs)
qed

lemma append_records_replay:
  assumes "journals_ok s"
    and "\<forall>r \<in> set rs. ti_sequence r < 2 ^ 63 \<and> (\<exists>x \<in> set s. transcript_at p (ti_thread_id r) (ti_sequence r) x \<and>
       tx_journal_line x = ti_journal_line r \<and> tx_sha256 x = ti_sha256 r)"
  shows "mapM (append_record p now) rs s = (Inr (map (\<lambda>_. False) rs), s)"
  using assms(2)
proof (induction rs)
  case Nil
  then show ?case by (simp add: ret_def)
next
  case (Cons r rs)
  then obtain x where "x \<in> set s" "transcript_at p (ti_thread_id r) (ti_sequence r) x"
    "tx_journal_line x = ti_journal_line r" "tx_sha256 x = ti_sha256 r" "ti_sequence r < 2 ^ 63" by auto
  from append_record_replay [OF assms(1) this(5,1-4)] Cons show ?case by (simp add: act_defs)
qed

lemma append_records_bounded: "mapM (append_record p now) rs s = (Inr flags, t) \<Longrightarrow> \<forall>r \<in> set rs. ti_sequence r < 2 ^ 63"
  by (induction rs arbitrary: s flags) (auto simp: act_iff append_record_def not_le)

lemma append_transcripts_Inl: "append_transcripts now b s = (Inl e, t) \<Longrightarrow> t = s"
  by (auto simp: append_transcripts_def atomic_Inl_iff)

lemma append_route_step:
  assumes "journals_ok s"
  shows "journals_ok (snd (append_route J now b s)) \<and> prefix s (snd (append_route J now b s))"
proof (cases "append_request_ok J b")
  case True
  then have route: "append_route J now b = append_transcripts now b"
    by (simp add: append_route_def raise_if_def sqn_def bnd_def ret_def)
  obtain r t where run: "append_transcripts now b s = (r, t)" by (cases "append_transcripts now b s")
  show ?thesis
  proof (cases r)
    case (Inl e)
    with run assms show ?thesis by (auto simp: route dest: append_transcripts_Inl)
  next
    case (Inr res)
    with run obtain flags where "mapM (append_record (ar_principal_id b) now) (ar_records b) s = (Inr flags, t)"
      by (auto simp: append_transcripts_def act_iff)
    from append_records(1,2) [OF this] assms run show ?thesis by (simp add: route)
  qed
next
  case False
  with assms show ?thesis by (simp add: append_route_def act_defs)
qed

section \<open>Properties\<close>

text \<open>Over any sequence of appends, valid or not, every journal stays contiguous from 1 and no stored line is changed or
  lost.\<close>

lemma transcript_history:
  assumes "journals_ok s"
  shows "journals_ok (run_appends J reqs s) \<and> prefix s (run_appends J reqs s)"
  using assms
proof (induction reqs arbitrary: s)
  case (Cons q reqs)
  obtain now b where q: "q = (now, b)" by (cases q)
  from append_route_step [OF Cons.prems, of J now b] Cons.IH [of "snd (append_route J now b s)"]
  show ?case by (auto simp: run_appends_def q intro: prefix_order.trans)
qed (simp add: run_appends_def)

text \<open>C34: After any history of appends, a successful append leaves every journal contiguous from 1,
  keeps every stored line, and stores each line of the batch exactly once, byte for byte; it counts the new and the
  replayed lines, and the same batch sent again is counted as replayed and changes nothing. Listing a principal gives the
  lines of each thread in the order in which they were written.\<close>

theorem transcripts_exact:
  assumes ok: "journals_ok s" and s': "s' = run_appends J reqs s" and run: "append_route J now b s' = (Inr res, t)"
  shows "journals_ok t \<and> prefix s' t \<and> ra_accepted res + ra_replayed res = length (ar_records b) \<and>
    length t = length s' + ra_accepted res \<and>
    (\<forall>r \<in> set (ar_records b). \<exists>!x. x \<in> set t \<and> transcript_at (ar_principal_id b) (ti_thread_id r) (ti_sequence r) x \<and>
       tx_journal_line x = ti_journal_line r \<and> tx_sha256 x = ti_sha256 r) \<and>
    (\<exists>res'. append_route J now' b t = (Inr res', t) \<and> ra_accepted res' = 0) \<and>
    (\<forall>p th. filter (\<lambda>x. tx_thread_id x = th) (list_transcripts p t) = thread_lines p th t)"
proof -
  let ?p = "ar_principal_id b"
  have ok': "journals_ok s'" using transcript_history [OF ok] s' by simp
  from run have valid: "append_request_ok J b" and app: "append_transcripts now b s' = (Inr res, t)"
    by (auto simp: append_route_def act_iff)
  from app obtain flags where flags: "mapM (append_record ?p now) (ar_records b) s' = (Inr flags, t)"
    and res: "ra_accepted res = length (filter id flags)" "ra_replayed res = length (filter Not flags)"
    by (auto simp: append_transcripts_def act_iff)
  note parts = append_records [OF flags]
  have ok_t: "journals_ok t" by (rule parts(1) [OF ok'])
  have "ra_accepted res + ra_replayed res = length (ar_records b)"
    unfolding res parts(5) [symmetric] using sum_length_filter_compl [of id flags] by (simp add: comp_def)
  moreover have "\<exists>!x. x \<in> set t \<and> transcript_at ?p (ti_thread_id r) (ti_sequence r) x \<and>
       tx_journal_line x = ti_journal_line r \<and> tx_sha256 x = ti_sha256 r" if "r \<in> set (ar_records b)" for r
    using parts(3) that journal_unique [OF ok_t] by blast
  moreover have "mapM (append_record ?p now') (ar_records b) t = (Inr (map (\<lambda>_. False) (ar_records b)), t)"
    using parts(3) append_records_bounded [OF flags] by (intro append_records_replay ok_t) auto
  then have "\<exists>res'. append_route J now' b t = (Inr res', t) \<and> ra_accepted res' = 0"
    using valid by (simp add: append_route_def append_transcripts_def act_defs)
  moreover have "filter (\<lambda>x. tx_thread_id x = th) (list_transcripts p t) = thread_lines p th t" for p th
  proof -
    let ?k = "\<lambda>x. (tx_thread_id x, tx_sequence x)"
    have "sorted (map tx_sequence (thread_lines p th t))"
      using ok_t by (simp add: journals_ok_def sorted_map_mono mono_onI del: upt_Suc)
    then have "sorted (map ?k (thread_lines p th t))"
    proof -
      have ks: "map ?k (thread_lines p th t) = map (Pair th) (map tx_sequence (thread_lines p th t))" by (simp add: thread_lines_def)
      have "sorted (map (Pair th) ns)" if "sorted ns" for ns :: "int list"
        using that by (simp add: sorted_wrt_map less_eq_prod_def)
      then show ?thesis unfolding ks using \<open>sorted (map tx_sequence _)\<close> .
    qed
    moreover have "filter (\<lambda>x. tx_thread_id x = th) (list_transcripts p t) = sort_key ?k (thread_lines p th t)"
      by (simp add: list_transcripts_def filter_sort thread_lines_def conj_commute)
    ultimately show ?thesis by (simp add: sorted_sort_id sort_key_id_if_sorted)
  qed
  ultimately show ?thesis using parts(2,4) ok_t res by simp
qed


section \<open>Examples\<close>

text \<open>A library that takes every text for an object of thread 7.\<close>

definition sample_journal :: journal_lib where
  "sample_journal = \<lparr>jl_sha256_hex = (\<lambda>_. replicate 64 (CHR ''0'')),
     jl_loads = (\<lambda>_. Some (JObj [(''thread_id'', JStr (uuid_str 7)), (''captured_at'', JStr ''2026-01-01T00:00:00Z'')])),
     jl_aware_timestamp = (\<lambda>t. t = ''2026-01-01T00:00:00+00:00'')\<rparr>"

definition sample_append :: append_transcripts_request where
  "sample_append = \<lparr>ar_principal_id = ''p'', ar_records =
     [\<lparr>ti_thread_id = 7, ti_sequence = 1, ti_journal_line = ''one'', ti_sha256 = replicate 64 (CHR ''0'')\<rparr>]\<rparr>"

lemma sample_append_runs: "\<not> isl (fst (append_route sample_journal 5 sample_append []))"
proof -
  have "strip ''p'' = ''p''" "utc_suffix ''2026-01-01T00:00:00Z'' = ''2026-01-01T00:00:00+00:00''" by code_simp+
  then have "append_request_ok sample_journal sample_append"
    by (simp add: append_request_ok_def sample_append_def exact_valid_journal_line_def sample_journal_def sha256_pattern_def
        dget_def record_key_def)
  then show ?thesis
    by (simp add: append_route_def append_transcripts_def append_record_def sample_append_def latest_sequence_def
        thread_lines_def act_defs)
qed

theorem transcripts_exact_witness:
  "\<exists>res t. append_route sample_journal 5 sample_append [] = (Inr res, t) \<and> ra_accepted res + ra_replayed res = 1 \<and> journals_ok t"
proof -
  obtain res t where run: "append_route sample_journal 5 sample_append [] = (Inr res, t)"
    using sample_append_runs by (cases "append_route sample_journal 5 sample_append []"; cases "fst (append_route sample_journal 5 sample_append [])") auto
  have empty: "journals_ok []" "[] = run_appends sample_journal [] []"
    by (simp_all add: journals_ok_def thread_lines_def run_appends_def)
  from transcripts_exact [OF empty run] run show ?thesis by (auto simp: sample_append_def)
qed

end
