(* ===== verification/Learner.thy ===== *)
theory Learner
  imports Scorer Decimal
begin

text \<open>
  The learner's fit and replay arithmetic (\<open>src/spine/learner/model.py\<close>): the label of a recorded
  outcome, the split of the gates into training and holdout, the pairwise fit by projected gradient, the
  thread and folder coefficients, the per-project residuals, the threshold and the memory share, and the
  replay that decides between the incumbent and the challenger. Floating-point operations round through
  the environment where the code computes them; sums of decimals round as the \<open>decimal\<close> module does, and
  its overflow trap is an error value. Every loop of the code runs over a bounded range, so every
  definition is tot.
\<close>

section \<open>Floating-point and decimal operations\<close>

definition fadd :: "env \<Rightarrow> rat \<Rightarrow> rat \<Rightarrow> rat" where
  "fadd \<epsilon> x y = fl64 \<epsilon> (x + y)"

definition fsub :: "env \<Rightarrow> rat \<Rightarrow> rat \<Rightarrow> rat" where
  "fsub \<epsilon> x y = fl64 \<epsilon> (x - y)"

definition fmul :: "env \<Rightarrow> rat \<Rightarrow> rat \<Rightarrow> rat" where
  "fmul \<epsilon> x y = fl64 \<epsilon> (x * y)"

definition fdiv :: "env \<Rightarrow> rat \<Rightarrow> rat \<Rightarrow> rat" where
  "fdiv \<epsilon> x y = fl64 \<epsilon> (x / y)"

text \<open>\<open>math.fsum\<close> of the products of two sequences of one length.\<close>

definition fdot :: "env \<Rightarrow> rat list \<Rightarrow> rat list \<Rightarrow> rat" where
  "fdot \<epsilon> xs ys = fsum \<epsilon> (map2 (fmul \<epsilon>) xs ys)"

text \<open>\<open>sum\<close> of a sequence of floats: Python 3.12 adds the first number to the integer zero and the rest
  with a running compensation.\<close>

fun compensated :: "env \<Rightarrow> rat list \<Rightarrow> rat \<Rightarrow> rat \<Rightarrow> rat" where
  "compensated \<epsilon> [] tot c = (if c \<noteq> 0 then fadd \<epsilon> tot c else tot)"
| "compensated \<epsilon> (x # xs) tot c =
     (let t = fadd \<epsilon> tot x in
      compensated \<epsilon> xs t
        (fadd \<epsilon> c (if \<bar>x\<bar> \<le> \<bar>tot\<bar> then fadd \<epsilon> (fsub \<epsilon> tot t) x else fadd \<epsilon> (fsub \<epsilon> x t) tot)))"

definition py_sum :: "env \<Rightarrow> rat list \<Rightarrow> rat" where
  "py_sum \<epsilon> xs = (case xs of [] \<Rightarrow> 0 | x # ys \<Rightarrow> compensated \<epsilon> ys x 0)"

text \<open>\<open>tot += weight\<close> on decimals, in the default context of 28 digits.\<close>

definition dec_add :: "rat \<Rightarrow> rat \<Rightarrow> err + rat" where
  "dec_add x y = (case dec_fix 28 (x + y) of None \<Rightarrow> Inl (RuntimeErr ''decimal.Overflow'') | Some z \<Rightarrow> Inr z)"

fun dec_sum :: "rat \<Rightarrow> rat list \<Rightarrow> err + rat" where
  "dec_sum tot [] = Inr tot"
| "dec_sum tot (x # xs) = sbind (dec_add tot x) (\<lambda>t. dec_sum t xs)"

section \<open>Data\<close>

record learning_example =
  le_event_uid :: string
  le_injection_id :: uuid
  le_memory_id :: uuid
  le_ts :: timestamp
  le_features :: "rat list"
  le_baseline_bias :: rat
  le_target_injected :: bool
  le_actor_weight :: rat
  le_shown_as :: shown_as
  le_body_tokens :: int
  le_location_feature :: "rat option"
  le_location_weight :: rat
  le_thread_feature :: "rat option"
  le_thread_id :: "uuid option"
  le_where_feature :: "rat option"
  le_where_weight :: rat
  le_project_key :: "string option"

definition recorded_injected :: "learning_example \<Rightarrow> bool" where
  "recorded_injected e \<longleftrightarrow> le_shown_as e \<noteq> Near_miss \<and> le_shown_as e \<noteq> Budget_cut"

datatype boundary_kind = Valuable_budget_cut | Marginal_uncited | Marginal_removed | Pin_overflow

record share_boundary =
  sb_event_uid :: string
  sb_injection_id :: uuid
  sb_required_share :: rat
  sb_target_at_least :: bool
  sb_actor_weight :: rat
  sb_kind :: boundary_kind

record fit_settings =
  fs_pair_margin :: rat
  fs_bias_l2 :: rat

record fit_result =
  fr_weights :: "rat list"
  fr_thread_weight :: rat
  fr_where_weight :: rat
  fr_tau :: rat
  fr_memory_context_share :: rat
  fr_share_tau_active :: bool
  fr_bias_offsets :: "(uuid \<times> rat) list"
  fr_pair_count :: nat
  fr_iterations :: nat
  fr_objective :: rat
  fr_project_offsets :: "(string \<times> (string \<times> rat) list) list"

record replay_score =
  rs_disagreements :: nat
  rs_weighted_disagreements :: rat
  rs_injected_tokens :: int
  rs_share_disagreements :: nat
  rs_weighted_share_disagreements :: rat

type_synonym pair = "learning_example \<times> learning_example \<times> rat"
type_synonym biases = "(uuid \<times> rat) list"

section \<open>Labels and hygiene\<close>

definition explicit_positive_outcomes :: "outcome list" where
  "explicit_positive_outcomes = [Added_back, Cited, Mid_thread_added]"

definition negative_outcomes :: "outcome list" where
  "negative_outcomes = [Removed Not_relevant, Removed Never, Mid_thread_removed]"

definition passive_positive_outcomes :: "outcome list" where
  "passive_positive_outcomes = [Kept, Auto_entered]"

definition disposition :: "rat \<Rightarrow> outcome option \<Rightarrow> actor_class \<Rightarrow> (bool \<times> rat) option" where
  "disposition passive_discount out actor = (case out of
       None \<Rightarrow> None
     | Some x \<Rightarrow>
         if x \<in> set explicit_positive_outcomes then Some (True, 1)
         else if x \<in> set negative_outcomes then Some (False, 1)
         else (case actor of
             Human \<Rightarrow> if x = Kept then Some (True, 1) else None
           | Passive \<Rightarrow> if x \<in> set passive_positive_outcomes then Some (True, passive_discount) else None))"

definition replace_with :: "char \<Rightarrow> char \<Rightarrow> string \<Rightarrow> string" where
  "replace_with a b s = map (\<lambda>c. if c = a then b else c) s"

definition normalize_identity :: "string \<Rightarrow> string" where
  "normalize_identity s = replace_with (CHR ''_'') (CHR ''-'') (py_lower (strip s))"

definition marked :: "string \<Rightarrow> bool" where
  "marked s \<longleftrightarrow> s \<in> {''test'', ''fixture'', ''verification''}"

definition identity_value_is_excluded :: "string \<Rightarrow> bool" where
  "identity_value_is_excluded s \<longleftrightarrow>
     (let normalized = normalize_identity s;
          parts = filter (\<lambda>p. p \<noteq> []) (split_on (CHR ''-'') (replace_with (CHR '':'') (CHR ''-'') normalized))
      in marked normalized \<or> list_ex marked parts)"

definition identity_is_excluded :: "string \<Rightarrow> string \<Rightarrow> bool" where
  "identity_is_excluded prin machine \<longleftrightarrow>
     identity_value_is_excluded prin \<or> identity_value_is_excluded machine \<or>
     py_lower (strip machine) = ''d1-relay'' \<or>
     startswith (py_lower (strip prin)) ''nocturne-deploy-verify-''"

section \<open>Grouping\<close>

text \<open>A \<open>defaultdict(list)\<close> filled in one pass: the keys in the order of their first occurrence, each
  with its members in order.\<close>

definition first_keys :: "('a \<Rightarrow> 'k) \<Rightarrow> 'a list \<Rightarrow> 'k list" where
  "first_keys f xs = rev (remdups (rev (map f xs)))"

definition grouped :: "('a \<Rightarrow> 'k) \<Rightarrow> 'a list \<Rightarrow> ('k \<times> 'a list) list" where
  "grouped f xs = map (\<lambda>k. (k, filter (\<lambda>x. f x = k) xs)) (first_keys f xs)"

definition max_ts :: "learning_example list \<Rightarrow> timestamp" where
  "max_ts rows = Max (set (map le_ts rows))"

text \<open>\<open>split_gates\<close>\<close>

definition ordered_gates :: "learning_example list \<Rightarrow> (uuid \<times> learning_example list) list" where
  "ordered_gates examples = sort_key (\<lambda>(g, rows). (max_ts rows, g)) (grouped le_injection_id examples)"

definition holdout_count :: "env \<Rightarrow> nat \<Rightarrow> rat \<Rightarrow> nat" where
  "holdout_count \<epsilon> n fraction = min (max 1 (nat \<lceil>fmul \<epsilon> (of_nat n) fraction\<rceil>)) (n - 1)"

definition split_gates :: "env \<Rightarrow> rat \<Rightarrow> learning_example list \<Rightarrow>
    err + learning_example list \<times> learning_example list \<times> timestamp" where
  "split_gates \<epsilon> fraction examples =
     (let gates = ordered_gates examples; n = length gates in
      if n < 2 then Inl (ValueError ''at least two eligible gates are required'')
      else
        let h = holdout_count \<epsilon> n fraction;
            training = concat (map snd (take (n - h) gates));
            holdout = concat (map snd (drop (n - h) gates))
        in Inr (training, holdout, max_ts training))"

section \<open>Pairs\<close>

definition gate_pairs :: "env \<Rightarrow> learning_example list \<Rightarrow> pair list" where
  "gate_pairs \<epsilon> rows =
     (let positives = sort_key le_event_uid (filter le_target_injected rows);
          negatives = sort_key le_event_uid (filter (\<lambda>r. \<not> le_target_injected r) rows)
      in concat (map (\<lambda>p. map (\<lambda>n. (p, n, fl64 \<epsilon> (min (le_actor_weight p) (le_actor_weight n)))) negatives)
           positives))"

definition pairs_of :: "env \<Rightarrow> learning_example list \<Rightarrow> pair list" where
  "pairs_of \<epsilon> examples = concat (map (\<lambda>(g, rows). gate_pairs \<epsilon> rows)
     (sort_key fst (grouped le_injection_id examples)))"

section \<open>Score of an example\<close>

definition linearized :: "env \<Rightarrow> learning_example \<Rightarrow> rat \<Rightarrow> rat \<Rightarrow> rat list \<times> rat" where
  "linearized \<epsilon> e thread_weight where_weight =
     (let b = le_baseline_bias e;
          (s0, c0) = (case le_location_feature e of
              None \<Rightarrow> (1, b)
            | Some x \<Rightarrow> (fmul \<epsilon> 1 (fsub \<epsilon> 1 (le_location_weight e)), fadd \<epsilon> b (fmul \<epsilon> (le_location_weight e) x)));
          mix = (\<lambda>w v s c. (fmul \<epsilon> s (fsub \<epsilon> 1 w),
              fadd \<epsilon> (fadd \<epsilon> b (fmul \<epsilon> (fsub \<epsilon> 1 w) (fsub \<epsilon> c b))) (fmul \<epsilon> w v)));
          (s1, c1) = (case le_thread_feature e of None \<Rightarrow> (s0, c0) | Some v \<Rightarrow> mix thread_weight v s0 c0);
          (s2, c2) = (case le_where_feature e of None \<Rightarrow> (s1, c1) | Some v \<Rightarrow> mix where_weight v s1 c1)
      in (map (fmul \<epsilon> s2) (le_features e), c2))"

definition example_score :: "env \<Rightarrow> learning_example \<Rightarrow> rat list \<Rightarrow> rat \<Rightarrow> rat \<Rightarrow> rat" where
  "example_score \<epsilon> e weights thread_weight where_weight =
     (let (features, constant) = linearized \<epsilon> e thread_weight where_weight
      in fadd \<epsilon> (fdot \<epsilon> weights features) constant)"

section \<open>Objective\<close>

text \<open>Every memory of a pair has a bias, because the biases are created from the pairs.\<close>

definition bias_at :: "biases \<Rightarrow> uuid \<Rightarrow> rat" where
  "bias_at b i = (case map_of b i of None \<Rightarrow> 0 | Some x \<Rightarrow> x)"

definition bump :: "env \<Rightarrow> uuid \<Rightarrow> rat \<Rightarrow> biases \<Rightarrow> biases" where
  "bump \<epsilon> i x b = map (\<lambda>(k, v). (k, if k = i then fadd \<epsilon> v x else v)) b"

definition feature_delta :: "env \<Rightarrow> rat \<Rightarrow> rat \<Rightarrow> learning_example \<Rightarrow> learning_example \<Rightarrow> rat list" where
  "feature_delta \<epsilon> tw ww p n = map2 (fsub \<epsilon>) (fst (linearized \<epsilon> p tw ww)) (fst (linearized \<epsilon> n tw ww))"

definition pair_step :: "env \<Rightarrow> fit_settings \<Rightarrow> rat \<Rightarrow> rat \<Rightarrow> rat list \<Rightarrow> biases \<Rightarrow> pair \<Rightarrow>
    rat \<times> rat list \<times> biases \<Rightarrow> rat \<times> rat list \<times> biases" where
  "pair_step \<epsilon> s tw ww weights b = (\<lambda>(p, n, actor_weight) (objective, wg, bg).
     let delta = feature_delta \<epsilon> tw ww p n;
         d0 = fdot \<epsilon> weights delta;
         d1 = fadd \<epsilon> d0 (fsub \<epsilon> (snd (linearized \<epsilon> p tw ww)) (snd (linearized \<epsilon> n tw ww)));
         d2 = fadd \<epsilon> d1 (fsub \<epsilon> (bias_at b (le_memory_id p)) (bias_at b (le_memory_id n)));
         hinge = fsub \<epsilon> (fs_pair_margin s) d2;
         factor = fmul \<epsilon> (fmul \<epsilon> (- 2) actor_weight) hinge
     in if hinge \<le> 0 then (objective, wg, bg)
        else (fadd \<epsilon> objective (fmul \<epsilon> (fmul \<epsilon> actor_weight hinge) hinge),
              map2 (\<lambda>g d. fadd \<epsilon> g (fmul \<epsilon> factor d)) wg delta,
              bump \<epsilon> (le_memory_id n) (- factor) (bump \<epsilon> (le_memory_id p) factor bg)))"

definition objective_and_gradient :: "env \<Rightarrow> fit_settings \<Rightarrow> rat \<Rightarrow> rat \<Rightarrow> pair list \<Rightarrow> rat list \<Rightarrow> biases \<Rightarrow>
    rat \<times> rat list \<times> biases" where
  "objective_and_gradient \<epsilon> s tw ww pairs weights b =
     fold (pair_step \<epsilon> s tw ww weights b) pairs
       (fmul \<epsilon> (fs_bias_l2 s) (fsum \<epsilon> (map (\<lambda>(i, v). fmul \<epsilon> v v) b)),
        replicate (length weight_names) 0,
        map (\<lambda>(i, v). (i, fmul \<epsilon> (fmul \<epsilon> 2 (fs_bias_l2 s)) v)) b)"

definition objective_of :: "env \<Rightarrow> fit_settings \<Rightarrow> rat \<Rightarrow> rat \<Rightarrow> pair list \<Rightarrow> rat list \<Rightarrow> biases \<Rightarrow> rat" where
  "objective_of \<epsilon> s tw ww pairs weights b = fst (objective_and_gradient \<epsilon> s tw ww pairs weights b)"

section \<open>Fit of the weights and biases\<close>

text \<open>One round of projected gradient descent, and the rounds, at most \<open>n\<close> of them.\<close>

definition descent :: "env \<Rightarrow> fit_settings \<Rightarrow> rat \<Rightarrow> rat \<Rightarrow> pair list \<Rightarrow> rat \<Rightarrow> rat list \<Rightarrow> biases \<Rightarrow>
    err + rat list \<times> biases" where
  "descent \<epsilon> s tw ww pairs step weights b =
     (case objective_and_gradient \<epsilon> s tw ww pairs weights b of (_, wg, bg) \<Rightarrow>
      sbind (project_simplex \<epsilon> (map2 (\<lambda>v g. fsub \<epsilon> v (fmul \<epsilon> step g)) weights wg)) (\<lambda>weights'.
      Inr (weights', map (\<lambda>(i, v). (i, fsub \<epsilon> v (fmul \<epsilon> step (bias_at bg i)))) b)))"

definition largest_change :: "env \<Rightarrow> rat list \<Rightarrow> biases \<Rightarrow> rat list \<Rightarrow> biases \<Rightarrow> rat" where
  "largest_change \<epsilon> weights b weights' b' =
     max (Max (set (map2 (\<lambda>x y. \<bar>fsub \<epsilon> x y\<bar>) weights weights')))
         (Max (set (map (\<lambda>(i, v). \<bar>fsub \<epsilon> v (bias_at b' i)\<bar>) b)))"

definition settled :: "env \<Rightarrow> rat \<Rightarrow> rat \<Rightarrow> bool" where
  "settled \<epsilon> change improvement \<longleftrightarrow>
     change \<le> fl64 \<epsilon> (1 / 10 ^ 11) \<or> (0 \<le> improvement \<and> improvement \<le> fl64 \<epsilon> (1 / 10 ^ 13))"

fun fit_rounds :: "env \<Rightarrow> fit_settings \<Rightarrow> rat \<Rightarrow> rat \<Rightarrow> pair list \<Rightarrow> rat \<Rightarrow> nat \<Rightarrow> nat \<Rightarrow> rat list \<Rightarrow> biases \<Rightarrow>
    err + rat list \<times> biases \<times> nat" where
  "fit_rounds \<epsilon> s tw ww pairs step 0 done weights b = Inr (weights, b, done)"
| "fit_rounds \<epsilon> s tw ww pairs step (Suc n) done weights b =
     sbind (descent \<epsilon> s tw ww pairs step weights b) (\<lambda>(weights', b').
     if settled \<epsilon> (largest_change \<epsilon> weights b weights' b')
          (fsub \<epsilon> (objective_of \<epsilon> s tw ww pairs weights b) (objective_of \<epsilon> s tw ww pairs weights' b'))
     then Inr (weights', b', Suc done)
     else fit_rounds \<epsilon> s tw ww pairs step n (Suc done) weights' b')"

definition lipschitz :: "env \<Rightarrow> fit_settings \<Rightarrow> rat \<Rightarrow> rat \<Rightarrow> pair list \<Rightarrow> rat" where
  "lipschitz \<epsilon> s tw ww pairs =
     fold (\<lambda>(p, n, actor_weight) l.
         let delta = feature_delta \<epsilon> tw ww p n;
             pair_norm = fadd \<epsilon> (fdot \<epsilon> delta delta) 2
         in fadd \<epsilon> l (fmul \<epsilon> (fmul \<epsilon> 2 actor_weight) pair_norm))
       pairs (fmul \<epsilon> 2 (fs_bias_l2 s))"

section \<open>Fit of the thread and folder coefficients\<close>

definition weight_cap :: "env \<Rightarrow> rat" where
  "weight_cap \<epsilon> = fsub \<epsilon> 1 (fl64 \<epsilon> (1 / 10 ^ 12))"

definition clamp_weight :: "env \<Rightarrow> rat \<Rightarrow> rat" where
  "clamp_weight \<epsilon> x = min (max x 0) (weight_cap \<epsilon>)"

text \<open>The loop the two fits share: \<open>score\<close> gives an example's score at a coefficient.\<close>

definition coefficient_gradient :: "env \<Rightarrow> fit_settings \<Rightarrow> biases \<Rightarrow> (pair \<times> rat) list \<Rightarrow>
    (rat \<Rightarrow> learning_example \<Rightarrow> rat) \<Rightarrow> rat \<Rightarrow> rat" where
  "coefficient_gradient \<epsilon> s b rows score w =
     fold (\<lambda>((p, n, actor_weight), derivative) gradient.
         let d0 = fsub \<epsilon> (score w p) (score w n);
             d1 = fadd \<epsilon> d0 (fsub \<epsilon> (bias_at b (le_memory_id p)) (bias_at b (le_memory_id n)));
             hinge = fsub \<epsilon> (fs_pair_margin s) d1
         in if hinge > 0
            then fadd \<epsilon> gradient (fmul \<epsilon> (fmul \<epsilon> (fmul \<epsilon> (- 2) actor_weight) hinge) derivative)
            else gradient)
       rows 0"

fun coefficient_rounds :: "env \<Rightarrow> fit_settings \<Rightarrow> biases \<Rightarrow> (pair \<times> rat) list \<Rightarrow>
    (rat \<Rightarrow> learning_example \<Rightarrow> rat) \<Rightarrow> rat \<Rightarrow> nat \<Rightarrow> nat \<Rightarrow> rat \<Rightarrow> rat \<times> nat" where
  "coefficient_rounds \<epsilon> s b rows score step 0 done w = (w, done)"
| "coefficient_rounds \<epsilon> s b rows score step (Suc n) done w =
     (let w' = clamp_weight \<epsilon> (fsub \<epsilon> w (fmul \<epsilon> step (coefficient_gradient \<epsilon> s b rows score w)))
      in if \<bar>fsub \<epsilon> w' w\<bar> \<le> fl64 \<epsilon> (1 / 10 ^ 11) then (w', Suc done)
         else coefficient_rounds \<epsilon> s b rows score step n (Suc done) w')"

definition curvature :: "env \<Rightarrow> (pair \<times> rat) list \<Rightarrow> rat" where
  "curvature \<epsilon> rows = fmul \<epsilon> 2 (fsum \<epsilon> (map (\<lambda>((p, n, actor_weight), d).
     fmul \<epsilon> (fmul \<epsilon> actor_weight d) d) rows))"

definition fit_coefficient :: "env \<Rightarrow> fit_settings \<Rightarrow> biases \<Rightarrow> (pair \<times> rat) list \<Rightarrow>
    (rat \<Rightarrow> learning_example \<Rightarrow> rat) \<Rightarrow> rat \<Rightarrow> rat \<times> nat" where
  "fit_coefficient \<epsilon> s b rows score initial =
     (let w = clamp_weight \<epsilon> initial; l = curvature \<epsilon> rows in
      if l \<le> 0 then (w, 0) else coefficient_rounds \<epsilon> s b rows score (fdiv \<epsilon> 1 l) 10000 0 w)"

definition after_location :: "env \<Rightarrow> learning_example \<Rightarrow> rat list \<Rightarrow> rat" where
  "after_location \<epsilon> e weights = blend_optional \<epsilon> (le_location_weight e) (le_location_feature e)
     (fdot \<epsilon> weights (le_features e))"

definition thread_derivative :: "env \<Rightarrow> rat list \<Rightarrow> rat \<Rightarrow> learning_example \<Rightarrow> rat" where
  "thread_derivative \<epsilon> weights where_weight e = (case le_thread_feature e of
       None \<Rightarrow> 0
     | Some v \<Rightarrow> fmul \<epsilon> (fsub \<epsilon> 1 where_weight) (fsub \<epsilon> v (after_location \<epsilon> e weights)))"

definition where_derivative :: "env \<Rightarrow> rat list \<Rightarrow> rat \<Rightarrow> learning_example \<Rightarrow> rat" where
  "where_derivative \<epsilon> weights thread_weight e = (case le_where_feature e of
       None \<Rightarrow> 0
     | Some v \<Rightarrow> fsub \<epsilon> v (blend_optional \<epsilon> thread_weight (le_thread_feature e) (after_location \<epsilon> e weights)))"

definition fit_thread_weight :: "env \<Rightarrow> fit_settings \<Rightarrow> rat list \<Rightarrow> biases \<Rightarrow> pair list \<Rightarrow> rat \<Rightarrow> rat \<Rightarrow>
    rat \<times> nat \<times> rat" where
  "fit_thread_weight \<epsilon> s weights b pairs initial where_weight =
     (let rows = map (\<lambda>(p, n, a). ((p, n, a), fsub \<epsilon> (thread_derivative \<epsilon> weights where_weight p)
            (thread_derivative \<epsilon> weights where_weight n))) pairs;
          (w, iterations) = fit_coefficient \<epsilon> s b rows (\<lambda>w e. example_score \<epsilon> e weights w where_weight) initial
      in (w, iterations, objective_of \<epsilon> s w where_weight pairs weights b))"

definition fit_where_weight :: "env \<Rightarrow> fit_settings \<Rightarrow> rat list \<Rightarrow> biases \<Rightarrow> pair list \<Rightarrow> rat \<Rightarrow> rat \<Rightarrow>
    rat \<times> nat \<times> rat" where
  "fit_where_weight \<epsilon> s weights b pairs initial thread_weight =
     (let rows = map (\<lambda>(p, n, a). ((p, n, a), fsub \<epsilon> (where_derivative \<epsilon> weights thread_weight p)
            (where_derivative \<epsilon> weights thread_weight n))) pairs;
          (w, iterations) = fit_coefficient \<epsilon> s b rows (\<lambda>w e. example_score \<epsilon> e weights thread_weight w) initial
      in (w, iterations, objective_of \<epsilon> s thread_weight w pairs weights b))"

section \<open>Fit of the project residuals\<close>

definition residual_rows :: "env \<Rightarrow> rat list \<Rightarrow> biases \<Rightarrow> rat \<Rightarrow> rat \<Rightarrow> pair list \<Rightarrow> (rat list \<times> rat \<times> rat) list" where
  "residual_rows \<epsilon> weights b tw ww pairs = map (\<lambda>(p, n, actor_weight).
     (feature_delta \<epsilon> tw ww p n,
      fsub \<epsilon> (fadd \<epsilon> (fsub \<epsilon> (example_score \<epsilon> p weights tw ww) (example_score \<epsilon> n weights tw ww))
                 (bias_at b (le_memory_id p)))
             (bias_at b (le_memory_id n)),
      actor_weight)) pairs"

definition residual_gradient :: "env \<Rightarrow> fit_settings \<Rightarrow> (rat list \<times> rat \<times> rat) list \<Rightarrow> rat list \<Rightarrow> rat list" where
  "residual_gradient \<epsilon> s rows offsets =
     fold (\<lambda>(delta, baseline, actor_weight) gradient.
         let hinge = max 0 (fsub \<epsilon> (fsub \<epsilon> (fs_pair_margin s) baseline) (fdot \<epsilon> offsets delta))
         in map2 (\<lambda>g v. fsub \<epsilon> g (fmul \<epsilon> (fmul \<epsilon> (fmul \<epsilon> 2 actor_weight) hinge) v)) gradient delta)
       rows (map (fmul \<epsilon> (fmul \<epsilon> 2 (fs_bias_l2 s))) offsets)"

fun residual_rounds :: "env \<Rightarrow> fit_settings \<Rightarrow> rat list \<Rightarrow> (rat list \<times> rat \<times> rat) list \<Rightarrow> rat \<Rightarrow> nat \<Rightarrow> rat list \<Rightarrow>
    err + rat list" where
  "residual_rounds \<epsilon> s weights rows step 0 offsets = Inr offsets"
| "residual_rounds \<epsilon> s weights rows step (Suc n) offsets =
     sbind (project_simplex \<epsilon> (map2 (\<lambda>wo g. fsub \<epsilon> wo (fmul \<epsilon> step g)) (map2 (fadd \<epsilon>) weights offsets)
              (residual_gradient \<epsilon> s rows offsets))) (\<lambda>effective.
     let updated = map2 (fsub \<epsilon>) effective weights;
         change = Max (set (map2 (\<lambda>x y. \<bar>fsub \<epsilon> x y\<bar>) updated offsets))
     in if change < fl64 \<epsilon> (1 / 10 ^ 11) then Inr updated
        else residual_rounds \<epsilon> s weights rows step n updated)"

definition residual_step :: "env \<Rightarrow> fit_settings \<Rightarrow> (rat list \<times> rat \<times> rat) list \<Rightarrow> rat" where
  "residual_step \<epsilon> s rows = fdiv \<epsilon> 1 (max 1 (fadd \<epsilon> (fmul \<epsilon> 2 (fs_bias_l2 s))
     (py_sum \<epsilon> (map (\<lambda>(delta, _, actor_weight). fmul \<epsilon> (fmul \<epsilon> 2 actor_weight) (fdot \<epsilon> delta delta)) rows))))"

definition project_keys :: "learning_example list \<Rightarrow> string list" where
  "project_keys examples = sort (remdups (List.map_filter le_project_key examples))"

definition fit_project :: "env \<Rightarrow> fit_settings \<Rightarrow> rat list \<Rightarrow> biases \<Rightarrow> rat \<Rightarrow> rat \<Rightarrow> pair list \<Rightarrow> err + (string \<times> rat) list" where
  "fit_project \<epsilon> s weights b tw ww pairs =
     (let rows = residual_rows \<epsilon> weights b tw ww pairs in
      sbind (residual_rounds \<epsilon> s weights rows (residual_step \<epsilon> s rows) 10000 (replicate (length weight_names) 0))
        (\<lambda>offsets. Inr (zip weight_names offsets)))"

definition fit_project_offsets :: "env \<Rightarrow> fit_settings \<Rightarrow> rat list \<Rightarrow> biases \<Rightarrow> rat \<Rightarrow> rat \<Rightarrow> learning_example list \<Rightarrow>
    err + (string \<times> (string \<times> rat) list) list" where
  "fit_project_offsets \<epsilon> s weights b tw ww examples =
     smap (\<lambda>(project, pairs). sbind (fit_project \<epsilon> s weights b tw ww pairs) (\<lambda>offsets. Inr (project, offsets)))
       (filter (\<lambda>(_, pairs). pairs \<noteq> [])
         (map (\<lambda>project. (project, pairs_of \<epsilon> (filter (\<lambda>e. le_project_key e = Some project) examples)))
           (project_keys examples)))"

section \<open>Fit of the threshold and the memory share\<close>

text \<open>The loop both fits share: the first candidate with the least key, the incumbent if there is none.\<close>

fun best_candidate :: "('c \<Rightarrow> err + 'k :: linorder) \<Rightarrow> 'c \<Rightarrow> 'k option \<Rightarrow> 'c list \<Rightarrow> err + 'c" where
  "best_candidate key best best_key [] = Inr best"
| "best_candidate key best best_key (c # cs) = sbind (key c) (\<lambda>k.
     if (case best_key of None \<Rightarrow> True | Some k' \<Rightarrow> k < k') then best_candidate key c (Some k) cs
     else best_candidate key best best_key cs)"

definition candidates_from :: "env \<Rightarrow> rat \<Rightarrow> nat list \<Rightarrow> rat list" where
  "candidates_from \<epsilon> incumbent grid = sort (remdups (incumbent # map (\<lambda>i. fdiv \<epsilon> (of_nat i) 100) grid))"

definition selected_at :: "env \<Rightarrow> rat list \<Rightarrow> biases \<Rightarrow> rat \<Rightarrow> rat \<Rightarrow> rat \<Rightarrow> learning_example \<Rightarrow> bool" where
  "selected_at \<epsilon> weights b tw ww candidate e \<longleftrightarrow>
     le_shown_as e = Pinned \<or>
     candidate \<le> fadd \<epsilon> (example_score \<epsilon> e weights tw ww) (bias_at b (le_memory_id e))"

definition tau_key :: "env \<Rightarrow> rat list \<Rightarrow> biases \<Rightarrow> rat \<Rightarrow> rat \<Rightarrow> learning_example list \<Rightarrow> rat \<Rightarrow> err + rat \<times> int \<times> rat" where
  "tau_key \<epsilon> weights b tw ww examples candidate =
     (let chosen = selected_at \<epsilon> weights b tw ww candidate in
      sbind (dec_sum 0 (map le_actor_weight (filter (\<lambda>e. chosen e \<noteq> le_target_injected e) examples))) (\<lambda>wrong.
      Inr (wrong, sum_list (map le_body_tokens (filter chosen examples)), - candidate)))"

definition fit_tau :: "env \<Rightarrow> rat list \<Rightarrow> biases \<Rightarrow> rat \<Rightarrow> rat \<Rightarrow> rat \<Rightarrow> learning_example list \<Rightarrow> err + rat \<times> nat" where
  "fit_tau \<epsilon> weights b tw ww incumbent examples =
     (let candidates = candidates_from \<epsilon> incumbent [0..<101] in
      sbind (best_candidate (tau_key \<epsilon> weights b tw ww examples) incumbent None candidates) (\<lambda>best.
      Inr (best, length candidates)))"

definition share_wrong :: "env \<Rightarrow> rat \<Rightarrow> share_boundary \<Rightarrow> bool" where
  "share_wrong \<epsilon> share x \<longleftrightarrow>
     (sb_required_share x \<le> fadd \<epsilon> share (fl64 \<epsilon> (1 / 10 ^ 12))) \<noteq> sb_target_at_least x"

definition share_key :: "env \<Rightarrow> share_boundary list \<Rightarrow> rat \<Rightarrow> err + rat \<times> nat \<times> rat" where
  "share_key \<epsilon> boundaries candidate =
     (let bad = filter (share_wrong \<epsilon> candidate) boundaries in
      sbind (dec_sum 0 (map sb_actor_weight bad)) (\<lambda>wrong. Inr (wrong, length bad, candidate)))"

text \<open>The shares run from 0.01 to 0.50: \<open>round(0.01 * 100)\<close> is 1 and \<open>round(0.50 * 100)\<close> is 50.\<close>

definition fit_share :: "env \<Rightarrow> rat \<Rightarrow> share_boundary list \<Rightarrow> err + rat \<times> nat" where
  "fit_share \<epsilon> incumbent boundaries =
     (if boundaries = [] then Inr (incumbent, 0)
      else let candidates = candidates_from \<epsilon> incumbent [1..<51] in
        sbind (best_candidate (share_key \<epsilon> boundaries) incumbent None candidates) (\<lambda>best.
        Inr (best, length candidates)))"

section \<open>The whole fit\<close>

record incumbent_values =
  iv_weights :: "rat list"
  iv_thread_weight :: rat
  iv_where_weight :: rat
  iv_tau :: rat
  iv_memory_context_share :: rat

definition pair_memories :: "pair list \<Rightarrow> uuid list" where
  "pair_memories pairs = sort (remdups (concat (map (\<lambda>(p, n, _). [le_memory_id p, le_memory_id n]) pairs)))"

definition fit_boundaries :: "env \<Rightarrow> bool \<Rightarrow> rat list \<Rightarrow> biases \<Rightarrow> rat \<Rightarrow> rat \<Rightarrow> incumbent_values \<Rightarrow>
    share_boundary list \<Rightarrow> learning_example list \<Rightarrow> err + rat \<times> rat \<times> nat" where
  "fit_boundaries \<epsilon> tune weights b tw ww iv boundaries examples =
     (if tune then
        sbind (fit_tau \<epsilon> weights b tw ww (iv_tau iv) examples) (\<lambda>(tau, i).
        sbind (fit_share \<epsilon> (iv_memory_context_share iv) boundaries) (\<lambda>(share, j).
        Inr (tau, share, i + j)))
      else Inr (iv_tau iv, iv_memory_context_share iv, 0))"

definition fit_pairwise :: "env \<Rightarrow> fit_settings \<Rightarrow> incumbent_values \<Rightarrow> bool \<Rightarrow> share_boundary list \<Rightarrow>
    learning_example list \<Rightarrow> err + fit_result" where
  "fit_pairwise \<epsilon> s iv tune boundaries examples =
     sbind (check (length (iv_weights iv) \<noteq> length weight_names)
              (ValueError ''incumbent weights must have six values'')) (\<lambda>_.
     sbind (project_simplex \<epsilon> (iv_weights iv)) (\<lambda>weights0.
     let pairs = pairs_of \<epsilon> examples;
         tw0 = iv_thread_weight iv; ww0 = iv_where_weight iv;
         step = fdiv \<epsilon> 1 (max (lipschitz \<epsilon> s tw0 ww0 pairs) 1) in
     sbind (check (pairs = []) (ValueError ''at least one positive-negative training pair is required'')) (\<lambda>_.
     sbind (fit_rounds \<epsilon> s tw0 ww0 pairs step 10000 0 weights0
              (map (\<lambda>i. (i, 0)) (pair_memories pairs))) (\<lambda>(weights, b, iterations).
     let offsets = filter (\<lambda>(i, v). fl64 \<epsilon> (1 / 10 ^ 12) < \<bar>v\<bar>) b;
         (tw, tw_iterations, _) = fit_thread_weight \<epsilon> s weights b pairs tw0 ww0;
         (ww, ww_iterations, objective) = fit_where_weight \<epsilon> s weights b pairs ww0 tw in
     sbind (fit_project_offsets \<epsilon> s weights offsets tw ww examples) (\<lambda>projects.
     sbind (fit_boundaries \<epsilon> tune weights b tw ww iv boundaries examples) (\<lambda>(tau, share, boundary_iterations).
     Inr \<lparr>fr_weights = weights, fr_thread_weight = tw, fr_where_weight = ww, fr_tau = tau,
          fr_memory_context_share = share, fr_share_tau_active = tune, fr_bias_offsets = offsets,
          fr_pair_count = length pairs,
          fr_iterations = iterations + tw_iterations + ww_iterations + boundary_iterations,
          fr_objective = objective, fr_project_offsets = projects\<rparr>))))))"

section \<open>Replay\<close>

definition replay_of :: "(learning_example \<Rightarrow> bool) \<Rightarrow> learning_example list \<Rightarrow> err + replay_score" where
  "replay_of predicted examples =
     (let wrong = filter (\<lambda>e. predicted e \<noteq> le_target_injected e) examples in
      sbind (dec_sum 0 (map le_actor_weight wrong)) (\<lambda>weighted.
      Inr \<lparr>rs_disagreements = length wrong, rs_weighted_disagreements = weighted,
           rs_injected_tokens = sum_list (map le_body_tokens (filter predicted examples)),
           rs_share_disagreements = 0, rs_weighted_share_disagreements = 0\<rparr>))"

definition with_share_score :: "env \<Rightarrow> share_boundary list \<Rightarrow> rat \<Rightarrow> replay_score \<Rightarrow> err + replay_score" where
  "with_share_score \<epsilon> boundaries share score =
     (let bad = filter (share_wrong \<epsilon> share) boundaries in
      sbind (dec_sum 0 (map sb_actor_weight bad)) (\<lambda>weighted.
      sbind (dec_add (rs_weighted_disagreements score) weighted) (\<lambda>tot.
      Inr \<lparr>rs_disagreements = rs_disagreements score + length bad, rs_weighted_disagreements = tot,
           rs_injected_tokens = rs_injected_tokens score,
           rs_share_disagreements = length bad, rs_weighted_share_disagreements = weighted\<rparr>)))"

definition recorded_score :: "env \<Rightarrow> share_boundary list \<Rightarrow> rat \<Rightarrow> learning_example list \<Rightarrow> err + replay_score" where
  "recorded_score \<epsilon> boundaries share examples =
     sbind (replay_of recorded_injected examples) (with_share_score \<epsilon> boundaries share)"

definition example_features :: "learning_example \<Rightarrow> (string \<times> rat) list" where
  "example_features e = zip weight_names (le_features e) @
     (case le_location_feature e of None \<Rightarrow> [] | Some x \<Rightarrow> [(''loc'', x)]) @
     (case le_thread_feature e of None \<Rightarrow> [] | Some x \<Rightarrow> [(''thread'', x)]) @
     (case le_where_feature e of None \<Rightarrow> [] | Some x \<Rightarrow> [(''where'', x)])"

definition project_offset :: "(string \<times> (string \<times> rat) list) list \<Rightarrow> learning_example \<Rightarrow> string \<Rightarrow> rat" where
  "project_offset projects e name =
     (case Option.bind (le_project_key e) (map_of projects) of
        None \<Rightarrow> 0
      | Some offsets \<Rightarrow> (case map_of offsets name of None \<Rightarrow> 0 | Some x \<Rightarrow> x))"

definition challenger_predicts :: "env \<Rightarrow> fit_result \<Rightarrow> (string \<times> axis_nomination) list \<Rightarrow> learning_example \<Rightarrow> err + bool" where
  "challenger_predicts \<epsilon> r axes e =
     (if le_shown_as e = Pinned then Inr True
      else if length (fr_weights r) \<noteq> length weight_names then Inl (ValueError ''zip() arguments differ in length'')
      else
        let shifted = map2 (\<lambda>name v. fadd \<epsilon> v (project_offset (fr_project_offsets r) e name)) weight_names (fr_weights r) in
        sbind (if Min (set shifted) < 0 then project_simplex \<epsilon> shifted else Inr shifted) (\<lambda>effective.
        let score = example_score \<epsilon> e effective (fr_thread_weight r) (fr_where_weight r);
            with_axes = fadd \<epsilon> (apply_axes \<epsilon> (fsub \<epsilon> score (le_baseline_bias e)) (example_features e) axes)
                          (le_baseline_bias e)
        in Inr (fr_tau r \<le> fadd \<epsilon> with_axes (bias_at (fr_bias_offsets r) (le_memory_id e)))))"

text \<open>The replay calls the prediction once per example, so an error of the prediction is an error of the
  replay, whatever the order in which the two are computed.\<close>

definition challenger_score :: "env \<Rightarrow> fit_result \<Rightarrow> (string \<times> axis_nomination) list \<Rightarrow> share_boundary list \<Rightarrow>
    learning_example list \<Rightarrow> err + replay_score" where
  "challenger_score \<epsilon> r axes boundaries examples =
     sbind (smap (challenger_predicts \<epsilon> r axes) examples) (\<lambda>_.
     sbind (replay_of (\<lambda>e. challenger_predicts \<epsilon> r axes e = Inr True) examples)
       (with_share_score \<epsilon> boundaries (fr_memory_context_share r)))"

definition challenger_wins :: "rat \<Rightarrow> replay_score \<Rightarrow> replay_score \<Rightarrow> err + bool" where
  "challenger_wins margin incumbent challenger =
     sbind (dec_add (rs_weighted_disagreements incumbent) (- rs_weighted_disagreements challenger)) (\<lambda>improvement.
     Inr (if margin \<le> improvement then True
          else if improvement \<noteq> 0 then False
          else rs_injected_tokens challenger < rs_injected_tokens incumbent))"

section \<open>Properties of the grouping\<close>

lemma set_first_keys [simp]: "set (first_keys f xs) = f ` set xs"
  by (simp add: first_keys_def)

lemma distinct_first_keys [simp]: "distinct (first_keys f xs)"
  by (simp add: first_keys_def)

lemma map_fst_grouped [simp]: "map fst (grouped f xs) = first_keys f xs"
  by (simp add: grouped_def comp_def)

lemma in_grouped: "(k, rows) \<in> set (grouped f xs) \<longleftrightarrow> k \<in> f ` set xs \<and> rows = filter (\<lambda>x. f x = k) xs"
  by (auto simp: grouped_def)

lemma length_grouped: "length (grouped f xs) = card (f ` set xs)"
  by (metis distinct_card distinct_first_keys length_map map_fst_grouped set_first_keys)

text \<open>Groups over distinct keys that cover the list put it back together, in any order.\<close>

lemma mset_concat_filters:
  assumes "distinct ks" "f ` set xs \<subseteq> set ks"
  shows "mset (concat (map (\<lambda>k. filter (\<lambda>x. f x = k) xs) ks)) = mset xs"
proof -
  have "mset (concat (map (\<lambda>k. filter (\<lambda>x. f x = k) xs) ks)) =
      (\<Sum>k\<in>set ks. filter_mset (\<lambda>x. f x = k) (mset xs))"
    using assms(1) by (simp add: mset_concat comp_def sum_list_distinct_conv_sum_set mset_filter)
  also have "\<dots> = mset xs"
    using assms(2)
  proof (induction xs)
    case (Cons x xs)
    have "(\<Sum>k\<in>set ks. filter_mset (\<lambda>y. f y = k) (mset (x # xs))) =
        (\<Sum>k\<in>set ks. (if f x = k then {#x#} else {#}) + filter_mset (\<lambda>y. f y = k) (mset xs))"
      by (rule sum.cong) auto
    also have "\<dots> = mset (x # xs)"
      using Cons by (simp add: sum.distrib)
    finally show ?case .
  qed simp
  finally show ?thesis .
qed

lemma mset_concat_groups:
  assumes "mset gs = mset (grouped f xs)"
  shows "mset (concat (map snd gs)) = mset xs"
proof -
  have gs: "map snd gs = map (\<lambda>k. filter (\<lambda>x. f x = k) xs) (map fst gs)"
    using mset_eq_setD [OF assms] by (auto simp: grouped_def)
  have keys: "mset (map fst gs) = mset (first_keys f xs)"
    using assms by (metis map_fst_grouped mset_map)
  then have "distinct (map fst gs)" "set (map fst gs) = f ` set xs"
    using mset_eq_imp_distinct_iff [OF keys] mset_eq_setD [OF keys] by auto
  then show ?thesis
    unfolding gs by (intro mset_concat_filters) simp_all
qed

lemma length_ordered_gates: "length (ordered_gates ex) = card (le_injection_id ` set ex)"
  by (simp add: ordered_gates_def length_grouped)

lemma in_ordered_gates:
  "(g, rows) \<in> set (ordered_gates ex) \<longleftrightarrow> g \<in> le_injection_id ` set ex \<and> rows = filter (\<lambda>e. le_injection_id e = g) ex"
  by (simp add: ordered_gates_def in_grouped)

lemma distinct_ordered_gates: "distinct (map fst (ordered_gates ex))"
proof -
  have "mset (map fst (ordered_gates ex)) = mset (first_keys le_injection_id ex)"
    unfolding ordered_gates_def map_fst_grouped [symmetric] by (simp only: mset_map mset_sort)
  then show ?thesis using mset_eq_imp_distinct_iff distinct_first_keys by blast
qed

lemma gates_newest_last:
  assumes "(g, rows) \<in> set (take n (ordered_gates ex))" "(g', rows') \<in> set (drop n (ordered_gates ex))"
  shows "max_ts rows \<le> max_ts rows'"
proof -
  let ?k = "\<lambda>(g, rows). (max_ts rows, g :: uuid)"
  have "sorted (map ?k (take n (ordered_gates ex)) @ map ?k (drop n (ordered_gates ex)))"
    by (metis append_take_drop_id map_append ordered_gates_def sorted_sort_key)
  then have "?k (g, rows) \<le> ?k (g', rows')"
    using assms unfolding sorted_append by (metis (no_types, lifting) image_eqI image_set)
  then show ?thesis by auto
qed

lemma holdout_count_bounds: "2 \<le> n \<Longrightarrow> 1 \<le> holdout_count \<epsilon> n fr \<and> holdout_count \<epsilon> n fr < n"
  by (auto simp: holdout_count_def)

definition gate_of_example :: "learning_example list \<Rightarrow> learning_example \<Rightarrow> learning_example list" where
  "gate_of_example ex e = filter (\<lambda>x. le_injection_id x = le_injection_id e) ex"

lemma gates_of_part:
  assumes "set gs \<subseteq> set (ordered_gates ex)"
  shows "e \<in> set (concat (map snd gs)) \<longleftrightarrow> e \<in> set ex \<and> (le_injection_id e, gate_of_example ex e) \<in> set gs"
proof
  assume "e \<in> set (concat (map snd gs))"
  then obtain g rows where m: "(g, rows) \<in> set gs" "e \<in> set rows" by auto
  then have "(g, rows) \<in> set (ordered_gates ex)" using assms by blast
  then have "rows = filter (\<lambda>x. le_injection_id x = g) ex" by (simp add: in_ordered_gates)
  with m show "e \<in> set ex \<and> (le_injection_id e, gate_of_example ex e) \<in> set gs"
    by (auto simp: gate_of_example_def)
next
  assume "e \<in> set ex \<and> (le_injection_id e, gate_of_example ex e) \<in> set gs"
  then show "e \<in> set (concat (map snd gs))"
    by (auto simp: gate_of_example_def intro!: bexI [of _ "(le_injection_id e, gate_of_example ex e)"])
qed

lemma ids_of_part:
  assumes "set gs \<subseteq> set (ordered_gates ex)"
  shows "le_injection_id ` set (concat (map snd gs)) = fst ` set gs"
proof (intro set_eqI iffI)
  fix i assume "i \<in> le_injection_id ` set (concat (map snd gs))"
  then show "i \<in> fst ` set gs" using gates_of_part [OF assms] by force
next
  fix i assume "i \<in> fst ` set gs"
  then obtain rows where m: "(i, rows) \<in> set gs" by auto
  then have "(i, rows) \<in> set (ordered_gates ex)" using assms by blast
  then obtain e where "e \<in> set rows" "le_injection_id e = i" by (auto simp: in_ordered_gates)
  with m show "i \<in> le_injection_id ` set (concat (map snd gs))" by force
qed

text \<open>What any cut through the ordered gates gives.\<close>

lemma gates_cut:
  assumes cut: "ordered_gates ex = T @ H"
  shows "mset (concat (map snd T)) + mset (concat (map snd H)) = mset ex"
    and "le_injection_id ` set (concat (map snd T)) \<inter> le_injection_id ` set (concat (map snd H)) = {}"
    and "card (le_injection_id ` set (concat (map snd H))) = length H"
    and "a \<in> set (concat (map snd T)) \<Longrightarrow> b \<in> set (concat (map snd H)) \<Longrightarrow>
      max_ts (gate_of_example ex a) \<le> max_ts (gate_of_example ex b)"
    and "gs \<in> {T, H} \<Longrightarrow> gs \<noteq> [] \<Longrightarrow> concat (map snd gs) \<noteq> []"
proof -
  have sub: "set T \<subseteq> set (ordered_gates ex)" "set H \<subseteq> set (ordered_gates ex)" using cut by auto
  have dist: "distinct (map fst T @ map fst H)" using distinct_ordered_gates [of ex] cut by simp
  have "mset (concat (map snd (T @ H))) = mset ex"
    using mset_concat_groups [of "ordered_gates ex" le_injection_id ex]
    unfolding cut [symmetric] by (simp add: ordered_gates_def)
  then show "mset (concat (map snd T)) + mset (concat (map snd H)) = mset ex" by simp
  show "le_injection_id ` set (concat (map snd T)) \<inter> le_injection_id ` set (concat (map snd H)) = {}"
    using dist unfolding ids_of_part [OF sub(1)] ids_of_part [OF sub(2)] by simp
  show "card (le_injection_id ` set (concat (map snd H))) = length H"
    using dist distinct_card [of "map fst H"] unfolding ids_of_part [OF sub(2)] by simp
  show "max_ts (gate_of_example ex a) \<le> max_ts (gate_of_example ex b)"
    if "a \<in> set (concat (map snd T))" "b \<in> set (concat (map snd H))"
  proof (rule gates_newest_last [where n = "length T" and ex = ex])
    show "(le_injection_id a, gate_of_example ex a) \<in> set (take (length T) (ordered_gates ex))"
      using that(1) gates_of_part [OF sub(1)] by (simp add: cut)
    show "(le_injection_id b, gate_of_example ex b) \<in> set (drop (length T) (ordered_gates ex))"
      using that(2) gates_of_part [OF sub(2)] by (simp add: cut)
  qed
  show "concat (map snd gs) \<noteq> []" if "gs \<in> {T, H}" "gs \<noteq> []"
  proof
    assume none: "concat (map snd gs) = []"
    have "set gs \<subseteq> set (ordered_gates ex)" using that(1) sub by auto
    from ids_of_part [OF this] none have "fst ` set gs = {}" by simp
    with that(2) show False by simp
  qed
qed

lemma cutoff_not_newer:
  assumes "tr \<noteq> []" "set tr \<subseteq> set ex"
    and "\<And>a. a \<in> set tr \<Longrightarrow> max_ts (gate_of_example ex a) \<le> t"
  shows "max_ts tr \<le> t"
proof -
  have "le_ts a \<le> max_ts (gate_of_example ex a)" if "a \<in> set ex" for a
    using that by (auto simp: max_ts_def gate_of_example_def intro!: Max_ge)
  with assms show ?thesis by (auto simp: max_ts_def) (meson order_trans subset_iff)
qed

lemma split_gates_eq:
  assumes "2 \<le> card (le_injection_id ` set ex)"
  obtains T H where "ordered_gates ex = T @ H" "T \<noteq> []" "H \<noteq> []"
    "length H = holdout_count \<epsilon> (card (le_injection_id ` set ex)) fr"
    "split_gates \<epsilon> fr ex = Inr (concat (map snd T), concat (map snd H), max_ts (concat (map snd T)))"
proof -
  define n where "n = card (le_injection_id ` set ex)"
  define h where "h = holdout_count \<epsilon> n fr"
  have n: "length (ordered_gates ex) = n" by (simp add: n_def length_ordered_gates)
  have h: "1 \<le> h" "h < n" using holdout_count_bounds [of n \<epsilon> fr] assms by (auto simp: n_def h_def)
  show thesis
  proof (rule that [of "take (n - h) (ordered_gates ex)" "drop (n - h) (ordered_gates ex)"])
    show "split_gates \<epsilon> fr ex = Inr (concat (map snd (take (n - h) (ordered_gates ex))),
        concat (map snd (drop (n - h) (ordered_gates ex))), max_ts (concat (map snd (take (n - h) (ordered_gates ex)))))"
      using assms by (simp add: split_gates_def n Let_def h_def flip: n_def)
  qed (use n h in \<open>auto simp flip: n_def h_def\<close>)
qed

text \<open>C37: The split of the labelled dispositions into training and holdout never leaks. From two gates
  on it succeeds: the two parts together are the dispositions and both hold some, no gate lies in both (the
  holdout has as many gates as \<open>holdout_count\<close> says), the cutoff is the newest training timestamp, and no holdout
  gate is older than a training gate or than the cutoff.\<close>

theorem split_gates_sound:
  assumes "2 \<le> card (le_injection_id ` set ex)"
  shows "\<exists>tr ho cutoff. split_gates \<epsilon> fr ex = Inr (tr, ho, cutoff) \<and>
     mset tr + mset ho = mset ex \<and> tr \<noteq> [] \<and> ho \<noteq> [] \<and>
     le_injection_id ` set tr \<inter> le_injection_id ` set ho = {} \<and>
     card (le_injection_id ` set ho) = holdout_count \<epsilon> (card (le_injection_id ` set ex)) fr \<and>
     cutoff = Max (le_ts ` set tr) \<and>
     (\<forall>a \<in> set tr. \<forall>b \<in> set ho. max_ts (gate_of_example ex a) \<le> max_ts (gate_of_example ex b)) \<and>
     (\<forall>b \<in> set ho. cutoff \<le> max_ts (gate_of_example ex b))"
proof -
  obtain T H where cut: "ordered_gates ex = T @ H" "T \<noteq> []" "H \<noteq> []"
    and count: "length H = holdout_count \<epsilon> (card (le_injection_id ` set ex)) fr"
    and run: "split_gates \<epsilon> fr ex = Inr (concat (map snd T), concat (map snd H), max_ts (concat (map snd T)))"
    using split_gates_eq [OF assms] by metis
  define tr ho where "tr = concat (map snd T)" and "ho = concat (map snd H)"
  note c = gates_cut [OF cut(1), folded tr_def ho_def]
  have ne: "tr \<noteq> []" "ho \<noteq> []" using gates_cut(5) [OF cut(1)] cut(2,3) by (auto simp: tr_def ho_def)
  have "set tr \<subseteq> set ex" using c(1) by (metis set_mset_mset set_mset_union sup_ge1)
  then have "max_ts tr \<le> max_ts (gate_of_example ex b)" if "b \<in> set ho" for b
    using cutoff_not_newer [OF ne(1)] c(4) that by blast
  with c ne count show ?thesis
    unfolding run tr_def [symmetric] ho_def [symmetric] by (auto simp: max_ts_def)
qed

section \<open>Optimal threshold and share\<close>

lemma best_candidate_least:
  assumes "best_candidate key best best_key cs = Inr c"
    and "\<And>k. best_key = Some k \<Longrightarrow> key best = Inr k" and "cs \<noteq> [] \<or> best_key \<noteq> None"
  shows "(c \<in> set cs \<or> c = best \<and> best_key \<noteq> None) \<and>
    (\<exists>k. key c = Inr k \<and> (\<forall>c' \<in> set cs. \<exists>k'. key c' = Inr k' \<and> k \<le> k') \<and> (\<forall>k'. best_key = Some k' \<longrightarrow> k \<le> k'))"
  using assms
proof (induction cs arbitrary: best best_key)
  case (Cons c0 cs)
  then obtain k where k: "key c0 = Inr k" by auto
  show ?case
  proof (cases "case best_key of None \<Rightarrow> True | Some k' \<Rightarrow> k < k'")
    case True
    with Cons.prems(1) k have "best_candidate key c0 (Some k) cs = Inr c" by simp
    from Cons.IH [OF this] k True show ?thesis by (force split: option.splits)
  next
    case False
    then obtain k' where k': "best_key = Some k'" "k' \<le> k" by (auto split: option.splits)
    from False Cons.prems(1) k have "best_candidate key best best_key cs = Inr c" by simp
    from Cons.IH [OF this Cons.prems(2)] k k' show ?thesis by force
  qed
qed auto

lemma candidates_from_set: "set (candidates_from \<epsilon> inc grid) = insert inc ((\<lambda>i. fdiv \<epsilon> (of_nat i) 100) ` set grid)"
  unfolding candidates_from_def set_sort set_remdups by simp

lemma best_of_candidates:
  assumes "best_candidate key inc None (candidates_from \<epsilon> inc grid) = Inr c"
  shows "c \<in> set (candidates_from \<epsilon> inc grid)"
    and "\<exists>k. key c = Inr k \<and> (\<forall>c' \<in> set (candidates_from \<epsilon> inc grid). \<exists>k'. key c' = Inr k' \<and> k \<le> k')"
proof -
  have "candidates_from \<epsilon> inc grid \<noteq> []" using candidates_from_set [of \<epsilon> inc grid] by auto
  with best_candidate_least [OF assms] show "c \<in> set (candidates_from \<epsilon> inc grid)"
    "\<exists>k. key c = Inr k \<and> (\<forall>c' \<in> set (candidates_from \<epsilon> inc grid). \<exists>k'. key c' = Inr k' \<and> k \<le> k')"
    by auto
qed

text \<open>C38: Tuning the threshold and the memory share is optimal on its grid. The threshold is the incumbent's
  or a hundredth from 0 to 1, and no such threshold has a smaller key: the decimal weight of the dispositions
  it gets wrong, then the tokens it injects, then the larger threshold. The share, when there is boundary
  evidence, is the incumbent's or a hundredth from 0.01 to 0.50, with the least weight of violated boundaries, then
  the least count, then the least share; without evidence it stays the incumbent's.\<close>

theorem boundaries_optimal:
  assumes "fit_boundaries \<epsilon> True weights b tw ww iv boundaries ex = Inr (tau, share, i)"
  shows "tau \<in> insert (iv_tau iv) ((\<lambda>i. fdiv \<epsilon> (of_nat i) 100) ` {0..100}) \<and>
    (\<exists>k. tau_key \<epsilon> weights b tw ww ex tau = Inr k \<and>
      (\<forall>c \<in> insert (iv_tau iv) ((\<lambda>i. fdiv \<epsilon> (of_nat i) 100) ` {0..100}).
         \<exists>k'. tau_key \<epsilon> weights b tw ww ex c = Inr k' \<and> k \<le> k')) \<and>
    (if boundaries = [] then share = iv_memory_context_share iv
     else share \<in> insert (iv_memory_context_share iv) ((\<lambda>i. fdiv \<epsilon> (of_nat i) 100) ` {1..50}) \<and>
       (\<exists>k. share_key \<epsilon> boundaries share = Inr k \<and>
         (\<forall>c \<in> insert (iv_memory_context_share iv) ((\<lambda>i. fdiv \<epsilon> (of_nat i) 100) ` {1..50}).
            \<exists>k'. share_key \<epsilon> boundaries c = Inr k' \<and> k \<le> k')))"
proof -
  have grid: "set [0..<101] = {0..100}" "set [1..<51] = {1..50}" by auto
  from assms obtain ni nj where
    tau: "fit_tau \<epsilon> weights b tw ww (iv_tau iv) ex = Inr (tau, ni)" and
    share: "fit_share \<epsilon> (iv_memory_context_share iv) boundaries = Inr (share, nj)"
    by (auto simp: fit_boundaries_def)
  from tau have "best_candidate (tau_key \<epsilon> weights b tw ww ex) (iv_tau iv) None
      (candidates_from \<epsilon> (iv_tau iv) [0..<101]) = Inr tau"
    by (simp only: fit_tau_def Let_def sbind_Inr) auto
  note t = best_of_candidates [OF this, unfolded candidates_from_set grid]
  have s: "share \<in> insert (iv_memory_context_share iv) ((\<lambda>i. fdiv \<epsilon> (of_nat i) 100) ` {1..50}) \<and>
       (\<exists>k. share_key \<epsilon> boundaries share = Inr k \<and>
         (\<forall>c \<in> insert (iv_memory_context_share iv) ((\<lambda>i. fdiv \<epsilon> (of_nat i) 100) ` {1..50}).
            \<exists>k'. share_key \<epsilon> boundaries c = Inr k' \<and> k \<le> k'))" if "boundaries \<noteq> []"
  proof -
    from share that have "best_candidate (share_key \<epsilon> boundaries) (iv_memory_context_share iv) None
        (candidates_from \<epsilon> (iv_memory_context_share iv) [1..<51]) = Inr share"
      by (simp only: fit_share_def Let_def sbind_Inr if_False) auto
    note best_of_candidates [OF this, unfolded candidates_from_set grid]
    then show ?thesis by blast
  qed
  have "share = iv_memory_context_share iv" if "boundaries = []"
    using share that by (simp add: fit_share_def)
  with t s show ?thesis by simp
qed

section \<open>Bounds of the fit\<close>

lemma clamp_weight_bounds: "0 \<le> weight_cap \<epsilon> \<Longrightarrow> 0 \<le> clamp_weight \<epsilon> x \<and> clamp_weight \<epsilon> x \<le> weight_cap \<epsilon>"
  by (simp add: clamp_weight_def)

lemma coefficient_rounds_bounds:
  assumes "0 \<le> w" "w \<le> weight_cap \<epsilon>"
  shows "0 \<le> fst (coefficient_rounds \<epsilon> s b rows score step n k w) \<and>
    fst (coefficient_rounds \<epsilon> s b rows score step n k w) \<le> weight_cap \<epsilon> \<and>
    snd (coefficient_rounds \<epsilon> s b rows score step n k w) \<le> k + n"
  using assms
proof (induction n arbitrary: k w)
  case (Suc n)
  have "0 \<le> weight_cap \<epsilon>" using Suc.prems by simp
  note c = clamp_weight_bounds [OF this]
  show ?case using Suc.IH [OF c [THEN conjunct1] c [THEN conjunct2], of "Suc k"] c
    by (auto simp: Let_def)
qed simp

lemma fit_coefficient_bounds:
  assumes "0 \<le> weight_cap \<epsilon>" "fit_coefficient \<epsilon> s b rows score initial = (w, i)"
  shows "0 \<le> w" "w \<le> weight_cap \<epsilon>" "i \<le> 10000"
  using coefficient_rounds_bounds [of "clamp_weight \<epsilon> initial" \<epsilon> s b rows score "fdiv \<epsilon> 1 (curvature \<epsilon> rows)" 10000 0]
    clamp_weight_bounds [OF assms(1), of initial] assms(2)
  by (auto simp: fit_coefficient_def Let_def split: if_splits)

lemma length_map2_min: "length (map2 f xs ys) = min (length xs) (length ys)"
  by simp

lemma project_simplex_length: "project_simplex \<epsilon> xs = Inr ys \<Longrightarrow> length ys = length xs"
proof -
  assume a: "project_simplex \<epsilon> xs = Inr ys"
  show ?thesis
  proof (cases "xs = []")
    case True
    with a show ?thesis by (simp add: project_simplex_def Let_def)
  next
    case False
    with a show ?thesis
      by (auto simp: project_simplex_def Let_def add_to_last_def split: if_splits)
  qed
qed

definition six_features :: "learning_example list \<Rightarrow> bool" where
  "six_features ex \<longleftrightarrow> (\<forall>e \<in> set ex. length (le_features e) = length weight_names)"

definition six_pairs :: "pair list \<Rightarrow> bool" where
  "six_pairs pairs \<longleftrightarrow> (\<forall>(p, n, _) \<in> set pairs.
     length (le_features p) = length weight_names \<and> length (le_features n) = length weight_names)"

lemma linearized_length [simp]: "length (fst (linearized \<epsilon> e tw ww)) = length (le_features e)"
  by (simp add: linearized_def Let_def case_prod_beta)

lemma pairs_of_members:
  "(p, n, w) \<in> set (pairs_of \<epsilon> ex) \<Longrightarrow> p \<in> set ex \<and> n \<in> set ex \<and> le_injection_id p = le_injection_id n \<and>
     le_target_injected p \<and> \<not> le_target_injected n \<and> w = fl64 \<epsilon> (min (le_actor_weight p) (le_actor_weight n))"
  by (auto simp: pairs_of_def gate_pairs_def Let_def in_grouped)

lemma six_pairs_of: "six_features ex \<Longrightarrow> six_pairs (pairs_of \<epsilon> ex)"
  by (auto simp: six_features_def six_pairs_def dest!: pairs_of_members)

lemma gradient_lengths:
  assumes "six_pairs pairs" "length (fst (snd acc)) = length weight_names"
  shows "length (fst (snd (fold (pair_step \<epsilon> s tw ww weights b) pairs acc))) = length weight_names"
  using assms
proof (induction pairs arbitrary: acc)
  case (Cons x pairs)
  obtain p n w where x: "x = (p, n, w)" by (cases x)
  obtain ob wg bg where acc: "acc = (ob, wg, bg)" by (cases acc)
  have "length (fst (snd (pair_step \<epsilon> s tw ww weights b x acc))) = length weight_names"
    using Cons.prems by (simp add: x acc pair_step_def Let_def feature_delta_def six_pairs_def)
  with Cons show ?case by (simp add: six_pairs_def)
qed simp

lemma descent_shape:
  assumes "descent \<epsilon> s tw ww pairs step weights b = Inr (weights', b')" "six_pairs pairs"
    "length weights = length weight_names"
  shows "length weights' = length weight_names" "map fst b' = map fst b"
proof -
  obtain ob wg bg where g: "objective_and_gradient \<epsilon> s tw ww pairs weights b = (ob, wg, bg)"
    by (metis prod_cases3)
  have "length (fst (snd (objective_and_gradient \<epsilon> s tw ww pairs weights b))) = length weight_names"
    unfolding objective_and_gradient_def by (rule gradient_lengths [OF assms(2)]) simp
  with g have "length wg = length weight_names" by simp
  with assms g show "length weights' = length weight_names" "map fst b' = map fst b"
    by (auto simp: descent_def case_prod_beta dest!: project_simplex_length)
qed

lemma fit_rounds_shape:
  assumes "fit_rounds \<epsilon> s tw ww pairs step n k weights b = Inr (weights', b', i)" "six_pairs pairs"
    "length weights = length weight_names"
  shows "length weights' = length weight_names \<and> map fst b' = map fst b \<and> i \<le> k + n"
  using assms(1,3)
proof (induction n arbitrary: k weights b)
  case (Suc n)
  then obtain w1 b1 where d: "descent \<epsilon> s tw ww pairs step weights b = Inr (w1, b1)" by auto
  note shape = descent_shape [OF d assms(2) Suc.prems(2)]
  from Suc.prems(1) d show ?case
    using Suc.IH [OF _ shape(1), of "Suc k" b1] shape by (auto split: if_splits)
qed simp

lemma fit_boundaries_shape:
  assumes "fit_boundaries \<epsilon> tune weights b tw ww iv boundaries ex = Inr (tau, share, i)"
  shows "i \<le> 153" "\<not> tune \<Longrightarrow> tau = iv_tau iv \<and> share = iv_memory_context_share iv"
proof -
  have len: "length (candidates_from \<epsilon> inc grid) \<le> Suc (length grid)" for inc grid
    unfolding candidates_from_def length_sort
    by (rule order_trans [OF length_remdups_leq]) simp
  show "i \<le> 153"
    using assms len [of "iv_tau iv" "[0..<101]"] len [of "iv_memory_context_share iv" "[1..<51]"]
    by (auto simp: fit_boundaries_def fit_tau_def fit_share_def Let_def simp del: upt_Suc upt_rec_numeral split: if_splits)
  show "tau = iv_tau iv \<and> share = iv_memory_context_share iv" if "\<not> tune"
    using assms that by (simp add: fit_boundaries_def)
qed

lemma fold_map2_length:
  "(\<forall>r \<in> set rows. length (h r) = n) \<Longrightarrow> length g = n \<Longrightarrow> length (fold (\<lambda>r g. map (f r) (zip g (h r))) rows g) = n"
  by (induction rows arbitrary: g) simp_all

lemma residual_gradient_length:
  assumes "\<forall>r \<in> set rows. length (fst r) = length weight_names" "length offsets = length weight_names"
  shows "length (residual_gradient \<epsilon> s rows offsets) = length weight_names"
  unfolding residual_gradient_def Let_def case_prod_beta
  by (rule fold_map2_length) (use assms in auto)

lemma residual_rounds_length:
  assumes "residual_rounds \<epsilon> s weights rows step n offsets = Inr offsets'"
    "\<forall>r \<in> set rows. length (fst r) = length weight_names"
    "length offsets = length weight_names" "length weights = length weight_names"
  shows "length offsets' = length weight_names"
  using assms(1,3)
proof (induction n arbitrary: offsets)
  case (Suc n)
  have g: "length (residual_gradient \<epsilon> s rows offsets) = length weight_names"
    by (rule residual_gradient_length [OF assms(2) Suc.prems(2)])
  from Suc.prems(1) obtain eff where
    eff: "project_simplex \<epsilon> (map2 (\<lambda>wo g. fsub \<epsilon> wo (fmul \<epsilon> step g)) (map2 (fadd \<epsilon>) weights offsets)
              (residual_gradient \<epsilon> s rows offsets)) = Inr eff" by auto
  have "length eff = length weight_names"
    using project_simplex_length [OF eff] g assms(4) Suc.prems(2) by simp
  then show ?case using Suc eff assms(4) by (auto simp: Let_def split: if_splits)
qed simp

lemma fit_project_names:
  assumes "fit_project \<epsilon> s weights b tw ww pairs = Inr offsets" "six_pairs pairs"
    "length weights = length weight_names"
  shows "map fst offsets = weight_names"
proof -
  have rows: "\<forall>r \<in> set (residual_rows \<epsilon> weights b tw ww pairs). length (fst r) = length weight_names"
    using assms(2) by (auto simp: residual_rows_def six_pairs_def feature_delta_def)
  from assms(1) obtain os where os: "residual_rounds \<epsilon> s weights (residual_rows \<epsilon> weights b tw ww pairs)
      (residual_step \<epsilon> s (residual_rows \<epsilon> weights b tw ww pairs)) 10000 (replicate (length weight_names) 0) = Inr os"
    "offsets = zip weight_names os" by (auto simp: fit_project_def Let_def simp del: residual_rounds.simps)
  have "length os = length weight_names"
    by (rule residual_rounds_length [OF os(1) rows]) (use assms(3) in auto)
  with os(2) show ?thesis by simp
qed

lemma fit_project_offsets_shape:
  assumes "fit_project_offsets \<epsilon> s weights b tw ww ex = Inr projects" "six_features ex"
    "length weights = length weight_names"
  shows "distinct (map fst projects)"
    "(k, offsets) \<in> set projects \<Longrightarrow> Some k \<in> le_project_key ` set ex \<and> map fst offsets = weight_names"
proof -
  let ?all = "map (\<lambda>project. (project, pairs_of \<epsilon> (filter (\<lambda>e. le_project_key e = Some project) ex))) (project_keys ex)"
  let ?rows = "filter (\<lambda>(_, pairs). pairs \<noteq> []) ?all"
  from assms(1) have all2: "list_all2 (\<lambda>(project, pairs) y. \<exists>offsets.
      fit_project \<epsilon> s weights b tw ww pairs = Inr offsets \<and> y = (project, offsets)) ?rows projects"
    unfolding fit_project_offsets_def smap_Inr by (rule list_all2_mono) auto
  then have "map fst ?rows = map fst projects"
    by (induction rule: list_all2_induct) auto
  moreover have "distinct (map fst ?rows)"
    by (intro distinct_map_filter) (simp add: comp_def project_keys_def)
  ultimately show "distinct (map fst projects)" by simp
  assume "(k, offsets) \<in> set projects"
  from smap_member [OF assms(1) [unfolded fit_project_offsets_def] this]
  obtain pairs where m: "(k, pairs) \<in> set ?rows" "fit_project \<epsilon> s weights b tw ww pairs = Inr offsets"
    by auto
  then have "six_pairs pairs" using assms(2) by (auto intro!: six_pairs_of simp: six_features_def)
  with m show "Some k \<in> le_project_key ` set ex \<and> map fst offsets = weight_names"
    using fit_project_names [OF m(2) _ assms(3)]
    by (auto simp: project_keys_def List.map_filter_def image_iff) (metis option.sel)
qed


lemma pair_memories_set:
  "set (pair_memories (pairs_of \<epsilon> ex)) \<subseteq> le_memory_id ` set ex" "distinct (pair_memories pairs)"
  by (auto simp: pair_memories_def dest!: pairs_of_members)

lemma fit_pairwise_Inr:
  assumes "fit_pairwise \<epsilon> s iv tune boundaries ex = Inr r"
  obtains weights0 weights b i tw j ob ww k projects tau share l step where
    "length (iv_weights iv) = length weight_names" "project_simplex \<epsilon> (iv_weights iv) = Inr weights0"
    "pairs_of \<epsilon> ex \<noteq> []"
    "fit_rounds \<epsilon> s (iv_thread_weight iv) (iv_where_weight iv) (pairs_of \<epsilon> ex) step 10000 0 weights0
       (map (\<lambda>i. (i, 0)) (pair_memories (pairs_of \<epsilon> ex))) = Inr (weights, b, i)"
    "fit_thread_weight \<epsilon> s weights b (pairs_of \<epsilon> ex) (iv_thread_weight iv) (iv_where_weight iv) = (tw, j, ob)"
    "fit_where_weight \<epsilon> s weights b (pairs_of \<epsilon> ex) (iv_where_weight iv) tw = (ww, k, fr_objective r)"
    "fit_project_offsets \<epsilon> s weights (filter (\<lambda>(i, v). fl64 \<epsilon> (1 / 10 ^ 12) < \<bar>v\<bar>) b) tw ww ex = Inr projects"
    "fit_boundaries \<epsilon> tune weights b tw ww iv boundaries ex = Inr (tau, share, l)"
    "fr_weights r = weights" "fr_thread_weight r = tw" "fr_where_weight r = ww" "fr_tau r = tau"
    "fr_memory_context_share r = share" "fr_project_offsets r = projects"
    "fr_bias_offsets r = filter (\<lambda>(i, v). fl64 \<epsilon> (1 / 10 ^ 12) < \<bar>v\<bar>) b"
    "fr_pair_count r = length (pairs_of \<epsilon> ex)" "fr_iterations r = i + j + k + l"
  using assms
  by (auto simp: fit_pairwise_def Let_def case_prod_beta simp del: fit_rounds.simps) (metis prod.collapse)

lemma fit_thread_bounds:
  assumes "0 \<le> weight_cap \<epsilon>" "fit_thread_weight \<epsilon> s weights b pairs initial ww = (w, i, ob)"
  shows "0 \<le> w \<and> w \<le> weight_cap \<epsilon> \<and> i \<le> 10000"
  using assms(2) fit_coefficient_bounds [OF assms(1)]
  by (auto simp: fit_thread_weight_def Let_def split: prod.splits)

lemma fit_where_bounds:
  assumes "0 \<le> weight_cap \<epsilon>" "fit_where_weight \<epsilon> s weights b pairs initial tw = (w, i, ob)"
  shows "0 \<le> w \<and> w \<le> weight_cap \<epsilon> \<and> i \<le> 10000"
  using assms(2) fit_coefficient_bounds [OF assms(1)]
  by (auto simp: fit_where_weight_def Let_def split: prod.splits)

text \<open>What a finished fit may propose. From examples of six features each, with \<open>1.0 - 1e-12\<close> not rounded
  below zero: six weights; thread and folder coefficients between zero and that cap; biases only for memories of
  the examples, each once and none smaller than \<open>1e-12\<close>; residuals only for projects of the examples, each once
  and with the six names; the incumbent's threshold and share unless tuning is on; and at most 30153 rounds over all
  its loops.\<close>

theorem fit_pairwise_bounds:
  assumes "fit_pairwise \<epsilon> s iv tune boundaries ex = Inr r" "six_features ex" "0 \<le> weight_cap \<epsilon>"
  shows "length (fr_weights r) = length weight_names \<and>
    0 \<le> fr_thread_weight r \<and> fr_thread_weight r \<le> weight_cap \<epsilon> \<and>
    0 \<le> fr_where_weight r \<and> fr_where_weight r \<le> weight_cap \<epsilon> \<and>
    distinct (map fst (fr_bias_offsets r)) \<and>
    (\<forall>(i, v) \<in> set (fr_bias_offsets r). i \<in> le_memory_id ` set ex \<and> fl64 \<epsilon> (1 / 10 ^ 12) < \<bar>v\<bar>) \<and>
    distinct (map fst (fr_project_offsets r)) \<and>
    (\<forall>(k, offsets) \<in> set (fr_project_offsets r). Some k \<in> le_project_key ` set ex \<and> map fst offsets = weight_names) \<and>
    (\<not> tune \<longrightarrow> fr_tau r = iv_tau iv \<and> fr_memory_context_share r = iv_memory_context_share iv) \<and>
    0 < fr_pair_count r \<and> fr_iterations r \<le> 30153"
proof -
  from fit_pairwise_Inr [OF assms(1)]
  obtain weights0 weights b i tw j ob ww k projects tau share l step where
    len: "length (iv_weights iv) = length weight_names" and w0: "project_simplex \<epsilon> (iv_weights iv) = Inr weights0" and
    ne: "pairs_of \<epsilon> ex \<noteq> []" and
    rounds: "fit_rounds \<epsilon> s (iv_thread_weight iv) (iv_where_weight iv) (pairs_of \<epsilon> ex) step 10000 0 weights0
       (map (\<lambda>i. (i, 0)) (pair_memories (pairs_of \<epsilon> ex))) = Inr (weights, b, i)" and
    tw: "fit_thread_weight \<epsilon> s weights b (pairs_of \<epsilon> ex) (iv_thread_weight iv) (iv_where_weight iv) = (tw, j, ob)" and
    ww: "fit_where_weight \<epsilon> s weights b (pairs_of \<epsilon> ex) (iv_where_weight iv) tw = (ww, k, fr_objective r)" and
    pr: "fit_project_offsets \<epsilon> s weights (filter (\<lambda>(i, v). fl64 \<epsilon> (1 / 10 ^ 12) < \<bar>v\<bar>) b) tw ww ex = Inr projects" and
    bd: "fit_boundaries \<epsilon> tune weights b tw ww iv boundaries ex = Inr (tau, share, l)" and
    r: "fr_weights r = weights" "fr_thread_weight r = tw" "fr_where_weight r = ww" "fr_tau r = tau"
    "fr_memory_context_share r = share" "fr_project_offsets r = projects"
    "fr_bias_offsets r = filter (\<lambda>(i, v). fl64 \<epsilon> (1 / 10 ^ 12) < \<bar>v\<bar>) b"
    "fr_pair_count r = length (pairs_of \<epsilon> ex)" "fr_iterations r = i + j + k + l" .
  have "length weights0 = length weight_names" using project_simplex_length [OF w0] len by simp
  from fit_rounds_shape [OF rounds six_pairs_of [OF assms(2)] this]
  have shape: "length weights = length weight_names" "map fst b = pair_memories (pairs_of \<epsilon> ex)" "i \<le> 10000"
    by (simp_all add: comp_def)
  have bs: "distinct (map fst b)" "fst ` set b \<subseteq> le_memory_id ` set ex"
    using pair_memories_set shape(2) by (metis, metis list.set_map)
  note T = fit_thread_bounds [OF assms(3) tw] and W = fit_where_bounds [OF assms(3) ww]
  note B = fit_boundaries_shape [OF bd] and P = fit_project_offsets_shape [OF pr assms(2) shape(1)]
  have "distinct (map fst (fr_bias_offsets r))"
    unfolding r using bs(1) by (simp add: distinct_map_filter)
  moreover have "\<forall>(i, v) \<in> set (fr_bias_offsets r). i \<in> le_memory_id ` set ex \<and> fl64 \<epsilon> (1 / 10 ^ 12) < \<bar>v\<bar>"
    unfolding r using bs(2) by force
  moreover have "\<forall>(k, offsets) \<in> set (fr_project_offsets r). Some k \<in> le_project_key ` set ex \<and> map fst offsets = weight_names"
    unfolding r using P(2) by auto
  moreover have "fr_iterations r \<le> 30153" unfolding r using shape(3) T W B(1) by simp
  ultimately show ?thesis using T W B(2) P(1) shape(1) ne by (simp add: r)
qed

section \<open>Examples\<close>

definition sample_example :: "string \<Rightarrow> uuid \<Rightarrow> uuid \<Rightarrow> timestamp \<Rightarrow> bool \<Rightarrow> learning_example" where
  "sample_example uid gate memory ts target = \<lparr>le_event_uid = uid, le_injection_id = gate, le_memory_id = memory,
     le_ts = ts, le_features = (if target then [1, 1, 1, 1, 1, 1] else [0, 0, 0, 0, 0, 0]), le_baseline_bias = 0,
     le_target_injected = target, le_actor_weight = 1, le_shown_as = Injected, le_body_tokens = 10,
     le_location_feature = None, le_location_weight = 0, le_thread_feature = None, le_thread_id = Some 9,
     le_where_feature = None, le_where_weight = 0, le_project_key = None\<rparr>"

definition sample_examples :: "learning_example list" where
  "sample_examples = [sample_example ''e1'' 1 11 5 True, sample_example ''e2'' 2 12 9 True,
     sample_example ''e3'' 1 13 6 False, sample_example ''e4'' 3 14 7 True]"

definition sample_incumbent :: incumbent_values where
  "sample_incumbent = \<lparr>iv_weights = [1/2, 1/10, 1/10, 1/10, 1/10, 1/10], iv_thread_weight = 0, iv_where_weight = 0,
     iv_tau = 1/2, iv_memory_context_share = 1/10\<rparr>"

definition sample_settings :: fit_settings where
  "sample_settings = \<lparr>fs_pair_margin = 1/10, fs_bias_l2 = 1/100\<rparr>"

abbreviation sample_pairs :: "pair list" where
  "sample_pairs \<equiv> pairs_of sample_env sample_examples"

theorem split_gates_sound_witness:
  "\<exists>tr ho cutoff. split_gates sample_env (1/5) sample_examples = Inr (tr, ho, cutoff) \<and>
     mset tr + mset ho = mset sample_examples \<and> tr \<noteq> [] \<and> ho \<noteq> [] \<and>
     le_injection_id ` set tr \<inter> le_injection_id ` set ho = {}"
proof -
  have "2 \<le> card (le_injection_id ` set sample_examples)" by code_simp
  from split_gates_sound [OF this, of sample_env "1/5"] show ?thesis by blast
qed

lemma fit_rounds_settle:
  assumes "descent \<epsilon> s tw ww pairs step weights b = Inr (weights', b')" "0 < n"
    "settled \<epsilon> (largest_change \<epsilon> weights b weights' b')
       (fsub \<epsilon> (objective_of \<epsilon> s tw ww pairs weights b) (objective_of \<epsilon> s tw ww pairs weights' b'))"
  shows "fit_rounds \<epsilon> s tw ww pairs step n k weights b = Inr (weights', b', Suc k)"
  using assms by (cases n) simp_all

lemmas fl_defs = fadd_def fsub_def fmul_def fdiv_def fdot_def fsum_def

lemma sample_example_sel [simp]:
  "le_memory_id (sample_example u g m ts t) = m" "le_actor_weight (sample_example u g m ts t) = 1"
  "le_shown_as (sample_example u g m ts t) = Injected" "le_target_injected (sample_example u g m ts t) = t"
  "le_thread_feature (sample_example u g m ts t) = None" "le_where_feature (sample_example u g m ts t) = None"
  "le_project_key (sample_example u g m ts t) = None" "le_body_tokens (sample_example u g m ts t) = 10"
  by (simp_all add: sample_example_def)

lemma sample_pairs_eq: "sample_pairs = [(sample_example ''e1'' 1 11 5 True, sample_example ''e3'' 1 13 6 False, 1)]"
  by (simp add: pairs_of_def gate_pairs_def grouped_def first_keys_def sample_examples_def sample_example_def)

lemma sample_linearized:
  "linearized sample_env (sample_example u g m ts t) tw ww = (if t then [1,1,1,1,1,1] else [0,0,0,0,0,0], 0)"
  by (simp add: linearized_def sample_example_def fl_defs)

lemma sample_delta:
  "feature_delta sample_env tw ww (sample_example u g m ts True) (sample_example u' g' m' ts' False) = [1,1,1,1,1,1]"
  by (simp add: feature_delta_def sample_linearized fl_defs)

lemma sample_gradient:
  "objective_and_gradient sample_env sample_settings tw ww sample_pairs (iv_weights sample_incumbent) [(11, 0), (13, 0)] =
     (0, [0,0,0,0,0,0], [(11, 0), (13, 0)])"
  by (simp add: sample_pairs_eq objective_and_gradient_def pair_step_def Let_def sample_linearized sample_delta fl_defs
      sample_settings_def sample_incumbent_def bias_at_def weight_names_def)

lemma sample_simplex: "project_simplex sample_env (iv_weights sample_incumbent) = Inr (iv_weights sample_incumbent)"
  by (simp add: project_simplex_def sample_incumbent_def fl_defs Let_def add_to_last_def)

lemma sample_rounds:
  "fit_rounds sample_env sample_settings 0 0 sample_pairs step 10000 0 (iv_weights sample_incumbent) [(11, 0), (13, 0)] =
     Inr (iv_weights sample_incumbent, [(11, 0), (13, 0)], Suc 0)"
proof (rule fit_rounds_settle)
  have same: "map2 (\<lambda>v g. fsub sample_env v (fmul sample_env step g)) (iv_weights sample_incumbent) [0,0,0,0,0,0] = iv_weights sample_incumbent"
    by (simp add: sample_incumbent_def fl_defs)
  show "descent sample_env sample_settings 0 0 sample_pairs step (iv_weights sample_incumbent) [(11, 0), (13, 0)] =
      Inr (iv_weights sample_incumbent, [(11, 0), (13, 0)])"
    unfolding descent_def sample_gradient using same sample_simplex by (simp add: sbind_def fl_defs bias_at_def)
  show "settled sample_env (largest_change sample_env (iv_weights sample_incumbent) [(11, 0), (13, 0)]
        (iv_weights sample_incumbent) [(11, 0), (13, 0)])
      (fsub sample_env (objective_of sample_env sample_settings 0 0 sample_pairs (iv_weights sample_incumbent) [(11, 0), (13, 0)])
        (objective_of sample_env sample_settings 0 0 sample_pairs (iv_weights sample_incumbent) [(11, 0), (13, 0)]))"
    by (simp add: settled_def fl_defs)
qed simp

lemma sample_coefficients:
  "fit_thread_weight sample_env sample_settings (iv_weights sample_incumbent) [(11, 0), (13, 0)] sample_pairs 0 ww = (0, 0, 0)"
  "fit_where_weight sample_env sample_settings (iv_weights sample_incumbent) [(11, 0), (13, 0)] sample_pairs 0 ww = (0, 0, 0)"
  unfolding fit_thread_weight_def fit_where_weight_def objective_of_def sample_gradient
  by (simp_all add: sample_pairs_eq thread_derivative_def where_derivative_def fit_coefficient_def curvature_def
      clamp_weight_def weight_cap_def fl_defs Let_def)

lemma sample_fit:
  "\<exists>r. fit_pairwise sample_env sample_settings sample_incumbent False [] sample_examples = Inr r"
proof -
  have memories: "pair_memories sample_pairs = [11, 13]" by (simp add: sample_pairs_eq pair_memories_def)
  have some: "sample_pairs \<noteq> []" by (simp add: sample_pairs_eq)
  have projects: "project_keys sample_examples = []"
    by (simp add: project_keys_def sample_examples_def List.map_filter_def)
  have six: "length (iv_weights sample_incumbent) = length weight_names"
    by (simp add: sample_incumbent_def weight_names_def)
  have zero: "iv_thread_weight sample_incumbent = 0" "iv_where_weight sample_incumbent = 0"
    by (simp_all add: sample_incumbent_def)
  show ?thesis
    using sample_simplex sample_rounds sample_coefficients
    by (simp add: fit_pairwise_def sbind_def check_def six some memories zero Let_def fit_project_offsets_def projects
        fit_boundaries_def)
qed

theorem fit_pairwise_bounds_witness:
  "\<exists>r. fit_pairwise sample_env sample_settings sample_incumbent False [] sample_examples = Inr r \<and>
     0 \<le> fr_thread_weight r \<and> fr_thread_weight r \<le> weight_cap sample_env \<and> fr_iterations r \<le> 30153"
proof -
  obtain r where r: "fit_pairwise sample_env sample_settings sample_incumbent False [] sample_examples = Inr r"
    using sample_fit by blast
  have "six_features sample_examples" "0 \<le> weight_cap sample_env"
    by (simp_all add: six_features_def sample_examples_def sample_example_def weight_names_def weight_cap_def fl_defs)
  from fit_pairwise_bounds [OF r this] r show ?thesis by blast
qed

definition sample_boundary :: share_boundary where
  "sample_boundary = \<lparr>sb_event_uid = ''e1'', sb_injection_id = 1, sb_required_share = 1/5, sb_target_at_least = True,
     sb_actor_weight = 1, sb_kind = Valuable_budget_cut\<rparr>"

lemma best_candidate_total:
  "(\<And>c. c \<in> set cs \<Longrightarrow> \<exists>k. key c = Inr k) \<Longrightarrow> \<exists>c. best_candidate key best best_key cs = Inr c"
proof (induction cs arbitrary: best best_key)
  case (Cons c cs)
  then obtain k where "key c = Inr k" by fastforce
  with Cons show ?case by (simp add: sbind_def)
qed simp

lemma dec_add_one: "dec_add 0 1 = Inr 1"
proof -
  have "ndigits 1 = 1" by (simp add: ndigits_def show_nat.simps)
  then have "adjusted 1 = 0" by (simp add: adjusted_def)
  moreover have "round_half_even (10 ^ 27) = 10 ^ 27" by (metis of_int_numeral of_int_power round_half_even_of_int)
  ultimately show ?thesis by (simp add: dec_add_def dec_fix_def Let_def power_int_minus)
qed

lemma sample_boundaries:
  "\<exists>tau share i. fit_boundaries sample_env True (iv_weights sample_incumbent) [] 0 0 sample_incumbent
     [sample_boundary] [sample_example ''e1'' 1 11 5 True] = Inr (tau, share, i)"
proof -
  let ?ex = "[sample_example ''e1'' 1 11 5 True]"
  have "\<exists>k. tau_key sample_env (iv_weights sample_incumbent) [] 0 0 ?ex c = Inr k" for c
    by (simp add: tau_key_def Let_def dec_add_one sbind_def)
  then have tau: "\<exists>t. best_candidate (tau_key sample_env (iv_weights sample_incumbent) [] 0 0 ?ex) inc None cs = Inr t" for inc cs
    by (rule best_candidate_total)
  have "\<exists>k. share_key sample_env [sample_boundary] c = Inr k" for c
    by (simp add: share_key_def Let_def dec_add_one sbind_def sample_boundary_def)
  then have share: "\<exists>t. best_candidate (share_key sample_env [sample_boundary]) inc None cs = Inr t" for inc cs
    by (rule best_candidate_total)
  show ?thesis
    using tau share unfolding fit_boundaries_def fit_tau_def fit_share_def Let_def by (simp del: upt_Suc upt_rec_numeral)
qed

theorem boundaries_optimal_witness:
  "\<exists>tau share i k k'. fit_boundaries sample_env True (iv_weights sample_incumbent) [] 0 0 sample_incumbent
     [sample_boundary] [sample_example ''e1'' 1 11 5 True] = Inr (tau, share, i) \<and>
     share_key sample_env [sample_boundary] share = Inr k \<and>
     share_key sample_env [sample_boundary] (iv_memory_context_share sample_incumbent) = Inr k' \<and> k \<le> k'"
proof -
  obtain tau share i where run: "fit_boundaries sample_env True (iv_weights sample_incumbent) [] 0 0 sample_incumbent
     [sample_boundary] [sample_example ''e1'' 1 11 5 True] = Inr (tau, share, i)"
    using sample_boundaries by blast
  have "[sample_boundary] \<noteq> []" by simp
  then have "\<exists>k. share_key sample_env [sample_boundary] share = Inr k \<and>
      (\<forall>c \<in> insert (iv_memory_context_share sample_incumbent) ((\<lambda>i. fdiv sample_env (of_nat i) 100) ` {1..50}).
         \<exists>k'. share_key sample_env [sample_boundary] c = Inr k' \<and> k \<le> k')"
    using boundaries_optimal [OF run] by presburger
  with run show ?thesis by blast
qed

end
