(* ===== verification/Evidence.thy ===== *)
theory Evidence
  imports Learner
begin

text \<open>
  The evidence the learner trains on (\<open>src/spine/learner/evidence.py\<close>): which recorded injection events
  become labelled examples, with the baseline bias that makes a replay reproduce the recorded score, and
  which gates give evidence that the memory room should grow or shrink. A gate with one annotated or excluded
  member is left out as a whole. A feature that cannot be replayed is an error (\<open>LearnerDataError\<close>, a
  \<open>RuntimeError\<close>). The numbers of a stored feature object are finite, as in every JSON column.
\<close>

section \<open>Reading the frozen features\<close>

definition data_error :: "string \<Rightarrow> err" where
  "data_error what = RuntimeErr what"

definition unit_feature :: "env \<Rightarrow> json \<Rightarrow> err + rat" where
  "unit_feature \<epsilon> j =
     sbind (case j of JInt n \<Rightarrow> Inr (fl64 \<epsilon> (of_int n)) | JFloat x \<Rightarrow> Inr x
            | _ \<Rightarrow> Inl (data_error ''is not numeric'')) (\<lambda>x.
     sbind (check (\<not> (0 \<le> x \<and> x \<le> 1)) (data_error ''is outside [0,1]'')) (\<lambda>_. Inr x))"

text \<open>\<open>_features\<close>: \<open>row.features.get(name)\<close> is \<open>None\<close> for a missing name.\<close>

definition row_features :: "env \<Rightarrow> injection_event \<Rightarrow> err + rat list" where
  "row_features \<epsilon> row =
     smap (\<lambda>name. unit_feature \<epsilon> (case dget (ev_features row) name of None \<Rightarrow> JNull | Some j \<Rightarrow> j)) weight_names"

definition optional_feature :: "env \<Rightarrow> injection_event \<Rightarrow> string \<Rightarrow> err + rat option" where
  "optional_feature \<epsilon> row name = (case dget (ev_features row) name of
       None \<Rightarrow> Inr None
     | Some JNull \<Rightarrow> Inr None
     | Some j \<Rightarrow> sbind (unit_feature \<epsilon> j) (\<lambda>x. Inr (Some x)))"

definition nested :: "injection_event \<Rightarrow> string \<Rightarrow> string \<Rightarrow> json option" where
  "nested row outer inner = (case dget (ev_features row) outer of Some (JObj d) \<Rightarrow> dget d inner | _ \<Rightarrow> None)"

definition frozen_body :: "injection_event \<Rightarrow> err + string" where
  "frozen_body row = (case nested row ''_memory'' ''body'' of
       Some (JStr s) \<Rightarrow> Inr s
     | _ \<Rightarrow> Inl (data_error ''has no frozen memory body''))"

definition body_tokens :: "env \<Rightarrow> injection_event \<Rightarrow> err + int" where
  "body_tokens \<epsilon> row = sbind (frozen_body row) (\<lambda>s. Inr (int (token_count \<epsilon> s)))"

text \<open>The first row whose frozen request carries an integer that passes the test.\<close>

definition prepared_int :: "(int \<Rightarrow> bool) \<Rightarrow> string \<Rightarrow> injection_event list \<Rightarrow> int option" where
  "prepared_int ok name rows =
     (case List.map_filter (\<lambda>row. case nested row ''_prepare'' name of
          Some (JInt n) \<Rightarrow> if ok n then Some n else None
        | _ \<Rightarrow> None) rows of [] \<Rightarrow> None | n # _ \<Rightarrow> Some n)"

definition context_tokens :: "injection_event list \<Rightarrow> int option" where
  "context_tokens rows = prepared_int (\<lambda>n. 0 < n) ''model_context_tokens'' rows"

text \<open>\<open>int(x)\<close> of a float truncates.\<close>

definition truncate :: "rat \<Rightarrow> int" where
  "truncate x = (if x < 0 then \<lceil>x\<rceil> else \<lfloor>x\<rfloor>)"

definition recorded_share_tokens :: "env \<Rightarrow> injection_event list \<Rightarrow> scorer_config \<Rightarrow> int \<Rightarrow> int" where
  "recorded_share_tokens \<epsilon> rows source ctx =
     (case prepared_int (\<lambda>n. 0 \<le> n) ''share_tokens'' rows of
        Some n \<Rightarrow> n
      | None \<Rightarrow>
          let share = truncate (fmul \<epsilon> (sp_memory_context_share (cfg_params source)) (fl64 \<epsilon> (of_int ctx)))
          in case sp_legacy_budget_tokens (cfg_params source) of None \<Rightarrow> share | Some b \<Rightarrow> min share b)"

section \<open>Examples\<close>

text \<open>The numbers among the stored features, which is all that an axis reads: its inputs are feature names,
  and those have been checked when the axes are applied.\<close>

definition stored_numbers :: "dict \<Rightarrow> (string \<times> rat) list" where
  "stored_numbers d = List.map_filter (\<lambda>(k, j). case j of
       JInt n \<Rightarrow> Some (k, of_int n) | JFloat x \<Rightarrow> Some (k, x) | _ \<Rightarrow> None) d"

definition localized_score :: "env \<Rightarrow> scorer_config \<Rightarrow> scorer_weights \<Rightarrow> injection_event \<Rightarrow> rat list \<Rightarrow>
    rat option \<Rightarrow> rat option \<Rightarrow> rat option \<Rightarrow> rat" where
  "localized_score \<epsilon> source weights row features location thread whr =
     apply_axes \<epsilon>
       (blend_optional \<epsilon> (sp_where_weight (cfg_params source)) whr
         (blend_optional \<epsilon> (sp_thread_weight (cfg_params source)) thread
           (blend_optional \<epsilon> (sp_location_weight (cfg_params source)) location
             (fdot \<epsilon> (weight_values weights) features))))
       (stored_numbers (ev_features row)) (cfg_axes source)"

definition example_of :: "env \<Rightarrow> (string \<times> scorer_config) list \<Rightarrow> injection_event \<Rightarrow> bool \<times> rat \<Rightarrow> err + learning_example" where
  "example_of \<epsilon> configs row labeled =
     sbind (case map_of configs (ev_scorer_version row) of
         None \<Rightarrow> Inl (data_error ''references missing scorer'') | Some c \<Rightarrow> Inr c) (\<lambda>source.
     sbind (row_features \<epsilon> row) (\<lambda>features.
     sbind (optional_feature \<epsilon> row ''loc'') (\<lambda>location.
     sbind (optional_feature \<epsilon> row ''thread'') (\<lambda>thread.
     sbind (optional_feature \<epsilon> row ''where'') (\<lambda>whr.
     sbind (weights_for_project \<epsilon> source (ev_project_key row)) (\<lambda>weights.
     let localized = localized_score \<epsilon> source weights row features location thread whr;
         baseline = fsub \<epsilon> (fsub \<epsilon> (ev_score row) localized) (bias_offset source (ev_memory_id row)) in
     sbind (body_tokens \<epsilon> row) (\<lambda>toks.
     Inr \<lparr>le_event_uid = ev_event_uid row, le_injection_id = ev_injection_id row, le_memory_id = ev_memory_id row,
          le_ts = ev_ts row, le_features = features, le_baseline_bias = baseline,
          le_target_injected = fst labeled, le_actor_weight = snd labeled, le_shown_as = ev_shown_as row,
          le_body_tokens = toks, le_location_feature = location,
          le_location_weight = sp_location_weight (cfg_params source), le_thread_feature = thread,
          le_thread_id = Some (ev_thread_id row), le_where_feature = whr,
          le_where_weight = sp_where_weight (cfg_params source), le_project_key = ev_project_key row\<rparr>)))))))"

section \<open>Evidence about the memory share\<close>

definition row_label :: "rat \<Rightarrow> injection_event \<Rightarrow> (bool \<times> rat) option" where
  "row_label discount row = disposition discount (ev_outcome row) (ev_actor_class row)"

definition explicit_positive_weights :: "rat \<Rightarrow> injection_event list \<Rightarrow> (uuid \<times> rat) list" where
  "explicit_positive_weights discount rows =
     fold (\<lambda>row acc.
         if \<not> (\<exists>x \<in> set explicit_positive_outcomes. ev_outcome row = Some x) then acc
         else case row_label discount row of
             Some (True, w) \<Rightarrow> AList.update (ev_memory_id row)
               (max (case map_of acc (ev_memory_id row) of None \<Rightarrow> 0 | Some v \<Rightarrow> v) w) acc
           | _ \<Rightarrow> acc)
       rows []"

definition row_order :: "injection_event \<Rightarrow> int \<times> string" where
  "row_order row = (ev_rank row, ev_event_uid row)"

text \<open>Python's \<open>max\<close> and \<open>min\<close> with a key, over a nonempty list: the first extreme element.\<close>

definition max_by :: "('a \<Rightarrow> 'k :: linorder) \<Rightarrow> 'a list \<Rightarrow> 'a" where
  "max_by f xs = fold (\<lambda>y b. if f b < f y then y else b) (tl xs) (hd xs)"

definition min_by :: "('a \<Rightarrow> 'k :: linorder) \<Rightarrow> 'a list \<Rightarrow> 'a" where
  "min_by f xs = fold (\<lambda>y b. if f y < f b then y else b) (tl xs) (hd xs)"

definition boundary :: "env \<Rightarrow> injection_event \<Rightarrow> int \<Rightarrow> int \<Rightarrow> bool \<Rightarrow> rat \<Rightarrow> boundary_kind \<Rightarrow> share_boundary" where
  "boundary \<epsilon> row toks ctx at_least weight kind =
     \<lparr>sb_event_uid = ev_event_uid row, sb_injection_id = ev_injection_id row,
      sb_required_share = fl64 \<epsilon> (of_int toks / of_int ctx), sb_target_at_least = at_least,
      sb_actor_weight = weight, sb_kind = kind\<rparr>"

fun cut_boundaries :: "env \<Rightarrow> (uuid \<times> rat) list \<Rightarrow> int \<Rightarrow> int \<Rightarrow> uuid list \<Rightarrow> injection_event list \<Rightarrow> err + share_boundary list" where
  "cut_boundaries \<epsilon> positives regular ctx seen [] = Inr []"
| "cut_boundaries \<epsilon> positives regular ctx seen (row # rows) =
     (case map_of positives (ev_memory_id row) of
        None \<Rightarrow> cut_boundaries \<epsilon> positives regular ctx seen rows
      | Some weight \<Rightarrow>
          if ev_shown_as row \<noteq> Budget_cut \<or> ev_memory_id row \<in> set seen
          then cut_boundaries \<epsilon> positives regular ctx seen rows
          else sbind (body_tokens \<epsilon> row) (\<lambda>toks.
               sbind (cut_boundaries \<epsilon> positives regular ctx (ev_memory_id row # seen) rows) (\<lambda>rest.
               Inr (boundary \<epsilon> row (regular + toks) ctx True weight Valuable_budget_cut # rest))))"

definition marginal_boundaries :: "env \<Rightarrow> rat \<Rightarrow> int \<Rightarrow> int \<Rightarrow> injection_event list \<Rightarrow> share_boundary list" where
  "marginal_boundaries \<epsilon> discount regular ctx selected =
     (if selected = [] then []
      else let marginal = max_by row_order selected in
        if \<exists>x \<in> set negative_outcomes. ev_outcome marginal = Some x
        then [boundary \<epsilon> marginal regular ctx False 1 Marginal_removed]
        else if ev_outcome marginal = Some Kept
        then [boundary \<epsilon> marginal regular ctx False discount Marginal_uncited]
        else [])"

definition pin_boundaries :: "env \<Rightarrow> (string \<times> scorer_config) list \<Rightarrow> injection_event list \<Rightarrow> injection_event list \<Rightarrow>
    int \<Rightarrow> int \<Rightarrow> err + share_boundary list" where
  "pin_boundaries \<epsilon> configs members pins toks ctx =
     (if pins = [] then Inr []
      else case map_of configs (ev_scorer_version (hd members)) of
          None \<Rightarrow> Inl (data_error ''references missing scorer'')
        | Some source \<Rightarrow>
            if recorded_share_tokens \<epsilon> members source ctx < toks
            then Inr [boundary \<epsilon> (min_by row_order pins) toks ctx True 1 Pin_overflow]
            else Inr [])"

definition gate_boundaries :: "env \<Rightarrow> (string \<times> scorer_config) list \<Rightarrow> rat \<Rightarrow> (uuid \<times> rat) list \<Rightarrow>
    injection_event list \<Rightarrow> err + share_boundary list" where
  "gate_boundaries \<epsilon> configs discount positives members = (case context_tokens members of
       None \<Rightarrow> Inr []
     | Some ctx \<Rightarrow>
         let selected = filter (\<lambda>r. ev_shown_as r = Injected) members;
             pins = filter (\<lambda>r. ev_shown_as r = Pinned) members in
         sbind (smap (body_tokens \<epsilon>) selected) (\<lambda>regular.
         sbind (smap (body_tokens \<epsilon>) pins) (\<lambda>pinned.
         sbind (cut_boundaries \<epsilon> positives (sum_list regular) ctx [] (sort_key row_order members)) (\<lambda>cuts.
         sbind (pin_boundaries \<epsilon> configs members pins (sum_list regular + sum_list pinned) ctx) (\<lambda>over.
         Inr (cuts @ marginal_boundaries \<epsilon> discount (sum_list regular) ctx selected @ over))))))"

definition share_boundaries :: "env \<Rightarrow> (string \<times> scorer_config) list \<Rightarrow> rat \<Rightarrow> injection_event list \<Rightarrow> err + share_boundary list" where
  "share_boundaries \<epsilon> configs discount rows =
     sbind (smap (\<lambda>(g, members). gate_boundaries \<epsilon> configs discount (explicit_positive_weights discount rows) members)
       (sort_key fst (grouped ev_injection_id rows))) (\<lambda>parts. Inr (concat parts))"

section \<open>The projection\<close>

record learning_evidence =
  ev_examples :: "learning_example list"
  ev_share_boundaries :: "share_boundary list"
  ev_hygiene_excluded :: nat

definition verification_only :: "injection_event_annotation list \<Rightarrow> string list" where
  "verification_only annotations = map an_target_event_uid (filter (\<lambda>a. an_kind a = ''verification_only'') annotations)"

definition tainted :: "injection_event_annotation list \<Rightarrow> injection_event \<Rightarrow> bool" where
  "tainted annotations row \<longleftrightarrow> ev_event_uid row \<in> set (verification_only annotations) \<or>
     identity_is_excluded (ev_principal_id row) (ev_machine_id row)"

definition excluded_gate :: "injection_event_annotation list \<Rightarrow> injection_event list \<Rightarrow> uuid \<Rightarrow> bool" where
  "excluded_gate annotations rows g \<longleftrightarrow>
     g \<in> fst ` set (filter (\<lambda>(_, members). list_ex (tainted annotations) members) (grouped ev_injection_id rows))"

definition project_learning_evidence :: "env \<Rightarrow> (string \<times> scorer_config) list \<Rightarrow> rat \<Rightarrow>
    injection_event_annotation list \<Rightarrow> injection_event list \<Rightarrow> err + learning_evidence" where
  "project_learning_evidence \<epsilon> configs discount annotations rows =
     (let clean = filter (\<lambda>r. \<not> excluded_gate annotations rows (ev_injection_id r)) rows;
          dropped = filter (\<lambda>r. excluded_gate annotations rows (ev_injection_id r)) rows in
      sbind (smap (\<lambda>row. example_of \<epsilon> configs row (the (row_label discount row)))
               (filter (\<lambda>r. row_label discount r \<noteq> None) clean)) (\<lambda>examples.
      sbind (share_boundaries \<epsilon> configs discount clean) (\<lambda>boundaries.
      Inr \<lparr>ev_examples = examples, ev_share_boundaries = boundaries,
           ev_hygiene_excluded = length (filter (\<lambda>r. row_label discount r \<noteq> None) dropped)\<rparr>)))"

section \<open>Hygiene\<close>

lemma excluded_gate_iff:
  "excluded_gate annotations rows g \<longleftrightarrow>
     (\<exists>m \<in> set rows. ev_injection_id m = g \<and> tainted annotations m)"
  by (force simp: excluded_gate_def in_grouped list_ex_iff image_iff)

lemma unit_feature_bounds: "unit_feature \<epsilon> j = Inr x \<Longrightarrow> 0 \<le> x \<and> x \<le> 1"
  by (auto simp: unit_feature_def)

lemma row_features_bounds:
  assumes "row_features \<epsilon> row = Inr fs"
  shows "length fs = length weight_names" "\<forall>x \<in> set fs. 0 \<le> x \<and> x \<le> 1"
proof -
  show "length fs = length weight_names"
    using assms unfolding row_features_def smap_Inr by (simp add: list_all2_lengthD)
  show "\<forall>x \<in> set fs. 0 \<le> x \<and> x \<le> 1"
    using assms unfolding row_features_def by (auto dest!: smap_member unit_feature_bounds)
qed

lemma example_of_Inr:
  assumes "example_of \<epsilon> configs row labeled = Inr e"
  shows "le_event_uid e = ev_event_uid row" "le_injection_id e = ev_injection_id row"
    "le_target_injected e = fst labeled" "le_actor_weight e = snd labeled"
    "length (le_features e) = length weight_names" "\<forall>x \<in> set (le_features e). 0 \<le> x \<and> x \<le> 1"
  using assms row_features_bounds [of \<epsilon> row] by (auto simp: example_of_def Let_def)

lemma cut_boundaries_gate:
  "cut_boundaries \<epsilon> positives regular ctx seen rows = Inr bs \<Longrightarrow> x \<in> set bs \<Longrightarrow>
     \<exists>r \<in> set rows. sb_injection_id x = ev_injection_id r"
proof (induction \<epsilon> positives regular ctx seen rows arbitrary: bs rule: cut_boundaries.induct)
  case (2 \<epsilon> positives regular ctx seen row rows)
  then show ?case by (auto simp: boundary_def split: option.splits if_splits) blast+
qed simp

lemma extreme_member: "xs \<noteq> [] \<Longrightarrow> max_by f xs \<in> set xs" "xs \<noteq> [] \<Longrightarrow> min_by f xs \<in> set xs"
proof -
  have fold: "fold (\<lambda>y b. if P b y then y else b) ys b \<in> insert b (set ys)" for P :: "'a \<Rightarrow> 'a \<Rightarrow> bool" and b ys
    by (induction ys arbitrary: b) auto
  show "max_by f xs \<in> set xs" if "xs \<noteq> []"
    using that fold [of "\<lambda>b y. f b < f y" "tl xs" "hd xs"] by (cases xs) (simp_all add: max_by_def)
  show "min_by f xs \<in> set xs" if "xs \<noteq> []"
    using that fold [of "\<lambda>b y. f y < f b" "tl xs" "hd xs"] by (cases xs) (simp_all add: min_by_def)
qed

lemma marginal_boundaries_gate:
  "x \<in> set (marginal_boundaries \<epsilon> d regular ctx selected) \<Longrightarrow> \<exists>r \<in> set selected. sb_injection_id x = ev_injection_id r"
  using extreme_member(1) [of selected row_order]
  by (auto simp: marginal_boundaries_def boundary_def Let_def split: if_splits)

lemma pin_boundaries_gate:
  "pin_boundaries \<epsilon> configs members pins tok ctx = Inr bs \<Longrightarrow> x \<in> set bs \<Longrightarrow> \<exists>r \<in> set pins. sb_injection_id x = ev_injection_id r"
  using extreme_member(2) [of pins row_order]
  by (auto simp: pin_boundaries_def boundary_def split: if_splits option.splits)

lemma gate_boundaries_gate:
  assumes "gate_boundaries \<epsilon> configs d positives members = Inr bs" "x \<in> set bs"
  shows "\<exists>r \<in> set members. sb_injection_id x = ev_injection_id r"
proof (cases "context_tokens members")
  case None
  with assms show ?thesis by (simp add: gate_boundaries_def)
next
  case (Some ctx)
  with assms(1) obtain regular pinned cuts over where
    c: "cut_boundaries \<epsilon> positives (sum_list regular) ctx [] (sort_key row_order members) = Inr cuts"
    and p: "pin_boundaries \<epsilon> configs members (filter (\<lambda>r. ev_shown_as r = Pinned) members)
      (sum_list regular + sum_list pinned) ctx = Inr over"
    and bs: "bs = cuts @ marginal_boundaries \<epsilon> d (sum_list regular) ctx (filter (\<lambda>r. ev_shown_as r = Injected) members) @ over"
    by (auto simp: gate_boundaries_def Let_def)
  from assms(2) bs consider "x \<in> set cuts"
    | "x \<in> set (marginal_boundaries \<epsilon> d (sum_list regular) ctx (filter (\<lambda>r. ev_shown_as r = Injected) members))"
    | "x \<in> set over" by auto
  then show ?thesis
    using cut_boundaries_gate [OF c] marginal_boundaries_gate pin_boundaries_gate [OF p] by cases force+
qed

lemma share_boundaries_gate:
  assumes "share_boundaries \<epsilon> configs d rows = Inr bs" "x \<in> set bs"
  shows "\<exists>r \<in> set rows. sb_injection_id x = ev_injection_id r"
proof -
  from assms obtain parts part where
    parts: "smap (\<lambda>(g, members). gate_boundaries \<epsilon> configs d (explicit_positive_weights d rows) members)
       (sort_key fst (grouped ev_injection_id rows)) = Inr parts" and part: "part \<in> set parts" "x \<in> set part"
    by (auto simp: share_boundaries_def)
  from smap_member [OF parts part(1)] obtain g members where
    m: "(g, members) \<in> set (grouped ev_injection_id rows)"
    "gate_boundaries \<epsilon> configs d (explicit_positive_weights d rows) members = Inr part" by auto
  from gate_boundaries_gate [OF m(2) part(2)] m(1) show ?thesis by (auto simp: in_grouped)
qed

lemma smap_map: "smap f xs = Inr ys \<Longrightarrow> (\<And>x y. x \<in> set xs \<Longrightarrow> f x = Inr y \<Longrightarrow> h y = g x) \<Longrightarrow> map h ys = map g xs"
  by (induction xs arbitrary: ys) auto

text \<open>C35: Training evidence is clean and complete. When the projection succeeds, its examples are, in the
  order of the events, exactly the labelled events of the gates in which no member has a verification annotation
  or an excluded identity: one example for each, with the event's gate, label and weight and six features between 0
  and 1. Every share boundary belongs to such a gate too, and the reported count is that of the labelled events left out.\<close>

theorem evidence_hygiene:
  assumes "project_learning_evidence \<epsilon> configs discount annotations rows = Inr ev"
  shows "(let clean = (\<lambda>r. \<not> (\<exists>m \<in> set rows. ev_injection_id m = ev_injection_id r \<and> tainted annotations m));
              labelled = (\<lambda>r. row_label discount r \<noteq> None) in
    map (\<lambda>e. (le_event_uid e, le_injection_id e, Some (le_target_injected e, le_actor_weight e))) (ev_examples ev) =
      map (\<lambda>r. (ev_event_uid r, ev_injection_id r, row_label discount r)) (filter (\<lambda>r. labelled r \<and> clean r) rows) \<and>
    (\<forall>e \<in> set (ev_examples ev). length (le_features e) = length weight_names \<and> (\<forall>x \<in> set (le_features e). 0 \<le> x \<and> x \<le> 1)) \<and>
    (\<forall>b \<in> set (ev_share_boundaries ev). \<exists>r \<in> set rows. clean r \<and> sb_injection_id b = ev_injection_id r) \<and>
    ev_hygiene_excluded ev = length (filter (\<lambda>r. labelled r \<and> \<not> clean r) rows))"
proof -
  let ?clean = "filter (\<lambda>r. \<not> excluded_gate annotations rows (ev_injection_id r)) rows"
  from assms obtain bs where
    ex: "smap (\<lambda>row. example_of \<epsilon> configs row (the (row_label discount row)))
         (filter (\<lambda>r. row_label discount r \<noteq> None) ?clean) = Inr (ev_examples ev)" and
    bs: "share_boundaries \<epsilon> configs discount ?clean = Inr bs" and b: "ev_share_boundaries ev = bs" and
    n: "ev_hygiene_excluded ev = length (filter (\<lambda>r. row_label discount r \<noteq> None)
          (filter (\<lambda>r. excluded_gate annotations rows (ev_injection_id r)) rows))"
    by (auto simp: project_learning_evidence_def Let_def)
  have "map (\<lambda>e. (le_event_uid e, le_injection_id e, Some (le_target_injected e, le_actor_weight e))) (ev_examples ev) =
      map (\<lambda>r. (ev_event_uid r, ev_injection_id r, row_label discount r)) (filter (\<lambda>r. row_label discount r \<noteq> None) ?clean)"
  proof (rule smap_map [OF ex])
    fix r e
    assume "r \<in> set (filter (\<lambda>r. row_label discount r \<noteq> None) ?clean)"
      "example_of \<epsilon> configs r (the (row_label discount r)) = Inr e"
    then show "(le_event_uid e, le_injection_id e, Some (le_target_injected e, le_actor_weight e)) =
        (ev_event_uid r, ev_injection_id r, row_label discount r)"
      using example_of_Inr(1-4) by fastforce
  qed
  moreover have "\<forall>e \<in> set (ev_examples ev). length (le_features e) = length weight_names \<and> (\<forall>x \<in> set (le_features e). 0 \<le> x \<and> x \<le> 1)"
    using smap_member [OF ex] example_of_Inr(5,6) by meson
  moreover have "\<forall>b \<in> set (ev_share_boundaries ev). \<exists>r \<in> set ?clean. sb_injection_id b = ev_injection_id r"
    using share_boundaries_gate [OF bs] b by blast
  ultimately show ?thesis
    unfolding Let_def n by (simp add: excluded_gate_iff conj_commute) blast
qed

section \<open>Replay without rounding\<close>

text \<open>Where no operation rounds, the linear form the learner trains on is the scorer's blend of the features
  plus the baseline bias, so an example replayed with the values that served it has the recorded score.\<close>

lemma fdot_scaled:
  assumes "fl64 \<epsilon> = (\<lambda>x. x)"
  shows "fdot \<epsilon> ws (map (fmul \<epsilon> s) fs) = s * fdot \<epsilon> ws fs"
proof -
  have "sum_list (map2 (fmul \<epsilon>) ws (map (fmul \<epsilon> s) fs)) = s * sum_list (map2 (fmul \<epsilon>) ws fs)"
    by (induction ws fs rule: list_induct2') (simp_all add: fmul_def assms algebra_simps)
  then show ?thesis by (simp add: fdot_def fsum_def assms)
qed

lemma example_score_exact:
  assumes "fl64 \<epsilon> = (\<lambda>x. x)"
  shows "example_score \<epsilon> e weights tw ww =
    blend_optional \<epsilon> ww (le_where_feature e)
      (blend_optional \<epsilon> tw (le_thread_feature e)
        (blend_optional \<epsilon> (le_location_weight e) (le_location_feature e) (fdot \<epsilon> weights (le_features e)))) +
    le_baseline_bias e"
  by (cases "le_location_feature e"; cases "le_thread_feature e"; cases "le_where_feature e")
     (simp_all add: example_score_def linearized_def fdot_scaled [OF assms] fadd_def fsub_def fmul_def [of \<epsilon>]
        blend_optional_def blend_def assms algebra_simps)

lemma replay_reproduces:
  assumes exact: "fl64 \<epsilon> = (\<lambda>x. x)" and ex: "example_of \<epsilon> configs row labeled = Inr e"
    and "map_of configs (ev_scorer_version row) = Some source" "cfg_axes source = []"
    "weights_for_project \<epsilon> source (ev_project_key row) = Inr ws"
  shows "example_score \<epsilon> e (weight_values ws) (sp_thread_weight (cfg_params source)) (sp_where_weight (cfg_params source)) +
    bias_offset source (ev_memory_id row) = ev_score row"
  using assms(2-) unfolding example_score_exact [OF exact]
  by (auto simp: example_of_def Let_def localized_score_def apply_axes_def fsub_def exact)

section \<open>Examples\<close>

definition sample_row :: "string \<Rightarrow> uuid \<Rightarrow> string \<Rightarrow> injection_event" where
  "sample_row uid gate prin = \<lparr>ev_id = 1, ev_event_uid = uid, ev_injection_id = gate, ev_thread_id = 9,
     ev_agent_id = ''a'', ev_machine_id = ''laptop'', ev_principal_id = prin, ev_project_key = None,
     ev_agent_kind = ''k'', ev_prompt_text = ''p'', ev_scorer_version = ''v1'', ev_memory_id = 11,
     ev_memory_kind = Fact,
     ev_features = [(''sem'', JFloat (1/2)), (''kw'', JInt 0), (''time'', JInt 1), (''proj'', JFloat (1/2)),
       (''freq'', JInt 0), (''hist'', JInt 1), (''_memory'', JObj [(''body'', JStr ''text'')]),
       (''_prepare'', JObj [(''model_context_tokens'', JInt 1000)])],
     ev_score = 1/2, ev_rank = 1, ev_shown_as = Injected, ev_actor_class = Passive, ev_outcome = Some Kept, ev_ts = 5\<rparr>"

definition sample_events :: "injection_event list" where
  "sample_events = [sample_row ''e1'' 1 ''owner'', sample_row ''e2'' 2 ''ci_test'']"

lemma sample_tainted:
  "tainted [] (sample_row ''e2'' g ''ci_test'')" "\<not> tainted [] (sample_row ''e1'' g ''owner'')"
proof -
  have "identity_is_excluded ''ci_test'' ''laptop''" "\<not> identity_is_excluded ''owner'' ''laptop''" by code_simp+
  then show "tainted [] (sample_row ''e2'' g ''ci_test'')" "\<not> tainted [] (sample_row ''e1'' g ''owner'')"
    by (simp_all add: tainted_def sample_row_def verification_only_def)
qed

lemma sample_example_of: "\<exists>e. example_of sample_env [(''v1'', sample_scorer)] (sample_row u g p) labeled = Inr e"
  by (simp add: example_of_def sbind_def sample_row_def row_features_def optional_feature_def weight_names_def dget_def
      unit_feature_def check_def weights_for_project_def body_tokens_def frozen_body_def nested_def Let_def)

lemma sample_share: "\<exists>bs. share_boundaries sample_env [(''v1'', sample_scorer)] d [sample_row u g p] = Inr bs"
  by (simp add: share_boundaries_def sbind_def grouped_def first_keys_def gate_boundaries_def context_tokens_def
      prepared_int_def List.map_filter_def nested_def dget_def sample_row_def body_tokens_def frozen_body_def Let_def
      pin_boundaries_def explicit_positive_weights_def explicit_positive_outcomes_def)

lemma sample_projection:
  "\<exists>ev. project_learning_evidence sample_env [(''v1'', sample_scorer)] (1/4) [] sample_events = Inr ev"
proof -
  have g: "ev_injection_id (sample_row u g p) = g" for u g p by (simp add: sample_row_def)
  have clean: "filter (\<lambda>r. \<not> excluded_gate [] sample_events (ev_injection_id r)) sample_events = [sample_row ''e1'' 1 ''owner'']"
    unfolding excluded_gate_iff by (simp add: sample_events_def g sample_tainted)
  obtain e bs where "example_of sample_env [(''v1'', sample_scorer)] (sample_row ''e1'' 1 ''owner'')
      (the (row_label (1/4) (sample_row ''e1'' 1 ''owner''))) = Inr e"
    "share_boundaries sample_env [(''v1'', sample_scorer)] (1/4) [sample_row ''e1'' 1 ''owner''] = Inr bs"
    using sample_example_of sample_share by blast
  then show ?thesis
    unfolding project_learning_evidence_def Let_def clean
    by (cases "row_label (1/4) (sample_row ''e1'' 1 ''owner'')") (simp_all add: sbind_def)
qed

theorem evidence_hygiene_witness:
  "\<exists>ev. project_learning_evidence sample_env [(''v1'', sample_scorer)] (1/4) [] sample_events = Inr ev \<and>
     map le_event_uid (ev_examples ev) = [''e1''] \<and> ev_hygiene_excluded ev = 1"
proof -
  obtain ev where ev: "project_learning_evidence sample_env [(''v1'', sample_scorer)] (1/4) [] sample_events = Inr ev"
    using sample_projection by blast
  have l: "row_label (1/4) (sample_row u g p) \<noteq> None" for u g p
    by (simp add: row_label_def sample_row_def disposition_def explicit_positive_outcomes_def negative_outcomes_def
        passive_positive_outcomes_def)
  have g: "ev_injection_id (sample_row u g p) = g" "ev_event_uid (sample_row u g p) = u" for u g p
    by (simp_all add: sample_row_def)
  note h = evidence_hygiene [OF ev, unfolded Let_def]
  have "map (\<lambda>e. (le_event_uid e, le_injection_id e, Some (le_target_injected e, le_actor_weight e))) (ev_examples ev) =
      [(''e1'', 1, row_label (1/4) (sample_row ''e1'' 1 ''owner''))]"
    using h [THEN conjunct1] l by (simp add: sample_events_def g sample_tainted)
  from arg_cong [OF this, of "map fst"] have "map le_event_uid (ev_examples ev) = [''e1'']" by (simp add: comp_def)
  moreover have "ev_hygiene_excluded ev = 1"
    using h [THEN conjunct2, THEN conjunct2, THEN conjunct2] l by (simp add: sample_events_def g sample_tainted)
  ultimately show ?thesis by (intro exI [of _ ev] conjI ev)
qed

end
