(* ===== verification/Corpus.thy ===== *)
theory Corpus
  imports Evidence
begin

text \<open>
  The corpus of an optimization run (\<open>_balanced_corpus\<close> of \<open>src/spine/learner/service.py\<close>): whole gates, taken
  in turn from every thread, from each thread alternately its newest and its oldest remaining gate, while they fit.
  \<open>dumps\<close> is Python's compact \<open>json.dumps\<close> with sorted keys (its first argument is \<open>ensure_ascii\<close>).
\<close>

type_synonym gate = "learning_example list"
type_synonym queues = "(string \<times> gate list) list"

record stratum =
  st_thread_id :: string
  st_available :: nat
  st_selected :: nat
  st_selected_gates :: nat

record optimization_corpus =
  bc_examples :: "learning_example list"
  bc_share_boundaries :: "share_boundary list"
  bc_fingerprint :: string
  bc_available :: nat
  bc_max_size :: nat
  bc_threads :: "stratum list"

section \<open>Gates by thread\<close>

definition thread_key :: "uuid option \<Rightarrow> string" where
  "thread_key t = (case t of None \<Rightarrow> ''not_recorded'' | Some i \<Rightarrow> uuid_str i)"

definition corpus_gate :: "nat \<Rightarrow> uuid \<times> learning_example list \<Rightarrow> err + string \<times> gate" where
  "corpus_gate max_size = (\<lambda>(injection, rows).
     sbind (check (card (set (map le_thread_id rows)) \<noteq> 1) (data_error ''crosses thread strata'')) (\<lambda>_.
     sbind (check (max_size < length rows) (data_error ''exceeds the optimization corpus maximum'')) (\<lambda>_.
     Inr (thread_key (le_thread_id (hd rows)), sort_key (\<lambda>e. (le_ts e, le_event_uid e)) rows))))"

text \<open>The alternation over a deque: from its right end, then from its left end, and so on.\<close>

function spread :: "bool \<Rightarrow> 'a list \<Rightarrow> 'a list" where
  "spread newest [] = []"
| "spread True (x # xs) = last (x # xs) # spread False (butlast (x # xs))"
| "spread False (x # xs) = x # spread True xs"
  by pat_completeness auto
termination by (relation "measure (length \<circ> snd)") auto

definition gate_age :: "gate \<Rightarrow> timestamp \<times> uuid" where
  "gate_age rows = (max_ts rows, le_injection_id (hd rows))"

definition corpus_queues :: "(string \<times> gate) list \<Rightarrow> queues" where
  "corpus_queues gates = map (\<lambda>(t, members). (t, spread True (sort_key gate_age (map snd members))))
     (sort_key fst (grouped fst gates))"

section \<open>Taking gates in turn\<close>

text \<open>One pass over the threads: the queues after it, what was taken, the room left. The pass stops when the
  room is used up.\<close>

fun rr_pass :: "nat \<Rightarrow> queues \<Rightarrow> queues \<times> (string \<times> gate) list \<times> nat" where
  "rr_pass room [] = ([], [], room)"
| "rr_pass room ((t, []) # qs) = (case rr_pass room qs of (qs', taken, r) \<Rightarrow> ((t, []) # qs', taken, r))"
| "rr_pass room ((t, g # q) # qs) =
     (if room < length g then (case rr_pass room qs of (qs', taken, r) \<Rightarrow> ((t, g # q) # qs', taken, r))
      else if room = length g then ((t, q) # qs, [(t, g)], 0)
      else case rr_pass (room - length g) qs of (qs', taken, r) \<Rightarrow> ((t, q) # qs', (t, g) # taken, r))"

definition queued :: "queues \<Rightarrow> (string \<times> gate) list" where
  "queued qs = concat (map (\<lambda>(t, q). map (Pair t) q) qs)"

lemma rr_pass_queued:
  "rr_pass room qs = (qs', taken, r) \<Longrightarrow>
     mset (queued qs) = mset taken + mset (queued qs') \<and> room = r + sum_list (map (length \<circ> snd) taken)"
  by (induction room qs arbitrary: qs' taken r rule: rr_pass.induct)
     (auto simp: queued_def split: if_splits prod.splits)

lemma rr_pass_shrinks:
  assumes "rr_pass room qs = (qs', taken, r)" "taken \<noteq> []"
  shows "length (queued qs') < length (queued qs)"
proof -
  have "mset (queued qs) = mset taken + mset (queued qs')" using rr_pass_queued [OF assms(1)] by simp
  from arg_cong [OF this, of size] show ?thesis using assms(2) by simp
qed

function rr_loop :: "nat \<Rightarrow> queues \<Rightarrow> (string \<times> gate) list \<times> queues \<times> nat" where
  "rr_loop room qs =
     (if room = 0 \<or> queued qs = [] then ([], qs, room)
      else case rr_pass room qs of (qs', taken, r) \<Rightarrow>
        if taken = [] then ([], qs', r)
        else case rr_loop r qs' of (later, qs'', r') \<Rightarrow> (taken @ later, qs'', r'))"
  by auto
termination
  by (relation "measure (\<lambda>(room, qs). length (queued qs))") (auto dest!: sym [of _ "rr_pass _ _"] rr_pass_shrinks)

declare rr_loop.simps [simp del]

section \<open>The corpus\<close>

definition example_order :: "learning_example \<Rightarrow> timestamp \<times> uuid \<times> string" where
  "example_order e = (le_ts e, le_injection_id e, le_event_uid e)"

definition stratum_of :: "(string \<times> gate) list \<Rightarrow> (string \<times> gate) list \<Rightarrow> string \<Rightarrow> stratum" where
  "stratum_of gates taken t =
     (let here = filter (\<lambda>(u, g). u = t) taken in
      \<lparr>st_thread_id = t, st_available = sum_list (map (length \<circ> snd) (filter (\<lambda>(u, g). u = t) gates)),
       st_selected = sum_list (map (length \<circ> snd) here), st_selected_gates = length here\<rparr>)"

definition corpus_fingerprint :: "env \<Rightarrow> (bool \<Rightarrow> json \<Rightarrow> string) \<Rightarrow> learning_example list \<Rightarrow> share_boundary list \<Rightarrow> string" where
  "corpus_fingerprint \<epsilon> dumps selected boundaries =
     sha256_hex \<epsilon> (dumps True (JObj [(''dispositions'', JList (map (\<lambda>e. JStr (le_event_uid e)) selected)),
       (''share_boundaries'', JList (map JStr (sort (map sb_event_uid boundaries))))]))"

definition balanced_corpus :: "env \<Rightarrow> (bool \<Rightarrow> json \<Rightarrow> string) \<Rightarrow> nat \<Rightarrow> learning_example list \<Rightarrow> share_boundary list \<Rightarrow>
    err + optimization_corpus" where
  "balanced_corpus \<epsilon> dumps max_size examples boundaries =
     sbind (smap (corpus_gate max_size) (grouped le_injection_id examples)) (\<lambda>gates.
     let (taken, _, _) = rr_loop max_size (corpus_queues gates);
         selected = sort_key example_order (concat (map snd taken));
         kept = filter (\<lambda>b. sb_injection_id b \<in> set (map le_injection_id selected)) boundaries
     in Inr \<lparr>bc_examples = selected, bc_share_boundaries = kept,
          bc_fingerprint = corpus_fingerprint \<epsilon> dumps selected kept, bc_available = length examples,
          bc_max_size = max_size, bc_threads = map (stratum_of gates taken) (sort (first_keys fst gates))\<rparr>)"

section \<open>The round robin\<close>

lemma mset_spread [simp]: "mset (spread b xs) = mset xs"
proof (induction b xs rule: spread.induct)
  case (2 x xs)
  have "mset (x # xs) = mset (butlast (x # xs) @ [last (x # xs)])" by (subst append_butlast_last_id) simp_all
  with 2 show ?case by simp
qed simp_all

lemma rr_pass_stuck:
  "rr_pass room qs = (qs', [], r) \<Longrightarrow> qs' = qs \<and> r = room \<and> (\<forall>(t, q) \<in> set qs. q \<noteq> [] \<longrightarrow> room < length (hd q))"
  by (induction room qs arbitrary: qs' r rule: rr_pass.induct) (auto split: if_splits prod.splits)

lemma in_queued: "(t, g) \<in> set (queued qs) \<longleftrightarrow> (\<exists>q. (t, q) \<in> set qs \<and> g \<in> set q)"
  by (force simp: queued_def)

lemma queue_heads:
  assumes "\<forall>(t, q) \<in> set qs. q \<noteq> [] \<longrightarrow> room < length (hd q)" "(t, g) \<in> set (queued qs)"
  shows "\<exists>g'. (t, g') \<in> set (queued qs) \<and> room < length g'"
proof -
  from assms(2) obtain q where "(t, q) \<in> set qs" "g \<in> set q" by (auto simp: in_queued)
  with assms(1) show ?thesis by (intro exI [of _ "hd q"]) (auto simp: in_queued intro!: hd_in_set)
qed

text \<open>What the loop leaves behind: nothing is lost, the room is accounted for, and a thread with a gate left has
  one that does not fit.\<close>

lemma rr_loop_result:
  assumes "rr_loop room qs = (taken, qs', r)" "\<forall>(t, g) \<in> set (queued qs). g \<noteq> []"
  shows "mset (queued qs) = mset taken + mset (queued qs') \<and> room = r + sum_list (map (length \<circ> snd) taken) \<and>
    (\<forall>(t, g) \<in> set (queued qs'). \<exists>g'. (t, g') \<in> set (queued qs') \<and> r < length g')"
  using assms
proof (induction room qs arbitrary: taken qs' r rule: rr_loop.induct)
  case (1 room qs)
  show ?case
  proof (cases "room = 0 \<or> queued qs = []")
    case True
    with 1(2,3) show ?thesis by (subst (asm) rr_loop.simps) auto
  next
    case False
    obtain qs1 t1 r1 where p: "rr_pass room qs = (qs1, t1, r1)" by (metis prod_cases3)
    note q = rr_pass_queued [OF p]
    show ?thesis
    proof (cases "t1 = []")
      case True
      with 1(2) False p have "taken = []" "qs' = qs1" "r = r1" by (subst (asm) rr_loop.simps, simp)+
      moreover from p True have s: "qs1 = qs" "r1 = room" "\<forall>(t, q) \<in> set qs. q \<noteq> [] \<longrightarrow> room < length (hd q)"
        using rr_pass_stuck by blast+
      ultimately show ?thesis using queue_heads [OF s(3)] by auto
    next
      case False': False
      obtain t2 qs2 r2 where l: "rr_loop r1 qs1 = (t2, qs2, r2)" by (metis prod_cases3)
      with 1(2) False False' p have res: "taken = t1 @ t2" "qs' = qs2" "r = r2"
        by (subst (asm) rr_loop.simps, simp)+
      have "set (queued qs1) \<subseteq> set (queued qs)" using q by (metis mset_subset_eq_add_right set_mset_mono set_mset_mset)
      with 1(3) have "\<forall>(t, g) \<in> set (queued qs1). g \<noteq> []" by blast
      from 1(1) [OF False p [symmetric] refl False' l this] q show ?thesis by (simp add: res comp_def)
    qed
  qed
qed

section \<open>The gates of the corpus\<close>

definition gate_id :: "gate \<Rightarrow> uuid" where
  "gate_id g = le_injection_id (hd g)"

lemma corpus_gate_Inr:
  assumes "corpus_gate m (i, rows) = Inr (t, g)" "rows = filter (\<lambda>e. le_injection_id e = i) ex" "rows \<noteq> []"
  shows "gate_id g = i" "g \<noteq> []" "mset g = mset (filter (\<lambda>e. le_injection_id e = i) ex)" "length g \<le> m"
    "\<forall>e \<in> set g. thread_key (le_thread_id e) = t"
proof -
  have g: "g = sort_key (\<lambda>e. (le_ts e, le_event_uid e)) rows" "length rows \<le> m" "t = thread_key (le_thread_id (hd rows))"
    and one: "card (le_thread_id ` set rows) = 1"
    using assms(1) by (auto simp: corpus_gate_def)
  show ne: "g \<noteq> []" using g(1) assms(3) by (metis mset_sort mset_zero_iff)
  show m: "mset g = mset (filter (\<lambda>e. le_injection_id e = i) ex)" using g(1) assms(2) by simp
  have "set g = set rows" using g(1) by simp
  then show "gate_id g = i" using ne assms(2) hd_in_set [OF ne] by (auto simp: gate_id_def)
  show "length g \<le> m" using g by simp
  from one obtain x where "le_thread_id ` set rows = {x}" by (auto simp: card_1_singleton_iff)
  then have "\<forall>e \<in> set rows. le_thread_id e = le_thread_id (hd rows)" using assms(3) by (metis hd_in_set image_eqI singletonD)
  with \<open>set g = set rows\<close> g(3) show "\<forall>e \<in> set g. thread_key (le_thread_id e) = t" by simp
qed

lemma corpus_gates:
  assumes "smap (corpus_gate m) (grouped le_injection_id ex) = Inr gates"
  shows "map (gate_id \<circ> snd) gates = first_keys le_injection_id ex"
    "(t, g) \<in> set gates \<Longrightarrow> g \<noteq> [] \<and> mset g = mset (filter (\<lambda>e. le_injection_id e = gate_id g) ex) \<and> length g \<le> m \<and>
      (\<forall>e \<in> set g. thread_key (le_thread_id e) = t)"
proof -
  have gate: "gate_id g = i \<and> g \<noteq> [] \<and> mset g = mset (filter (\<lambda>e. le_injection_id e = i) ex) \<and> length g \<le> m \<and>
      (\<forall>e \<in> set g. thread_key (le_thread_id e) = t)"
    if "(i, rows) \<in> set (grouped le_injection_id ex)" "corpus_gate m (i, rows) = Inr (t, g)" for i rows t g
  proof -
    from that(1) have "rows = filter (\<lambda>e. le_injection_id e = i) ex" "rows \<noteq> []"
      by (auto simp: in_grouped filter_empty_conv)
    from corpus_gate_Inr [OF that(2) this] show ?thesis by simp
  qed
  have "map (gate_id \<circ> snd) gates = map fst (grouped le_injection_id ex)"
    by (rule smap_map [OF assms]) (use gate in fastforce)
  then show "map (gate_id \<circ> snd) gates = first_keys le_injection_id ex" by simp
  show "g \<noteq> [] \<and> mset g = mset (filter (\<lambda>e. le_injection_id e = gate_id g) ex) \<and> length g \<le> m \<and>
      (\<forall>e \<in> set g. thread_key (le_thread_id e) = t)" if "(t, g) \<in> set gates"
    using smap_member [OF assms that] gate by fastforce
qed

lemma queued_corpus_queues: "mset (queued (corpus_queues gates)) = mset gates"
proof -
  let ?gs = "sort_key fst (grouped fst gates)"
  have part: "mset (map (Pair t) (spread True (sort_key gate_age (map snd members)))) = mset members"
    if "(t, members) \<in> set ?gs" for t members
  proof -
    from that have "members = filter (\<lambda>x. fst x = t) gates" by (auto simp: in_grouped)
    then have same: "map (\<lambda>x. (t, snd x)) members = members" by (intro map_idI) auto
    have "mset (map (Pair t) (spread True (sort_key gate_age (map snd members)))) = image_mset (Pair t) (mset (map snd members))"
      by simp
    also have "\<dots> = mset (map (\<lambda>x. (t, snd x)) members)" by (simp add: multiset.map_comp comp_def)
    finally show ?thesis by (simp only: same)
  qed
  have "mset (queued (corpus_queues gates)) =
      sum_list (map (\<lambda>p. mset (map (Pair (fst p)) (spread True (sort_key gate_age (map snd (snd p)))))) ?gs)"
    unfolding queued_def corpus_queues_def case_prod_beta mset_concat map_map comp_def by simp
  also have "\<dots> = sum_list (map (\<lambda>p. mset (snd p)) ?gs)"
    by (rule arg_cong [of _ _ sum_list], rule map_cong) (use part in auto)
  also have "\<dots> = mset (concat (map snd ?gs))"
    by (simp add: mset_concat comp_def)
  also have "\<dots> = mset gates" by (rule mset_concat_groups [where f = fst]) simp
  finally show ?thesis .
qed


text \<open>Any part of the gates holds exactly the dispositions of the gates it touches.\<close>

lemma gates_part:
  assumes G: "\<And>g. g \<in> set G \<Longrightarrow> g \<noteq> [] \<and> mset g = mset (filter (\<lambda>e. le_injection_id e = gate_id g) ex)"
    and keys: "map gate_id G = first_keys le_injection_id ex" and parts: "mset G = mset T + mset R"
  shows "le_injection_id ` set (concat T) = gate_id ` set T"
    "mset (concat T) = filter_mset (\<lambda>e. le_injection_id e \<in> gate_id ` set T) (mset ex)"
    "gate_id ` set T \<inter> gate_id ` set R = {}" "gate_id ` set T \<union> gate_id ` set R = le_injection_id ` set ex"
proof -
  have sub: "set T \<subseteq> set G" "set R \<subseteq> set G" using parts by (metis mset_subset_eq_add_left mset_subset_eq_add_right set_mset_mono set_mset_mset)+
  have rows: "set g = {e \<in> set ex. le_injection_id e = gate_id g}" if "g \<in> set G" for g
    using G [OF that] by (metis mset_eq_setD set_filter)
  have ids: "le_injection_id ` set (concat X) = gate_id ` set X" if "set X \<subseteq> set G" for X
  proof (intro set_eqI iffI)
    fix i assume "i \<in> le_injection_id ` set (concat X)"
    then show "i \<in> gate_id ` set X" using that rows by fastforce
  next
    fix i assume "i \<in> gate_id ` set X"
    then obtain g where g: "g \<in> set X" "i = gate_id g" by blast
    then have "hd g \<in> set g" using that G by auto
    with g show "i \<in> le_injection_id ` set (concat X)" by (auto simp: gate_id_def)
  qed
  show "le_injection_id ` set (concat T) = gate_id ` set T" by (rule ids [OF sub(1)])
  have "mset (map gate_id G) = mset (map gate_id T @ map gate_id R)" using arg_cong [OF parts, of "image_mset gate_id"] by simp
  then have both: "distinct (map gate_id T @ map gate_id R)" "set (map gate_id T @ map gate_id R) = le_injection_id ` set ex"
    using keys mset_eq_imp_distinct_iff mset_eq_setD by (metis distinct_first_keys, metis set_first_keys)
  then show disj: "gate_id ` set T \<inter> gate_id ` set R = {}" and "gate_id ` set T \<union> gate_id ` set R = le_injection_id ` set ex"
    by auto
  have "mset (concat G) = mset (concat (map (\<lambda>k. filter (\<lambda>e. le_injection_id e = k) ex) (map gate_id G)))"
    unfolding mset_concat map_map comp_def by (rule arg_cong [of _ _ sum_list], rule map_cong) (use G in auto)
  also have "\<dots> = mset ex" unfolding keys by (rule mset_concat_filters) simp_all
  finally have all: "mset ex = mset (concat T) + mset (concat R)"
    using arg_cong [OF parts, of "\<lambda>M. \<Sum>\<^sub># (image_mset mset M)"] by (simp add: mset_concat sum_mset_sum_list flip: sum_mset_sum_list)
  have "filter_mset (\<lambda>e. le_injection_id e \<in> gate_id ` set T) (mset (concat T)) = mset (concat T)"
    unfolding mset_filter [symmetric] using ids [OF sub(1)] by (intro arg_cong [of _ _ mset]) (auto simp: filter_id_conv)
  moreover have "filter_mset (\<lambda>e. le_injection_id e \<in> gate_id ` set T) (mset (concat R)) = {#}"
    unfolding mset_filter [symmetric] using ids [OF sub(2)] disj by (auto simp: filter_empty_conv)
  ultimately show "mset (concat T) = filter_mset (\<lambda>e. le_injection_id e \<in> gate_id ` set T) (mset ex)"
    unfolding all by simp
qed

lemma disjoint_filters:
  "(\<And>x. x \<in> set xs \<Longrightarrow> \<not> (P x \<and> Q x)) \<Longrightarrow> length (filter P xs) + length (filter Q xs) \<le> length xs"
  by (induction xs) (auto intro: le_SucI)

text \<open>C36: The optimization corpus stays within its size, holds whole gates in order, and leaves room only when
  no thread could go on. When it succeeds: it has at most \<open>m\<close> dispositions, sorted by time, gate and identifier; it is
  exactly the dispositions of the gates it touches, with exactly their share boundaries; a corpus that could hold
  everything does; and for every disposition left out, its thread has a gate left out that is larger than the room left.\<close>

theorem corpus_sound:
  assumes "balanced_corpus \<epsilon> dumps m ex boundaries = Inr c"
  shows "length (bc_examples c) \<le> m \<and> sorted (map example_order (bc_examples c)) \<and>
    mset (bc_examples c) = filter_mset (\<lambda>e. le_injection_id e \<in> le_injection_id ` set (bc_examples c)) (mset ex) \<and>
    bc_share_boundaries c = filter (\<lambda>b. sb_injection_id b \<in> le_injection_id ` set (bc_examples c)) boundaries \<and>
    (length ex \<le> m \<longrightarrow> mset (bc_examples c) = mset ex) \<and>
    (\<forall>e \<in> set ex. le_injection_id e \<notin> le_injection_id ` set (bc_examples c) \<longrightarrow>
       (\<exists>e' \<in> set ex. thread_key (le_thread_id e') = thread_key (le_thread_id e) \<and>
          le_injection_id e' \<notin> le_injection_id ` set (bc_examples c) \<and>
          m < length (bc_examples c) + length (gate_of_example ex e')))"
proof -
  from assms obtain gates where gates: "smap (corpus_gate m) (grouped le_injection_id ex) = Inr gates"
    by (auto simp: balanced_corpus_def)
  obtain taken qs' r where loop: "rr_loop m (corpus_queues gates) = (taken, qs', r)" by (metis prod_cases3)
  define T R where "T = map snd taken" and "R = map snd (queued qs')"
  define S where "S = gate_id ` set T"
  note G = corpus_gates [OF gates]
  have "\<forall>(t, g) \<in> set (queued (corpus_queues gates)). g \<noteq> []"
    using G(2) mset_eq_setD [OF queued_corpus_queues [of gates]] by auto
  from rr_loop_result [OF loop this]
  have cut: "mset gates = mset taken + mset (queued qs')" and room: "m = r + sum_list (map (length \<circ> snd) taken)"
    and stuck: "\<forall>(t, g) \<in> set (queued qs'). \<exists>g'. (t, g') \<in> set (queued qs') \<and> r < length g'"
    by (simp_all add: queued_corpus_queues)
  have P: "le_injection_id ` set (concat T) = S" "mset (concat T) = filter_mset (\<lambda>e. le_injection_id e \<in> S) (mset ex)"
    "S \<inter> gate_id ` set R = {}" "S \<union> gate_id ` set R = le_injection_id ` set ex"
    unfolding S_def
    by (rule gates_part [where G = "map snd gates" and R = R];
        use G(1) G(2) arg_cong [OF cut, of "image_mset snd"] in \<open>auto simp: T_def R_def\<close>)+
  have sel: "bc_examples c = sort_key example_order (concat T)"
    "bc_share_boundaries c = filter (\<lambda>b. sb_injection_id b \<in> set (map le_injection_id (bc_examples c))) boundaries"
    using assms by (auto simp: balanced_corpus_def gates loop sbind_def Let_def T_def)
  have len: "m = r + length (bc_examples c)" using room by (simp add: sel T_def length_concat comp_def)
  have ids: "le_injection_id ` set (bc_examples c) = S" using P(1) by (simp add: sel(1))
  have whole: "mset (bc_examples c) = filter_mset (\<lambda>e. le_injection_id e \<in> S) (mset ex)" using P(2) by (simp add: sel(1))
  have left: "\<exists>e' \<in> set ex. thread_key (le_thread_id e') = thread_key (le_thread_id e) \<and> le_injection_id e' \<notin> S \<and>
      m < length (bc_examples c) + length (gate_of_example ex e')" if "e \<in> set ex" "le_injection_id e \<notin> S" for e
  proof -
    have member: "(t, g) \<in> set gates" if "(t, g) \<in> set (queued qs')" for t g
      using cut that by (metis mset_subset_eq_add_right mset_subset_eqD set_mset_mset)
    from that P(4) have "le_injection_id e \<in> gate_id ` set R" by auto
    then obtain t g where g: "(t, g) \<in> set (queued qs')" "gate_id g = le_injection_id e" by (auto simp: R_def)
    have "set g = set (filter (\<lambda>e. le_injection_id e = gate_id g) ex)"
      using G(2) [OF member [OF g(1)]] mset_eq_setD by blast
    then have "e \<in> set g" using g(2) that(1) by simp
    then have t: "thread_key (le_thread_id e) = t" using G(2) [OF member [OF g(1)]] by blast
    from stuck g(1) obtain g' where g': "(t, g') \<in> set (queued qs')" "r < length g'" by blast
    note h = G(2) [OF member [OF g'(1)]]
    have hd: "hd g' \<in> set g'" using h by simp
    moreover have "set g' = set (filter (\<lambda>e. le_injection_id e = gate_id g') ex)" "length g' = length (gate_of_example ex (hd g'))"
      using h mset_eq_setD size_mset by (metis, metis gate_id_def gate_of_example_def)
    moreover have "gate_id g' \<notin> S" using P(3) g'(1) by (force simp: R_def)
    ultimately show ?thesis
      using h t g'(2) len by (intro bexI [of _ "hd g'"]) (auto simp: gate_id_def)
  qed
  have "mset (bc_examples c) = mset ex" if "length ex \<le> m"
  proof -
    have "le_injection_id e \<in> S" if "e \<in> set ex" for e
    proof (rule ccontr)
      assume "le_injection_id e \<notin> S"
      from left [OF that this] obtain e' where e': "le_injection_id e' \<notin> S"
        "m < length (bc_examples c) + length (gate_of_example ex e')" by blast
      have "length (filter (\<lambda>x. le_injection_id x \<in> S) ex) + length (gate_of_example ex e') \<le> length ex"
        unfolding gate_of_example_def by (rule disjoint_filters) (use e'(1) in auto)
      moreover have "length (bc_examples c) = length (filter (\<lambda>x. le_injection_id x \<in> S) ex)"
        using arg_cong [OF whole, of size] by (simp flip: mset_filter)
      ultimately have "length (bc_examples c) + length (gate_of_example ex e') \<le> length ex" by simp
      with e'(2) \<open>length ex \<le> m\<close> show False by simp
    qed
    then show ?thesis unfolding whole mset_filter [symmetric] by (simp add: filter_id_conv)
  qed
  then show ?thesis using len whole left unfolding ids by (simp add: sel(2) ids) (simp add: sel(1))
qed

section \<open>A small corpus\<close>

lemma sample_thread [simp]: "le_thread_id (sample_example u g m ts t) = Some 9" "le_injection_id (sample_example u g m ts t) = g"
  by (simp_all add: sample_example_def)

lemma sample_corpus: "\<exists>c. balanced_corpus sample_env (\<lambda>_ _. []) 2 sample_examples [sample_boundary] = Inr c"
proof -
  have "\<exists>gates. smap (corpus_gate 2) (grouped le_injection_id sample_examples) = Inr gates"
    by (rule smap_total) (auto simp: sample_examples_def grouped_def first_keys_def corpus_gate_def sbind_def check_def)
  then show ?thesis by (auto simp: balanced_corpus_def sbind_def Let_def split: prod.splits)
qed

theorem corpus_sound_witness:
  "\<exists>c. balanced_corpus sample_env (\<lambda>_ _. []) 2 sample_examples [sample_boundary] = Inr c \<and>
     length (bc_examples c) \<le> 2 \<and> sorted (map example_order (bc_examples c))"
proof -
  obtain c where c: "balanced_corpus sample_env (\<lambda>_ _. []) 2 sample_examples [sample_boundary] = Inr c"
    using sample_corpus by blast
  from corpus_sound [OF c] show ?thesis by (intro exI [of _ c] conjI c) blast+
qed

end
