(* ===== verification/Spec2Isabelle.thy ===== *)
theory Spec2Isabelle
  imports Services Resolver Jobs Reconcile Transcripts Corpus
begin

text \<open>
  This development verifies Spine, the memory service of the Nocturne palace (\<open>src/src/spine\<close>, Python on PostgreSQL).

  \<^bold>\<open>The program.\<close> Spine keeps short memories for software agents. A memory is a head row with a chain of immutable
  revisions; heads are written by compare-and-swap on their revision. New knowledge enters through a consent queue, where
  a human or a passive policy decides on each card, or through a Symphony run, whose attempts stage memories until the run is
  resolved. Before a prompt is sent, \<open>prepare\<close> selects memories within a token budget, records one injection event per
  shown or withheld card and renders them; \<open>commit\<close> and \<open>feedback\<close> record what happened to each card and move the
  counters on its head. Beside this core stand the model policy, which picks a language model per thread from a catalog,
  the scheduled workflow jobs, and the spend ledger with its reconciliation against the broker.

  \<^bold>\<open>Layers.\<close> Every theory names the file it models in its opening text.
  \<^item> \<open>Prelude\<close>, \<open>Pystr\<close>, \<open>Ids\<close> (\<open>ids.py\<close>): JSON, Python strings, ULIDs, and actions, that is functions from a state
    to an error or a value and a new state, with \<open>atomic\<close> for transactions. The locale \<open>step_order\<close> proves once
    what holds across an action for any reflexive and transitive relation; it is interpreted for the invariants below.
  \<^item> \<open>Tables\<close>, \<open>Store\<close> (\<open>db/models.py\<close>): rows as records, tables as lists, each write with the primary keys, unique
    indexes, foreign keys, CHECK constraints and the curator trigger that PostgreSQL applies to it.
  \<^item> \<open>Heads\<close> (\<open>db/memory.py\<close>), \<open>Memory\<close> (\<open>memory/service.py\<close>), \<open>Queue\<close> (\<open>queue/service.py\<close>), \<open>Symphony\<close>
    (\<open>symphony/service.py\<close>): the life of a memory.
  \<^item> \<open>Scorer\<close> (\<open>inject/scorer.py\<close>, \<open>axes.py\<close>), \<open>Renderer\<close> (\<open>inject/renderer.py\<close>), \<open>Prepare\<close> (\<open>inject/service.py\<close>),
    \<open>Decisions\<close> (\<open>inject/decisions.py\<close>), \<open>Annotations\<close> (\<open>inject/annotations.py\<close>): the life of an injection.
  \<^item> \<open>Services\<close>: one request type over all of these, and the invariants of the database they share.
  \<^item> \<open>Decimal\<close>, \<open>Policy\<close>, \<open>Catalog\<close>, \<open>Resolver\<close> (\<open>model_policy.py\<close>): decimal arithmetic, the selection rules, the
    caching client (a locale \<open>catalog_loader\<close>, interpreted on the client) and the resolver as a step relation between
    awaits, so that interleaved calls are covered.
  \<^item> \<open>Jobs\<close> (\<open>jobs.py\<close>): saved recipes and their runs.
  \<^item> \<open>Spend\<close> (\<open>spend/service.py\<close>, \<open>contracts.py\<close>, \<open>views.py\<close>), \<open>Reconcile\<close> (\<open>spend/reconciliation.py\<close>): the ledger.
  \<^item> \<open>Transcripts\<close> (\<open>transcripts/service.py\<close>): the journals of conversations.

  \<^item> \<open>Learner\<close>, \<open>Evidence\<close>, \<open>Corpus\<close> (\<open>learner/model.py\<close>, \<open>evidence.py\<close>, \<open>_balanced_corpus\<close> of \<open>service.py\<close>): the fit of
    the scorer's values to what happened to recorded cards, the evidence it is trained on, and the choice of that evidence.
    The fit's loops are bounded by 10000 rounds in the code and so in the model.
  \<^bold>\<open>What is proved.\<close> For the database: over any sequence of requests, successful or not, every head keeps one gapless
  chain of revisions, active labels stay unique, a queue item is pending exactly until its one decision, and no row is
  lost: history tables only grow, and the rows of the others keep all but the fields the services write (\<open>append_only\<close>,
  \<open>service_history_safe\<close>); a failed request changes no table (\<open>failed_request_changes_nothing\<close>). For each
  operation: its effect on every branch and its replay, with the head writes, decisions, events and counters it makes. For the
  scorer: the selection is the greedy one within the budget, independent of the order of candidates. For the renderer: a block
  can be parsed back. For the model policy: the selections are optimal on the whole table, and a thread keeps its model
  under every interleaving and gets one after any history, with the catalog or without. For the jobs: at most one running run per job and one run per occurrence, over any history. For
  the ledger: receipts are appended exactly once, the table conserves what it sums, and the recorded drift is exact.

  \<^bold>\<open>Parameters.\<close> The record \<open>env\<close> holds what the services read from outside: the clock, random bits, generated UUIDs
  (indexed by a counter of readings in the state), the embedding call, PostgreSQL's full-text match and rank and its
  vector distance, the tokenizer, SHA-256, floating-point rounding and the axis validator. The catalog's HTTP answers,
  \<open>Decimal.log10\<close>, the cron library, the broker's answer and what \<open>jsonb\<close> gives back are arguments. A property that needs
  something of a parameter says so as a hypothesis, and its witness gives an instance.

  \<^bold>\<open>Bounds.\<close> Strings are the code points 0 to 255 without NUL, which PostgreSQL refuses; text is ordered by code point.
  Integers are unbounded as in Python, except for the 32-bit revision columns, whose overflow is an error. Loops are structural recursions, or
  have a termination proof; only the loop that looks for a free label has fuel, three more than there are heads, and
  \<open>approval_label_fresh\<close> shows that it never runs out. Requests run one after the other: the transactions lock the rows they change, and
  the advisory locks make them sequential; only the resolver, which awaits while holding no lock, is modelled with
  interleaving. A decimal is the number it denotes, so its printed scale is not modelled.

  \<^bold>\<open>Not modelled.\<close> The HTTP routers, authentication and application wiring; the timers around the view refresh and the
  reconciliation; connection handling, migrations and advisory locks, which only make the modelled transactions
  sequential. Of the learner, the service that stores receipts and proposals, \<open>canonical_digest\<close> (it hashes the JSON text
  of floating-point numbers) and the creation scoreboard, which is computed by database triggers. The curator runs a
  language model over HTTP and keeps what it reports; portability copies database tables to an archive; vitals and most of
  m2k are read models made of SQL statements and their wire formats; the two writes of m2k, a controlled scorer
  configuration and the activation of a proposal, rest on them and are left out too. Metrics, scripts and the billing breaker are tools
  outside the service.
\<close>

section \<open>Properties of the services together\<close>

text \<open>C39: Whatever requests arrive, in whatever order, and whether they succeed or fail: starting from an
  empty or any consistent database, every head keeps one gapless chain of revisions ending in its text, active labels
  stay unique per principal, and queue items are pending exactly until their one decision is recorded. No row of a
  table is lost: revisions, edges, decisions, curator verdicts and actions, run resolutions, annotations and
  scorer configurations stay as they are, new ones are appended; every injection event stays with all its fields but
  the outcome, which is never taken back to none; queue items stay with all fields but their state, and a decided one is
  never pending again; threads stay with all fields but their snapshot time, which is never unset; heads stay by
  identifier, in order, and every revision of their texts with them. Only the curator's trigger counters are free to change.\<close>

theorem service_history_safe:
  assumes "db_ok s"
  shows "db_ok (serve_all \<epsilon> c reqs s) \<and> append_only s (serve_all \<epsilon> c reqs s)"
proof -
  have "safe_step s (serve_all \<epsilon> c reqs s)"
    by (induction reqs arbitrary: s)
      (auto simp: serve_all_def safe.R_refl intro: safe.R_trans serve_safe)
  with assms show ?thesis by (simp add: safe_step_def)
qed

text \<open>C40: A request that is answered with an error has changed no table, unless it is one of the
  four that run several transactions (extraction, seed documents and curator cards, which keep what they finished, and the
  resolution of a run, which commits before it reads its answer).\<close>

theorem failed_request_changes_nothing:
  assumes "serve \<epsilon> c req s = (Some e, t)" "\<not> many_transactions req"
  shows "same_tables s t"
proof -
  have tx: "tables.aborts (backfill_projects \<epsilon> p ps)" "tables.aborts (queue_feedback \<epsilon> i f m)" "tables.aborts (commit \<epsilon> cc)"
    "tables.aborts (feedback \<epsilon> fc)" for p ps i f m cc fc
    unfolding backfill_projects_def queue_feedback_def commit_def feedback_def by (rule transaction_aborts)+
  have reads: "tables.aborts (search \<epsilon> q)" "tables.aborts (preview_scores \<epsilon> pc ids)" for q pc ids
    unfolding search_def preview_scores_def
    by (intro tables.aborts_rules tables.steps_rules tables_parts transaction_aborts tables.aborts_steps)+
  show ?thesis
    using assms by (cases req)
      (auto dest!: answer_aborts [rotated] intro: create_aborts split_aborts patch_aborts stage_run_aborts annotate_aborts decide_aborts
        decide_batch_aborts prepare_aborts tx reads)
qed

theorem service_history_safe_witness:
  "db_ok (serve_all sample_env sample_config [Create sample_command, Prepare (sample_prepare Gate), Commit sample_commit] empty_db)"
  using service_history_safe [OF db_ok_empty, of sample_env sample_config
    "[Create sample_command, Prepare (sample_prepare Gate), Commit sample_commit]"] by simp

theorem failed_request_changes_nothing_witness:
  "\<exists>t. serve sample_env sample_config (Commit sample_commit) empty_db = (Some InjectionNotFound, t) \<and> same_tables empty_db t"
proof -
  have "\<exists>t. serve sample_env sample_config (Commit sample_commit) empty_db = (Some InjectionNotFound, t)"
    by (simp add: answer_def commit_def load_batch_def sample_commit_def store_run)
  then obtain t where "serve sample_env sample_config (Commit sample_commit) empty_db = (Some InjectionNotFound, t)" ..
  with failed_request_changes_nothing [OF this] show ?thesis by simp
qed

end
